(* ===== verification/Prelude.thy ===== *)
theory Prelude
  imports Complex_Main "HOL-Library.AList" "HOL-Library.Product_Lexorder" "HOL-Library.Multiset"
begin

text \<open>
  What the component theories share: the reading of Python's values (strings as character
  lists, \<open>float\<close> as exact rationals, \<open>dict\<close> as insertion-ordered association lists), the few
  string and sequence functions of the standard library the source calls, and the generic
  lemmas about them. \<open>pyfloat\<close> stands for the finite floats, without rounding; NaN and the
  infinities are outside the model.
\<close>

named_theorems py_simps \<open>defining equations of the modelled standard library functions\<close>

type_synonym pystr = string
type_synonym pyfloat = rat

section \<open>Strings\<close>

definition lower_char :: "char \<Rightarrow> char" where
  "lower_char c = (let n = (of_char c :: nat)
                   in if 65 \<le> n \<and> n \<le> 90 then char_of (n + 32) else c)"

definition py_lower :: "pystr \<Rightarrow> pystr" where
  "py_lower s = map lower_char s"

definition is_space :: "char \<Rightarrow> bool" where
  "is_space c = (let n = (of_char c :: nat) in n = 32 \<or> (9 \<le> n \<and> n \<le> 13))"

definition py_strip :: "pystr \<Rightarrow> pystr" where
  "py_strip s = rev (dropWhile is_space (rev (dropWhile is_space s)))"

fun py_startswith :: "pystr \<Rightarrow> pystr \<Rightarrow> bool" where
  "py_startswith s [] = True"
| "py_startswith [] (p # ps) = False"
| "py_startswith (c # s) (p # ps) = (c = p \<and> py_startswith s ps)"

text \<open>Python's \<open>needle in text\<close>.\<close>

fun py_contains :: "pystr \<Rightarrow> pystr \<Rightarrow> bool" where
  "py_contains [] needle = (needle = [])"
| "py_contains (c # s) needle = (py_startswith (c # s) needle \<or> py_contains s needle)"

fun py_join :: "pystr \<Rightarrow> pystr list \<Rightarrow> pystr" where
  "py_join sep [] = []"
| "py_join sep [s] = s"
| "py_join sep (s # t # ss) = s @ sep @ py_join sep (t # ss)"

text \<open>\<open>str(n)\<close> for a count.\<close>

fun str_nat :: "nat \<Rightarrow> pystr" where
  "str_nat n = (if n < 10 then [char_of (48 + n)]
                else str_nat (n div 10) @ [char_of (48 + n mod 10)])"

declare str_nat.simps [simp del]

text \<open>\<open>a or b\<close> on values that are falsy when empty or zero.\<close>

definition or_str :: "pystr \<Rightarrow> pystr \<Rightarrow> pystr" where
  "or_str a b = (if a = [] then b else a)"

definition or_num :: "pyfloat \<Rightarrow> pyfloat \<Rightarrow> pyfloat" where
  "or_num a b = (if a = 0 then b else a)"

lemma py_startswith_append [simp]: "py_startswith (p @ s) p"
  by (induction p) auto

lemma py_startswith_iff: "py_startswith s p \<longleftrightarrow> (\<exists>t. s = p @ t)"
  by (induction s p rule: py_startswith.induct) auto

lemma py_contains_iff: "py_contains s n \<longleftrightarrow> (\<exists>a b. s = a @ n @ b)"
proof (induction s)
  case Nil
  then show ?case by auto
next
  case (Cons c s)
  have "(\<exists>a b. c # s = a @ n @ b) \<longleftrightarrow> (\<exists>b. c # s = n @ b) \<or> (\<exists>a b. s = a @ n @ b)"
    by (metis append_Cons append_Nil neq_Nil_conv list.inject)
  then show ?case by (simp add: Cons.IH py_startswith_iff)
qed

lemma str_nat_nonempty [simp]: "str_nat n \<noteq> []" "[] \<noteq> str_nat n"
  by (subst str_nat.simps, simp)+

lemma digit_inject: "a < 10 \<Longrightarrow> b < 10 \<Longrightarrow>
    (char_of (48 + a) :: char) = char_of (48 + b) \<Longrightarrow> a = (b :: nat)"
proof -
  assume ab: "a < 10" "b < 10" "(char_of (48 + a) :: char) = char_of (48 + b)"
  then have "(of_char (char_of (48 + a) :: char) :: nat) = of_char (char_of (48 + b) :: char)" by simp
  then have "(48 + a) mod 256 = (48 + b) mod 256" by (simp only: of_char_of)
  then show "a = b" using ab(1,2) by simp
qed

lemma str_nat_inject: "str_nat m = str_nat n \<Longrightarrow> m = n"
proof (induction m arbitrary: n rule: str_nat.induct)
  case (1 m)
  have small: "str_nat k = [char_of (48 + k)]" if "k < 10" for k
    using that by (subst str_nat.simps) simp
  have big: "str_nat k = str_nat (k div 10) @ [char_of (48 + k mod 10)]" if "\<not> k < 10" for k
    using that by (subst str_nat.simps) simp
  show ?case
  proof (cases "m < 10"; cases "n < 10")
    assume "m < 10" "n < 10"
    then show ?thesis using "1.prems" digit_inject by (simp add: small)
  next
    assume "m < 10" "\<not> n < 10"
    then show ?thesis using "1.prems" by (simp add: small big)
  next
    assume "\<not> m < 10" "n < 10"
    then show ?thesis using "1.prems" by (simp add: small big)
  next
    assume mn: "\<not> m < 10" "\<not> n < 10"
    then have "str_nat (m div 10) = str_nat (n div 10)"
      and c: "(char_of (48 + m mod 10) :: char) = char_of (48 + n mod 10)"
      using "1.prems" by (simp_all add: big)
    then have "m div 10 = n div 10" using "1.IH" mn(1) by blast
    moreover have "m mod 10 = n mod 10" by (rule digit_inject [OF _ _ c]) simp_all
    ultimately show ?thesis by (metis div_mult_mod_eq)
  qed
qed

lemma str_nat_inject_iff [simp]: "str_nat m = str_nat n \<longleftrightarrow> m = n"
  using str_nat_inject by auto

lemma py_join_empty_iff:
  "sep \<noteq> [] \<Longrightarrow> py_join sep ss = [] \<longleftrightarrow> ss = [] \<or> ss = [[]]"
  by (induction sep ss rule: py_join.induct) auto

section \<open>Sequences\<close>

text \<open>\<open>max(xs, key=f)\<close>: the first element of the largest key; defined for non-empty lists.\<close>

fun max_by :: "('a \<Rightarrow> 'k::linorder) \<Rightarrow> 'a list \<Rightarrow> 'a option" where
  "max_by f [] = None"
| "max_by f (x # xs) = (case max_by f xs of
     None \<Rightarrow> Some x
   | Some y \<Rightarrow> if f x \<ge> f y then Some x else Some y)"

lemma max_by_None_iff [simp]: "max_by f xs = None \<longleftrightarrow> xs = []"
  by (cases xs) (auto split: option.splits)

lemma max_by_mem: "max_by f xs = Some y \<Longrightarrow> y \<in> set xs"
  by (induction xs arbitrary: y) (auto split: option.splits if_splits)

lemma max_by_ge: "max_by f xs = Some y \<Longrightarrow> x \<in> set xs \<Longrightarrow> f x \<le> f y"
proof (induction xs arbitrary: y)
  case Nil
  then show ?case by simp
next
  case (Cons z zs)
  then show ?case
    by (cases "max_by f zs") (auto split: if_splits intro: order_trans)
qed

lemma max_by_Some: "xs \<noteq> [] \<Longrightarrow> \<exists>y. max_by f xs = Some y"
  by (cases "max_by f xs") auto

text \<open>\<open>xs[-n:]\<close>: the last \<open>n\<close> elements.\<close>

definition last_n :: "nat \<Rightarrow> 'a list \<Rightarrow> 'a list" where
  "last_n n xs = drop (length xs - n) xs"

lemma length_last_n [simp]: "length (last_n n xs) = min n (length xs)"
  by (simp add: last_n_def)

lemma set_last_n: "set (last_n n xs) \<subseteq> set xs"
  by (simp add: last_n_def set_drop_subset)

text \<open>Stable sorting by a key, \<open>xs.sort(key=f)\<close>, is the library's \<open>sort_key\<close>.\<close>

lemma hd_sort_key_le:
  assumes "x \<in> set xs"
  shows "f (hd (sort_key f xs)) \<le> f x"
proof -
  have "sort_key f xs \<noteq> []" using assms by (metis empty_iff empty_set set_sort)
  then obtain y ys where ys: "sort_key f xs = y # ys" by (cases "sort_key f xs") auto
  have "sorted (map f (y # ys))" using sorted_sort_key [of f xs] by (simp add: ys)
  moreover have "x \<in> set (y # ys)" using assms by (metis ys set_sort)
  ultimately have "f y \<le> f x" by auto
  then show ?thesis by (simp add: ys)
qed

lemma sort_key_filter_split:
  fixes f :: "'a \<Rightarrow> 'k::linorder"
  assumes "\<And>x y. x \<in> set xs \<Longrightarrow> y \<in> set xs \<Longrightarrow> P x \<Longrightarrow> \<not> P y \<Longrightarrow> f x < f y"
  shows "sort_key f xs = sort_key f (filter P xs) @ sort_key f (filter (\<lambda>x. \<not> P x) xs)"
  using assms
proof (induction xs)
  case Nil
  then show ?case by simp
next
  case (Cons a xs)
  have insR: "insort_key f a (us @ vs) = us @ insort_key f a vs"
    if "\<forall>u \<in> set us. f u < f a" for us vs
    using that by (induction us) auto
  have insL: "insort_key f a (us @ vs) = insort_key f a us @ vs"
    if "\<forall>v \<in> set vs. f a \<le> f v" for us vs
    using that by (induction us) (cases vs; auto)+
  have IH: "sort_key f xs = sort_key f (filter P xs) @ sort_key f (filter (\<lambda>x. \<not> P x) xs)"
    using Cons.prems by (intro Cons.IH) auto
  show ?case
  proof (cases "P a")
    case True
    then have "\<forall>v \<in> set (sort_key f (filter (\<lambda>x. \<not> P x) xs)). f a \<le> f v"
      using Cons.prems by (auto simp: less_imp_le)
    then show ?thesis using True by (simp add: IH insL)
  next
    case False
    then have "\<forall>u \<in> set (sort_key f (filter P xs)). f u < f a"
      using Cons.prems by auto
    then show ?thesis using False by (simp add: IH insR)
  qed
qed

section \<open>Dictionaries\<close>

text \<open>
  A \<open>dict\<close> whose order the code relies on is an association list with distinct keys:
  \<open>AList.update\<close> keeps the position of an existing key and appends a new one, as
  assignment to a key does; \<open>AList.delete\<close> is \<open>pop(key, None)\<close>.
\<close>

type_synonym ('k, 'v) dict = "('k \<times> 'v) list"

definition dict_ok :: "('k, 'v) dict \<Rightarrow> bool" where
  "dict_ok d = distinct (map fst d)"

definition dict_get :: "('k, 'v) dict \<Rightarrow> 'k \<Rightarrow> 'v \<Rightarrow> 'v" where
  "dict_get d k v = (case map_of d k of None \<Rightarrow> v | Some w \<Rightarrow> w)"

definition dict_set :: "('k, 'v) dict \<Rightarrow> 'k \<Rightarrow> 'v \<Rightarrow> ('k, 'v) dict" where
  "dict_set d k v = AList.update k v d"

definition dict_pop :: "('k, 'v) dict \<Rightarrow> 'k \<Rightarrow> ('k, 'v) dict" where
  "dict_pop d k = AList.delete k d"

lemma dict_ok_Nil [simp]: "dict_ok []"
  by (simp add: dict_ok_def)

lemma dict_ok_set [simp, intro]: "dict_ok d \<Longrightarrow> dict_ok (dict_set d k v)"
  by (simp add: dict_ok_def dict_set_def distinct_update)

lemma dict_ok_pop [simp, intro]: "dict_ok d \<Longrightarrow> dict_ok (dict_pop d k)"
  by (simp add: dict_ok_def dict_pop_def distinct_delete)

lemma map_of_dict_set [simp]: "map_of (dict_set d k v) = (map_of d)(k \<mapsto> v)"
  by (simp add: dict_set_def update_conv')

lemma map_of_dict_pop [simp]: "map_of (dict_pop d k) = (map_of d)(k := None)"
  by (simp add: dict_pop_def delete_conv')

lemma keys_dict_set: "fst ` set (dict_set d k v) = insert k (fst ` set d)"
  by (simp add: dict_set_def dom_update)

lemma dict_ok_filter [simp]: "dict_ok d \<Longrightarrow> dict_ok (filter P d)"
  unfolding dict_ok_def by (induction d) auto

lemma map_of_filter_ok:
  "dict_ok d \<Longrightarrow>
   map_of (filter P d) k = (case map_of d k of None \<Rightarrow> None | Some v \<Rightarrow> if P (k, v) then Some v else None)"
  unfolding dict_ok_def
proof (induction d)
  case Nil
  then show ?case by simp
next
  case (Cons a d)
  have "map_of d (fst a) = None" using Cons.prems by (auto simp: map_of_eq_None_iff)
  then show ?case using Cons by (cases a) (auto split: option.splits)
qed

lemmas dict_simps = dict_get_def map_of_filter_ok

lemmas [py_simps] = py_lower_def lower_char_def py_strip_def is_space_def or_str_def or_num_def
  Let_def last_n_def

end
