(* ===== verification/Exec_Models.thy ===== *)
theory Exec_Models
  imports Prelude
begin

text \<open>
  \<open>src/mycellm/execution/models.py\<close>: the plain data the planner, the coordinator, the queue
  and the scheduler share. Every dataclass is a record with the source's fields (prefixed by
  the class's initial, since record fields are global names here); \<open>Strategy\<close> and \<open>Role\<close> are
  datatypes. The f-strings keep their ASCII text; the arrow and the dash of the plan reasons are
  written \<open>->\<close> and \<open>--\<close>. \<open>Job.new_id\<close> hashes the clock and is not modelled: identifiers
  are given.
\<close>

datatype strategy = S_DIRECT | S_REPLICA | S_SWARM

fun strategy_value :: "strategy \<Rightarrow> pystr" where
  "strategy_value S_DIRECT = ''direct''"
| "strategy_value S_REPLICA = ''replica''"
| "strategy_value S_SWARM = ''swarm''"

datatype role = R_DIRECT | R_PROPOSER | R_SYNTHESIZER | R_CRITIC | R_VERIFIER | R_EMBED

fun role_value :: "role \<Rightarrow> pystr" where
  "role_value R_DIRECT = ''direct''"
| "role_value R_PROPOSER = ''proposer''"
| "role_value R_SYNTHESIZER = ''synthesizer''"
| "role_value R_CRITIC = ''critic''"
| "role_value R_VERIFIER = ''verifier''"
| "role_value R_EMBED = ''embed''"

record target =
  t_model :: pystr
  t_kind :: pystr
  t_peer_id :: pystr
  t_serving_group_id :: pystr
  t_network_ids :: "pystr list"
  t_tok_s :: pyfloat
  t_roles :: "pystr list"
  t_params_b :: pyfloat

definition target_can :: "target \<Rightarrow> pystr \<Rightarrow> bool" where
  "target_can t r = (if t_roles t = [] then r = ''direct'' else r \<in> set (t_roles t))"

definition is_remote :: "target \<Rightarrow> bool" where
  "is_remote t = (t_kind t \<noteq> ''local'')"

definition target_str :: "target \<Rightarrow> pystr" where
  "target_str t =
     (if t_kind t = ''local'' then ''local:'' @ t_model t
      else if t_kind t = ''group'' then
        ''group:'' @ or_str (t_serving_group_id t) ''external'' @ '':'' @ t_model t
      else ''peer:'' @ take 8 (t_peer_id t) @ '':'' @ t_model t)"

text \<open>
  A message's \<open>content\<close> is a string, a list of content parts (dicts, or anything else, which
  the code skips) or something else. Of a part only its \<open>text\<close> entry is read; \<open>None\<close> stands
  for a missing entry.
\<close>

datatype part = PDict "pystr option" | PNotDict

datatype content = CText pystr | CParts "part list" | COther

record message =
  m_role :: pystr
  m_content :: content

fun part_text :: "part \<Rightarrow> pystr list" where
  "part_text (PDict t) = [case t of None \<Rightarrow> [] | Some s \<Rightarrow> s]"
| "part_text PNotDict = []"

fun content_parts :: "content \<Rightarrow> pystr list" where
  "content_parts (CText s) = [s]"
| "content_parts (CParts ps) = concat (map part_text ps)"
| "content_parts COther = []"

record work_unit =
  u_id :: pystr
  u_role :: role
  u_target :: target
  u_messages :: "message list"
  u_temperature :: pyfloat
  u_max_tokens :: int
  u_depends_on :: "pystr list"

record unit_result =
  r_unit_id :: pystr
  r_role :: role
  r_target :: target
  r_text :: pystr
  r_error :: pystr
  r_prompt_tokens :: int
  r_completion_tokens :: int
  r_elapsed_s :: pyfloat
  r_cancelled :: bool

definition result_ok :: "unit_result \<Rightarrow> bool" where
  "result_ok r = (r_text r \<noteq> [] \<and> r_error r = [] \<and> \<not> r_cancelled r)"

record job =
  j_id :: pystr
  j_model :: pystr
  j_messages :: "message list"
  j_temperature :: pyfloat
  j_max_tokens :: int
  j_network_ids :: "pystr list option"
  j_token_budget :: int
  j_trust :: pystr
  j_fanout :: int

definition prompt_text :: "job \<Rightarrow> pystr" where
  "prompt_text j =
     py_join '' '' (filter (\<lambda>p. p \<noteq> []) (concat (map (content_parts \<circ> m_content) (j_messages j))))"

record execution_plan =
  p_job_id :: pystr
  p_strategy :: strategy
  p_units :: "work_unit list"
  p_reasons :: "pystr list"
  p_rejected :: "(pystr \<times> pystr) list"
  p_token_budget :: int

definition plan_proposers :: "execution_plan \<Rightarrow> work_unit list" where
  "plan_proposers p = filter (\<lambda>u. u_role u = R_PROPOSER) (p_units p)"

definition plan_synthesizer :: "execution_plan \<Rightarrow> work_unit option" where
  "plan_synthesizer p = find (\<lambda>u. u_role u = R_SYNTHESIZER) (p_units p)"

text \<open>\<open>ExecutionPlan.to_dict\<close>: the debug shape, one record per nested dict.\<close>

record unit_doc =
  ud_unit_id :: pystr
  ud_role :: pystr
  ud_target :: pystr
  ud_model :: pystr
  ud_depends_on :: "pystr list"

record plan_doc =
  pd_job_id :: pystr
  pd_strategy :: pystr
  pd_reasons :: "pystr list"
  pd_rejected :: "(pystr \<times> pystr) list"
  pd_token_budget :: int
  pd_units :: "unit_doc list"

definition plan_to_dict :: "execution_plan \<Rightarrow> plan_doc" where
  "plan_to_dict p =
     \<lparr>pd_job_id = p_job_id p, pd_strategy = strategy_value (p_strategy p),
      pd_reasons = p_reasons p, pd_rejected = p_rejected p,
      pd_token_budget = p_token_budget p,
      pd_units = map (\<lambda>u. \<lparr>ud_unit_id = u_id u, ud_role = role_value (u_role u),
        ud_target = target_str (u_target u), ud_model = t_model (u_target u),
        ud_depends_on = u_depends_on u\<rparr>) (p_units p)\<rparr>"

lemma role_value_inject [simp]: "role_value a = role_value b \<longleftrightarrow> a = b"
  by (cases a; cases b) simp_all

lemma plan_proposersD: "u \<in> set (plan_proposers p) \<Longrightarrow> u \<in> set (p_units p) \<and> u_role u = R_PROPOSER"
  by (simp add: plan_proposers_def)

lemma plan_synthesizerD:
  "plan_synthesizer p = Some u \<Longrightarrow> u \<in> set (p_units p) \<and> u_role u = R_SYNTHESIZER"
  unfolding plan_synthesizer_def by (auto simp: find_Some_iff in_set_conv_nth)

text \<open>
  Everything a message says reaches the scanner: a non-empty text of any message, system prompts
  included, occurs in \<open>prompt_text\<close>.
\<close>

lemma py_contains_join: "s \<in> set ss \<Longrightarrow> py_contains (py_join sep ss) s"
proof (induction sep ss rule: py_join.induct)
  case (1 sep)
  then show ?case by simp
next
  case (2 sep t)
  then show ?case by (auto simp: py_contains_iff intro: exI [of _ "[]"])
next
  case (3 sep t u ss)
  show ?case
  proof (cases "s = t")
    case True
    then have "py_join sep (t # u # ss) = [] @ s @ (sep @ py_join sep (u # ss))" by simp
    then show ?thesis unfolding py_contains_iff by blast
  next
    case False
    with 3 have "py_contains (py_join sep (u # ss)) s" by simp
    then obtain a b where "py_join sep (u # ss) = a @ s @ b" by (auto simp: py_contains_iff)
    then have "py_join sep (t # u # ss) = (t @ sep @ a) @ s @ b" by simp
    then show ?thesis unfolding py_contains_iff by blast
  qed
qed

lemma prompt_text_contains:
  assumes "m \<in> set (j_messages j)" "s \<in> set (content_parts (m_content m))" "s \<noteq> []"
  shows "py_contains (prompt_text j) s"
  unfolding prompt_text_def using assms by (intro py_contains_join) auto

end
