(* ===== verification/Egress_Policy.thy ===== *)
theory Egress_Policy
  imports Exec_Models
begin

text \<open>
  \<open>src/mycellm/privacy.py\<close> (the scanner) and \<open>src/mycellm/execution/policy.py\<close> (the gate).
  The compiled regular expressions are a parameter: \<open>rx label text\<close> gives the spans
  \<open>(start, end)\<close> that \<open>finditer\<close> of the pattern with that label reports on the text. Everything
  the code does with the spans (context exclusion, redaction, severity, action per trust level)
  is modelled, as is the per-job cache of scans.
\<close>

section \<open>The scanner\<close>

type_synonym regex_engine = "pystr \<Rightarrow> pystr \<Rightarrow> (nat \<times> nat) list"

record sensitive_match =
  sm_type :: pystr
  sm_label :: pystr
  sm_pattern :: pystr
  sm_severity :: pystr

text \<open>The table of patterns: type, label and severity, in the source's order.\<close>

definition pattern_table :: "(pystr \<times> pystr \<times> pystr) list" where
  "pattern_table =
    [(''api_key'', ''OpenAI API key'', ''high''),
     (''api_key'', ''OpenRouter API key'', ''high''),
     (''api_key'', ''GitHub token'', ''high''),
     (''api_key'', ''AWS access key'', ''high''),
     (''api_key'', ''Slack token'', ''high''),
     (''api_key'', ''Anthropic API key'', ''high''),
     (''api_key'', ''HuggingFace token'', ''high''),
     (''api_key'', ''Generic secret key'', ''medium''),
     (''private_key'', ''Private key block'', ''high''),
     (''password'', ''Password in context'', ''medium''),
     (''password'', ''Credentials mention'', ''medium''),
     (''credit_card'', ''Credit card number'', ''high''),
     (''ssn'', ''Social Security Number'', ''high''),
     (''connection_string'', ''Database connection string'', ''high''),
     (''api_key'', ''Stripe key'', ''high''),
     (''api_key'', ''Google API key'', ''high''),
     (''jwt'', ''JSON Web Token'', ''high''),
     (''pii'', ''Email address'', ''medium''),
     (''pii'', ''Phone number'', ''medium''),
     (''pii'', ''Private IP address'', ''medium'')]"

definition context_exclusions :: "pystr list" where
  "context_exclusions =
     [''example'', ''sample'', ''placeholder'', ''dummy'', ''test'', ''fake'', ''demo'']"

text \<open>\<open>text[a:b]\<close> with \<open>0 <= a\<close>.\<close>

definition slice :: "pystr \<Rightarrow> nat \<Rightarrow> nat \<Rightarrow> pystr" where
  "slice s a b = drop a (take b s)"

definition redact :: "pystr \<Rightarrow> pystr" where
  "redact s = (if length s > 10 then take 4 s @ ''...'' @ last_n 2 s else take 3 s @ ''...'')"

definition excluded_context :: "pystr \<Rightarrow> nat \<Rightarrow> bool" where
  "excluded_context s start =
     list_ex (py_contains (py_lower (slice s (start - 30) start))) context_exclusions"

definition scan_pattern :: "regex_engine \<Rightarrow> pystr \<Rightarrow> pystr \<times> pystr \<times> pystr \<Rightarrow> sensitive_match list" where
  "scan_pattern rx s = (\<lambda>(ty, label, sev).
     map (\<lambda>(a, b). \<lparr>sm_type = ty, sm_label = label, sm_pattern = redact (slice s a b),
                    sm_severity = sev\<rparr>)
       (filter (\<lambda>(a, b). \<not> excluded_context s a) (rx label s)))"

definition scan_sensitive :: "regex_engine \<Rightarrow> pystr \<Rightarrow> sensitive_match list" where
  "scan_sensitive rx s = concat (map (scan_pattern rx s) pattern_table)"

record scan_result =
  sr_matches :: "sensitive_match list"
  sr_action :: pystr
  sr_highest :: pystr

definition highest_severity :: "sensitive_match list \<Rightarrow> pystr" where
  "highest_severity ms =
     (if list_ex (\<lambda>m. sm_severity m = ''high'') ms then ''high''
      else if list_ex (\<lambda>m. sm_severity m = ''medium'') ms then ''medium'' else ''low'')"

definition scan_with_policy :: "regex_engine \<Rightarrow> pystr \<Rightarrow> pystr \<Rightarrow> scan_result" where
  "scan_with_policy rx s trust =
     (if trust = ''local'' \<or> trust = ''full''
      then \<lparr>sr_matches = [], sr_action = ''allow'', sr_highest = ''none''\<rparr>
      else let ms = scan_sensitive rx s in
        if ms = [] then \<lparr>sr_matches = [], sr_action = ''allow'', sr_highest = ''none''\<rparr>
        else let h = highest_severity ms;
                 act = (if trust = ''untrusted'' then
                          (if h = ''high'' then ''block'' else if h = ''medium'' then ''warn'' else ''allow'')
                        else if trust = ''trusted'' then (if h = ''high'' then ''warn'' else ''allow'')
                        else ''allow'')
             in \<lparr>sr_matches = ms, sr_action = act, sr_highest = h\<rparr>)"

section \<open>The gate\<close>

definition trust_order :: "pystr \<Rightarrow> nat option" where
  "trust_order s = map_of [(''untrusted'', 0), (''trusted'', 1), (''full'', 2), (''local'', 3)] s"

definition trust_for :: "target \<Rightarrow> pystr list option \<Rightarrow> pystr" where
  "trust_for t own =
     (if \<not> is_remote t then ''local''
      else case own of
        None \<Rightarrow> ''untrusted''
      | Some ns \<Rightarrow>
          if ns \<noteq> [] \<and> t_network_ids t \<noteq> [] \<and> set ns \<inter> set (t_network_ids t) \<noteq> {}
          then ''trusted'' else ''untrusted'')"

record egress_decision =
  e_allowed :: bool
  e_trust :: pystr
  e_reason :: pystr

record egress_policy =
  ep_prompt :: pystr
  ep_requested :: pystr
  ep_own_networks :: "pystr list option"
  ep_override :: bool
  ep_cache :: "(pystr, scan_result) dict"

definition new_policy :: "pystr \<Rightarrow> pystr \<Rightarrow> pystr list option \<Rightarrow> bool \<Rightarrow> egress_policy" where
  "new_policy prompt requested own override =
     \<lparr>ep_prompt = prompt, ep_requested = py_lower (py_strip requested),
      ep_own_networks = own, ep_override = override, ep_cache = []\<rparr>"

definition policy_scan :: "regex_engine \<Rightarrow> egress_policy \<Rightarrow> pystr \<Rightarrow> scan_result \<times> egress_policy" where
  "policy_scan rx p trust =
     (case map_of (ep_cache p) trust of
        Some r \<Rightarrow> (r, p)
      | None \<Rightarrow> let r = scan_with_policy rx (ep_prompt p) trust
               in (r, p\<lparr>ep_cache := dict_set (ep_cache p) trust r\<rparr>))"

text \<open>\<open>sorted({m.label for m in matches if m.severity == "high"})\<close>.\<close>

fun str_less_eq :: "pystr \<Rightarrow> pystr \<Rightarrow> bool" where
  "str_less_eq [] t = True"
| "str_less_eq (c # s) [] = False"
| "str_less_eq (c # s) (d # t) =
     (if (of_char c :: nat) < of_char d then True
      else if (of_char d :: nat) < of_char c then False else str_less_eq s t)"

fun insert_str :: "pystr \<Rightarrow> pystr list \<Rightarrow> pystr list" where
  "insert_str s [] = [s]"
| "insert_str s (t # ts) =
     (if s = t then t # ts else if str_less_eq s t then s # t # ts else t # insert_str s ts)"

definition sorted_set :: "pystr list \<Rightarrow> pystr list" where
  "sorted_set ss = foldr insert_str ss []"

definition blocked_labels :: "scan_result \<Rightarrow> pystr" where
  "blocked_labels r = or_str
     (py_join '', '' (sorted_set (map sm_label (filter (\<lambda>m. sm_severity m = ''high'') (sr_matches r)))))
     (sr_highest r)"

definition decide :: "regex_engine \<Rightarrow> egress_policy \<Rightarrow> target \<Rightarrow> egress_decision \<times> egress_policy" where
  "decide rx p t =
     (let trust = trust_for t (ep_own_networks p);
          below = (case (trust_order (ep_requested p), trust_order trust) of
                     (Some want, Some got) \<Rightarrow> got < want
                   | _ \<Rightarrow> False)
      in if below then
           (\<lparr>e_allowed = False, e_trust = trust,
             e_reason = ''caller requires trust>='' @ ep_requested p @ '', target is '' @ trust\<rparr>, p)
         else if trust = ''local'' then
           (\<lparr>e_allowed = True, e_trust = trust, e_reason = ''local execution''\<rparr>, p)
         else if ep_override p then
           (\<lparr>e_allowed = True, e_trust = trust, e_reason = ''privacy override acknowledged''\<rparr>, p)
         else let (r, p') = policy_scan rx p trust in
           if sr_action r = ''block'' then
             (\<lparr>e_allowed = False, e_trust = trust,
               e_reason = ''sensitive data blocked for '' @ trust @ '' egress: '' @ blocked_labels r\<rparr>, p')
           else if sr_action r = ''warn'' then
             (\<lparr>e_allowed = True, e_trust = trust,
               e_reason = ''allowed with warning ('' @ sr_highest r @ '' severity)''\<rparr>, p')
           else (\<lparr>e_allowed = True, e_trust = trust, e_reason = trust @ '' egress permitted''\<rparr>, p'))"

text \<open>\<open>not any(...)\<close> stops at the first allowed target.\<close>

fun any_allowed :: "regex_engine \<Rightarrow> egress_policy \<Rightarrow> target list \<Rightarrow> bool \<times> egress_policy" where
  "any_allowed rx p [] = (False, p)"
| "any_allowed rx p (t # ts) =
     (let (d, p') = decide rx p t in if e_allowed d then (True, p') else any_allowed rx p' ts)"

definition blocked_everywhere :: "regex_engine \<Rightarrow> egress_policy \<Rightarrow> target list \<Rightarrow> bool \<times> egress_policy" where
  "blocked_everywhere rx p ts =
     (if ts = [] then (False, p)
      else let (b, p') = any_allowed rx p ts in (\<not> b, p'))"

section \<open>The gate without its cache\<close>

text \<open>
  The specification: what the decision for a target is, as a function of the prompt, the caller's
  ceiling, the membership and the override only.
\<close>

definition meets_ceiling :: "pystr \<Rightarrow> pystr \<Rightarrow> bool" where
  "meets_ceiling requested trust =
     (case (trust_order requested, trust_order trust) of
        (Some want, Some got) \<Rightarrow> want \<le> got
      | _ \<Rightarrow> True)"

definition scan_blocks :: "regex_engine \<Rightarrow> pystr \<Rightarrow> pystr \<Rightarrow> bool" where
  "scan_blocks rx prompt trust = (sr_action (scan_with_policy rx prompt trust) = ''block'')"

definition may_egress :: "regex_engine \<Rightarrow> egress_policy \<Rightarrow> target \<Rightarrow> bool" where
  "may_egress rx p t =
     (let trust = trust_for t (ep_own_networks p) in
      meets_ceiling (ep_requested p) trust \<and>
      (trust = ''local'' \<or> ep_override p \<or> \<not> scan_blocks rx (ep_prompt p) trust))"

text \<open>A cache is right when every entry is the scan it stands for.\<close>

definition cache_ok :: "regex_engine \<Rightarrow> egress_policy \<Rightarrow> bool" where
  "cache_ok rx p \<longleftrightarrow>
     (\<forall>trust r. map_of (ep_cache p) trust = Some r \<longrightarrow> r = scan_with_policy rx (ep_prompt p) trust)"

definition same_policy :: "egress_policy \<Rightarrow> egress_policy \<Rightarrow> bool" where
  "same_policy p q \<longleftrightarrow> ep_prompt p = ep_prompt q \<and> ep_requested p = ep_requested q
     \<and> ep_own_networks p = ep_own_networks q \<and> ep_override p = ep_override q"

lemma same_policy_refl [simp]: "same_policy p p"
  by (simp add: same_policy_def)

lemma same_policy_trans: "same_policy p q \<Longrightarrow> same_policy q r \<Longrightarrow> same_policy p r"
  by (simp add: same_policy_def)

lemma may_egress_cong: "same_policy p q \<Longrightarrow> may_egress rx p t = may_egress rx q t"
  by (simp add: same_policy_def may_egress_def Let_def)

lemma new_policy_cache_ok [simp, intro]: "cache_ok rx (new_policy prompt req own ov)"
  by (simp add: cache_ok_def new_policy_def)

lemma trust_for_cases: "trust_for t own \<in> {''local'', ''trusted'', ''untrusted''}"
  by (auto simp: trust_for_def split: option.splits)

lemma trust_for_local_iff [simp]: "trust_for t own = ''local'' \<longleftrightarrow> \<not> is_remote t"
  by (auto simp: trust_for_def split: option.splits)

lemma trust_for_trusted_iff:
  "trust_for t own = ''trusted'' \<longleftrightarrow>
     is_remote t \<and> (\<exists>ns n. own = Some ns \<and> n \<in> set ns \<and> n \<in> set (t_network_ids t))"
  by (auto simp: trust_for_def split: option.splits)

lemma policy_scan_spec:
  assumes "cache_ok rx p" "policy_scan rx p trust = (r, p')"
  shows "r = scan_with_policy rx (ep_prompt p) trust" "cache_ok rx p'" "same_policy p p'"
  using assms unfolding policy_scan_def cache_ok_def same_policy_def
  by (auto simp: Let_def split: option.splits if_splits)

lemma decide_state:
  assumes "cache_ok rx p" "decide rx p t = (d, p')"
  shows "cache_ok rx p'" "same_policy p p'"
  using assms unfolding decide_def
  by (auto simp: Let_def split: if_splits prod.splits option.splits dest: policy_scan_spec)

lemma decide_allowed_iff:
  assumes "cache_ok rx p" "decide rx p t = (d, p')"
  shows "e_allowed d \<longleftrightarrow> may_egress rx p t"
  using assms unfolding decide_def may_egress_def meets_ceiling_def scan_blocks_def
  by (auto simp: Let_def split: if_splits prod.splits option.splits dest!: policy_scan_spec(1) [OF assms(1)])

lemma decide_trust: "decide rx p t = (d, p') \<Longrightarrow> e_trust d = trust_for t (ep_own_networks p)"
  unfolding decide_def by (auto simp: Let_def split: if_splits prod.splits option.splits)

lemma any_allowed_iff:
  "cache_ok rx p \<Longrightarrow> fst (any_allowed rx p ts) \<longleftrightarrow> (\<exists>t \<in> set ts. may_egress rx p t)"
proof (induction ts arbitrary: p)
  case Nil
  then show ?case by simp
next
  case (Cons t ts)
  obtain d p' where d: "decide rx p t = (d, p')" by fastforce
  have "may_egress rx p' s = may_egress rx p s" for s
    using decide_state(2) [OF Cons.prems d] may_egress_cong by blast
  moreover have "fst (any_allowed rx p' ts) \<longleftrightarrow> (\<exists>t \<in> set ts. may_egress rx p' t)"
    using Cons.IH decide_state(1) [OF Cons.prems d] by blast
  ultimately show ?case using decide_allowed_iff [OF Cons.prems d] by (auto simp: d)
qed

text \<open>
  The decisions of a whole job, taken one after the other on the shared policy object, are the
  decisions of the specification: the cache never changes an answer.
\<close>

fun decide_all :: "regex_engine \<Rightarrow> egress_policy \<Rightarrow> target list \<Rightarrow> egress_decision list" where
  "decide_all rx p [] = []"
| "decide_all rx p (t # ts) = (let (d, p') = decide rx p t in d # decide_all rx p' ts)"

lemma decide_same_answer:
  assumes "cache_ok rx p" "cache_ok rx q" "same_policy p q"
  shows "fst (decide rx p t) = fst (decide rx q t)"
proof -
  have eq: "ep_prompt p = ep_prompt q" "ep_requested p = ep_requested q"
    "ep_own_networks p = ep_own_networks q" "ep_override p = ep_override q"
    using assms(3) by (simp_all add: same_policy_def)
  obtain r p' s q' where p: "policy_scan rx p (trust_for t (ep_own_networks p)) = (r, p')"
    and q: "policy_scan rx q (trust_for t (ep_own_networks p)) = (s, q')" by fastforce
  have rs: "s = r" using policy_scan_spec(1) [OF assms(1) p] policy_scan_spec(1) [OF assms(2) q] eq by simp
  show ?thesis unfolding decide_def using p q eq unfolding rs by (simp add: Let_def)
qed

lemma decide_all_uncached:
  assumes "cache_ok rx p"
  shows "decide_all rx p ts = map (\<lambda>t. fst (decide rx (p\<lparr>ep_cache := []\<rparr>) t)) ts"
  using assms
proof (induction ts arbitrary: p)
  case Nil
  then show ?case by simp
next
  case (Cons t ts)
  let ?e = "p\<lparr>ep_cache := []\<rparr>"
  have e: "cache_ok rx ?e" "same_policy p ?e" by (simp_all add: cache_ok_def same_policy_def)
  obtain d p' where d: "decide rx p t = (d, p')" by fastforce
  have p': "cache_ok rx p'" "same_policy p p'" using decide_state [OF Cons.prems d] by auto
  have "p'\<lparr>ep_cache := []\<rparr> = ?e" using p'(2) by (simp add: same_policy_def)
  then have "decide_all rx p' ts = map (\<lambda>t. fst (decide rx ?e t)) ts" using Cons.IH [OF p'(1)] by simp
  moreover have "d = fst (decide rx ?e t)" using decide_same_answer [OF Cons.prems e] d by (metis fst_conv)
  ultimately show ?case by (simp add: d)
qed

section \<open>What the scanner blocks\<close>

lemma highest_severity_high_iff:
  "highest_severity ms = ''high'' \<longleftrightarrow> (\<exists>m \<in> set ms. sm_severity m = ''high'')"
  by (auto simp: highest_severity_def list_ex_iff)

lemma scan_blocks_iff:
  "scan_blocks rx s trust \<longleftrightarrow>
     trust = ''untrusted'' \<and> (\<exists>m \<in> set (scan_sensitive rx s). sm_severity m = ''high'')"
  unfolding scan_blocks_def scan_with_policy_def Let_def
  by (auto simp: highest_severity_high_iff)

lemma scan_sensitive_mem_iff:
  "(\<exists>m \<in> set (scan_sensitive rx s). sm_severity m = sev) \<longleftrightarrow>
     (\<exists>ty label a b. (ty, label, sev) \<in> set pattern_table \<and> (a, b) \<in> set (rx label s)
        \<and> \<not> excluded_context s a)"
  unfolding scan_sensitive_def scan_pattern_def by (fastforce split: prod.splits)

section \<open>Properties\<close>

text \<open>
  The gate is exactly its specification on every branch: a target is allowed if and only if
  its actual trust meets the caller's own ceiling and it is not the case that the prompt would
  leave for an untrusted target, without an override, carrying a high-severity match outside an
  excluded context.
\<close>

theorem egress_gate_exact:
  "e_allowed (fst (decide rx (new_policy prompt req own ov) t)) \<longleftrightarrow>
     meets_ceiling (py_lower (py_strip req)) (trust_for t own)
     \<and> \<not> (trust_for t own = ''untrusted'' \<and> \<not> ov
          \<and> (\<exists>ty label a b. (ty, label, ''high'') \<in> set pattern_table
                \<and> (a, b) \<in> set (rx label prompt) \<and> \<not> excluded_context prompt a))"
proof -
  let ?p = "new_policy prompt req own ov"
  obtain d p' where d: "decide rx ?p t = (d, p')" by fastforce
  have "e_allowed d \<longleftrightarrow> may_egress rx ?p t" by (rule decide_allowed_iff [OF _ d]) simp
  also have "\<dots> \<longleftrightarrow> meets_ceiling (py_lower (py_strip req)) (trust_for t own)
      \<and> (trust_for t own = ''local'' \<or> ov \<or> \<not> scan_blocks rx prompt (trust_for t own))"
    by (simp add: may_egress_def new_policy_def Let_def)
  finally have *: "e_allowed d \<longleftrightarrow> meets_ceiling (py_lower (py_strip req)) (trust_for t own)
      \<and> (trust_for t own = ''local'' \<or> ov \<or> \<not> scan_blocks rx prompt (trust_for t own))" .
  have "trust_for t own = ''local'' \<Longrightarrow> trust_for t own \<noteq> ''untrusted''"
    by (simp add: trust_for_def)
  with * show ?thesis
    unfolding scan_blocks_iff scan_sensitive_mem_iff d fst_conv by blast
qed

text \<open>
  The per-job scan cache is transparent: the answers given one after the other on the shared
  policy object are, target by target, the answers of the uncached specification.
\<close>

theorem egress_cache_transparent:
  "map e_allowed (decide_all rx (new_policy prompt req own ov) ts)
     = map (may_egress rx (new_policy prompt req own ov)) ts"
proof -
  let ?p = "new_policy prompt req own ov"
  have "?p\<lparr>ep_cache := []\<rparr> = ?p" by (simp add: new_policy_def)
  then have "decide_all rx ?p ts = map (\<lambda>t. fst (decide rx ?p t)) ts"
    using decide_all_uncached [of rx ?p ts] by simp
  moreover have "e_allowed (fst (decide rx ?p t)) = may_egress rx ?p t" for t
    by (metis decide_allowed_iff new_policy_cache_ok prod.collapse)
  ultimately show ?thesis by simp
qed

text \<open>
  \<open>blocked_everywhere\<close> is true exactly when there are candidates and none of them may
  receive the prompt, although it stops at the first allowed one.
\<close>

theorem blocked_everywhere_iff:
  "fst (blocked_everywhere rx (new_policy prompt req own ov) ts) \<longleftrightarrow>
     ts \<noteq> [] \<and> filter (may_egress rx (new_policy prompt req own ov)) ts = []"
  using any_allowed_iff [OF new_policy_cache_ok, of rx prompt req own ov ts]
  by (auto simp: blocked_everywhere_def filter_empty_conv split: prod.splits)

end
