(* ===== verification/Exec_Planner.thy ===== *)
theory Exec_Planner
  imports Egress_Policy
begin

text \<open>
  \<open>src/mycellm/execution/planner.py\<close>: from a job and its candidate targets to an execution
  plan. The policy object is threaded through the eligibility loop, since deciding fills its
  cache. The round-robin over models is the loop of \<open>_pick_proposers\<close>: one pass over the
  dictionary (\<open>round_pass\<close>) repeated until enough targets are picked or a pass adds none.
\<close>

definition SWARM_MODEL :: pystr where "SWARM_MODEL = ''mycellm/swarm''"
definition DEFAULT_FANOUT :: int where "DEFAULT_FANOUT = 3"
definition MAX_FANOUT :: int where "MAX_FANOUT = 8"

definition is_swarm_request :: "pystr \<Rightarrow> bool" where
  "is_swarm_request model = (py_lower (py_strip model) = SWARM_MODEL)"

section \<open>Eligibility\<close>

record eligibility =
  el_policy :: egress_policy
  el_eligible :: "target list"
  el_reasons :: "pystr list"
  el_rejected :: "(pystr \<times> pystr) list"

definition check_candidate :: "regex_engine \<Rightarrow> eligibility \<Rightarrow> target \<Rightarrow> eligibility" where
  "check_candidate rx s t =
     (let (d, p') = decide rx (el_policy s) t; s' = s\<lparr>el_policy := p'\<rparr>
      in if e_allowed d then
           s'\<lparr>el_eligible := el_eligible s' @ [t],
              el_reasons := (if py_contains (e_reason d) ''warning''
                             then el_reasons s' @ [target_str t @ '': '' @ e_reason d]
                             else el_reasons s')\<rparr>
         else s'\<lparr>el_rejected := el_rejected s' @ [(target_str t, e_reason d)]\<rparr>)"

definition check_candidates :: "regex_engine \<Rightarrow> egress_policy \<Rightarrow> target list \<Rightarrow> eligibility" where
  "check_candidates rx p ts = foldl (check_candidate rx)
     \<lparr>el_policy = p, el_eligible = [], el_reasons = [], el_rejected = []\<rparr> ts"

definition eligible_for :: "target list \<Rightarrow> role \<Rightarrow> target list" where
  "eligible_for ts r = filter (\<lambda>t.
     if t_roles t = [] then r \<in> {R_DIRECT, R_PROPOSER, R_SYNTHESIZER}
     else target_can t (role_value r)) ts"

section \<open>Selection\<close>

definition by_model :: "target list \<Rightarrow> (pystr, target list) dict" where
  "by_model ts = foldl (\<lambda>d t. dict_set d (t_model t) (dict_get d (t_model t) [] @ [t])) [] ts"

fun round_pass :: "nat \<Rightarrow> (pystr, target list) dict \<Rightarrow> target list
    \<Rightarrow> (pystr, target list) dict \<times> target list \<times> bool" where
  "round_pass want [] picked = ([], picked, False)"
| "round_pass want ((m, []) # d) picked =
     (let (d', p', a) = round_pass want d picked in ((m, []) # d', p', a))"
| "round_pass want ((m, t # q) # d) picked =
     (if want \<le> length picked then ((m, t # q) # d, picked, False)
      else let (d', p', a) = round_pass want d (picked @ [t]) in ((m, q) # d', p', True))"

lemma round_pass_length:
  "round_pass want d picked = (d', p', a) \<Longrightarrow> length picked \<le> length p' \<and> (a \<longrightarrow> length picked < length p')"
proof (induction want d picked arbitrary: d' p' a rule: round_pass.induct)
  case (3 want m t q d picked)
  then show ?case by (fastforce split: if_splits prod.splits)
qed (auto split: prod.splits)

function pick_loop :: "nat \<Rightarrow> (pystr, target list) dict \<Rightarrow> target list \<Rightarrow> target list" where
  "pick_loop want d picked =
     (if length picked < want then
        let r = round_pass want d picked in
        (if snd (snd r) then pick_loop want (fst r) (fst (snd r)) else fst (snd r))
      else picked)"
  by pat_completeness auto
termination
proof (relation "measure (\<lambda>(want, d, picked). want - length picked)")
  fix want :: nat and d :: "(pystr, target list) dict" and picked r
  assume *: "length picked < want" "r = round_pass want d picked" "snd (snd r)"
  obtain d' p' a where r: "r = (d', p', a)" by (cases r)
  then have "length picked < length p'" using round_pass_length [of want d picked d' p' a] * by simp
  then show "((want, fst r, fst (snd r)), (want, d, picked))
      \<in> measure (\<lambda>(want, d, picked). want - length picked)"
    using *(1) \<open>length picked < length p'\<close> by (simp add: r)
qed auto

declare pick_loop.simps [simp del]

definition pick_proposers :: "target list \<Rightarrow> nat \<Rightarrow> target list" where
  "pick_proposers eligible want = pick_loop want (by_model eligible) []"

text \<open>\<open>max\<close> of an empty pool raises \<open>ValueError\<close>: \<open>None\<close> here.\<close>

definition pick_synthesizer :: "target list \<Rightarrow> target list \<Rightarrow> target option" where
  "pick_synthesizer eligible proposers =
     (let all_local = list_all (\<lambda>t. \<not> is_remote t) proposers;
          locs = filter (\<lambda>t. \<not> is_remote t) eligible
      in if all_local \<and> locs \<noteq> [] then max_by t_tok_s locs
         else let proposed = filter (\<lambda>t. t \<in> set proposers) eligible;
                  pool = (if proposed = [] then eligible else proposed)
              in max_by (\<lambda>t. (t_params_b t, t_tok_s t)) pool)"

section \<open>Strategies\<close>

text \<open>\<open>eligible[0]\<close> of an empty list raises: \<open>None\<close>; the callers exclude it.\<close>

definition plan_direct :: "job \<Rightarrow> execution_plan \<Rightarrow> target list \<Rightarrow> execution_plan option" where
  "plan_direct j plan eligible = (case eligible of
     [] \<Rightarrow> None
   | t # rest \<Rightarrow> Some (plan\<lparr>
       p_units := p_units plan @ [\<lparr>u_id = j_id j @ ''-u0'', u_role = R_DIRECT, u_target = t,
         u_messages = j_messages j, u_temperature = j_temperature j,
         u_max_tokens = j_max_tokens j, u_depends_on = []\<rparr>],
       p_reasons := p_reasons plan @ [''direct -> '' @ target_str t]
         @ (if is_remote t then [] else [''local model available''])
         @ (if rest = [] then [] else [str_nat (length rest) @ '' fallback target(s) available''])\<rparr>))"

definition swarm_want :: "job \<Rightarrow> nat" where
  "swarm_want j = nat (max 2 (min (if j_fanout j = 0 then DEFAULT_FANOUT else j_fanout j) MAX_FANOUT))"

definition proposer_unit :: "job \<Rightarrow> nat \<Rightarrow> target \<Rightarrow> work_unit" where
  "proposer_unit j i t =
     \<lparr>u_id = j_id j @ ''-p'' @ str_nat i, u_role = R_PROPOSER, u_target = t,
      u_messages = j_messages j, u_temperature = min 1 (j_temperature j + 15 / 100 * of_nat i),
      u_max_tokens = j_max_tokens j, u_depends_on = []\<rparr>"

definition plan_swarm :: "job \<Rightarrow> execution_plan \<Rightarrow> target list \<Rightarrow> execution_plan option" where
  "plan_swarm j plan eligible =
     (let want = swarm_want j;
          can_propose = eligible_for eligible R_PROPOSER;
          plan1 = (if length can_propose < length eligible then
              plan\<lparr>p_reasons := p_reasons plan @
                [str_nat (length eligible - length can_propose)
                 @ '' target(s) do not declare the proposer role'']\<rparr> else plan);
          proposers = pick_proposers can_propose want
      in if length proposers < 2 then
           plan_direct j (plan1\<lparr>p_strategy := S_DIRECT,
             p_reasons := p_reasons plan1 @
               [''swarm requested but only '' @ str_nat (length proposers)
                @ '' eligible proposer -- degraded to direct'']\<rparr>) eligible
         else
           let units = map (\<lambda>(i, t). proposer_unit j i t) (enumerate 0 proposers);
               plan2 = plan1\<lparr>p_units := p_units plan1 @ units\<rparr>;
               synth_roles = eligible_for eligible R_SYNTHESIZER;
               synth_pool = (if synth_roles = [] then eligible else synth_roles)
           in case pick_synthesizer synth_pool proposers of
                None \<Rightarrow> None
              | Some synth \<Rightarrow>
                  let distinct_models = card (set (map t_model proposers)) in
                  Some (plan2\<lparr>
                    p_units := p_units plan2 @
                      [\<lparr>u_id = j_id j @ ''-syn'', u_role = R_SYNTHESIZER, u_target = synth,
                        u_messages = [], u_temperature = 2 / 10, u_max_tokens = j_max_tokens j,
                        u_depends_on = map u_id (plan_proposers plan2)\<rparr>],
                    p_reasons := p_reasons plan2 @
                      [''swarm: '' @ str_nat (length proposers) @ '' proposers across ''
                        @ str_nat distinct_models @ '' distinct model(s) -> synthesis on ''
                        @ target_str synth]
                      @ (if distinct_models = 1 then
                          [''all proposers share one model -- this is self-consistency sampling, not a heterogeneous swarm'']
                         else [])\<rparr>))"

definition plan_job :: "regex_engine \<Rightarrow> job \<Rightarrow> target list \<Rightarrow> bool \<Rightarrow> execution_plan option" where
  "plan_job rx j candidates override_privacy =
     (let policy = new_policy (prompt_text j) (j_trust j) (j_network_ids j) override_privacy;
          strategy = (if is_swarm_request (j_model j) then S_SWARM else S_DIRECT);
          el = check_candidates rx policy candidates;
          plan = \<lparr>p_job_id = j_id j, p_strategy = strategy, p_units = [],
                  p_reasons = el_reasons el, p_rejected = el_rejected el,
                  p_token_budget = j_token_budget j\<rparr>
      in if el_eligible el = [] then
           Some (plan\<lparr>p_reasons := p_reasons plan @
             [if candidates = [] then ''no eligible target''
              else ''every candidate refused by egress policy'']\<rparr>)
         else
           let eligible = sort_key (\<lambda>t. (is_remote t, - t_tok_s t)) (el_eligible el)
           in if strategy = S_SWARM then plan_swarm j plan eligible
              else plan_direct j plan eligible)"

section \<open>The eligibility loop\<close>

lemma check_candidate_spec:
  fixes t :: target
  assumes "cache_ok rx (el_policy s)" "same_policy p (el_policy s)"
  defines "s' \<equiv> check_candidate rx s t"
  shows "cache_ok rx (el_policy s')" "same_policy p (el_policy s')"
    "el_eligible s' = el_eligible s @ (if may_egress rx p t then [t] else [])"
    "map fst (el_rejected s') = map fst (el_rejected s) @ (if may_egress rx p t then [] else [target_str t])"
proof -
  obtain d q where d: "decide rx (el_policy s) t = (d, q)" by fastforce
  have q: "cache_ok rx q" "same_policy p q"
    using decide_state [OF assms(1) d] same_policy_trans [OF assms(2)] by blast+
  have a: "e_allowed d \<longleftrightarrow> may_egress rx p t"
    using decide_allowed_iff [OF assms(1) d] may_egress_cong [OF assms(2)] by blast
  show "cache_ok rx (el_policy s')" "same_policy p (el_policy s')"
    "el_eligible s' = el_eligible s @ (if may_egress rx p t then [t] else [])"
    "map fst (el_rejected s') = map fst (el_rejected s) @ (if may_egress rx p t then [] else [target_str t])"
    using q a by (simp_all add: s'_def check_candidate_def d Let_def)
qed

lemma check_candidates_fold:
  assumes "cache_ok rx (el_policy s)" "same_policy p (el_policy s)"
  shows "el_eligible (foldl (check_candidate rx) s ts) = el_eligible s @ filter (may_egress rx p) ts \<and>
    map fst (el_rejected (foldl (check_candidate rx) s ts)) =
      map fst (el_rejected s) @ map target_str (filter (\<lambda>t. \<not> may_egress rx p t) ts)"
  using assms
proof (induction ts arbitrary: s)
  case Nil
  then show ?case by simp
next
  case (Cons t ts)
  show ?case
    using Cons.IH [OF check_candidate_spec(1,2) [OF Cons.prems]] check_candidate_spec(3,4) [OF Cons.prems]
    by simp
qed

lemma check_candidates_eligible:
  assumes "cache_ok rx p"
  shows "el_eligible (check_candidates rx p ts) = filter (may_egress rx p) ts"
    "map fst (el_rejected (check_candidates rx p ts)) =
      map target_str (filter (\<lambda>t. \<not> may_egress rx p t) ts)"
  unfolding check_candidates_def
  using check_candidates_fold [of rx "\<lparr>el_policy = p, el_eligible = [], el_reasons = [], el_rejected = []\<rparr>" p ts]
    assms by simp_all

section \<open>Round-robin selection\<close>

abbreviation remaining :: "(pystr, target list) dict \<Rightarrow> target list" where
  "remaining d \<equiv> concat (map snd d)"

definition queues_ok :: "(pystr, target list) dict \<Rightarrow> bool" where
  "queues_ok d \<longleftrightarrow> dict_ok d \<and> (\<forall>(m, q) \<in> set d. \<forall>t \<in> set q. t_model t = m)"

lemma round_pass_all:
  "round_pass want d picked = (d', p', a) \<Longrightarrow>
     mset p' + mset (remaining d') = mset picked + mset (remaining d)
     \<and> (\<exists>ys. p' = picked @ ys)
     \<and> (length picked \<le> want \<longrightarrow> length p' \<le> want)
     \<and> (\<not> a \<longrightarrow> p' = picked \<and> (length picked < want \<longrightarrow> remaining d = []))"
proof (induction want d picked arbitrary: d' p' a rule: round_pass.induct)
  case (3 want m t q d picked)
  show ?case
  proof (cases "want \<le> length picked")
    case True
    then show ?thesis using "3.prems" by auto
  next
    case False
    obtain d1 p1 a1 where r: "round_pass want d (picked @ [t]) = (d1, p1, a1)"
      by (cases "round_pass want d (picked @ [t])")
    show ?thesis using "3.IH" [OF False r] "3.prems" False r by auto
  qed
qed (auto split: prod.splits)

lemma round_pass_spec:
  assumes "round_pass want d picked = (d', p', a)"
  shows "mset p' + mset (remaining d') = mset picked + mset (remaining d)"
    and "\<exists>ys. p' = picked @ ys"
    and "length picked \<le> want \<Longrightarrow> length p' \<le> want"
    and "\<not> a \<Longrightarrow> p' = picked \<and> (length picked < want \<longrightarrow> remaining d = [])"
  using round_pass_all [OF assms] by blast+

lemma pick_loop_spec:
  assumes "length picked \<le> want"
  shows "\<exists>ys. pick_loop want d picked = picked @ ys \<and> mset ys \<subseteq># mset (remaining d)
    \<and> length (picked @ ys) = min want (length picked + length (remaining d))"
  using assms
proof (induction want d picked rule: pick_loop.induct)
  case (1 want d picked)
  show ?case
  proof (cases "length picked < want")
    case False
    then show ?thesis using "1.prems" by (subst pick_loop.simps) auto
  next
    case True
    obtain d' p' a where r: "round_pass want d picked = (d', p', a)" by (cases "round_pass want d picked")
    note spec = round_pass_spec [OF r]
    from spec(2) obtain zs where zs: "p' = picked @ zs" by blast
    have m: "mset zs + mset (remaining d') = mset (remaining d)" using spec(1) by (simp add: zs)
    have eq: "pick_loop want d picked = (if a then pick_loop want d' p' else p')"
      using True by (subst pick_loop.simps) (simp add: r)
    show ?thesis
    proof (cases a)
      case False
      then have "p' = picked" and "remaining d = []" using spec(4) True by blast+
      then have "min want (length picked + length (remaining d)) = length picked"
        using True by (simp only: list.size add_0_right min.absorb2 less_imp_le)
      then show ?thesis using False \<open>p' = picked\<close> by (intro exI [of _ "[]"]) (simp add: eq)
    next
      case a: True
      have "length p' \<le> want" using spec(3) "1.prems" by simp
      then obtain ys where ys: "pick_loop want d' p' = p' @ ys" "mset ys \<subseteq># mset (remaining d')"
        "length (p' @ ys) = min want (length p' + length (remaining d'))"
        using "1.IH" [OF True r [symmetric]] a by auto
      have len: "length zs + length (remaining d') = length (remaining d)"
        using m by (metis size_mset size_union)
      have "mset (zs @ ys) \<subseteq># mset (remaining d)"
        using ys(2) m by (metis mset_append subset_mset.add_left_mono)
      then show ?thesis using ys a len by (auto simp: eq zs)
    qed
  qed
qed

lemma round_pass_first:
  assumes "\<forall>(m, q) \<in> set d. q \<noteq> []" "round_pass want d picked = (d', p', a)"
  shows "p' = picked @ map (hd \<circ> snd) (take (want - length picked) d)"
  using assms
proof (induction want d picked arbitrary: d' p' a rule: round_pass.induct)
  case (3 want m t q d picked)
  show ?case
  proof (cases "want \<le> length picked")
    case True
    then show ?thesis using "3.prems" by simp
  next
    case False
    obtain d1 p1 a1 where r: "round_pass want d (picked @ [t]) = (d1, p1, a1)"
      by (cases "round_pass want d (picked @ [t])")
    have "p1 = (picked @ [t]) @ map (hd \<circ> snd) (take (want - length (picked @ [t])) d)"
      using "3.IH" [OF False _ r] "3.prems" by auto
    moreover have "want - length picked = Suc (want - length (picked @ [t]))" using False by simp
    ultimately show ?thesis using "3.prems" False r by (simp add: o_def)
  qed
qed auto

lemma pick_loop_prefix:
  assumes "length picked < want" "round_pass want d picked = (d', p', a)" "length picked \<le> want"
  shows "\<exists>ys. pick_loop want d picked = p' @ ys"
proof (cases a)
  case True
  have "length p' \<le> want" using round_pass_spec(3) [OF assms(2)] assms(3) .
  then show ?thesis using pick_loop_spec [of p' want d'] True assms(1,2)
    by (subst pick_loop.simps) auto
next
  case False
  then show ?thesis using assms by (subst pick_loop.simps) simp
qed

lemma mset_dict_append:
  "dict_ok d \<Longrightarrow> mset (remaining (dict_set d k (dict_get d k [] @ [t]))) = add_mset t (mset (remaining d))"
  unfolding dict_ok_def dict_set_def dict_get_def
proof (induction d)
  case Nil
  then show ?case by simp
next
  case (Cons e d)
  obtain k' q where e: "e = (k', q)" by (cases e)
  show ?case
  proof (cases "k = k'")
    case True
    then show ?thesis by (simp add: e)
  next
    case False
    then show ?thesis using Cons by (simp add: e)
  qed
qed

definition model_queues :: "(pystr, target list) dict \<Rightarrow> bool" where
  "model_queues d \<longleftrightarrow> dict_ok d \<and> (\<forall>m q. map_of d m = Some q \<longrightarrow> q \<noteq> [] \<and> (\<forall>t \<in> set q. t_model t = m))"

lemma by_model_snoc:
  "by_model (ts @ [t]) = dict_set (by_model ts) (t_model t) (dict_get (by_model ts) (t_model t) [] @ [t])"
  by (simp add: by_model_def)

lemma by_model_spec:
  "model_queues (by_model ts) \<and> mset (remaining (by_model ts)) = mset ts
    \<and> fst ` set (by_model ts) = t_model ` set ts"
proof (induction ts rule: rev_induct)
  case Nil
  then show ?case by (simp add: by_model_def model_queues_def)
next
  case (snoc t ts)
  let ?d = "by_model ts"
  have d: "dict_ok ?d" using snoc by (simp add: model_queues_def)
  have "model_queues (by_model (ts @ [t]))"
    using snoc unfolding model_queues_def by_model_snoc
    by (auto simp: dict_get_def split: option.splits if_splits) metis+
  moreover have "mset (remaining (by_model (ts @ [t]))) = mset (ts @ [t])"
    unfolding by_model_snoc using mset_dict_append [OF d] snoc by simp
  moreover have "fst ` set (by_model (ts @ [t])) = t_model ` set (ts @ [t])"
    unfolding by_model_snoc keys_dict_set using snoc by simp
  ultimately show ?case by blast
qed

lemma pick_proposers_spec:
  "mset (pick_proposers ts want) \<subseteq># mset ts"
  "length (pick_proposers ts want) = min want (length ts)"
proof -
  have m: "mset (remaining (by_model ts)) = mset ts" using by_model_spec by blast
  obtain ys where ys: "pick_proposers ts want = ys" "mset ys \<subseteq># mset (remaining (by_model ts))"
    "length ys = min want (length (remaining (by_model ts)))"
    using pick_loop_spec [of "[]" want "by_model ts"] by (auto simp: pick_proposers_def)
  have "length (remaining (by_model ts)) = length ts" using m by (metis size_mset)
  then show "mset (pick_proposers ts want) \<subseteq># mset ts"
    "length (pick_proposers ts want) = min want (length ts)" using ys m by simp_all
qed

lemma pick_proposers_subset: "set (pick_proposers ts want) \<subseteq> set ts"
  using pick_proposers_spec(1) [of ts want] by (metis mset_subset_eqD set_mset_mset subsetI)

text \<open>Breadth before depth: as many distinct models as there are, up to the number wanted.\<close>

lemma pick_proposers_models:
  "card (t_model ` set (pick_proposers ts want)) = min want (card (t_model ` set ts))"
proof (cases "want = 0")
  case True
  then have "pick_proposers ts want = []" using pick_proposers_spec(2) [of ts want] by simp
  then show ?thesis using True by simp
next
  case False
  let ?d = "by_model ts" and ?ps = "pick_proposers ts want"
  obtain d' p' a where r: "round_pass want ?d [] = (d', p', a)" by (cases "round_pass want ?d []")
  have q: "model_queues ?d" and keys: "fst ` set ?d = t_model ` set ts" using by_model_spec by auto
  have dist: "distinct (map fst ?d)" using q by (simp add: model_queues_def dict_ok_def)
  have mem: "map_of ?d (fst e) = Some (snd e)" if "e \<in> set ?d" for e
    using dist that by (simp add: map_of_eq_Some_iff)
  have ne: "snd e \<noteq> [] \<and> t_model (hd (snd e)) = fst e" if "e \<in> set ?d" for e
    using mem [OF that] q unfolding model_queues_def by (metis hd_in_set)
  have nonempty: "\<forall>(m, q) \<in> set ?d. q \<noteq> []" using ne by fastforce
  have p': "p' = map (hd \<circ> snd) (take want ?d)" using round_pass_first [OF nonempty r] by simp
  obtain ys where ys: "?ps = p' @ ys" using pick_loop_prefix [OF _ r] False by (auto simp: pick_proposers_def)
  have models: "map t_model p' = map fst (take want ?d)" using ne by (auto simp: p' dest: in_set_takeD)
  have "card (t_model ` set p') = min want (length ?d)"
  proof -
    have "t_model ` set p' = set (map fst (take want ?d))" using models by (metis set_map)
    moreover have "distinct (map fst (take want ?d))" using dist by (metis distinct_take take_map)
    ultimately have "card (t_model ` set p') = length (map fst (take want ?d))" by (simp only: distinct_card)
    then show ?thesis by simp
  qed
  moreover have "length ?d = card (t_model ` set ts)" using dist keys by (metis distinct_card length_map set_map)
  moreover have "card (t_model ` set p') \<le> card (t_model ` set ?ps)" by (rule card_mono) (auto simp: ys)
  moreover have "card (t_model ` set ?ps) \<le> length ?ps" by (metis card_image_le card_length le_trans List.finite_set)
  moreover have "card (t_model ` set ?ps) \<le> card (t_model ` set ts)"
    by (intro card_mono image_mono pick_proposers_subset) simp
  ultimately show ?thesis using pick_proposers_spec(2) [of ts want] by (intro antisym) auto
qed

section \<open>Plans\<close>

abbreviation job_policy :: "job \<Rightarrow> bool \<Rightarrow> egress_policy" where
  "job_policy j ov \<equiv> new_policy (prompt_text j) (j_trust j) (j_network_ids j) ov"

definition ranked :: "target list \<Rightarrow> target list" where
  "ranked ts = sort_key (\<lambda>t. (is_remote t, - t_tok_s t)) ts"

lemma set_ranked [simp]: "set (ranked ts) = set ts"
  by (simp add: ranked_def)

lemma ranked_Nil_iff [simp]: "ranked ts = [] \<longleftrightarrow> ts = []"
  by (metis set_empty set_ranked)

lemma eligible_for_subset: "set (eligible_for ts r) \<subseteq> set ts"
  by (auto simp: eligible_for_def)

lemma pick_synthesizer_mem: "pick_synthesizer ts ps = Some s \<Longrightarrow> s \<in> set ts"
  unfolding pick_synthesizer_def Let_def
  by (auto split: if_splits dest: max_by_mem)

lemma pick_synthesizer_Some: "ts \<noteq> [] \<Longrightarrow> \<exists>s. pick_synthesizer ts ps = Some s"
  unfolding pick_synthesizer_def Let_def by (auto intro!: max_by_Some)

lemma swarm_want_bounds: "2 \<le> swarm_want j" "swarm_want j \<le> 8"
  by (auto simp: swarm_want_def MAX_FANOUT_def DEFAULT_FANOUT_def)

lemma plan_direct_Some:
  assumes "eligible \<noteq> []"
  shows "\<exists>p. plan_direct j plan eligible = Some p \<and> p_rejected p = p_rejected plan
    \<and> p_strategy p = p_strategy plan
    \<and> (\<exists>u. p_units p = p_units plan @ [u] \<and> u_target u = hd eligible \<and> u_role u = R_DIRECT
          \<and> u_messages u = j_messages j)"
  using assms by (cases eligible) (auto simp: plan_direct_def)

definition swarm_units :: "job \<Rightarrow> target list \<Rightarrow> work_unit list" where
  "swarm_units j ts = map (\<lambda>(i, t). proposer_unit j i t) (enumerate 0 ts)"

lemma swarm_units_length [simp]: "length (swarm_units j ts) = length ts"
  by (simp add: swarm_units_def)

lemma swarm_units_targets [simp]: "map u_target (swarm_units j ts) = ts"
  by (simp add: swarm_units_def proposer_unit_def o_def case_prod_beta)

lemma swarm_units_ids:
  "map u_id (swarm_units j ts) = map (\<lambda>i. j_id j @ ''-p'' @ str_nat i) [0..<length ts]"
proof -
  let ?f = "\<lambda>i. j_id j @ ''-p'' @ str_nat i"
  have "map u_id (swarm_units j ts) = map (\<lambda>p. ?f (fst p)) (enumerate 0 ts)"
    by (simp add: swarm_units_def proposer_unit_def case_prod_beta o_def)
  also have "\<dots> = map ?f (map fst (enumerate 0 ts))"
    by (simp only: map_map o_def)
  finally show ?thesis by simp
qed

lemma swarm_units_all:
  assumes "u \<in> set (swarm_units j ts)"
  shows "u_role u = R_PROPOSER" "u_messages u = j_messages j" "u_temperature u \<le> 1"
    "u_max_tokens u = j_max_tokens j" "u_depends_on u = []" "u_target u \<in> set ts"
  using assms by (auto simp: swarm_units_def proposer_unit_def in_set_enumerate_eq)

text \<open>The shape of a swarm plan over the eligible targets, or its degradation to direct.\<close>

definition swarm_shape :: "job \<Rightarrow> target list \<Rightarrow> execution_plan \<Rightarrow> bool" where
  "swarm_shape j eligible p \<longleftrightarrow>
     (let proposers = pick_proposers (eligible_for eligible R_PROPOSER) (swarm_want j);
          pool = (if eligible_for eligible R_SYNTHESIZER = [] then eligible
                  else eligible_for eligible R_SYNTHESIZER)
      in \<exists>s. 2 \<le> length proposers \<and> p_strategy p = S_SWARM
           \<and> p_units p = swarm_units j proposers @ [s]
           \<and> u_role s = R_SYNTHESIZER \<and> u_id s = j_id j @ ''-syn''
           \<and> pick_synthesizer pool proposers = Some (u_target s)
           \<and> u_messages s = [] \<and> u_depends_on s = map u_id (swarm_units j proposers))"

definition direct_shape :: "job \<Rightarrow> target list \<Rightarrow> execution_plan \<Rightarrow> bool" where
  "direct_shape j eligible p \<longleftrightarrow> p_strategy p = S_DIRECT
     \<and> (\<exists>u. p_units p = [u] \<and> u_target u = hd eligible \<and> u_role u = R_DIRECT \<and> u_messages u = j_messages j)"

lemma plan_swarm_Some:
  assumes "eligible \<noteq> []" "p_units plan = []" "p_strategy plan = S_SWARM"
  shows "\<exists>p. plan_swarm j plan eligible = Some p \<and> p_rejected p = p_rejected plan
    \<and> (if length (pick_proposers (eligible_for eligible R_PROPOSER) (swarm_want j)) < 2
       then direct_shape j eligible p else swarm_shape j eligible p)"
proof -
  let ?ps = "pick_proposers (eligible_for eligible R_PROPOSER) (swarm_want j)"
  let ?pool = "if eligible_for eligible R_SYNTHESIZER = [] then eligible else eligible_for eligible R_SYNTHESIZER"
  show ?thesis
  proof (cases "length ?ps < 2")
    case True
    then have "\<exists>q. plan_swarm j plan eligible = plan_direct j q eligible
        \<and> p_units q = [] \<and> p_strategy q = S_DIRECT \<and> p_rejected q = p_rejected plan"
      unfolding plan_swarm_def Let_def
      by (subst if_P, assumption) (intro exI conjI, rule refl, simp_all add: assms(2))
    then obtain q where q: "plan_swarm j plan eligible = plan_direct j q eligible"
      "p_units q = []" "p_strategy q = S_DIRECT" "p_rejected q = p_rejected plan" by blast
    show ?thesis
      using plan_direct_Some [OF assms(1), of j q] True by (auto simp: q direct_shape_def)
  next
    case False
    have "?pool \<noteq> []" using assms(1) by simp
    then obtain s where s: "pick_synthesizer ?pool ?ps = Some s" using pick_synthesizer_Some by blast
    have f: "filter (\<lambda>u. u_role u = R_PROPOSER) (swarm_units j ?ps) = swarm_units j ?ps"
      using swarm_units_all(1) by (simp add: filter_id_conv)
    show ?thesis
      using False s assms(2,3) f
      unfolding plan_swarm_def swarm_shape_def Let_def swarm_units_def [symmetric] plan_proposers_def
      by simp
  qed
qed

abbreviation allowed_targets :: "regex_engine \<Rightarrow> job \<Rightarrow> target list \<Rightarrow> bool \<Rightarrow> target list" where
  "allowed_targets rx j cands ov \<equiv> filter (may_egress rx (job_policy j ov)) cands"

definition proposer_pool :: "target list \<Rightarrow> target list" where
  "proposer_pool eligible = eligible_for (ranked eligible) R_PROPOSER"

lemma mset_eligible_ranked: "mset (eligible_for (ranked ts) r) = mset (eligible_for ts r)"
  by (simp add: eligible_for_def ranked_def)

definition synth_pool :: "target list \<Rightarrow> target list" where
  "synth_pool eligible = (if eligible_for (ranked eligible) R_SYNTHESIZER = [] then ranked eligible
     else eligible_for (ranked eligible) R_SYNTHESIZER)"

lemma plan_job_shape:
  defines "E \<equiv> \<lambda>rx j cands ov. allowed_targets rx j cands ov"
  shows "\<exists>p. plan_job rx j cands ov = Some p
    \<and> map fst (p_rejected p) = map target_str (filter (\<lambda>t. \<not> may_egress rx (job_policy j ov) t) cands)
    \<and> (if E rx j cands ov = [] then p_units p = []
       else if is_swarm_request (j_model j) \<and>
               2 \<le> length (pick_proposers (proposer_pool (E rx j cands ov)) (swarm_want j))
            then swarm_shape j (ranked (E rx j cands ov)) p
       else direct_shape j (ranked (E rx j cands ov)) p)"
proof -
  let ?P = "job_policy j ov"
  let ?el = "check_candidates rx ?P cands"
  let ?plan = "\<lparr>p_job_id = j_id j, p_strategy = (if is_swarm_request (j_model j) then S_SWARM else S_DIRECT),
    p_units = [], p_reasons = el_reasons ?el, p_rejected = el_rejected ?el, p_token_budget = j_token_budget j\<rparr>"
  have el: "el_eligible ?el = E rx j cands ov"
    "map fst (el_rejected ?el) = map target_str (filter (\<lambda>t. \<not> may_egress rx ?P t) cands)"
    using check_candidates_eligible [of rx ?P cands] by (simp_all add: E_def)
  show ?thesis
  proof (cases "E rx j cands ov = []")
    case True
    then show ?thesis using el by (auto simp: plan_job_def Let_def)
  next
    case False
    then have r: "ranked (E rx j cands ov) \<noteq> []" by simp
    show ?thesis
    proof (cases "is_swarm_request (j_model j)")
      case True
      have "plan_job rx j cands ov = plan_swarm j ?plan (ranked (E rx j cands ov))"
        using False True el by (simp add: plan_job_def Let_def ranked_def)
      then show ?thesis using plan_swarm_Some [OF r, of ?plan j] False True el(2)
        by (auto simp: proposer_pool_def split: if_splits)
    next
      case direct: False
      have "plan_job rx j cands ov = plan_direct j ?plan (ranked (E rx j cands ov))"
        using False direct el by (simp add: plan_job_def Let_def ranked_def)
      then show ?thesis using plan_direct_Some [OF r, of j ?plan] False direct el(2)
        by (auto simp: direct_shape_def)
    qed
  qed
qed

lemma direct_shape_targets:
  "direct_shape j (ranked ts) p \<Longrightarrow> ts \<noteq> [] \<Longrightarrow> u_target ` set (p_units p) \<subseteq> set ts"
  unfolding direct_shape_def by (metis hd_in_set image_empty image_insert insert_subset
      list.simps(15) empty_set empty_subsetI ranked_Nil_iff set_ranked)

lemma swarm_shape_targets:
  assumes "swarm_shape j (ranked ts) p"
  shows "u_target ` set (p_units p) \<subseteq> set ts"
proof -
  obtain s where s: "p_units p = swarm_units j (pick_proposers (proposer_pool ts) (swarm_want j)) @ [s]"
    "pick_synthesizer (synth_pool ts) (pick_proposers (proposer_pool ts) (swarm_want j)) = Some (u_target s)"
    using assms unfolding swarm_shape_def proposer_pool_def synth_pool_def Let_def by blast
  have "set (proposer_pool ts) \<subseteq> set ts" "set (synth_pool ts) \<subseteq> set ts"
    using eligible_for_subset [of "ranked ts"] by (auto simp: proposer_pool_def synth_pool_def)
  then show ?thesis
    using s pick_synthesizer_mem [OF s(2)] swarm_units_all(6) pick_proposers_subset by fastforce
qed

text \<open>The concrete instance the witnesses use.\<close>

definition demo_target :: "pystr \<Rightarrow> pystr \<Rightarrow> pyfloat \<Rightarrow> target" where
  "demo_target m k b = \<lparr>t_model = m, t_kind = k, t_peer_id = ''3f9a12bc77'', t_serving_group_id = [],
     t_network_ids = [], t_tok_s = 0, t_roles = [], t_params_b = b\<rparr>"

definition demo_job :: "pystr \<Rightarrow> job" where
  "demo_job m = \<lparr>j_id = ''q1'', j_model = m,
     j_messages = [\<lparr>m_role = ''user'', m_content = CText ''why is the sky blue''\<rparr>],
     j_temperature = 7 / 10, j_max_tokens = 2048, j_network_ids = None, j_token_budget = 0,
     j_trust = [], j_fanout = 0\<rparr>"

definition no_match :: regex_engine where
  "no_match label s = []"

definition demo_targets :: "target list" where
  "demo_targets = [demo_target ''qwen-0.5b'' ''local'' (1 / 2), demo_target ''qwen-35b'' ''peer'' 35]"

section \<open>Properties\<close>

lemma plan_job_targets:
  "\<exists>p. plan_job rx j cands ov = Some p \<and> u_target ` set (p_units p) \<subseteq> set (allowed_targets rx j cands ov)"
proof -
  obtain p where p: "plan_job rx j cands ov = Some p"
    "if allowed_targets rx j cands ov = [] then p_units p = []
     else if is_swarm_request (j_model j) \<and>
               2 \<le> length (pick_proposers (proposer_pool (allowed_targets rx j cands ov)) (swarm_want j))
          then swarm_shape j (ranked (allowed_targets rx j cands ov)) p
     else direct_shape j (ranked (allowed_targets rx j cands ov)) p"
    using plan_job_shape [of rx j cands ov] by blast
  then have "u_target ` set (p_units p) \<subseteq> set (allowed_targets rx j cands ov)"
    using direct_shape_targets swarm_shape_targets by (metis empty_set image_empty empty_subsetI)
  then show ?thesis using p(1) by blast
qed

lemma plan_job_answering_unit:
  assumes "plan_job rx j cands ov = Some p" "p_units p \<noteq> []"
  shows "\<exists>u \<in> set (p_units p). u_role u \<in> {R_DIRECT, R_SYNTHESIZER}"
proof -
  have "direct_shape j (ranked (allowed_targets rx j cands ov)) p
    \<or> swarm_shape j (ranked (allowed_targets rx j cands ov)) p"
    using plan_job_shape [of rx j cands ov] assms by (auto split: if_splits)
  then show ?thesis by (auto simp: direct_shape_def swarm_shape_def Let_def)
qed

text \<open>
  C1: the planner never dispatches a prompt to a target the egress policy refuses: planning
  always returns a plan, and every unit of it runs on a candidate whose location, the caller's
  ceiling and the scan permit the prompt.
\<close>

theorem planner_respects_egress:
  "\<exists>p. plan_job rx j cands ov = Some p
     \<and> u_target ` set (p_units p) \<subseteq> {t \<in> set cands. may_egress rx (job_policy j ov) t}"
  using plan_job_targets [of rx j cands ov] by auto

text \<open>
  Refusals are visible and complete: the rejected list names exactly the refused candidates,
  in order, and a plan has no unit exactly when every candidate is refused.
\<close>

theorem planner_rejections_complete:
  "\<exists>p. plan_job rx j cands ov = Some p
     \<and> map fst (p_rejected p) = map target_str (filter (\<lambda>t. \<not> may_egress rx (job_policy j ov) t) cands)
     \<and> (p_units p = [] \<longleftrightarrow> filter (may_egress rx (job_policy j ov)) cands = [])"
proof -
  obtain p where p: "plan_job rx j cands ov = Some p"
    "map fst (p_rejected p) = map target_str (filter (\<lambda>t. \<not> may_egress rx (job_policy j ov) t) cands)"
    "if allowed_targets rx j cands ov = [] then p_units p = []
     else if is_swarm_request (j_model j) \<and>
               2 \<le> length (pick_proposers (proposer_pool (allowed_targets rx j cands ov)) (swarm_want j))
          then swarm_shape j (ranked (allowed_targets rx j cands ov)) p
     else direct_shape j (ranked (allowed_targets rx j cands ov)) p"
    using plan_job_shape [of rx j cands ov] by blast
  have "p_units p = [] \<longleftrightarrow> allowed_targets rx j cands ov = []"
    using p(3) by (auto simp: swarm_shape_def direct_shape_def Let_def split: if_splits)
  then show ?thesis using p(1,2) by blast
qed

lemma swarm_plan_cases:
  assumes "plan_job rx j cands ov = Some p" "p_strategy p = S_SWARM" "p_units p \<noteq> []"
  shows "swarm_shape j (ranked (allowed_targets rx j cands ov)) p"
  using plan_job_shape [of rx j cands ov] assms
  by (auto simp: direct_shape_def split: if_splits)

lemma swarm_shape_proposers:
  assumes "swarm_shape j (ranked ts) p"
  obtains s where "p_units p = plan_proposers p @ [s]" "plan_synthesizer p = Some s"
    "plan_proposers p = swarm_units j (pick_proposers (proposer_pool ts) (swarm_want j))"
    "2 \<le> length (plan_proposers p)"
    "u_role s = R_SYNTHESIZER" "u_id s = j_id j @ ''-syn''" "u_messages s = []"
    "u_depends_on s = map u_id (plan_proposers p)"
    "pick_synthesizer (synth_pool ts) (map u_target (plan_proposers p)) = Some (u_target s)"
proof -
  let ?ps = "pick_proposers (proposer_pool ts) (swarm_want j)"
  obtain s where s: "2 \<le> length ?ps" "p_units p = swarm_units j ?ps @ [s]" "u_role s = R_SYNTHESIZER"
    "u_id s = j_id j @ ''-syn''" "pick_synthesizer (synth_pool ts) ?ps = Some (u_target s)"
    "u_messages s = []" "u_depends_on s = map u_id (swarm_units j ?ps)"
    using assms unfolding swarm_shape_def proposer_pool_def synth_pool_def Let_def by blast
  have f: "filter (\<lambda>u. u_role u = R_PROPOSER) (swarm_units j ?ps) = swarm_units j ?ps"
    using swarm_units_all(1) by (simp add: filter_id_conv)
  have pp: "plan_proposers p = swarm_units j ?ps" using s(2,3) f by (simp add: plan_proposers_def)
  have "find (\<lambda>u. u_role u = R_SYNTHESIZER) (us @ [s]) = Some s"
    if "\<forall>u \<in> set us. u_role u = R_PROPOSER" for us
    using that s(3) by (induction us) auto
  then have "plan_synthesizer p = Some s"
    using swarm_units_all(1) by (simp add: plan_synthesizer_def s(2))
  then show ?thesis using that [of s] s pp by simp
qed

text \<open>
  A swarm plan is well formed: between two and eight proposers followed by one synthesizer,
  which is the plan's synthesizer and waits for every proposer; unit ids are pairwise different,
  so a dependency names one unit; every proposer gets the job's messages.
\<close>

theorem swarm_plan_shape:
  assumes "plan_job rx j cands ov = Some p" "p_strategy p = S_SWARM" "p_units p \<noteq> []"
  shows "2 \<le> length (plan_proposers p) \<and> length (plan_proposers p) \<le> 8
    \<and> (\<exists>s. p_units p = plan_proposers p @ [s] \<and> plan_synthesizer p = Some s
         \<and> u_depends_on s = map u_id (plan_proposers p))
    \<and> distinct (map u_id (p_units p))
    \<and> u_messages ` set (plan_proposers p) = {j_messages j}"
proof -
  let ?E = "allowed_targets rx j cands ov"
  let ?ps = "pick_proposers (proposer_pool ?E) (swarm_want j)"
  obtain s where s: "p_units p = plan_proposers p @ [s]" "plan_synthesizer p = Some s"
    "plan_proposers p = swarm_units j ?ps" "2 \<le> length (plan_proposers p)"
    "u_id s = j_id j @ ''-syn''" "u_depends_on s = map u_id (plan_proposers p)"
    using swarm_shape_proposers [OF swarm_plan_cases [OF assms]] by metis
  have le: "length (plan_proposers p) \<le> 8"
    using pick_proposers_spec(2) [of "proposer_pool ?E" "swarm_want j"] swarm_want_bounds(2) [of j] s(3) by simp
  have "distinct (map u_id (p_units p))"
    unfolding s(1) map_append s(3) swarm_units_ids using s(5)
    by (auto simp: distinct_map inj_on_def)
  moreover have "u_messages ` set (plan_proposers p) = {j_messages j}"
  proof -
    have "plan_proposers p \<noteq> []" using s(4) by auto
    moreover have "\<forall>u \<in> set (plan_proposers p). u_messages u = j_messages j"
      using swarm_units_all(2) s(3) by metis
    ultimately show ?thesis by (cases "plan_proposers p") auto
  qed
  ultimately show ?thesis using s(1,2,4,6) le by blast
qed

theorem swarm_plan_shape_witness:
  "\<exists>p. plan_job no_match (demo_job SWARM_MODEL) demo_targets False = Some p
     \<and> 2 \<le> length (plan_proposers p) \<and> distinct (map u_id (p_units p))"
proof -
  have "map_option (\<lambda>p. (p_strategy p, p_units p = []))
      (plan_job no_match (demo_job SWARM_MODEL) demo_targets False) = Some (S_SWARM, False)"
    by code_simp
  then obtain p where "plan_job no_match (demo_job SWARM_MODEL) demo_targets False = Some p"
    "p_strategy p = S_SWARM" "p_units p \<noteq> []" by auto
  then show ?thesis using swarm_plan_shape by blast
qed

text \<open>
  Breadth before depth: the proposers of a swarm cover as many distinct models as the allowed
  proposers offer, up to the number wanted, and there are as many of them as wanted or available.
\<close>

theorem swarm_breadth_first:
  assumes "plan_job rx j cands ov = Some p" "p_strategy p = S_SWARM" "p_units p \<noteq> []"
  shows "card (t_model ` u_target ` set (plan_proposers p))
      = min (swarm_want j) (card (t_model ` set (eligible_for (allowed_targets rx j cands ov) R_PROPOSER)))
    \<and> length (plan_proposers p)
      = min (swarm_want j) (length (eligible_for (allowed_targets rx j cands ov) R_PROPOSER))"
proof -
  let ?E = "allowed_targets rx j cands ov"
  let ?ps = "pick_proposers (proposer_pool ?E) (swarm_want j)"
  have pp: "plan_proposers p = swarm_units j ?ps"
    using swarm_shape_proposers [OF swarm_plan_cases [OF assms]] by metis
  then have "u_target ` set (plan_proposers p) = set ?ps" by (metis set_map swarm_units_targets)
  moreover have "set (proposer_pool ?E) = set (eligible_for ?E R_PROPOSER)"
    by (metis proposer_pool_def mset_eligible_ranked set_mset_mset)
  moreover have "length (proposer_pool ?E) = length (eligible_for ?E R_PROPOSER)"
    by (metis proposer_pool_def mset_eligible_ranked size_mset)
  ultimately show ?thesis
    using pick_proposers_models [of "proposer_pool ?E" "swarm_want j"]
      pick_proposers_spec(2) [of "proposer_pool ?E" "swarm_want j"] pp by simp
qed

theorem swarm_breadth_first_witness:
  "\<exists>p. plan_job no_match (demo_job SWARM_MODEL) demo_targets False = Some p
     \<and> card (t_model ` u_target ` set (plan_proposers p)) =
         min 3 (card (t_model ` set (eligible_for demo_targets R_PROPOSER)))"
proof -
  have "map_option (\<lambda>p. (p_strategy p, p_units p = []))
      (plan_job no_match (demo_job SWARM_MODEL) demo_targets False) = Some (S_SWARM, False)"
    by code_simp
  then obtain p where p: "plan_job no_match (demo_job SWARM_MODEL) demo_targets False = Some p"
    "p_strategy p = S_SWARM" "p_units p \<noteq> []" by auto
  have "allowed_targets no_match (demo_job SWARM_MODEL) demo_targets False = demo_targets"
    "swarm_want (demo_job SWARM_MODEL) = 3" by code_simp+
  then show ?thesis using swarm_breadth_first [OF p] p(1) by metis
qed

text \<open>
  Where synthesis runs: if every proposer is local and some target that may synthesize is
  local, synthesis stays on this machine; once a proposer is remote, no proposer that may
  synthesize has more parameters than the synthesizer, so a small local model never merges the
  answers of a larger one.
\<close>

theorem swarm_synthesis_placement:
  assumes "plan_job rx j cands ov = Some p" "p_strategy p = S_SWARM" "p_units p \<noteq> []"
  shows "\<exists>s. plan_synthesizer p = Some s
    \<and> (list_all (\<lambda>u. \<not> is_remote (u_target u)) (plan_proposers p)
        \<and> filter (\<lambda>t. \<not> is_remote t) (synth_pool (allowed_targets rx j cands ov)) \<noteq> []
       \<longrightarrow> \<not> is_remote (u_target s))
    \<and> (list_ex (\<lambda>u. is_remote (u_target u)) (plan_proposers p)
       \<longrightarrow> (\<forall>t \<in> u_target ` set (plan_proposers p) \<inter> set (synth_pool (allowed_targets rx j cands ov)).
              t_params_b t \<le> t_params_b (u_target s)))"
proof -
  let ?pool = "synth_pool (allowed_targets rx j cands ov)"
  let ?ts = "map u_target (plan_proposers p)"
  obtain s where s: "plan_synthesizer p = Some s" "pick_synthesizer ?pool ?ts = Some (u_target s)"
    using swarm_shape_proposers [OF swarm_plan_cases [OF assms]] by metis
  have "\<not> is_remote (u_target s)"
    if l: "list_all (\<lambda>u. \<not> is_remote (u_target u)) (plan_proposers p)"
      "filter (\<lambda>t. \<not> is_remote t) ?pool \<noteq> []"
  proof -
    have "list_all (\<lambda>t. \<not> is_remote t) ?ts" using l(1) by (simp add: list.pred_map o_def)
    then have "max_by t_tok_s (filter (\<lambda>t. \<not> is_remote t) ?pool) = Some (u_target s)"
      using s(2) l(2) by (simp add: pick_synthesizer_def Let_def split: if_splits)
    then show ?thesis using max_by_mem by fastforce
  qed
  moreover have "t_params_b t \<le> t_params_b (u_target s)"
    if r: "list_ex (\<lambda>u. is_remote (u_target u)) (plan_proposers p)"
      and t: "t \<in> u_target ` set (plan_proposers p) \<inter> set ?pool" for t
  proof -
    have "\<not> list_all (\<lambda>t. \<not> is_remote t) ?ts" using r by (auto simp: list_ex_iff list_all_iff)
    moreover have "filter (\<lambda>t. t \<in> set ?ts) ?pool \<noteq> []" using t by (auto simp: filter_empty_conv)
    ultimately have "max_by (\<lambda>t. (t_params_b t, t_tok_s t)) (filter (\<lambda>t. t \<in> set ?ts) ?pool) = Some (u_target s)"
      using s(2) by (simp add: pick_synthesizer_def Let_def split: if_splits)
    from max_by_ge [OF this, of t] t show ?thesis by (auto simp: less_eq_prod_def)
  qed
  ultimately show ?thesis using s(1) by blast
qed

theorem swarm_synthesis_placement_witness:
  "\<exists>p s. plan_job no_match (demo_job SWARM_MODEL) demo_targets False = Some p
     \<and> plan_synthesizer p = Some s \<and> 35 \<le> t_params_b (u_target s)"
proof -
  have ev: "map_option (\<lambda>p. (p_strategy p, p_units p = [],
        list_ex (\<lambda>u. is_remote (u_target u)) (plan_proposers p),
        u_target ` set (plan_proposers p) = set demo_targets))
      (plan_job no_match (demo_job SWARM_MODEL) demo_targets False) = Some (S_SWARM, False, True, True)"
    "set (synth_pool (allowed_targets no_match (demo_job SWARM_MODEL) demo_targets False)) = set demo_targets"
    by code_simp+
  then obtain p where p: "plan_job no_match (demo_job SWARM_MODEL) demo_targets False = Some p"
    "p_strategy p = S_SWARM" "p_units p \<noteq> []"
    "list_ex (\<lambda>u. is_remote (u_target u)) (plan_proposers p)"
    "u_target ` set (plan_proposers p) = set demo_targets" by auto
  have "demo_target ''qwen-35b'' ''peer'' 35 \<in> set demo_targets" by (simp add: demo_targets_def)
  moreover have "t_params_b (demo_target ''qwen-35b'' ''peer'' 35) = 35" by (simp add: demo_target_def)
  ultimately show ?thesis
    using swarm_synthesis_placement [OF p(1-3)] p(1,4,5) ev(2) by (metis Int_iff)
qed

text \<open>
  A direct plan has one unit, on an allowed candidate that is local if any allowed candidate
  is, and the fastest known among the allowed candidates equally close.
\<close>

theorem direct_prefers_local:
  assumes "plan_job rx j cands ov = Some p" "p_strategy p = S_DIRECT" "p_units p \<noteq> []"
  shows "\<exists>u. p_units p = [u] \<and> u_target u \<in> set (allowed_targets rx j cands ov)
    \<and> (\<forall>t \<in> set (allowed_targets rx j cands ov).
         (is_remote (u_target u) \<longrightarrow> is_remote t)
         \<and> (is_remote t = is_remote (u_target u) \<longrightarrow> t_tok_s t \<le> t_tok_s (u_target u)))"
proof -
  let ?E = "allowed_targets rx j cands ov"
  have E: "?E \<noteq> []" "direct_shape j (ranked ?E) p"
    using plan_job_shape [of rx j cands ov] assms
    by (auto simp: swarm_shape_def Let_def split: if_splits)
  then obtain u where u: "p_units p = [u]" "u_target u = hd (ranked ?E)"
    by (auto simp: direct_shape_def)
  have "(is_remote (u_target u) \<longrightarrow> is_remote t)
      \<and> (is_remote t = is_remote (u_target u) \<longrightarrow> t_tok_s t \<le> t_tok_s (u_target u))"
    if "t \<in> set ?E" for t
    using hd_sort_key_le [OF that, of "\<lambda>t. (is_remote t, - t_tok_s t)"]
    unfolding ranked_def [symmetric] u(2) by (auto simp: less_eq_prod_def)
  moreover have "u_target u \<in> set ?E" using E(1) by (metis u(2) hd_in_set ranked_Nil_iff set_ranked)
  ultimately show ?thesis using u(1) by blast
qed

theorem direct_prefers_local_witness:
  "\<exists>p u. plan_job no_match (demo_job ''qwen'') demo_targets False = Some p \<and> p_units p = [u]
     \<and> \<not> is_remote (u_target u)"
proof -
  have ev: "map_option (\<lambda>p. (p_strategy p, p_units p = []))
      (plan_job no_match (demo_job ''qwen'') demo_targets False) = Some (S_DIRECT, False)"
    "allowed_targets no_match (demo_job ''qwen'') demo_targets False = demo_targets"
    by code_simp+
  then obtain p where p: "plan_job no_match (demo_job ''qwen'') demo_targets False = Some p"
    "p_strategy p = S_DIRECT" "p_units p \<noteq> []" by auto
  have "demo_target ''qwen-0.5b'' ''local'' (1 / 2) \<in> set demo_targets" by (simp add: demo_targets_def)
  moreover have "\<not> is_remote (demo_target ''qwen-0.5b'' ''local'' (1 / 2))"
    by (simp add: demo_target_def is_remote_def)
  ultimately show ?thesis using direct_prefers_local [OF p] p(1) ev(2) by metis
qed

end
