(* ===== verification/Exec_Coordinator.thy ===== *)
theory Exec_Coordinator
  imports Exec_Planner
begin

text \<open>
  \<open>src/mycellm/execution/coordinator.py\<close>: running a plan. The injected runner is a parameter: what
  a unit's run ends in (a result, nothing, a cancellation or an exception) and how long it took.
  The concurrency of the fan-out is an explicit schedule: the proposers in the order in which
  \<open>as_completed\<close> delivers them, each with the number of proposer tasks not yet done at that
  moment, which is what the budget check cancels. Clocks are parameters.
\<close>

datatype run_outcome = Returned "unit_result option" | WasCancelled | Raised pystr

type_synonym runner = "work_unit \<Rightarrow> run_outcome \<times> pyfloat"

definition base_result :: "work_unit \<Rightarrow> pyfloat \<Rightarrow> unit_result" where
  "base_result u el = \<lparr>r_unit_id = u_id u, r_role = u_role u, r_target = u_target u, r_text = [],
     r_error = [], r_prompt_tokens = 0, r_completion_tokens = 0, r_elapsed_s = el,
     r_cancelled = False\<rparr>"

definition safe_run :: "runner \<Rightarrow> work_unit \<Rightarrow> unit_result" where
  "safe_run run u = (case run u of
     (Returned None, el) \<Rightarrow> (base_result u el)\<lparr>r_error := ''runner returned nothing''\<rparr>
   | (Returned (Some r), el) \<Rightarrow> r\<lparr>r_elapsed_s := el\<rparr>
   | (WasCancelled, el) \<Rightarrow> (base_result u el)\<lparr>r_cancelled := True\<rparr>
   | (Raised e, el) \<Rightarrow> (base_result u el)\<lparr>r_error := e\<rparr>)"

text \<open>The metadata of a run; \<open>None\<close> is an absent key, \<open>mt_degraded\<close> the presence of \<open>degraded\<close>.\<close>

record proposal_note =
  pn_target :: pystr
  pn_ok :: bool
  pn_elapsed_s :: pyfloat
  pn_done :: nat
  pn_total :: nat

record run_meta =
  mt_units_ok :: nat
  mt_units_failed :: nat
  mt_served_by :: "pystr option"
  mt_proposers_planned :: "nat option"
  mt_spent :: "int option"
  mt_cancelled_for_budget :: "nat option"
  mt_failures :: "(pystr \<times> pystr) list option"
  mt_degraded :: bool
  mt_degradation :: "pystr option"
  mt_synthesized_by :: "pystr option"
  mt_proposals :: "proposal_note list option"

definition meta_of :: "nat \<Rightarrow> nat \<Rightarrow> run_meta" where
  "meta_of ok failed = \<lparr>mt_units_ok = ok, mt_units_failed = failed, mt_served_by = None,
     mt_proposers_planned = None, mt_spent = None, mt_cancelled_for_budget = None,
     mt_failures = None, mt_degraded = False, mt_degradation = None,
     mt_synthesized_by = None, mt_proposals = None\<rparr>"

record unit_run =
  ur_text :: pystr
  ur_error :: "pystr option"
  ur_prompt_tokens :: "int option"
  ur_completion_tokens :: "int option"
  ur_meta :: run_meta

section \<open>Direct plans\<close>

text \<open>\<open>plan.units[0]\<close>; \<open>execute\<close> only calls it on plans with a unit.\<close>

definition run_direct :: "runner \<Rightarrow> work_unit \<Rightarrow> unit_run" where
  "run_direct run u =
     (let res = safe_run run u in
      if \<not> result_ok res then
        \<lparr>ur_text = [], ur_error = Some (or_str (r_error res) ''inference produced no output''),
         ur_prompt_tokens = None, ur_completion_tokens = None, ur_meta = meta_of 0 1\<rparr>
      else \<lparr>ur_text = r_text res, ur_error = None, ur_prompt_tokens = Some (r_prompt_tokens res),
         ur_completion_tokens = Some (r_completion_tokens res),
         ur_meta = (meta_of 1 0)\<lparr>mt_served_by := Some (target_str (r_target res))\<rparr>\<rparr>)"

section \<open>The proposer fan-out\<close>

type_synonym schedule = "(work_unit \<times> nat) list"

fun gather_loop :: "runner \<Rightarrow> int \<Rightarrow> schedule \<Rightarrow> unit_result list \<Rightarrow> int
    \<Rightarrow> unit_result list \<times> int \<times> nat" where
  "gather_loop run budget [] results spent = (results, spent, 0)"
| "gather_loop run budget ((u, not_done) # sched) results spent =
     (let res = safe_run run u;
          results' = results @ [res];
          spent' = spent + r_completion_tokens res
      in if budget \<noteq> 0 \<and> spent' \<ge> budget then (results', spent', not_done)
         else gather_loop run budget sched results' spent')"

record gathered =
  g_good :: "unit_result list"
  g_failed :: "unit_result list"
  g_meta :: run_meta
  g_spent :: int
  g_results :: "unit_result list"

definition gather_proposals :: "runner \<Rightarrow> execution_plan \<Rightarrow> schedule \<Rightarrow> gathered" where
  "gather_proposals run plan sched =
     (let (results, spent, cancelled) = gather_loop run (p_token_budget plan) sched [] 0;
          good = filter result_ok results;
          failed = filter (\<lambda>r. \<not> result_ok r \<and> \<not> r_cancelled r) results;
          m0 = (meta_of (length good) (length failed))
                 \<lparr>mt_proposers_planned := Some (length (plan_proposers plan)), mt_spent := Some spent\<rparr>;
          m1 = (if cancelled \<noteq> 0
                then m0\<lparr>mt_cancelled_for_budget := Some cancelled, mt_degraded := True\<rparr> else m0);
          m2 = (if failed \<noteq> []
                then m1\<lparr>mt_failures := Some (map (\<lambda>r. (target_str (r_target r), take 200 (r_error r))) failed),
                        mt_degraded := True\<rparr> else m1)
      in \<lparr>g_good = good, g_failed = failed, g_meta = m2, g_spent = spent, g_results = results\<rparr>)"

text \<open>\<open>max(good, key=len(text))\<close>; the callers have at least two good results.\<close>

definition best_text :: "unit_result list \<Rightarrow> pystr" where
  "best_text good = (case max_by (\<lambda>r. length (r_text r)) good of None \<Rightarrow> [] | Some r \<Rightarrow> r_text r)"

definition no_proposer_error :: "unit_result list \<Rightarrow> pystr" where
  "no_proposer_error failed =
     (if failed \<noteq> [] then ''every proposer failed: '' @ py_join ''; '' (map (\<lambda>r. take 120 (r_error r)) failed)
      else ''no proposer produced output'')"

section \<open>Synthesis\<close>

definition nl :: pystr where "nl = [CHR 0x0A]"

definition SYNTHESIS_SYSTEM :: pystr where
  "SYNTHESIS_SYSTEM =
     ''You are given several independent answers to the same question, produced '' @
     ''by different models. Some may be wrong. Produce one best answer.'' @ nl @
     ''- Prefer claims that several answers agree on.'' @ nl @
     ''- Where they conflict, decide which is better supported and use it.'' @ nl @
     ''- Do not mention the answers, the models, or that you are merging.'' @ nl @
     ''- Answer the original question directly.''"

definition synthesis_unit :: "work_unit \<Rightarrow> job \<Rightarrow> unit_result list \<Rightarrow> work_unit" where
  "synthesis_unit template j good =
     (let question = prompt_text j;
          blocks = py_join (nl @ nl) (map (\<lambda>(i, r).
            ''[Answer '' @ str_nat (i + 1) @ '']'' @ nl @ py_strip (r_text r)) (enumerate 0 good))
      in \<lparr>u_id = u_id template, u_role = R_SYNTHESIZER, u_target = u_target template,
          u_messages = [\<lparr>m_role = ''system'', m_content = CText SYNTHESIS_SYSTEM\<rparr>,
            \<lparr>m_role = ''user'', m_content = CText (''Question:'' @ nl @ question @ nl @ nl @ blocks
               @ nl @ nl @ ''Now give the single best answer.'')\<rparr>],
          u_temperature = u_temperature template, u_max_tokens = u_max_tokens template,
          u_depends_on = []\<rparr>)"

definition run_swarm :: "runner \<Rightarrow> job \<Rightarrow> execution_plan \<Rightarrow> schedule \<Rightarrow> unit_run" where
  "run_swarm run j plan sched =
     (let g = gather_proposals run plan sched; good = g_good g; meta = g_meta g; spent = g_spent g;
          budget = p_token_budget plan;
          give = (\<lambda>m. \<lparr>ur_text = best_text good, ur_error = None, ur_prompt_tokens = None,
                     ur_completion_tokens = Some spent, ur_meta = m\<rparr>)
      in if good = [] then
           \<lparr>ur_text = [], ur_error = Some (no_proposer_error (g_failed g)), ur_prompt_tokens = None,
            ur_completion_tokens = None, ur_meta = meta\<rparr>
         else if length good = 1 then
           (let r = hd good in
            \<lparr>ur_text = r_text r, ur_error = None, ur_prompt_tokens = Some (r_prompt_tokens r),
             ur_completion_tokens = Some (r_completion_tokens r),
             ur_meta = meta\<lparr>mt_degraded := True,
               mt_degradation := Some ''one proposer survived; returned directly''\<rparr>\<rparr>)
         else case plan_synthesizer plan of
           None \<Rightarrow> give (meta\<lparr>mt_degraded := True,
               mt_degradation := Some ''no synthesizer planned; returned longest proposal''\<rparr>)
         | Some synth_unit \<Rightarrow>
             if budget \<noteq> 0 \<and> spent \<ge> budget then
               give (meta\<lparr>mt_degradation := Some ''budget exhausted before synthesis''\<rparr>)
             else let synth = safe_run run (synthesis_unit synth_unit j good) in
               if \<not> result_ok synth then
                 give (meta\<lparr>mt_degraded := True, mt_degradation :=
                   Some (''synthesis failed ('' @ take 120 (r_error synth) @ ''); returned best proposal'')\<rparr>)
               else \<lparr>ur_text = r_text synth, ur_error = None,
                     ur_prompt_tokens = Some (r_prompt_tokens synth),
                     ur_completion_tokens = Some (spent + r_completion_tokens synth),
                     ur_meta = meta\<lparr>mt_synthesized_by := Some (target_str (r_target synth)),
                       mt_spent := Some (spent + r_completion_tokens synth)\<rparr>\<rparr>)"

section \<open>Executing a plan\<close>

record job_meta =
  md_plan :: plan_doc
  md_run :: "run_meta option"
  md_elapsed_s :: "pyfloat option"

record job_result =
  jr_text :: pystr
  jr_error :: "pystr option"
  jr_prompt_tokens :: "int option"
  jr_completion_tokens :: "int option"
  jr_meta :: job_meta

definition execute_plan :: "runner \<Rightarrow> job \<Rightarrow> execution_plan \<Rightarrow> schedule \<Rightarrow> pyfloat \<Rightarrow> job_result" where
  "execute_plan run j plan sched elapsed =
     (case p_units plan of
        [] \<Rightarrow> \<lparr>jr_text = [], jr_error = Some (or_str (py_join ''; '' (p_reasons plan)) ''no executable target''),
               jr_prompt_tokens = None, jr_completion_tokens = None,
               jr_meta = \<lparr>md_plan = plan_to_dict plan, md_run = None, md_elapsed_s = None\<rparr>\<rparr>
      | u # _ \<Rightarrow>
          (let res = (if p_strategy plan = S_SWARM then run_swarm run j plan sched else run_direct run u)
           in \<lparr>jr_text = ur_text res, jr_error = ur_error res, jr_prompt_tokens = ur_prompt_tokens res,
               jr_completion_tokens = ur_completion_tokens res,
               jr_meta = \<lparr>md_plan = plan_to_dict plan, md_run = Some (ur_meta res),
                          md_elapsed_s = Some elapsed\<rparr>\<rparr>))"

section \<open>Streaming\<close>

text \<open>
  What the streaming runner yields for a unit: text fragments, then the end of the iterator, a
  cancellation or an exception. Cancellation is re-raised: the second component of
  \<open>execute_stream\<close>.
\<close>

datatype stream_end = StreamFinished | StreamCancelled | StreamRaised pystr

type_synonym stream_runner = "work_unit \<Rightarrow> pystr list \<times> stream_end"

datatype event =
    EvProposing nat "pystr list"
  | EvSynthesizing pystr nat
  | EvText pystr
  | EvDone job_meta
  | EvError pystr job_meta

definition note_proposals :: "unit_result list \<Rightarrow> nat \<Rightarrow> proposal_note list" where
  "note_proposals results planned = map (\<lambda>(i, r).
     \<lparr>pn_target = target_str (r_target r), pn_ok = result_ok r, pn_elapsed_s = r_elapsed_s r,
      pn_done = i + 1, pn_total = planned\<rparr>) (enumerate 0 results)"

definition execute_stream :: "runner \<Rightarrow> stream_runner option \<Rightarrow> job \<Rightarrow> execution_plan \<Rightarrow> schedule
    \<Rightarrow> pyfloat \<Rightarrow> event list \<times> bool" where
  "execute_stream run srun j plan sched elapsed =
     (case p_units plan of
        [] \<Rightarrow> ([EvError (or_str (py_join ''; '' (p_reasons plan)) ''no executable target'')
                 \<lparr>md_plan = plan_to_dict plan, md_run = None, md_elapsed_s = None\<rparr>], False)
      | u0 # _ \<Rightarrow>
        let plan_meta = (\<lambda>m el. \<lparr>md_plan = plan_to_dict plan, md_run = Some m, md_elapsed_s = el\<rparr>) in
        if p_strategy plan \<noteq> S_SWARM then
          (let res = run_direct run u0 in
           case ur_error res of
             Some e \<Rightarrow> if e \<noteq> [] then ([EvError e (plan_meta (ur_meta res) None)], False)
                       else ([EvText (ur_text res), EvDone (plan_meta (ur_meta res) (Some elapsed))], False)
           | None \<Rightarrow> ([EvText (ur_text res), EvDone (plan_meta (ur_meta res) (Some elapsed))], False))
        else
          let g = gather_proposals run plan sched; good = g_good g; spent = g_spent g;
              budget = p_token_budget plan;
              meta = (g_meta g)\<lparr>mt_proposals :=
                Some (note_proposals (g_results g) (length (plan_proposers plan)))\<rparr>;
              finish = (\<lambda>m. EvDone (plan_meta m (Some elapsed)));
              salvage = (\<lambda>text why. [EvText text,
                finish (meta\<lparr>mt_degraded := True, mt_degradation := Some why\<rparr>)]);
              start = EvProposing (length (plan_proposers plan))
                (map (\<lambda>u. target_str (u_target u)) (plan_proposers plan))
          in if good = [] then
               ([start, EvError (no_proposer_error (g_failed g)) (plan_meta meta None)], False)
             else if length good = 1 then
               (start # salvage (r_text (hd good)) ''one proposer survived; returned directly'', False)
             else case plan_synthesizer plan of
               None \<Rightarrow> (start # salvage (best_text good)
                          ''no synthesizer planned; returned longest proposal'', False)
             | Some synth_unit \<Rightarrow>
               if budget \<noteq> 0 \<and> spent \<ge> budget then
                 (start # salvage (best_text good) ''budget exhausted before synthesis'', False)
               else
                 let u = synthesis_unit synth_unit j good;
                     synthesizing = EvSynthesizing (target_str (u_target u)) (length good)
                 in case srun of
                   None \<Rightarrow>
                     (let synth = safe_run run u in
                      if \<not> result_ok synth then
                        (start # synthesizing # salvage (best_text good)
                          (''synthesis failed ('' @ take 120 (r_error synth) @ ''); returned best proposal''), False)
                      else ([start, synthesizing, EvText (r_text synth),
                             finish (meta\<lparr>mt_synthesized_by := Some (target_str (r_target synth)),
                               mt_spent := Some (spent + r_completion_tokens synth)\<rparr>)], False))
                 | Some stream \<Rightarrow>
                     (let (fragments, ending) = stream u;
                          shown = filter (\<lambda>f. f \<noteq> []) fragments;
                          emitted = concat shown;
                          body = start # synthesizing # map EvText shown
                      in case ending of
                           StreamCancelled \<Rightarrow> (body, True)
                         | StreamRaised e \<Rightarrow>
                             if emitted \<noteq> [] then
                               (body @ [finish (meta\<lparr>mt_degraded := True, mt_degradation :=
                                  Some (''synthesis stream broke after partial output ('' @ e @ '')'')\<rparr>)], False)
                             else (body @ salvage (best_text good)
                               (''synthesis failed ('' @ take 120 e @ ''); returned best proposal''), False)
                         | StreamFinished \<Rightarrow>
                             if emitted = [] then
                               (body @ salvage (best_text good)
                                 ''synthesis produced no output; returned best proposal'', False)
                             else (body @ [finish (meta\<lparr>mt_synthesized_by :=
                                     Some (target_str (u_target u))\<rparr>)], False)))"

definition event_text :: "event \<Rightarrow> pystr" where
  "event_text e = (case e of EvText s \<Rightarrow> s | _ \<Rightarrow> [])"

definition streamed_text :: "event list \<Rightarrow> pystr" where
  "streamed_text es = concat (map event_text es)"

definition is_error_event :: "event \<Rightarrow> bool" where
  "is_error_event e = (case e of EvError _ _ \<Rightarrow> True | _ \<Rightarrow> False)"

section \<open>The fan-out loop\<close>

definition consumed :: "runner \<Rightarrow> nat \<Rightarrow> schedule \<Rightarrow> unit_result list" where
  "consumed run k sched = map (\<lambda>p. safe_run run (fst p)) (take k sched)"

definition spent_by :: "unit_result list \<Rightarrow> int" where
  "spent_by rs = sum_list (map r_completion_tokens rs)"

lemma gather_loop_spec:
  assumes "gather_loop run b sched rs s = (rs', s', c)"
  shows "\<exists>k \<le> length sched. rs' = rs @ consumed run k sched \<and> s' = s + spent_by (consumed run k sched)
     \<and> (\<forall>i < k. 0 < i \<longrightarrow> b = 0 \<or> s + spent_by (consumed run i sched) < b)
     \<and> (k < length sched \<longrightarrow> b \<noteq> 0 \<and> s' \<ge> b)
     \<and> (if b \<noteq> 0 \<and> k \<noteq> 0 \<and> s' \<ge> b then c = snd (sched ! (k - 1)) else c = 0)"
  using assms
proof (induction run b sched rs s arbitrary: rs' s' c rule: gather_loop.induct)
  case (1 run b rs s)
  then show ?case by (simp add: consumed_def spent_by_def)
next
  case (2 run b u nd sched rs s)
  let ?r = "safe_run run u"
  let ?s = "s + r_completion_tokens ?r"
  show ?case
  proof (cases "b \<noteq> 0 \<and> ?s \<ge> b")
    case True
    then show ?thesis using "2.prems" by (intro exI [of _ 1]) (auto simp: consumed_def spent_by_def Let_def)
  next
    case False
    then have g: "gather_loop run b sched (rs @ [?r]) ?s = (rs', s', c)" using "2.prems" by (auto simp: Let_def)
    obtain k where k: "k \<le> length sched" "rs' = rs @ [?r] @ consumed run k sched"
      "s' = ?s + spent_by (consumed run k sched)"
      "\<forall>i < k. 0 < i \<longrightarrow> b = 0 \<or> ?s + spent_by (consumed run i sched) < b"
      "k < length sched \<longrightarrow> b \<noteq> 0 \<and> s' \<ge> b"
      "if b \<noteq> 0 \<and> k \<noteq> 0 \<and> s' \<ge> b then c = snd (sched ! (k - 1)) else c = 0"
      using "2.IH" [OF refl refl refl False g] by auto
    have c: "consumed run (Suc i) ((u, nd) # sched) = ?r # consumed run i sched" for i
      by (simp add: consumed_def)
    have "b = 0 \<or> s + spent_by (consumed run i ((u, nd) # sched)) < b" if "i < Suc k" "0 < i" for i
    proof -
      obtain n where n: "i = Suc n" using \<open>0 < i\<close> by (cases i) auto
      show ?thesis
      proof (cases "n = 0")
        case True
        then show ?thesis using False by (auto simp: n consumed_def spent_by_def)
      next
        case False
        then show ?thesis using k(4) that(1) unfolding n c by (auto simp: spent_by_def)
      qed
    qed
    moreover have "if b \<noteq> 0 \<and> Suc k \<noteq> 0 \<and> s' \<ge> b then c = snd (((u, nd) # sched) ! (Suc k - 1)) else c = 0"
      using k(6) False k(3) by (cases k) (auto simp: consumed_def spent_by_def)
    ultimately show ?thesis using k(1,2,3,5)
      by (intro exI [of _ "Suc k"] conjI) (auto simp: c spent_by_def)
  qed
qed

lemma gather_proposals_fields:
  assumes "gather_loop run (p_token_budget plan) sched [] 0 = (rs, spent, c)"
  defines "g \<equiv> gather_proposals run plan sched"
  shows "g_results g = rs" "g_good g = filter result_ok rs" "g_spent g = spent"
    "g_failed g = filter (\<lambda>r. \<not> result_ok r \<and> \<not> r_cancelled r) rs"
    "mt_degraded (g_meta g) \<longleftrightarrow> c \<noteq> 0 \<or> g_failed g \<noteq> []"
    "mt_degradation (g_meta g) = None" "mt_synthesized_by (g_meta g) = None"
    "mt_units_ok (g_meta g) = length (g_good g)" "mt_units_failed (g_meta g) = length (g_failed g)"
    "mt_spent (g_meta g) = Some spent"
  unfolding g_def gather_proposals_def assms(1) by (auto simp: meta_of_def Let_def)

lemma consumed_mem:
  "r \<in> set (consumed run k sched) \<Longrightarrow> \<exists>u \<in> fst ` set sched. r = safe_run run u"
  unfolding consumed_def by (auto dest: in_set_takeD)

lemma best_text_mem:
  assumes "good \<noteq> []"
  obtains r where "r \<in> set good" "best_text good = r_text r"
proof -
  obtain r where r: "max_by (\<lambda>r. length (r_text r)) good = Some r" using max_by_Some [OF assms] by blast
  then show ?thesis using that [OF max_by_mem [OF r]] by (simp add: best_text_def)
qed

lemma best_text_longest:
  assumes "r \<in> set good"
  shows "length (r_text r) \<le> length (best_text good)"
proof -
  obtain b where b: "max_by (\<lambda>r. length (r_text r)) good = Some b" using assms by (metis max_by_Some empty_iff empty_set)
  then show ?thesis using max_by_ge [OF b assms] by (simp add: best_text_def)
qed

lemma good_ok: "r \<in> set (g_good (gather_proposals run plan sched)) \<Longrightarrow>
    result_ok r \<and> (\<exists>u \<in> fst ` set sched. r = safe_run run u)"
proof -
  obtain rs s c where g: "gather_loop run (p_token_budget plan) sched [] 0 = (rs, s, c)"
    by (cases "gather_loop run (p_token_budget plan) sched [] 0")
  assume "r \<in> set (g_good (gather_proposals run plan sched))"
  then show ?thesis using gather_loop_spec [OF g] consumed_mem
    by (auto simp: gather_proposals_fields [OF g])
qed

lemma result_ok_text: "result_ok r \<Longrightarrow> r_text r \<noteq> []"
  by (simp add: result_ok_def)

section \<open>The outcome of a swarm, case by case\<close>

text \<open>Why a swarm returned a proposal rather than a synthesis; \<open>None\<close>: it synthesized.\<close>

definition fallback_reason :: "runner \<Rightarrow> job \<Rightarrow> execution_plan \<Rightarrow> gathered \<Rightarrow> pystr option" where
  "fallback_reason run j plan g =
     (if length (g_good g) = 1 then Some ''one proposer survived; returned directly''
      else case plan_synthesizer plan of
        None \<Rightarrow> Some ''no synthesizer planned; returned longest proposal''
      | Some su \<Rightarrow>
          if p_token_budget plan \<noteq> 0 \<and> g_spent g \<ge> p_token_budget plan
          then Some ''budget exhausted before synthesis''
          else let synth = safe_run run (synthesis_unit su j (g_good g)) in
            if result_ok synth then None
            else Some (''synthesis failed ('' @ take 120 (r_error synth) @ ''); returned best proposal''))"

definition swarm_answer :: "runner \<Rightarrow> job \<Rightarrow> execution_plan \<Rightarrow> gathered \<Rightarrow> pystr" where
  "swarm_answer run j plan g = (case fallback_reason run j plan g of
     Some why \<Rightarrow> best_text (g_good g)
   | None \<Rightarrow> (case plan_synthesizer plan of None \<Rightarrow> []
       | Some su \<Rightarrow> r_text (safe_run run (synthesis_unit su j (g_good g)))))"

lemma best_text_single: "length good = 1 \<Longrightarrow> best_text good = r_text (hd good)"
  by (cases good) (auto simp: best_text_def)

lemma run_swarm_text:
  defines "g \<equiv> \<lambda>run plan sched. gather_proposals run plan sched"
  shows "ur_text (run_swarm run j plan sched) =
    (if g_good (g run plan sched) = [] then [] else swarm_answer run j plan (g run plan sched))"
  unfolding run_swarm_def swarm_answer_def fallback_reason_def g_def Let_def
  by (auto simp: best_text_single split: option.splits)

lemma run_swarm_error:
  "ur_error (run_swarm run j plan sched) =
    (if g_good (gather_proposals run plan sched) = []
     then Some (no_proposer_error (g_failed (gather_proposals run plan sched))) else None)"
  unfolding run_swarm_def Let_def by (auto split: option.splits)

lemma run_swarm_meta:
  defines "g \<equiv> \<lambda>run plan sched. gather_proposals run plan sched"
  assumes "g_good (g run plan sched) \<noteq> []"
  shows "mt_degradation (ur_meta (run_swarm run j plan sched)) = fallback_reason run j plan (g run plan sched)"
    "mt_degraded (ur_meta (run_swarm run j plan sched)) \<longleftrightarrow>
       mt_degraded (g_meta (g run plan sched))
       \<or> fallback_reason run j plan (g run plan sched) \<notin> {None, Some ''budget exhausted before synthesis''}"
    "mt_synthesized_by (ur_meta (run_swarm run j plan sched)) = None
       \<longleftrightarrow> fallback_reason run j plan (g run plan sched) \<noteq> None"
proof -
  obtain rs s c where gl: "gather_loop run (p_token_budget plan) sched [] 0 = (rs, s, c)"
    by (cases "gather_loop run (p_token_budget plan) sched [] 0")
  note f = gather_proposals_fields [OF gl]
  show "mt_degradation (ur_meta (run_swarm run j plan sched)) = fallback_reason run j plan (g run plan sched)"
    "mt_synthesized_by (ur_meta (run_swarm run j plan sched)) = None
       \<longleftrightarrow> fallback_reason run j plan (g run plan sched) \<noteq> None"
    using assms(2) f(6,7) unfolding run_swarm_def fallback_reason_def g_def Let_def
    by (auto split: option.splits)
  show "mt_degraded (ur_meta (run_swarm run j plan sched)) \<longleftrightarrow>
       mt_degraded (g_meta (g run plan sched))
       \<or> fallback_reason run j plan (g run plan sched) \<notin> {None, Some ''budget exhausted before synthesis''}"
    using assms(2) unfolding run_swarm_def fallback_reason_def g_def Let_def
    by (auto split: option.splits)
qed

text \<open>The runs an answer may come from: units of the plan, the fan-out's units, the synthesis.\<close>

definition runnable :: "job \<Rightarrow> execution_plan \<Rightarrow> schedule \<Rightarrow> work_unit set" where
  "runnable j plan sched = set (p_units plan) \<union> fst ` set sched
     \<union> {synthesis_unit su j good | su good. su \<in> set (p_units plan)}"

lemma swarm_answer_genuine:
  assumes "g_good (gather_proposals run plan sched) \<noteq> []"
  shows "\<exists>u \<in> runnable j plan sched. result_ok (safe_run run u)
    \<and> swarm_answer run j plan (gather_proposals run plan sched) = r_text (safe_run run u)"
proof (cases "fallback_reason run j plan (gather_proposals run plan sched)")
  case None
  then obtain su where "plan_synthesizer plan = Some su"
    "result_ok (safe_run run (synthesis_unit su j (g_good (gather_proposals run plan sched))))"
    by (auto simp: fallback_reason_def Let_def split: if_splits option.splits)
  then show ?thesis using None plan_synthesizerD [of plan su]
    by (auto simp: swarm_answer_def runnable_def)
next
  case (Some why)
  obtain r where r: "r \<in> set (g_good (gather_proposals run plan sched))"
    "best_text (g_good (gather_proposals run plan sched)) = r_text r"
    by (rule best_text_mem [OF assms])
  then show ?thesis using good_ok [OF r(1)] Some by (auto simp: swarm_answer_def runnable_def)
qed

lemma run_direct_spec:
  "ur_error (run_direct run u) = None \<longleftrightarrow> result_ok (safe_run run u)"
  "ur_text (run_direct run u) = (if result_ok (safe_run run u) then r_text (safe_run run u) else [])"
  "ur_error (run_direct run u) \<noteq> Some []"
  by (auto simp: run_direct_def Let_def or_str_def)

section \<open>Properties\<close>

definition answer :: "work_unit \<Rightarrow> pystr \<Rightarrow> int \<Rightarrow> run_outcome \<times> pyfloat" where
  "answer u s n = (Returned (Some ((base_result u 0)\<lparr>r_text := s, r_completion_tokens := n\<rparr>)), 1)"

text \<open>A remote proposer fails, everything else answers.\<close>

definition demo_run :: runner where
  "demo_run u = (if u_role u = R_PROPOSER \<and> is_remote (u_target u) then (Raised ''peer died'', 1)
     else answer u ''scattering'' 40)"

definition all_answer :: runner where
  "all_answer u = answer u ''scattering'' 40"

definition demo_plan :: execution_plan where
  "demo_plan = (case plan_job no_match (demo_job SWARM_MODEL) demo_targets False of
     Some p \<Rightarrow> p | None \<Rightarrow> \<lparr>p_job_id = [], p_strategy = S_DIRECT, p_units = [], p_reasons = [],
       p_rejected = [], p_token_budget = 0\<rparr>)"

definition demo_schedule :: schedule where
  "demo_schedule = (case plan_proposers demo_plan of [a, b] \<Rightarrow> [(b, 1), (a, 0)] | _ \<Rightarrow> [])"



text \<open>
  A proposer failure is not a job failure, and neither is a synthesis failure: a swarm job
  fails exactly when none of the consumed proposers succeeded, and when it does not synthesize it
  returns a longest successful proposal.
\<close>

theorem swarm_survives_failures:
  fixes run :: runner and j :: job and plan :: execution_plan and sched :: schedule and el :: pyfloat
  assumes "p_strategy plan = S_SWARM" "p_units plan \<noteq> []"
  defines "g \<equiv> gather_proposals run plan sched" and "r \<equiv> execute_plan run j plan sched el"
  shows "(jr_error r = None \<longleftrightarrow> filter result_ok (g_results g) \<noteq> [])
    \<and> (fallback_reason run j plan g \<noteq> None \<longrightarrow>
        (\<forall>p \<in> set (filter result_ok (g_results g)). length (r_text p) \<le> length (jr_text r)))"
proof -
  obtain rs s c where gl: "gather_loop run (p_token_budget plan) sched [] 0 = (rs, s, c)"
    by (cases "gather_loop run (p_token_budget plan) sched [] 0")
  have good: "g_good g = filter result_ok (g_results g)"
    using gather_proposals_fields(1,2) [OF gl] by (simp add: g_def)
  have r: "jr_text r = ur_text (run_swarm run j plan sched)"
    "jr_error r = ur_error (run_swarm run j plan sched)"
    using assms(1,2) by (simp_all add: r_def execute_plan_def Let_def split: list.splits)
  show ?thesis
    unfolding r run_swarm_text run_swarm_error g_def [symmetric] good [symmetric]
    by (auto simp: swarm_answer_def dest: best_text_longest)
qed

theorem swarm_survives_failures_witness:
  "jr_error (execute_plan demo_run (demo_job SWARM_MODEL) demo_plan demo_schedule 1) = None"
proof -
  have h: "p_strategy demo_plan = S_SWARM" "p_units demo_plan \<noteq> []"
    "filter result_ok (g_results (gather_proposals demo_run demo_plan demo_schedule)) \<noteq> []"
    by code_simp+
  show ?thesis using swarm_survives_failures [OF h(1,2), of demo_run "demo_job SWARM_MODEL" demo_schedule 1] h(3)
    by blast
qed

text \<open>
  The token budget is a ceiling on what is started, not a hint: the fan-out consumes a prefix of
  the arrivals, every shorter prefix of which stayed below the budget, it leaves proposers
  unconsumed only once the budget is spent, and synthesis runs only below it.
\<close>

theorem token_budget_ceiling:
  fixes run :: runner and j :: job and plan :: execution_plan and sched :: schedule
  assumes "p_token_budget plan \<noteq> 0"
  defines "g \<equiv> gather_proposals run plan sched"
  shows "\<exists>k \<le> length sched. g_results g = consumed run k sched \<and> g_spent g = spent_by (consumed run k sched)
    \<and> (\<forall>i < k. 0 < i \<longrightarrow> spent_by (consumed run i sched) < p_token_budget plan)
    \<and> (k < length sched \<longrightarrow> p_token_budget plan \<le> g_spent g)
    \<and> (mt_synthesized_by (ur_meta (run_swarm run j plan sched)) \<noteq> None
         \<longrightarrow> g_spent g < p_token_budget plan)"
proof -
  obtain rs s c where gl: "gather_loop run (p_token_budget plan) sched [] 0 = (rs, s, c)"
    by (cases "gather_loop run (p_token_budget plan) sched [] 0")
  note f = gather_proposals_fields [OF gl]
  obtain k where k: "k \<le> length sched" "rs = consumed run k sched" "s = spent_by (consumed run k sched)"
    "\<forall>i < k. 0 < i \<longrightarrow> spent_by (consumed run i sched) < p_token_budget plan"
    "k < length sched \<longrightarrow> p_token_budget plan \<le> s"
    using gather_loop_spec [OF gl] assms(1) by auto
  have "g_spent g < p_token_budget plan"
    if syn: "mt_synthesized_by (ur_meta (run_swarm run j plan sched)) \<noteq> None"
  proof (cases "g_good g = []")
    case True
    then have "ur_meta (run_swarm run j plan sched) = g_meta g"
      by (simp add: run_swarm_def g_def Let_def)
    then show ?thesis using syn f(7) by (simp add: g_def)
  next
    case False
    then have "fallback_reason run j plan g = None"
      using run_swarm_meta(3) [of run plan sched j] syn by (auto simp: g_def)
    then show ?thesis using assms(1)
      by (auto simp: fallback_reason_def not_le split: if_splits option.splits)
  qed
  then show ?thesis using k f(1,3) by (auto simp: g_def)
qed

theorem token_budget_ceiling_witness:
  "\<exists>k \<le> 2. g_results (gather_proposals all_answer (demo_plan\<lparr>p_token_budget := 30\<rparr>) demo_schedule)
     = consumed all_answer k demo_schedule"
proof -
  have "length demo_schedule = 2" by code_simp
  then show ?thesis
    using token_budget_ceiling [where plan = "demo_plan\<lparr>p_token_budget := 30\<rparr>" and run = all_answer
        and sched = demo_schedule and j = "demo_job SWARM_MODEL"]
    by auto
qed

text \<open>
  A degraded swarm says so, with one exception: the metadata of an answered swarm carries
  \<open>degraded\<close> exactly when a consumed proposer failed, a proposer was cancelled for the budget, or
  the answer is not a synthesis for a reason other than an exhausted budget, and the reason is
  always named in \<open>degradation\<close>.
\<close>

theorem degradation_reported:
  fixes run :: runner and j :: job and plan :: execution_plan and sched :: schedule
  assumes "g_good (gather_proposals run plan sched) \<noteq> []"
  defines "g \<equiv> gather_proposals run plan sched" and "m \<equiv> ur_meta (run_swarm run j plan sched)"
  shows "(mt_degraded m \<longleftrightarrow> g_failed g \<noteq> [] \<or> snd (snd (gather_loop run (p_token_budget plan) sched [] 0)) \<noteq> 0
           \<or> fallback_reason run j plan g \<notin> {None, Some ''budget exhausted before synthesis''})
    \<and> mt_degradation m = fallback_reason run j plan g
    \<and> (mt_synthesized_by m = None \<longleftrightarrow> mt_degradation m \<noteq> None)"
proof -
  obtain rs s c where gl: "gather_loop run (p_token_budget plan) sched [] 0 = (rs, s, c)"
    by (cases "gather_loop run (p_token_budget plan) sched [] 0")
  show ?thesis
    using run_swarm_meta [OF assms(1), of j] gather_proposals_fields(5) [OF gl]
    by (auto simp: g_def m_def gl)
qed

theorem degradation_reported_witness:
  "mt_degraded (ur_meta (run_swarm demo_run (demo_job SWARM_MODEL) demo_plan demo_schedule))"
proof -
  have h: "g_good (gather_proposals demo_run demo_plan demo_schedule) \<noteq> []"
    "g_failed (gather_proposals demo_run demo_plan demo_schedule) \<noteq> []" by code_simp+
  show ?thesis using degradation_reported [OF h(1), where j = "demo_job SWARM_MODEL"] h(2) by blast
qed

text \<open>
  The exception of C13 at a concrete run: both proposers answer and spend the budget, the swarm
  returns the longest proposal without synthesizing, and its metadata carries no \<open>degraded\<close>
  although the streaming path flags the same run.
\<close>

lemma budget_exhaustion_unflagged:
  "\<not> mt_degraded (ur_meta (run_swarm all_answer (demo_job SWARM_MODEL)
        (demo_plan\<lparr>p_token_budget := 80\<rparr>) demo_schedule))
   \<and> mt_synthesized_by (ur_meta (run_swarm all_answer (demo_job SWARM_MODEL)
        (demo_plan\<lparr>p_token_budget := 80\<rparr>) demo_schedule)) = None"
  by code_simp


text \<open>
  A streamed swarm never shows two answers: with a streaming runner, the text a client sees is
  the concatenation of the synthesis fragments if there is any, and otherwise one salvaged
  proposal, never a proposal after partial synthesis.
\<close>

theorem stream_never_two_answers:
  fixes run :: runner and j :: job and plan :: execution_plan and sched :: schedule and el :: pyfloat
  assumes "p_strategy plan = S_SWARM" "plan_synthesizer plan = Some su"
    "1 < length (g_good (gather_proposals run plan sched))"
    "p_token_budget plan = 0 \<or> g_spent (gather_proposals run plan sched) < p_token_budget plan"
    "stream (synthesis_unit su j (g_good (gather_proposals run plan sched))) = (fragments, ending)"
  shows "streamed_text (fst (execute_stream run (Some stream) j plan sched el)) =
      (if concat fragments \<noteq> [] \<or> ending = StreamCancelled then concat fragments
       else best_text (g_good (gather_proposals run plan sched)))
    \<and> (snd (execute_stream run (Some stream) j plan sched el) \<longleftrightarrow> ending = StreamCancelled)"
proof -
  have "p_units plan \<noteq> []" using assms(2) plan_synthesizerD by fastforce
  then obtain u us where u: "p_units plan = u # us" by (cases "p_units plan") auto
  have c: "concat (filter (\<lambda>f. f \<noteq> []) xs) = concat xs" for xs :: "pystr list"
    by (induction xs) auto
  have t: "concat (map (event_text \<circ> EvText) xs) = concat xs" for xs
    by (induction xs) (auto simp: event_text_def)
  have n: "g_good (gather_proposals run plan sched) \<noteq> []"
    "length (g_good (gather_proposals run plan sched)) \<noteq> 1" using assms(3) by auto
  show ?thesis
    using assms n c t
    by (cases ending) (auto simp: execute_stream_def u streamed_text_def Let_def event_text_def)
qed

definition demo_stream :: stream_runner where
  "demo_stream u = ([''Ray'', [], ''leigh''], StreamRaised ''reset'')"

theorem stream_never_two_answers_witness:
  "streamed_text (fst (execute_stream all_answer (Some demo_stream) (demo_job SWARM_MODEL)
     demo_plan demo_schedule 1)) = ''Rayleigh''"
proof -
  have h: "p_strategy demo_plan = S_SWARM" "1 < length (g_good (gather_proposals all_answer demo_plan demo_schedule))"
    "p_token_budget demo_plan = 0" "plan_synthesizer demo_plan \<noteq> None" by code_simp+
  then obtain su where su: "plan_synthesizer demo_plan = Some su" by blast
  show ?thesis
    using stream_never_two_answers [OF h(1) su h(2) disjI1 [OF h(3)],
      where stream = demo_stream and j = "demo_job SWARM_MODEL" and el = 1
        and fragments = "[''Ray'', [], ''leigh'']" and ending = "StreamRaised ''reset''"]
    by (simp add: demo_stream_def)
qed

end
