(* ===== verification/Model_Names.thy ===== *)
theory Model_Names
  imports Prelude
begin

text \<open>
  The name heuristics of \<open>src/mycellm/router/model_resolver.py\<close>: parameter counts, tiers and
  tags read off a model name. The three regular expressions are matched by hand: at a position,
  the greedy digit groups leave no choice that backtracking could revise, and \<open>re.search\<close> takes
  the first position that matches. Digits are the ASCII digits.
\<close>

definition is_digit :: "char \<Rightarrow> bool" where
  "is_digit c = (let n = (of_char c :: nat) in 48 \<le> n \<and> n \<le> 57)"

definition digits_value :: "pystr \<Rightarrow> nat" where
  "digits_value s = foldl (\<lambda>v c. 10 * v + (of_char c - 48)) 0 s"

text \<open>\<open>(\d+)[xX](\d+)[bB]\<close> at the current position.\<close>

definition match_moe :: "pystr \<Rightarrow> pyfloat option" where
  "match_moe s =
     (let a = takeWhile is_digit s in
      case dropWhile is_digit s of
        [] \<Rightarrow> None
      | x # r \<Rightarrow>
          let b = takeWhile is_digit r in
          (case dropWhile is_digit r of
             [] \<Rightarrow> None
           | y # _ \<Rightarrow> if a \<noteq> [] \<and> x \<in> set ''xX'' \<and> b \<noteq> [] \<and> y \<in> set ''bB''
                      then Some (of_nat (digits_value a) * of_nat (digits_value b)) else None))"

text \<open>\<open>(\d+\.?\d*)\<close> followed by a unit letter, at the current position.\<close>

definition match_decimal :: "pystr \<Rightarrow> pystr \<Rightarrow> pyfloat option" where
  "match_decimal unit s =
     (let a = takeWhile is_digit s; r = dropWhile is_digit s in
      if a = [] then None
      else case r of
        [] \<Rightarrow> None
      | c # r' \<Rightarrow>
          if c = CHR ''.'' then
            (let b = takeWhile is_digit r' in
             case dropWhile is_digit r' of
               [] \<Rightarrow> None
             | u # _ \<Rightarrow> if u \<in> set unit
                 then Some (of_nat (digits_value a) + of_nat (digits_value b) / 10 ^ length b) else None)
          else if c \<in> set unit then Some (of_nat (digits_value a)) else None)"

fun re_search :: "(pystr \<Rightarrow> 'a option) \<Rightarrow> pystr \<Rightarrow> 'a option" where
  "re_search f [] = f []"
| "re_search f (c # s) = (case f (c # s) of Some v \<Rightarrow> Some v | None \<Rightarrow> re_search f s)"

definition parse_param_count :: "pystr \<Rightarrow> pyfloat option" where
  "parse_param_count name =
     (case re_search match_moe name of
        Some v \<Rightarrow> Some v
      | None \<Rightarrow> (case re_search (match_decimal ''bB'') name of
          Some v \<Rightarrow> Some v
        | None \<Rightarrow> map_option (\<lambda>v. v / 1000) (re_search (match_decimal ''mM'') name)))"

definition estimate_param_count :: "pystr \<Rightarrow> pyfloat" where
  "estimate_param_count name = (case parse_param_count name of Some v \<Rightarrow> v | None \<Rightarrow> 7)"

definition TIER_THRESHOLDS :: "(pystr \<times> pyfloat) list" where
  "TIER_THRESHOLDS = [(''frontier'', 65), (''capable'', 13), (''fast'', 3), (''tiny'', 0)]"

definition derive_tier :: "pyfloat \<Rightarrow> pystr" where
  "derive_tier p = (case find (\<lambda>(tier, threshold). p \<ge> threshold) TIER_THRESHOLDS of
     Some (tier, _) \<Rightarrow> tier | None \<Rightarrow> ''tiny'')"

definition TIER_RANK :: "(pystr, nat) dict" where
  "TIER_RANK = [(''frontier'', 4), (''capable'', 3), (''fast'', 2), (''tiny'', 1)]"

text \<open>The cached host platform is a parameter \<open>plat\<close>.\<close>

definition backend_efficiency :: "pystr \<Rightarrow> pystr \<Rightarrow> pyfloat" where
  "backend_efficiency plat backend =
     (if plat = ''darwin-arm64'' then (if backend = ''mlx'' then 130 / 100 else 1)
      else if plat = ''linux'' then (if backend = ''llama.cpp'' then 105 / 100 else 1)
      else 1)"

definition EMBEDDING_FAMILIES :: "pystr list" where
  "EMBEDDING_FAMILIES = [''embed'', ''minilm'', ''bge-'', ''gte-'', ''e5-'', ''mxbai'', ''mpnet'',
     ''sentence-t5'', ''paraphrase-'', ''stella-'']"

definition after_last_slash :: "pystr \<Rightarrow> pystr" where
  "after_last_slash s = rev (takeWhile (\<lambda>c. c \<noteq> CHR ''/'') (rev s))"

definition remove_suffix :: "pystr \<Rightarrow> pystr \<Rightarrow> pystr" where
  "remove_suffix suf s = (if suf \<noteq> [] \<and> py_startswith (rev s) (rev suf)
     then take (length s - length suf) s else s)"

definition is_embedding_model_name :: "pystr \<Rightarrow> bool" where
  "is_embedding_model_name name =
     (let stem = remove_suffix ''.gguf'' (py_lower (after_last_slash name))
      in list_ex (py_contains stem) EMBEDDING_FAMILIES)"

definition derive_tags :: "pystr \<Rightarrow> pystr list" where
  "derive_tags name =
     (let l = py_lower name;
          any = (\<lambda>ks. list_ex (py_contains l) ks);
          tags = [''chat'']
            @ (if any [''code'', ''coder'', ''starcoder'', ''deepseek-coder'', ''codellama''] then [''code''] else [])
            @ (if any [''reason'', ''think'', ''r1'', ''qwq'', ''o1'', ''o3''] then [''reasoning''] else [])
            @ (if any [''vision'', ''vl'', ''llava'', ''pixtral''] then [''vision''] else [])
      in if is_embedding_model_name name then [''embedding''] else tags)"

definition derive_capability_tags :: "pystr \<Rightarrow> pystr \<Rightarrow> pystr list" where
  "derive_capability_tags name backend =
     (if backend = ''mlx-embeddings'' then [''embedding''] else derive_tags name)"

section \<open>Tiers\<close>

definition tier_rank :: "pystr \<Rightarrow> nat" where
  "tier_rank t = dict_get TIER_RANK t 0"

lemma derive_tier_if:
  "derive_tier p = (if p \<ge> 65 then ''frontier'' else if p \<ge> 13 then ''capable''
     else if p \<ge> 3 then ''fast'' else ''tiny'')"
  by (simp add: derive_tier_def TIER_THRESHOLDS_def)

lemma tier_rank_simps [simp]:
  "tier_rank ''frontier'' = 4" "tier_rank ''capable'' = 3" "tier_rank ''fast'' = 2" "tier_rank ''tiny'' = 1"
  by (simp_all add: tier_rank_def TIER_RANK_def dict_get_def)

lemma tier_rank_derive:
  "tier_rank (derive_tier p) = (if p \<ge> 65 then 4 else if p \<ge> 13 then 3 else if p \<ge> 3 then 2 else 1)"
  by (simp add: derive_tier_if)

lemma tier_rank_mono: "a \<le> b \<Longrightarrow> tier_rank (derive_tier a) \<le> tier_rank (derive_tier b)"
  by (simp add: tier_rank_derive)

lemma tier_rank_cases: "tier_rank t \<noteq> 0 \<Longrightarrow> t \<in> {''frontier'', ''capable'', ''fast'', ''tiny''}"
  by (simp add: tier_rank_def TIER_RANK_def dict_get_def split: if_splits)

lemma derive_tags_cases: "is_embedding_model_name n \<Longrightarrow> derive_tags n = [''embedding'']"
  "\<not> is_embedding_model_name n \<Longrightarrow> ''chat'' \<in> set (derive_tags n) \<and> ''embedding'' \<notin> set (derive_tags n)"
  by (auto simp: derive_tags_def Let_def)


lemma re_search_nonneg:
  fixes v :: pyfloat
  assumes "\<And>s v. f s = Some v \<Longrightarrow> 0 \<le> v" "re_search f s = Some v" shows "0 \<le> v"
  using assms(2) by (induction s) (auto split: option.splits dest: assms(1))

lemma match_nonneg: "match_moe s = Some v \<Longrightarrow> 0 \<le> v" "match_decimal u s = Some v \<Longrightarrow> 0 \<le> v"
  by (auto simp: match_moe_def match_decimal_def Let_def split: list.splits if_splits)

lemma parse_nonneg: "parse_param_count s = Some v \<Longrightarrow> 0 \<le> v"
  unfolding parse_param_count_def
  by (auto split: option.splits dest: re_search_nonneg [rotated] intro: match_nonneg)

end
