(* ===== verification/Job_Queue.thy ===== *)
theory Job_Queue
  imports Exec_Coordinator Model_Names
begin

text \<open>
  \<open>src/mycellm/execution/queue.py\<close>: the persistent job queue. The table \<open>queued_jobs\<close> is the list of
  its rows in insertion order; a row is a \<open>QueuedJob\<close> (\<open>_from_row\<close> copies field by field, the state
  string being the value of the enum). An \<open>UPDATE ... WHERE\<close> rewrites the rows its condition selects
  and its row count is their number; \<open>ORDER BY created_at\<close> is taken to be stable on ties. Each
  method's \<open>time.time()\<close> is a parameter \<open>now\<close>.
\<close>

definition AGE_BONUS_PER_HOUR :: pyfloat where "AGE_BONUS_PER_HOUR = 10"
definition DEFAULT_TTL_S :: pyfloat where "DEFAULT_TTL_S = 24 * 3600"

datatype job_state = QUEUED | RUNNING | DONE | FAILED | EXPIRED | CANCELLED

definition terminal :: "job_state \<Rightarrow> bool" where
  "terminal s = (s \<in> {DONE, FAILED, EXPIRED, CANCELLED})"

record queued_job =
  q_job_id :: pystr
  q_messages :: "message list"
  q_owner_id :: pystr
  q_model :: pystr
  q_min_tier :: pystr
  q_trust :: pystr
  q_temperature :: pyfloat
  q_max_tokens :: int
  q_token_budget :: int
  q_fanout :: int
  q_state :: job_state
  q_stake :: pyfloat
  q_waiting_reason :: pystr
  q_created_at :: pyfloat
  q_updated_at :: pyfloat
  q_started_at :: pyfloat
  q_finished_at :: pyfloat
  q_expires_at :: pyfloat
  q_attempts :: int
  q_result_text :: pystr
  q_error :: pystr
  q_served_by :: pystr
  q_served_model :: pystr
  q_meta :: "job_meta option"

definition age_s :: "queued_job \<Rightarrow> pyfloat \<Rightarrow> pyfloat" where
  "age_s q now = max 0 (now - q_created_at q)"

definition priority :: "queued_job \<Rightarrow> pyfloat \<Rightarrow> pyfloat" where
  "priority q now = q_stake q + AGE_BONUS_PER_HOUR * (age_s q now / 3600)"

definition to_job :: "queued_job \<Rightarrow> pystr list option \<Rightarrow> job" where
  "to_job q nets = \<lparr>j_id = q_job_id q, j_model = q_model q, j_messages = q_messages q,
     j_temperature = q_temperature q, j_max_tokens = q_max_tokens q, j_network_ids = nets,
     j_token_budget = q_token_budget q, j_trust = q_trust q, j_fanout = q_fanout q\<rparr>"

definition is_own :: "queued_job \<Rightarrow> pystr \<Rightarrow> bool" where
  "is_own q owner = ((owner \<noteq> [] \<and> q_owner_id q = owner) \<or> q_owner_id q = [])"

definition job_sort_key :: "pystr \<Rightarrow> pyfloat \<Rightarrow> queued_job \<Rightarrow> nat \<times> pyfloat \<times> pyfloat" where
  "job_sort_key owner now q = (if is_own q owner then 0 else 1, - priority q now, q_created_at q)"

definition tier_ok :: "pystr \<Rightarrow> pyfloat \<Rightarrow> bool" where
  "tier_ok min_tier params_b =
     (let floor = dict_get TIER_RANK min_tier 0 in
      if floor = 0 then True else dict_get TIER_RANK (derive_tier params_b) 0 \<ge> floor)"

definition filter_targets :: "target list \<Rightarrow> pystr \<Rightarrow> target list" where
  "filter_targets ts min_tier =
     (if min_tier = [] then ts
      else filter (\<lambda>t. case (if t_params_b t = 0 then parse_param_count (t_model t) else Some (t_params_b t)) of
             None \<Rightarrow> False | Some p \<Rightarrow> p \<noteq> 0 \<and> tier_ok min_tier p) ts)"

definition waiting_reason_for :: "queued_job \<Rightarrow> target list \<Rightarrow> target list \<Rightarrow> pystr" where
  "waiting_reason_for q ts all_ts =
     (if all_ts = [] then ''No node is serving any model right now.''
      else if q_min_tier q \<noteq> [] \<and> ts = [] then
        ''No '' @ q_min_tier q @ ''-tier model is reachable ('' @ str_nat (length all_ts)
          @ '' model(s) online below that tier).''
      else if q_model q \<noteq> [] \<and> ts = [] then
        (if q_model q = SWARM_MODEL then ''Not enough distinct models are online to form a swarm.''
         else ''No node is currently serving '' @ [CHR 0x27] @ q_model q @ [CHR 0x27] @ ''.'')
      else if ts = [] then ''No target matched this job'' @ [CHR 0x27] @ ''s constraints.''
      else [])"

section \<open>The table\<close>

type_synonym job_table = "queued_job list"

definition update_rows :: "(queued_job \<Rightarrow> bool) \<Rightarrow> (queued_job \<Rightarrow> queued_job) \<Rightarrow> job_table \<Rightarrow> job_table" where
  "update_rows P f tab = map (\<lambda>r. if P r then f r else r) tab"

definition row_count :: "(queued_job \<Rightarrow> bool) \<Rightarrow> job_table \<Rightarrow> nat" where
  "row_count P tab = length (filter P tab)"

record submission =
  s_messages :: "message list"
  s_owner_id :: pystr
  s_model :: pystr
  s_min_tier :: pystr
  s_trust :: pystr
  s_temperature :: pyfloat
  s_max_tokens :: int
  s_token_budget :: int
  s_fanout :: int
  s_stake :: pyfloat
  s_ttl_s :: pyfloat

text \<open>
  \<open>submit\<close>: \<open>new_id\<close> is the fresh identifier; the primary key makes inserting an existing one raise
  (\<open>None\<close>).
\<close>

definition new_job :: "pystr \<Rightarrow> pystr \<Rightarrow> pyfloat \<Rightarrow> submission \<Rightarrow> queued_job" where
  "new_job queue_owner new_id now s =
     \<lparr>q_job_id = new_id, q_messages = s_messages s, q_owner_id = or_str (s_owner_id s) queue_owner,
      q_model = s_model s, q_min_tier = s_min_tier s, q_trust = s_trust s,
      q_temperature = s_temperature s, q_max_tokens = s_max_tokens s,
      q_token_budget = s_token_budget s, q_fanout = s_fanout s, q_state = QUEUED,
      q_stake = max 0 (s_stake s), q_waiting_reason = [], q_created_at = now, q_updated_at = now,
      q_started_at = 0, q_finished_at = 0,
      q_expires_at = (if s_ttl_s s > 0 then now + s_ttl_s s else 0), q_attempts = 0,
      q_result_text = [], q_error = [], q_served_by = [], q_served_model = [], q_meta = None\<rparr>"

definition submit :: "pystr \<Rightarrow> pystr \<Rightarrow> pyfloat \<Rightarrow> submission \<Rightarrow> job_table
    \<Rightarrow> (queued_job \<times> job_table) option" where
  "submit queue_owner new_id now s tab =
     (let q = new_job queue_owner new_id now s in
      if new_id \<in> q_job_id ` set tab then None else Some (q, tab @ [q]))"

definition claimable :: "pystr \<Rightarrow> queued_job \<Rightarrow> bool" where
  "claimable i q = (q_job_id q = i \<and> q_state q = QUEUED)"

definition claim :: "pystr \<Rightarrow> pyfloat \<Rightarrow> job_table \<Rightarrow> bool \<times> job_table" where
  "claim i now tab =
     (row_count (claimable i) tab \<noteq> 0,
      update_rows (claimable i) (\<lambda>q. q\<lparr>q_state := RUNNING, q_started_at := now, q_updated_at := now,
        q_attempts := q_attempts q + 1, q_waiting_reason := []\<rparr>) tab)"

record outcome =
  o_state :: job_state
  o_text :: pystr
  o_error :: pystr
  o_served_by :: pystr
  o_served_model :: pystr
  o_meta :: "job_meta option"

definition finish :: "pystr \<Rightarrow> pyfloat \<Rightarrow> outcome \<Rightarrow> job_table \<Rightarrow> job_table" where
  "finish i now r tab = update_rows (\<lambda>q. q_job_id q = i)
     (\<lambda>q. q\<lparr>q_state := o_state r, q_finished_at := now, q_updated_at := now,
        q_result_text := o_text r, q_error := o_error r, q_served_by := o_served_by r,
        q_served_model := o_served_model r, q_meta := o_meta r\<rparr>) tab"

definition requeue :: "pystr \<Rightarrow> pyfloat \<Rightarrow> pystr \<Rightarrow> job_table \<Rightarrow> job_table" where
  "requeue i now reason tab = update_rows (\<lambda>q. q_job_id q = i \<and> q_state q = RUNNING)
     (\<lambda>q. q\<lparr>q_state := QUEUED, q_updated_at := now, q_started_at := 0,
        q_waiting_reason := reason, q_attempts := q_attempts q - 1\<rparr>) tab"

definition note_waiting :: "pystr \<Rightarrow> pyfloat \<Rightarrow> pystr \<Rightarrow> job_table \<Rightarrow> job_table" where
  "note_waiting i now reason tab = update_rows (\<lambda>q. q_job_id q = i \<and> q_state q = QUEUED)
     (\<lambda>q. q\<lparr>q_waiting_reason := reason, q_updated_at := now\<rparr>) tab"

definition cancellable :: "pystr \<Rightarrow> queued_job \<Rightarrow> bool" where
  "cancellable i q = (q_job_id q = i \<and> q_state q \<in> {QUEUED, RUNNING})"

definition cancel :: "pystr \<Rightarrow> pyfloat \<Rightarrow> job_table \<Rightarrow> bool \<times> job_table" where
  "cancel i now tab =
     (row_count (cancellable i) tab \<noteq> 0,
      update_rows (cancellable i)
        (\<lambda>q. q\<lparr>q_state := CANCELLED, q_finished_at := now, q_updated_at := now\<rparr>) tab)"

definition due :: "pyfloat \<Rightarrow> queued_job \<Rightarrow> bool" where
  "due now q = (q_state q = QUEUED \<and> q_expires_at q > 0 \<and> q_expires_at q \<le> now)"

definition expire_due :: "pyfloat \<Rightarrow> job_table \<Rightarrow> pystr list \<times> job_table" where
  "expire_due now tab =
     (let ids = map q_job_id (filter (due now) tab) in
      (ids, if ids = [] then tab
            else update_rows (\<lambda>q. q_job_id q \<in> set ids)
              (\<lambda>q. q\<lparr>q_state := EXPIRED, q_finished_at := now, q_updated_at := now,
                 q_error := ''Deadline passed before any device could run it.''\<rparr>) tab))"

definition stale :: "pyfloat \<Rightarrow> pyfloat \<Rightarrow> queued_job \<Rightarrow> bool" where
  "stale older now q = (q_state q = RUNNING \<and> q_started_at q > 0 \<and> q_started_at q < now - older)"

definition reclaim_stale_running :: "pyfloat \<Rightarrow> pyfloat \<Rightarrow> job_table \<Rightarrow> nat \<times> job_table" where
  "reclaim_stale_running older now tab =
     (row_count (stale older now) tab,
      update_rows (stale older now) (\<lambda>q. q\<lparr>q_state := QUEUED, q_started_at := 0, q_updated_at := now,
        q_waiting_reason := ''Requeued after an interrupted run.''\<rparr>) tab)"

definition get_job :: "pystr \<Rightarrow> job_table \<Rightarrow> queued_job option" where
  "get_job i tab = find (\<lambda>q. q_job_id q = i) tab"

definition pending :: "nat \<Rightarrow> pystr \<Rightarrow> pyfloat \<Rightarrow> job_table \<Rightarrow> queued_job list" where
  "pending limit owner now tab =
     sort_key (job_sort_key owner now)
       (take limit (sort_key q_created_at (filter (\<lambda>q. q_state q = QUEUED) tab)))"

definition list_jobs :: "job_state option \<Rightarrow> pystr \<Rightarrow> nat \<Rightarrow> job_table \<Rightarrow> queued_job list" where
  "list_jobs st owner limit tab =
     take limit (sort_key (\<lambda>q. - q_created_at q)
       (filter (\<lambda>q. (case st of None \<Rightarrow> True | Some s \<Rightarrow> q_state q = s)
                  \<and> (owner = [] \<or> q_owner_id q = owner)) tab))"

definition counts :: "job_table \<Rightarrow> job_state \<Rightarrow> nat" where
  "counts tab s = length (filter (\<lambda>q. q_state q = s) tab)"

fun position_in :: "pystr \<Rightarrow> nat \<Rightarrow> queued_job list \<Rightarrow> nat" where
  "position_in i n [] = 0"
| "position_in i n (q # qs) = (if q_job_id q = i then n else position_in i (n + 1) qs)"

definition position :: "pystr \<Rightarrow> pyfloat \<Rightarrow> pystr \<Rightarrow> job_table \<Rightarrow> nat" where
  "position owner now i tab = position_in i 1 (pending 200 owner now tab)"

section \<open>Row-wise reading of the table operations\<close>

named_theorems queue_ops \<open>the table operations as row updates\<close>

lemmas [queue_ops] = claim_def finish_def requeue_def note_waiting_def cancel_def
  reclaim_stale_running_def

definition keeps_id :: "(queued_job \<Rightarrow> queued_job) \<Rightarrow> bool" where
  "keeps_id f \<longleftrightarrow> (\<forall>q. q_job_id (f q) = q_job_id q)"

definition rows_ok :: "job_table \<Rightarrow> bool" where
  "rows_ok tab \<longleftrightarrow> distinct (map q_job_id tab)"

lemma find_map_id:
  assumes "\<And>q. q_job_id (f q) = q_job_id q"
  shows "find (\<lambda>q. q_job_id q = i) (map f tab) = map_option f (find (\<lambda>q. q_job_id q = i) tab)"
  by (induction tab) (simp_all add: assms)

lemma find_none_iff_set: "find P xs = None \<longleftrightarrow> (\<forall>x \<in> set xs. \<not> P x)"
  by (induction xs) simp_all

lemma find_append_case:
  "find P (xs @ ys) = (case find P xs of Some x \<Rightarrow> Some x | None \<Rightarrow> find P ys)"
  by (induction xs) simp_all

lemma ids_update [simp]: "keeps_id f \<Longrightarrow> map q_job_id (update_rows P f tab) = map q_job_id tab"
  by (simp add: update_rows_def keeps_id_def)

lemma get_update:
  "keeps_id f \<Longrightarrow> get_job i (update_rows P f tab) = map_option (\<lambda>q. if P q then f q else q) (get_job i tab)"
  unfolding get_job_def update_rows_def by (rule find_map_id) (auto simp: keeps_id_def)

lemma get_job_SomeD: "get_job i tab = Some q \<Longrightarrow> q \<in> set tab \<and> q_job_id q = i"
  unfolding get_job_def by (auto simp: find_Some_iff in_set_conv_nth)

lemma get_job_iff:
  assumes "rows_ok tab"
  shows "get_job i tab = Some q \<longleftrightarrow> q \<in> set tab \<and> q_job_id q = i"
proof -
  have "find (\<lambda>q. q_job_id q = i) tab = Some q"
    if "distinct (map q_job_id tab)" "q \<in> set tab" "q_job_id q = i" for tab
    using that by (induction tab) (auto simp: image_iff)
  then have "get_job i tab = Some q" if "q \<in> set tab" "q_job_id q = i"
    using that assms unfolding rows_ok_def get_job_def by blast
  then show ?thesis using get_job_SomeD by blast
qed

lemma row_count_iff: "row_count P tab \<noteq> 0 \<longleftrightarrow> (\<exists>q \<in> set tab. P q)"
  by (simp add: row_count_def filter_empty_conv)

lemma claim_true_iff:
  assumes "rows_ok tab"
  shows "fst (claim i now tab) \<longleftrightarrow> (\<exists>q. get_job i tab = Some q \<and> q_state q = QUEUED)"
  unfolding claim_def fst_conv row_count_iff get_job_iff [OF assms] by (auto simp: claimable_def)

lemma cancel_true_iff:
  assumes "rows_ok tab"
  shows "fst (cancel i now tab) \<longleftrightarrow> (\<exists>q. get_job i tab = Some q \<and> q_state q \<in> {QUEUED, RUNNING})"
  unfolding cancel_def fst_conv row_count_iff get_job_iff [OF assms] by (auto simp: cancellable_def)

lemma get_claim: "get_job k (snd (claim i now tab)) = map_option (\<lambda>q.
    if claimable i q then q\<lparr>q_state := RUNNING, q_started_at := now, q_updated_at := now,
      q_attempts := q_attempts q + 1, q_waiting_reason := []\<rparr> else q) (get_job k tab)"
  by (simp add: claim_def get_update keeps_id_def)

lemma get_finish: "get_job k (finish i now r tab) = map_option (\<lambda>q.
    if q_job_id q = i then q\<lparr>q_state := o_state r, q_finished_at := now, q_updated_at := now,
        q_result_text := o_text r, q_error := o_error r, q_served_by := o_served_by r,
        q_served_model := o_served_model r, q_meta := o_meta r\<rparr> else q) (get_job k tab)"
  by (simp add: finish_def get_update keeps_id_def)

lemma get_requeue: "get_job k (requeue i now reason tab) = map_option (\<lambda>q.
    if q_job_id q = i \<and> q_state q = RUNNING then q\<lparr>q_state := QUEUED, q_updated_at := now,
      q_started_at := 0, q_waiting_reason := reason, q_attempts := q_attempts q - 1\<rparr> else q) (get_job k tab)"
  by (simp add: requeue_def get_update keeps_id_def)

lemma get_note: "get_job k (note_waiting i now reason tab) = map_option (\<lambda>q.
    if q_job_id q = i \<and> q_state q = QUEUED then q\<lparr>q_waiting_reason := reason, q_updated_at := now\<rparr>
    else q) (get_job k tab)"
  by (simp add: note_waiting_def get_update keeps_id_def)

lemma get_cancel: "get_job k (snd (cancel i now tab)) = map_option (\<lambda>q.
    if cancellable i q then q\<lparr>q_state := CANCELLED, q_finished_at := now, q_updated_at := now\<rparr>
    else q) (get_job k tab)"
  by (simp add: cancel_def get_update keeps_id_def)

lemma expire_due_tab:
  assumes "rows_ok tab"
  shows "snd (expire_due now tab) = update_rows (due now)
    (\<lambda>q. q\<lparr>q_state := EXPIRED, q_finished_at := now, q_updated_at := now,
       q_error := ''Deadline passed before any device could run it.''\<rparr>) tab"
proof -
  have "q_job_id q \<in> set (map q_job_id (filter (due now) tab)) \<longleftrightarrow> due now q" if "q \<in> set tab" for q
  proof
    assume "q_job_id q \<in> set (map q_job_id (filter (due now) tab))"
    then obtain r where "r \<in> set tab" "due now r" "q_job_id q = q_job_id r" by auto
    then have "q = r" using that assms unfolding rows_ok_def by (meson distinct_map inj_onD)
    then show "due now q" using \<open>due now r\<close> by simp
  qed (use that in auto)
  then show ?thesis unfolding expire_due_def update_rows_def Let_def
    by (auto simp: filter_empty_conv intro!: map_idI [symmetric])
qed

lemma get_reclaim: "get_job k (snd (reclaim_stale_running older now tab)) = map_option (\<lambda>q.
    if stale older now q then q\<lparr>q_state := QUEUED, q_started_at := 0, q_updated_at := now,
        q_waiting_reason := ''Requeued after an interrupted run.''\<rparr> else q) (get_job k tab)"
  by (simp add: reclaim_stale_running_def get_update keeps_id_def)

lemma get_expire: "rows_ok tab \<Longrightarrow> get_job k (snd (expire_due now tab)) = map_option (\<lambda>q.
    if due now q then q\<lparr>q_state := EXPIRED, q_finished_at := now, q_updated_at := now,
       q_error := ''Deadline passed before any device could run it.''\<rparr> else q) (get_job k tab)"
  by (simp add: expire_due_tab get_update keeps_id_def)

lemma get_submit:
  assumes "submit ow new_id now s tab = Some (q, tab')" "rows_ok tab"
  shows "rows_ok tab'" "get_job k tab' = (if k = new_id then Some q else get_job k tab)"
    "q = new_job ow new_id now s"
proof -
  have q: "q = new_job ow new_id now s" "tab' = tab @ [q]" "new_id \<notin> q_job_id ` set tab"
    using assms(1) by (auto simp: submit_def Let_def split: if_splits)
  have id: "q_job_id q = new_id" by (simp add: q(1) new_job_def)
  show ok: "rows_ok tab'" using assms(2) q(2,3) id by (simp add: rows_ok_def)
  show "get_job k tab' = (if k = new_id then Some q else get_job k tab)"
  proof (cases "k = new_id")
    case True
    have "find (\<lambda>q. q_job_id q = new_id) tab = None"
      unfolding find_none_iff_set using q(3) by blast
    then show ?thesis using True id unfolding q(2) get_job_def find_append_case by simp
  next
    case False
    then show ?thesis using id unfolding q(2) get_job_def find_append_case
      by (simp split: option.split)
  qed
  show "q = new_job ow new_id now s" by (rule q(1))
qed

lemmas get_simps = get_claim get_finish get_requeue get_note get_cancel get_reclaim

lemma rows_ok_ops [simp, intro]:
  assumes "rows_ok tab"
  shows "rows_ok (snd (claim i now tab))" "rows_ok (finish i now r tab)" "rows_ok (requeue i now w tab)"
    "rows_ok (note_waiting i now w tab)" "rows_ok (snd (cancel i now tab))"
    "rows_ok (snd (expire_due now tab))" "rows_ok (snd (reclaim_stale_running older now tab))"
  using assms unfolding rows_ok_def queue_ops expire_due_def Let_def
  by (simp_all add: keeps_id_def)


section \<open>The life of a job\<close>

text \<open>
  One step is one committed transaction of the queue: the methods above, \<open>finish\<close> with the two states
  its callers pass. Transactions of several callers interleave in any order.
\<close>

inductive queue_step :: "job_table \<Rightarrow> job_table \<Rightarrow> bool" where
  step_submit: "submit ow new_id now s tab = Some (q, tab') \<Longrightarrow> queue_step tab tab'"
| step_claim: "queue_step tab (snd (claim i now tab))"
| step_finish: "o_state r \<in> {DONE, FAILED} \<Longrightarrow> queue_step tab (finish i now r tab)"
| step_requeue: "queue_step tab (requeue i now w tab)"
| step_note: "queue_step tab (note_waiting i now w tab)"
| step_cancel: "queue_step tab (snd (cancel i now tab))"
| step_expire: "queue_step tab (snd (expire_due now tab))"
| step_reclaim: "queue_step tab (snd (reclaim_stale_running older now tab))"

inductive_cases queue_stepE: "queue_step tab tab'"

definition row_ok :: "queued_job \<Rightarrow> bool" where
  "row_ok q \<longleftrightarrow> q_stake q \<ge> 0 \<and> q_attempts q \<ge> 0 \<and> (q_state q = RUNNING \<longrightarrow> q_attempts q \<ge> 1)"

definition queue_inv :: "job_table \<Rightarrow> bool" where
  "queue_inv tab \<longleftrightarrow> rows_ok tab \<and> (\<forall>i q. get_job i tab = Some q \<longrightarrow> row_ok q)"

text \<open>What a step may do to a row: what was asked and what was bid never change.\<close>

definition same_request :: "queued_job \<Rightarrow> queued_job \<Rightarrow> bool" where
  "same_request a b \<longleftrightarrow> q_job_id a = q_job_id b \<and> q_messages a = q_messages b \<and> q_owner_id a = q_owner_id b
     \<and> q_model a = q_model b \<and> q_min_tier a = q_min_tier b \<and> q_trust a = q_trust b
     \<and> q_temperature a = q_temperature b \<and> q_max_tokens a = q_max_tokens b
     \<and> q_token_budget a = q_token_budget b \<and> q_fanout a = q_fanout b \<and> q_stake a = q_stake b
     \<and> q_created_at a = q_created_at b \<and> q_expires_at a = q_expires_at b"

fun state_step :: "job_state \<Rightarrow> job_state \<Rightarrow> bool" where
  "state_step s DONE = True"
| "state_step s FAILED = True"
| "state_step s RUNNING = (s \<in> {QUEUED, RUNNING})"
| "state_step s QUEUED = (s \<in> {QUEUED, RUNNING})"
| "state_step s EXPIRED = (s \<in> {QUEUED, EXPIRED})"
| "state_step s CANCELLED = (s \<in> {QUEUED, RUNNING, CANCELLED})"

lemma state_step_refl [simp]: "state_step s s"
  by (cases s) simp_all

lemma same_request_refl [simp]: "same_request q q"
  by (simp add: same_request_def)

lemma same_request_trans: "same_request a b \<Longrightarrow> same_request b c \<Longrightarrow> same_request a c"
  by (simp add: same_request_def)

lemma new_job_queued [simp]: "q_state (new_job ow i now s) = QUEUED" "q_job_id (new_job ow i now s) = i"
  by (simp_all add: new_job_def)

lemma new_job_row_ok [simp]: "row_ok (new_job ow i now s)"
  by (simp add: row_ok_def new_job_def)

lemma queue_step_row:
  assumes "queue_step tab tab'" "queue_inv tab"
  shows "rows_ok tab'" "get_job i tab = Some q \<Longrightarrow> \<exists>q'. get_job i tab' = Some q' \<and> row_ok q'
      \<and> same_request q q' \<and> state_step (q_state q) (q_state q')"
    "get_job i tab = None \<Longrightarrow> get_job i tab' = Some q' \<Longrightarrow> row_ok q' \<and> q_state q' = QUEUED"
proof -
  have ok: "rows_ok tab" using assms(2) by (simp add: queue_inv_def)
  show "rows_ok tab'" using assms(1)
    by (cases rule: queue_step.cases) (use ok get_submit(1) in auto)
  { assume q: "get_job i tab = Some q"
    then have r: "row_ok q" using assms(2) by (simp add: queue_inv_def)
    show "\<exists>q'. get_job i tab' = Some q' \<and> row_ok q' \<and> same_request q q' \<and> state_step (q_state q) (q_state q')"
      using assms(1)
    proof (cases rule: queue_step.cases)
      case (step_submit ow new_id now s qn)
      have "i \<noteq> new_id" using step_submit q get_job_SomeD [OF q]
        by (auto simp: submit_def Let_def split: if_splits)
      then show ?thesis using get_submit(2) [OF step_submit ok, of i] q r by simp
    qed (use q r ok in \<open>auto simp: get_simps get_expire row_ok_def same_request_def claimable_def
          cancellable_def due_def stale_def\<close>) }
  { assume q: "get_job i tab = None" "get_job i tab' = Some q'"
    show "row_ok q' \<and> q_state q' = QUEUED" using assms(1)
    proof (cases rule: queue_step.cases)
      case (step_submit ow new_id now s qn)
      then show ?thesis using get_submit(2) [OF step_submit ok, of i] get_submit(3) [OF step_submit ok]
          q by (simp split: if_splits)
    qed (use q ok in \<open>simp_all add: get_simps get_expire\<close>) }
qed

lemma queue_step_inv: "queue_step tab tab' \<Longrightarrow> queue_inv tab \<Longrightarrow> queue_inv tab'"
  unfolding queue_inv_def
  by (metis (no_types, lifting) option.exhaust option.inject queue_inv_def queue_step_row)

lemma queue_steps_inv:
  assumes "queue_step\<^sup>*\<^sup>* tab tab'" "queue_inv tab"
  shows "queue_inv tab'"
  using assms by (induction rule: rtranclp_induct) (auto intro: queue_step_inv)

lemma queue_steps_row:
  assumes "queue_step\<^sup>*\<^sup>* tab tab'" "queue_inv tab" "get_job i tab = Some q"
  shows "\<exists>q'. get_job i tab' = Some q' \<and> same_request q q'"
  using assms(1)
proof (induction rule: rtranclp_induct)
  case base
  then show ?case using assms(3) by simp
next
  case (step y z)
  then obtain q1 where q1: "get_job i y = Some q1" "same_request q q1" by blast
  have "queue_inv y" using queue_steps_inv [OF step(1) assms(2)] .
  then show ?case using queue_step_row(2) [OF step(2) _ q1(1)] q1(2) same_request_trans by blast
qed

lemma queue_inv_empty [simp]: "queue_inv []"
  by (simp add: queue_inv_def rows_ok_def get_job_def)

text \<open>
  C4: an accepted job is never lost. Whatever transactions follow in whatever order, its row stays in
  the table exactly once with the request, the owner, the stake and the deadline it was submitted
  with; every row keeps a non-negative stake and attempt count, a running row having been attempted.
\<close>

theorem queued_work_never_lost:
  assumes "queue_step\<^sup>*\<^sup>* [] tab" "submit ow new_id now s tab = Some (q, tab1)"
    "queue_step\<^sup>*\<^sup>* tab1 tab2"
  shows "queue_inv tab2 \<and> (\<exists>!q'. q' \<in> set tab2 \<and> q_job_id q' = new_id)
    \<and> (\<exists>q'. get_job new_id tab2 = Some q' \<and> same_request q q' \<and> row_ok q')"
proof -
  have inv: "queue_inv tab" using queue_steps_inv [OF assms(1)] by simp
  have inv1: "queue_inv tab1" using queue_step_inv [OF step_submit [OF assms(2)] inv] .
  have q: "get_job new_id tab1 = Some q"
    using get_submit(2) [OF assms(2)] inv by (simp add: queue_inv_def)
  have inv2: "queue_inv tab2" using queue_steps_inv [OF assms(3) inv1] .
  obtain q' where q': "get_job new_id tab2 = Some q'" "same_request q q'"
    using queue_steps_row [OF assms(3) inv1 q] by blast
  moreover have "\<exists>!q'. q' \<in> set tab2 \<and> q_job_id q' = new_id"
    using q'(1) inv2 unfolding queue_inv_def by (metis get_job_iff option.inject)
  ultimately show ?thesis using inv2 by (auto simp: queue_inv_def)
qed

definition demo_submission :: submission where
  "demo_submission = \<lparr>s_messages = [], s_owner_id = ''ann'', s_model = [], s_min_tier = ''capable'',
     s_trust = [], s_temperature = 7 / 10, s_max_tokens = 256, s_token_budget = 0, s_fanout = 0,
     s_stake = 5, s_ttl_s = 3600\<rparr>"

definition demo_row :: queued_job where
  "demo_row = new_job ''me'' ''q1'' 100 demo_submission"

definition failed_outcome :: outcome where
  "failed_outcome = \<lparr>o_state = FAILED, o_text = [], o_error = ''boom'', o_served_by = [],
     o_served_model = [], o_meta = None\<rparr>"

lemma demo_submit: "submit ''me'' ''q1'' 100 demo_submission [] = Some (demo_row, [demo_row])"
  by (simp add: submit_def demo_row_def Let_def)

theorem queued_work_never_lost_witness:
  "get_job ''q1'' (finish ''q1'' 120 failed_outcome (snd (claim ''q1'' 110 [demo_row]))) \<noteq> None"
proof -
  have a: "queue_step\<^sup>*\<^sup>* [demo_row] (finish ''q1'' 120 failed_outcome (snd (claim ''q1'' 110 [demo_row])))"
    by (rule rtranclp.rtrancl_into_rtrancl, rule r_into_rtranclp, rule step_claim, rule step_finish)
      (simp add: failed_outcome_def)
  show ?thesis using queued_work_never_lost [OF rtranclp.rtrancl_refl demo_submit a] by auto
qed


section \<open>Claiming\<close>

text \<open>Several schedulers: their claims in the order the database commits them.\<close>

fun claims :: "(pystr \<times> pyfloat) list \<Rightarrow> job_table \<Rightarrow> (pystr \<times> bool) list \<times> job_table" where
  "claims [] tab = ([], tab)"
| "claims ((i, now) # cs) tab =
     (let (ok, tab1) = claim i now tab; (rs, tab2) = claims cs tab1 in ((i, ok) # rs, tab2))"

definition is_queued :: "pystr \<Rightarrow> job_table \<Rightarrow> bool" where
  "is_queued i tab \<longleftrightarrow> (\<exists>q. get_job i tab = Some q \<and> q_state q = QUEUED)"

lemma is_queued_claim:
  "is_queued k (snd (claim i now tab)) \<longleftrightarrow> is_queued k tab \<and> k \<noteq> i"
proof (cases "get_job k tab")
  case (Some q)
  then have "q_job_id q = k" using get_job_SomeD by blast
  then show ?thesis using Some by (auto simp: is_queued_def get_claim claimable_def)
qed (simp add: is_queued_def get_claim)

lemma claims_won:
  "rows_ok tab \<Longrightarrow> count_list (fst (claims cs tab)) (i, True)
     = (if is_queued i tab \<and> i \<in> fst ` set cs then 1 else 0)"
proof (induction cs arbitrary: tab)
  case (Cons c cs)
  obtain k now where c: "c = (k, now)" by (cases c)
  obtain ok t1 where cl: "claim k now tab = (ok, t1)" by (cases "claim k now tab")
  have ok: "ok \<longleftrightarrow> is_queued k tab"
    using claim_true_iff [OF Cons.prems, of k now] cl by (simp add: is_queued_def)
  have t1: "rows_ok t1" using rows_ok_ops(1) [OF Cons.prems, of k now] cl by simp
  have q1: "is_queued i t1 \<longleftrightarrow> is_queued i tab \<and> i \<noteq> k" using is_queued_claim [of i k now tab] cl by simp
  have split_in: "i \<in> fst ` set ((k, now) # cs) \<longleftrightarrow> i = k \<or> i \<in> fst ` set cs" by auto
  show ?case using Cons.IH [OF t1] unfolding q1 c split_in
    by (cases "claims cs t1") (auto simp: cl ok)
qed simp

text \<open>
  A job runs once. Of any sequence of claims by any number of schedulers, exactly one claim of a
  queued job succeeds if there is one, and none succeeds on a job that is not queued.
\<close>

theorem claim_exclusive:
  assumes "queue_step\<^sup>*\<^sup>* [] tab"
  shows "count_list (fst (claims cs tab)) (i, True)
    = (if (\<exists>q. get_job i tab = Some q \<and> q_state q = QUEUED) \<and> i \<in> fst ` set cs then 1 else 0)"
proof -
  have "rows_ok tab" using queue_steps_inv [OF assms queue_inv_empty] by (simp add: queue_inv_def)
  then show ?thesis using claims_won [of tab cs i] unfolding is_queued_def by simp
qed

theorem claim_exclusive_witness:
  "count_list (fst (claims [(''q1'', 101), (''q1'', 102), (''q2'', 103), (''q1'', 104)] [demo_row]))
     (''q1'', True) = 1"
proof -
  have "queue_step\<^sup>*\<^sup>* [] [demo_row]"
    by (rule r_into_rtranclp, rule step_submit, rule demo_submit)
  moreover have "get_job ''q1'' [demo_row] = Some demo_row" "q_state demo_row = QUEUED"
    by (simp_all add: get_job_def demo_row_def)
  ultimately show ?thesis
    using claim_exclusive [of "[demo_row]"
        "[(''q1'', 101), (''q1'', 102), (''q2'', 103), (''q1'', 104)]" "''q1''"] by simp
qed

text \<open>A result is written whatever the row's state: a cancelled job can end as done.\<close>

lemma result_overwrites_cancellation:
  "map_option q_state (get_job ''q1'' (finish ''q1'' 130 (failed_outcome\<lparr>o_state := DONE\<rparr>)
     (snd (cancel ''q1'' 120 (snd (claim ''q1'' 110 [demo_row])))))) = Some DONE"
  by code_simp

section \<open>The order of the queue\<close>

lemma set_pending:
  assumes "length (filter (\<lambda>q. q_state q = QUEUED) tab) \<le> limit"
  shows "set (pending limit ow now tab) = {q \<in> set tab. q_state q = QUEUED}"
    "length (pending limit ow now tab) = length (filter (\<lambda>q. q_state q = QUEUED) tab)"
  using assms by (auto simp: pending_def)

lemma pending_sorted: "sorted (map (job_sort_key ow now) (pending limit ow now tab))"
  unfolding pending_def by (rule sorted_sort_key)

lemma sorted_key_nth:
  "sorted (map f xs) \<Longrightarrow> i < j \<Longrightarrow> j < length xs \<Longrightarrow> f (xs ! i) \<le> f (xs ! j)"
  using sorted_nth_mono [of "map f xs" i j] by simp

lemma job_sort_key_le:
  "job_sort_key ow now a \<le> job_sort_key ow now b \<longleftrightarrow>
     is_own a ow \<and> \<not> is_own b ow
     \<or> is_own a ow = is_own b ow \<and> (priority a now > priority b now
         \<or> priority a now = priority b now \<and> q_created_at a \<le> q_created_at b)"
  by (auto simp: job_sort_key_def less_eq_prod_def)

lemma pending_owned_prefix:
  "pending limit ow now tab = filter (\<lambda>q. is_own q ow) (pending limit ow now tab)
     @ filter (\<lambda>q. \<not> is_own q ow) (pending limit ow now tab)"
proof -
  let ?w = "take limit (sort_key q_created_at (filter (\<lambda>q. q_state q = QUEUED) tab))"
  have "sort_key (job_sort_key ow now) ?w = sort_key (job_sort_key ow now) (filter (\<lambda>q. is_own q ow) ?w)
      @ sort_key (job_sort_key ow now) (filter (\<lambda>q. \<not> is_own q ow) ?w)"
    by (rule sort_key_filter_split) (simp add: job_sort_key_def)
  then show ?thesis unfolding pending_def by (simp add: filter_sort)
qed

text \<open>
  The run queue holds the owner's work, then the strangers'. Up to the window of \<open>limit\<close> rows it
  is every queued job and nothing else; all of the owner's jobs stand before all others whatever was
  bid; within a class the priority never increases, ties going to the older job.
\<close>

theorem owner_work_first:
  "(\<exists>own rest. pending limit ow now tab = own @ rest
      \<and> list_all (\<lambda>q. is_own q ow) own \<and> list_all (\<lambda>q. \<not> is_own q ow) rest)
   \<and> (\<forall>i j. i < j \<and> j < length (pending limit ow now tab)
        \<and> is_own (pending limit ow now tab ! i) ow = is_own (pending limit ow now tab ! j) ow
      \<longrightarrow> priority (pending limit ow now tab ! i) now > priority (pending limit ow now tab ! j) now
        \<or> priority (pending limit ow now tab ! i) now = priority (pending limit ow now tab ! j) now
          \<and> q_created_at (pending limit ow now tab ! i) \<le> q_created_at (pending limit ow now tab ! j))
   \<and> (length (filter (\<lambda>q. q_state q = QUEUED) tab) \<le> limit
      \<longrightarrow> set (pending limit ow now tab) = {q \<in> set tab. q_state q = QUEUED})"
  (is "?A \<and> ?B \<and> ?C")
proof (intro conjI)
  have "list_all (\<lambda>q. is_own q ow) (filter (\<lambda>q. is_own q ow) (pending limit ow now tab))"
    "list_all (\<lambda>q. \<not> is_own q ow) (filter (\<lambda>q. \<not> is_own q ow) (pending limit ow now tab))"
    by (simp_all add: list_all_iff)
  then show ?A using pending_owned_prefix [of limit ow now tab] by blast
  show ?B using sorted_key_nth [OF pending_sorted [of ow now limit tab]]
    unfolding job_sort_key_le by blast
  show ?C using set_pending(1) by blast
qed


definition urgent :: submission where
  "urgent = demo_submission\<lparr>s_stake := 500, s_owner_id := ''bob''\<rparr>"

theorem owner_work_first_witness:
  "set (pending 200 ''ann'' 400 [new_job ''me'' ''q2'' 200 urgent, demo_row])
     = {demo_row, new_job ''me'' ''q2'' 200 urgent}"
  using owner_work_first [of 200 "''ann''" 400 "[new_job ''me'' ''q2'' 200 urgent, demo_row]"]
  by (auto simp: demo_row_def)

text \<open>
  Waiting time is a currency with a fixed rate. Between two jobs of the same class already in the
  queue the older one outranks the other exactly when its head start, at ten credits an hour, exceeds
  what the other bid over it; the comparison never changes as time passes.
\<close>

theorem patience_has_a_price:
  assumes "q_created_at a \<le> now" "q_created_at b \<le> now"
  shows "priority a now > priority b now
    \<longleftrightarrow> q_stake b - q_stake a < 10 * ((q_created_at b - q_created_at a) / 3600)"
proof -
  have age: "age_s q now = now - q_created_at q" if "q_created_at q \<le> now" for q
    using that by (simp add: age_s_def)
  show ?thesis unfolding priority_def AGE_BONUS_PER_HOUR_def age [OF assms(1)] age [OF assms(2)]
      diff_divide_distrib right_diff_distrib
    by (rule iffI) linarith+
qed

theorem patience_has_a_price_witness:
  "priority demo_row 400000 > priority (new_job ''me'' ''q2'' 200000 urgent) 400000
   \<and> \<not> priority demo_row 400000 > priority (new_job ''me'' ''q2'' 110000 urgent) 400000"
  using patience_has_a_price [of demo_row 400000 "new_job ''me'' ''q2'' 200000 urgent"]
    patience_has_a_price [of demo_row 400000 "new_job ''me'' ''q2'' 110000 urgent"]
  by (simp add: demo_row_def new_job_def urgent_def demo_submission_def)

lemma expired_ids: "rows_ok tab \<Longrightarrow> distinct (fst (expire_due now tab))
    \<and> (i \<in> set (fst (expire_due now tab)) \<longleftrightarrow> (\<exists>q. get_job i tab = Some q \<and> due now q))"
  by (auto simp: expire_due_def Let_def get_job_iff rows_ok_def intro: distinct_map_filter)

text \<open>
  Expiry reports what it expires, once. On a reachable table the ids returned are, without
  repetition, those of the queued jobs whose deadline has passed; each of these rows is expired with
  its stake intact for the refund and every other row is untouched; no later expiry reports them again.
\<close>

theorem expiry_reports_once:
  assumes "queue_step\<^sup>*\<^sup>* [] tab" "expire_due now tab = (ids, tab')"
  shows "distinct ids \<and> (\<forall>i. i \<in> set ids \<longleftrightarrow> (\<exists>q. get_job i tab = Some q \<and> q_state q = QUEUED
          \<and> 0 < q_expires_at q \<and> q_expires_at q \<le> now))
    \<and> (\<forall>i q. get_job i tab = Some q \<longrightarrow> (\<exists>q'. get_job i tab' = Some q' \<and> q_stake q' = q_stake q
          \<and> (if i \<in> set ids then q_state q' = EXPIRED else q' = q)))
    \<and> set ids \<inter> set (fst (expire_due later tab')) = {}"
proof -
  have ok: "rows_ok tab" using queue_steps_inv [OF assms(1) queue_inv_empty] by (simp add: queue_inv_def)
  have tab': "tab' = snd (expire_due now tab)" "ids = fst (expire_due now tab)" using assms(2) by simp_all
  have ok': "rows_ok tab'" using ok tab' by simp
  have ids: "distinct ids" "\<And>i. i \<in> set ids \<longleftrightarrow> (\<exists>q. get_job i tab = Some q \<and> due now q)"
    using expired_ids [OF ok] tab'(2) by simp_all
  have rows: "\<exists>q'. get_job i tab' = Some q' \<and> q_stake q' = q_stake q
      \<and> (if i \<in> set ids then q_state q' = EXPIRED else q' = q)" if "get_job i tab = Some q" for i q
    using that ids(2) [of i] ok unfolding tab'(1) by (simp add: get_expire)
  have "i \<notin> set (fst (expire_due later tab'))" if "i \<in> set ids" for i
    using that rows ids(2) expired_ids [OF ok', of later i] by (force simp: due_def)
  then show ?thesis using ids rows by (auto simp: due_def)
qed

theorem expiry_reports_once_witness:
  "set [''q1''] \<inter> set (fst (expire_due 9000 (snd (expire_due 5000 [demo_row])))) = {}"
proof -
  have "queue_step\<^sup>*\<^sup>* [] [demo_row]"
    by (rule r_into_rtranclp, rule step_submit, rule demo_submit)
  moreover have "expire_due 5000 [demo_row] = ([''q1''], snd (expire_due 5000 [demo_row]))"
    by code_simp
  ultimately show ?thesis using expiry_reports_once [of "[demo_row]" 5000 "[''q1'']" _ 9000] by blast
qed

section \<open>Tier floors\<close>

definition known_size :: "target \<Rightarrow> pyfloat option" where
  "known_size t = (if t_params_b t = 0 then parse_param_count (t_model t) else Some (t_params_b t))"

lemma tier_ok_threshold:
  assumes "(tier, threshold) \<in> set TIER_THRESHOLDS" "0 \<le> p"
  shows "tier_ok tier p \<longleftrightarrow> threshold \<le> p"
  using assms unfolding TIER_THRESHOLDS_def tier_ok_def Let_def
  by (auto simp: tier_rank_def [symmetric] tier_rank_derive)

lemma known_size_nonneg: "0 \<le> t_params_b t \<Longrightarrow> known_size t = Some p \<Longrightarrow> 0 \<le> p"
  using parse_nonneg by (auto simp: known_size_def split: if_splits)

lemma in_filter_targets:
  assumes "(tier, threshold) \<in> set TIER_THRESHOLDS" "0 \<le> t_params_b t"
  shows "t \<in> set (filter_targets ts tier)
    \<longleftrightarrow> t \<in> set ts \<and> (\<exists>p. known_size t = Some p \<and> p \<noteq> 0 \<and> threshold \<le> p)"
proof -
  have nonempty: "tier \<noteq> []" using assms(1) by (auto simp: TIER_THRESHOLDS_def)
  show ?thesis using nonempty tier_ok_threshold [OF assms(1)] known_size_nonneg [OF assms(2)]
    unfolding filter_targets_def known_size_def [symmetric] by (auto split: option.splits)
qed

definition sized :: "pystr \<Rightarrow> pyfloat \<Rightarrow> target" where
  "sized m p = (hd demo_targets)\<lparr>t_model := m, t_params_b := p\<rparr>"

text \<open>
  A tier floor admits exactly the targets of known size in that tier or above: the advertised
  size, or failing that the one readable in the model's name, is at least the tier's threshold. A
  target nobody sized is never assumed into one.
\<close>

theorem tier_floor_exact:
  assumes "(tier, threshold) \<in> set TIER_THRESHOLDS" "\<forall>t \<in> set ts. 0 \<le> t_params_b t"
  shows "filter_targets ts tier
    = filter (\<lambda>t. \<exists>p. known_size t = Some p \<and> p \<noteq> 0 \<and> threshold \<le> p) ts"
proof -
  have nonempty: "tier \<noteq> []" using assms(1) by (auto simp: TIER_THRESHOLDS_def)
  show ?thesis using nonempty tier_ok_threshold [OF assms(1)] known_size_nonneg assms(2)
    unfolding filter_targets_def known_size_def [symmetric]
    by (auto intro!: filter_cong split: option.splits)
qed

theorem tier_floor_exact_witness:
  "filter_targets [sized ''llama-70b'' 0, sized ''mystery'' 0, sized ''qwen'' 14, sized ''phi-3b'' 0] ''capable''
     = [sized ''llama-70b'' 0, sized ''qwen'' 14]"
proof -
  have k: "known_size (sized ''llama-70b'' 0) = Some 70" "known_size (sized ''mystery'' 0) = None"
    "known_size (sized ''qwen'' 14) = Some 14" "known_size (sized ''phi-3b'' 0) = Some 3"
    by code_simp+
  show ?thesis
    using tier_floor_exact [of "''capable''" 13
        "[sized ''llama-70b'' 0, sized ''mystery'' 0, sized ''qwen'' 14, sized ''phi-3b'' 0]"]
    by (simp add: k TIER_THRESHOLDS_def) (simp add: sized_def)
qed

section \<open>Position\<close>

lemma position_in_shift: "position_in i (Suc n) qs = (if i \<in> q_job_id ` set qs then Suc (position_in i n qs) else 0)"
  by (induction qs arbitrary: n) auto

text \<open>
  The position shown to a user is the one the scheduler honours: 0 exactly when the job is not in
  the run queue, otherwise the 1-based index of the job there.
\<close>

theorem position_honoured:
  "if \<exists>q \<in> set (pending 200 ow now tab). q_job_id q = i
   then 0 < position ow now i tab \<and> position ow now i tab \<le> length (pending 200 ow now tab)
     \<and> q_job_id (pending 200 ow now tab ! (position ow now i tab - 1)) = i
   else position ow now i tab = 0"
proof -
  let ?ok = "\<lambda>n qs. if i \<in> q_job_id ` set qs
      then 0 < n \<and> n \<le> length qs \<and> q_job_id (qs ! (n - 1)) = i else n = (0::nat)"
  have "?ok (position_in i (Suc 0) qs) qs" for qs
  proof (induction qs)
    case (Cons q qs)
    show ?case
    proof (cases "q_job_id q = i")
      case False
      then have "i \<in> q_job_id ` set (q # qs) \<longleftrightarrow> i \<in> q_job_id ` set qs" by auto
      then show ?thesis using False Cons.IH position_in_shift [of i "Suc 0" qs]
        by (cases "i \<in> q_job_id ` set qs") (simp_all add: nth_Cons')
    qed simp
  qed simp
  then have "?ok (position ow now i tab) (pending 200 ow now tab)" unfolding position_def One_nat_def .
  moreover have "(\<exists>q \<in> set (pending 200 ow now tab). q_job_id q = i)
    \<longleftrightarrow> i \<in> q_job_id ` set (pending 200 ow now tab)" by auto
  ultimately show ?thesis by simp
qed

end
