(* ===== verification/Job_Scheduler.thy ===== *)
theory Job_Scheduler
  imports Job_Queue
begin

text \<open>
  The scheduler and the jobs API over the queue: \<open>src/mycellm/execution/scheduler.py\<close>,
  \<open>src/mycellm/api/jobs.py\<close> and \<open>execute_job\<close> of \<open>node.py\<close>. Their view of the queue is the record
  \<open>queue_port\<close>; the laws they rely on are the locale \<open>job_store\<close>, of which the table of
  \<open>Job_Queue\<close> is the interpretation. The credits they move are the calls they make on the ledger, in
  order, each with the job it is made for; whether a call is made does not depend on its outcome, as
  its exceptions are caught and logged. Clock readings are parameters.
\<close>

record 'q queue_port =
  qp_submit :: "pystr \<Rightarrow> pyfloat \<Rightarrow> submission \<Rightarrow> 'q \<Rightarrow> (queued_job \<times> 'q) option"
  qp_claim :: "pystr \<Rightarrow> pyfloat \<Rightarrow> 'q \<Rightarrow> bool \<times> 'q"
  qp_finish :: "pystr \<Rightarrow> pyfloat \<Rightarrow> outcome \<Rightarrow> 'q \<Rightarrow> 'q"
  qp_requeue :: "pystr \<Rightarrow> pyfloat \<Rightarrow> pystr \<Rightarrow> 'q \<Rightarrow> 'q"
  qp_note :: "pystr \<Rightarrow> pyfloat \<Rightarrow> pystr \<Rightarrow> 'q \<Rightarrow> 'q"
  qp_cancel :: "pystr \<Rightarrow> pyfloat \<Rightarrow> 'q \<Rightarrow> bool \<times> 'q"
  qp_expire :: "pyfloat \<Rightarrow> 'q \<Rightarrow> pystr list \<times> 'q"
  qp_reclaim :: "pyfloat \<Rightarrow> pyfloat \<Rightarrow> 'q \<Rightarrow> nat \<times> 'q"
  qp_get :: "pystr \<Rightarrow> 'q \<Rightarrow> queued_job option"
  qp_pending :: "pyfloat \<Rightarrow> 'q \<Rightarrow> queued_job list"
  qp_position :: "pyfloat \<Rightarrow> pystr \<Rightarrow> 'q \<Rightarrow> nat"

datatype ledger_call =
  Call_credit pystr pyfloat pystr pystr
| Call_debit pystr pyfloat pystr

type_synonym calls = "(pystr \<times> ledger_call) list"

section \<open>JobScheduler\<close>

definition POLL_INTERVAL_S :: pyfloat where "POLL_INTERVAL_S = 5"
definition IDLE_POLL_INTERVAL_S :: pyfloat where "IDLE_POLL_INTERVAL_S = 30"

text \<open>The node as the scheduler sees it; \<open>nd_hardware\<close> is \<open>None\<close> where no telemetry is readable.\<close>

record node_view =
  nd_hardware :: "(bool \<times> bool) option"
  nd_targets :: "target list"
  nd_has_ledger :: bool
  nd_peer_id :: pystr

record 'q sched =
  sc_queue :: 'q
  sc_running :: "pystr list"
  sc_max :: nat
  sc_reason :: pystr

text \<open>The dash of the source's messages, in UTF-8.\<close>

definition em_dash :: pystr where "em_dash = [CHR 0xE2, CHR 0x80, CHR 0x94]"

definition eligible :: "node_view \<Rightarrow> 'q sched \<Rightarrow> bool \<times> pystr" where
  "eligible nd s =
     (if length (sc_running s) \<ge> sc_max s then
        (False, ''Busy '' @ em_dash @ '' '' @ str_nat (length (sc_running s)) @ '' job(s) already running here.'')
      else case nd_hardware nd of
        Some (low_power, hot) \<Rightarrow>
          if low_power then (False, ''Waiting '' @ em_dash @ '' this device is in Low Power Mode or low on battery.'')
          else if hot then (False, ''Waiting '' @ em_dash @ '' this device is thermally throttled.'')
          else (True, [])
      | None \<Rightarrow> (True, []))"

definition refund_call :: "'q queue_port \<Rightarrow> node_view \<Rightarrow> pystr \<Rightarrow> 'q \<Rightarrow> pystr \<Rightarrow> calls" where
  "refund_call Q nd why q i =
     (if \<not> nd_has_ledger nd then []
      else case qp_get Q i q of
        None \<Rightarrow> []
      | Some j \<Rightarrow> if q_stake j \<le> 0 \<or> q_owner_id j = [] then []
          else [(i, Call_credit (q_owner_id j) (q_stake j) (''queue_stake_refund:'' @ why) (nd_peer_id nd))])"

definition job_targets :: "target list \<Rightarrow> queued_job \<Rightarrow> target list" where
  "job_targets all_targets j =
     (let ts = filter_targets all_targets (q_min_tier j) in
      if q_model j \<noteq> [] \<and> q_model j \<noteq> SWARM_MODEL then filter (\<lambda>t. t_model t = q_model j) ts else ts)"

text \<open>The jobs started, each with its targets; \<open>clock n\<close> is the clock at the \<open>n\<close>-th row.\<close>

fun tick_jobs :: "'q queue_port \<Rightarrow> target list \<Rightarrow> (nat \<Rightarrow> pyfloat) \<Rightarrow> queued_job list \<Rightarrow> nat \<Rightarrow> 'q sched
    \<Rightarrow> (queued_job \<times> target list) list \<times> 'q sched" where
  "tick_jobs Q all_targets clock [] n s = ([], s)"
| "tick_jobs Q all_targets clock (j # js) n s =
     (if length (sc_running s) \<ge> sc_max s then ([], s)
      else let ts = job_targets all_targets j; wait = waiting_reason_for j ts all_targets in
        if wait \<noteq> [] then
          tick_jobs Q all_targets clock js (n + 1)
            (s\<lparr>sc_queue := qp_note Q (q_job_id j) (clock n) wait (sc_queue s)\<rparr>)
        else let (ok, q') = qp_claim Q (q_job_id j) (clock n) (sc_queue s) in
          if \<not> ok then tick_jobs Q all_targets clock js (n + 1) (s\<lparr>sc_queue := q'\<rparr>)
          else let (started, s') = tick_jobs Q all_targets clock js (n + 1)
                     (s\<lparr>sc_queue := q', sc_running := sc_running s @ [q_job_id j]\<rparr>)
               in ((j, ts) # started, s'))"

definition tick :: "'q queue_port \<Rightarrow> node_view \<Rightarrow> (nat \<Rightarrow> pyfloat) \<Rightarrow> 'q sched
    \<Rightarrow> (queued_job \<times> target list) list \<times> calls \<times> 'q sched" where
  "tick Q nd clock s =
     (let (expired, q1) = qp_expire Q (clock 0) (sc_queue s);
          refunds = concat (map (refund_call Q nd ''expired'' q1) expired);
          s1 = s\<lparr>sc_queue := q1\<rparr>
      in case qp_pending Q (clock 1) q1 of
           [] \<Rightarrow> ([], refunds, s1\<lparr>sc_reason := []\<rparr>)
         | j # js \<Rightarrow>
           let (ok, reason) = eligible nd s1; s2 = s1\<lparr>sc_reason := reason\<rparr> in
           if \<not> ok then ([], refunds, s2\<lparr>sc_queue := qp_note Q (q_job_id j) (clock 2) reason q1\<rparr>)
           else let (started, s3) = tick_jobs Q (nd_targets nd) clock (j # js) 3 s2
                in (started, refunds, s3))"

definition served_prefix :: "pystr \<Rightarrow> pystr option" where
  "served_prefix s =
     (if py_startswith s ''peer:'' then Some (takeWhile (\<lambda>c. c \<noteq> CHR '':'') (drop 5 s))
      else if py_startswith s ''group:'' then Some (takeWhile (\<lambda>c. c \<noteq> CHR '':'') (drop 6 s))
      else None)"

text \<open>\<open>_attribution\<close>: the first unit document with the role direct or synthesizer.\<close>

definition attribution :: "job_meta option \<Rightarrow> target list \<Rightarrow> pystr \<times> pystr" where
  "attribution meta ts =
     (case find (\<lambda>u. ud_role u \<in> {''direct'', ''synthesizer''})
             (case meta of None \<Rightarrow> [] | Some m \<Rightarrow> pd_units (md_plan m)) of
        Some u \<Rightarrow> ((case served_prefix (ud_target u) of Some p \<Rightarrow> p | None \<Rightarrow> ''local''), ud_model u)
      | None \<Rightarrow> (case ts of [] \<Rightarrow> ([], []) | t # _ \<Rightarrow> (''local'', t_model t)))"

text \<open>How the awaited \<open>execute_job\<close> ends: cancelled, an exception, a result dict (or \<open>None\<close>).\<close>

datatype run_end = RunCancelled | RunRaised pystr | RunReturned "job_result option"

definition failed_with :: "pystr \<Rightarrow> job_meta option \<Rightarrow> outcome" where
  "failed_with e m = \<lparr>o_state = FAILED, o_text = [], o_error = e, o_served_by = [], o_served_model = [], o_meta = m\<rparr>"

definition run_job :: "'q queue_port \<Rightarrow> node_view \<Rightarrow> pyfloat \<Rightarrow> queued_job \<Rightarrow> target list \<Rightarrow> run_end \<Rightarrow> 'q
    \<Rightarrow> calls \<times> 'q" where
  "run_job Q nd now j ts e q =
     (case e of
        RunCancelled \<Rightarrow> ([], qp_requeue Q (q_job_id j) now (''Interrupted '' @ em_dash @ '' will retry.'') q)
      | RunRaised err \<Rightarrow>
          let q' = qp_finish Q (q_job_id j) now (failed_with err None) q
          in (refund_call Q nd ''failed'' q' (q_job_id j), q')
      | RunReturned res \<Rightarrow>
          let text = (case res of None \<Rightarrow> [] | Some r \<Rightarrow> jr_text r);
              error = (case res of None \<Rightarrow> [] | Some r \<Rightarrow> (case jr_error r of None \<Rightarrow> [] | Some x \<Rightarrow> x));
              meta = map_option jr_meta res in
          if error \<noteq> [] \<and> text = [] then
            (let q' = qp_finish Q (q_job_id j) now (failed_with error meta) q
             in (refund_call Q nd ''failed'' q' (q_job_id j), q'))
          else let (served_by, served_model) = attribution meta ts in
            ([], qp_finish Q (q_job_id j) now
               \<lparr>o_state = DONE, o_text = text, o_error = [], o_served_by = served_by,
                o_served_model = served_model, o_meta = meta\<rparr> q))"

text \<open>The task's end with its done callback, which drops it from \<open>_running\<close>.\<close>

definition task_done :: "'q queue_port \<Rightarrow> node_view \<Rightarrow> pyfloat \<Rightarrow> queued_job \<Rightarrow> target list \<Rightarrow> run_end
    \<Rightarrow> 'q sched \<Rightarrow> calls \<times> 'q sched" where
  "task_done Q nd now j ts e s =
     (let (cs, q') = run_job Q nd now j ts e (sc_queue s)
      in (cs, s\<lparr>sc_queue := q', sc_running := filter (\<lambda>i. i \<noteq> q_job_id j) (sc_running s)\<rparr>))"

section \<open>Executing a job\<close>

definition execute_job :: "regex_engine \<Rightarrow> pystr list \<Rightarrow> target list \<Rightarrow> runner \<Rightarrow> (execution_plan \<Rightarrow> schedule)
    \<Rightarrow> pyfloat \<Rightarrow> bool \<Rightarrow> target list option \<Rightarrow> job \<Rightarrow> job_result option" where
  "execute_job rx own_networks all_targets run sched elapsed override targets j =
     (let j' = (case j_network_ids j of None \<Rightarrow> j\<lparr>j_network_ids := Some own_networks\<rparr> | Some _ \<Rightarrow> j);
          ts = (case targets of None \<Rightarrow> all_targets | Some ts \<Rightarrow> ts)
      in map_option (\<lambda>p. execute_plan run j' p (sched p) elapsed) (plan_job rx j' ts override))"

section \<open>The jobs API\<close>

record submit_request =
  b_messages :: "message list"
  b_model :: pystr
  b_min_tier :: pystr
  b_trust :: pystr
  b_temperature :: pyfloat
  b_max_tokens :: int
  b_token_budget :: int
  b_fanout :: int
  b_stake :: pyfloat
  b_ttl_s :: pyfloat

datatype api_error = Queue_disabled | Messages_required | Unknown_tier pystr | Tier_with_model
  | Insufficient_stake pyfloat pyfloat | Not_found | Already_finished job_state

text \<open>
  The ledger as \<open>submit_job\<close> reads it: the balance (\<open>None\<close> if reading raises) and whether the debit
  succeeds. \<open>None\<close> in place of the pair is a node without a ledger.
\<close>

definition store_job :: "'q queue_port \<Rightarrow> pystr \<Rightarrow> pystr \<Rightarrow> (nat \<Rightarrow> pyfloat) \<Rightarrow> submit_request \<Rightarrow> pystr \<Rightarrow> pystr
    \<Rightarrow> 'q \<Rightarrow> pyfloat \<Rightarrow> calls \<Rightarrow> (api_error + queued_job \<times> nat) option \<times> calls \<times> 'q" where
  "store_job Q peer_id new_id clock b model min_tier q stake cs =
     (case qp_submit Q new_id (clock 0)
         \<lparr>s_messages = b_messages b, s_owner_id = peer_id, s_model = model, s_min_tier = min_tier,
          s_trust = b_trust b, s_temperature = b_temperature b, s_max_tokens = b_max_tokens b,
          s_token_budget = b_token_budget b, s_fanout = b_fanout b, s_stake = stake, s_ttl_s = b_ttl_s b\<rparr> q of
       None \<Rightarrow> (None, cs, q)
     | Some (j, q') \<Rightarrow> (Some (Inr (j, qp_position Q (clock 1) (q_job_id j) q')), cs, q'))"

definition submit_job :: "'q queue_port \<Rightarrow> pystr \<Rightarrow> (pyfloat option \<times> bool) option \<Rightarrow> pystr \<Rightarrow> (nat \<Rightarrow> pyfloat)
    \<Rightarrow> submit_request \<Rightarrow> 'q \<Rightarrow> (api_error + queued_job \<times> nat) option \<times> calls \<times> 'q" where
  "submit_job Q peer_id ledger new_id clock b q =
     (let refuse = (\<lambda>e. (Some (Inl e), [], q));
          min_tier = py_lower (py_strip (b_min_tier b));
          model0 = py_strip (b_model b);
          model = (if py_lower model0 \<in> {''auto'', ''default''} then [] else model0);
          stake = max 0 (b_stake b);
          accept = store_job Q peer_id new_id clock b model min_tier q
      in if b_messages b = [] then refuse Messages_required
         else if min_tier \<noteq> [] \<and> map_of TIER_RANK min_tier = None then refuse (Unknown_tier min_tier)
         else if model \<noteq> [] \<and> min_tier \<noteq> [] then refuse Tier_with_model
         else case (if stake > 0 then ledger else None) of
             None \<Rightarrow> accept stake []
           | Some (balance, debit_ok) \<Rightarrow>
               if balance \<noteq> None \<and> the balance < stake then refuse (Insufficient_stake stake (the balance))
               else if debit_ok then accept stake [(new_id, Call_debit peer_id stake ''queue_stake'')]
               else accept 0 [])"

text \<open>
  \<open>cancel_job\<close> reads the row, and commits later: other transactions may come in between. \<open>credit_ok\<close> is
  whether the refund's credit succeeds.
\<close>

definition cancel_refusal :: "queued_job option \<Rightarrow> api_error option" where
  "cancel_refusal snapshot = (case snapshot of
     None \<Rightarrow> Some Not_found
   | Some j \<Rightarrow> if terminal (q_state j) then Some (Already_finished (q_state j)) else None)"

definition cancel_commit :: "'q queue_port \<Rightarrow> node_view \<Rightarrow> bool \<Rightarrow> pyfloat \<Rightarrow> queued_job \<Rightarrow> 'q
    \<Rightarrow> (bool \<times> pyfloat) \<times> calls \<times> 'q" where
  "cancel_commit Q nd credit_ok now j q =
     (let (cancelled, q') = qp_cancel Q (q_job_id j) now q in
      if cancelled \<and> q_stake j > 0 \<and> q_state j = QUEUED \<and> nd_has_ledger nd then
        ((cancelled, if credit_ok then q_stake j else 0),
         [(q_job_id j, Call_credit (q_owner_id j) (q_stake j) ''queue_stake_refund:cancelled'' [])], q')
      else ((cancelled, 0), [], q'))"

definition cancel_job :: "'q queue_port \<Rightarrow> node_view \<Rightarrow> bool \<Rightarrow> pyfloat \<Rightarrow> pystr \<Rightarrow> 'q
    \<Rightarrow> (api_error + bool \<times> pyfloat) \<times> calls \<times> 'q" where
  "cancel_job Q nd credit_ok now i q =
     (case (cancel_refusal (qp_get Q i q), qp_get Q i q) of
        (None, Some j) \<Rightarrow> (let (r, cs, q') = cancel_commit Q nd credit_ok now j q in (Inr r, cs, q'))
      | (Some e, _) \<Rightarrow> (Inl e, [], q)
      | (None, None) \<Rightarrow> (Inl Not_found, [], q))"


section \<open>The whole queue at work\<close>

text \<open>
  The rows, the tasks in flight and the ledger calls made so far. A step is a submission, a tick, the end
  of a task, a cancellation request (served without interruption) or the restart of the process, which
  loses the tasks and reclaims.
\<close>

record 'q system =
  sy_sched :: "'q sched"
  sy_tasks :: "(queued_job \<times> target list) list"
  sy_calls :: calls

definition with_queue :: "'q \<Rightarrow> calls \<Rightarrow> 'q system \<Rightarrow> 'q system" where
  "with_queue q cs y = y\<lparr>sy_sched := (sy_sched y)\<lparr>sc_queue := q\<rparr>, sy_calls := sy_calls y @ cs\<rparr>"

inductive system_step :: "'q queue_port \<Rightarrow> node_view \<Rightarrow> 'q system \<Rightarrow> 'q system \<Rightarrow> bool"
  for Q :: "'q queue_port" and nd :: node_view where
  sys_submit: "submit_job Q (nd_peer_id nd) ledger new_id clock b (sc_queue (sy_sched y)) = (r, cs, q') \<Longrightarrow>
     (ledger \<noteq> None) = nd_has_ledger nd \<Longrightarrow> system_step Q nd y (with_queue q' cs y)"
| sys_tick: "tick Q (nd\<lparr>nd_hardware := hw, nd_targets := ts\<rparr>) clock (sy_sched y) = (started, cs, s') \<Longrightarrow>
     system_step Q nd y (y\<lparr>sy_sched := s', sy_tasks := sy_tasks y @ started, sy_calls := sy_calls y @ cs\<rparr>)"
| sys_done: "(j, ts) \<in> set (sy_tasks y) \<Longrightarrow> task_done Q nd now j ts e (sy_sched y) = (cs, s') \<Longrightarrow>
     system_step Q nd y (y\<lparr>sy_sched := s', sy_tasks := filter (\<lambda>t. q_job_id (fst t) \<noteq> q_job_id j) (sy_tasks y),
       sy_calls := sy_calls y @ cs\<rparr>)"
| sys_cancel: "cancel_job Q nd credit_ok now i (sc_queue (sy_sched y)) = (r, cs, q') \<Longrightarrow>
     system_step Q nd y (with_queue q' cs y)"
| sys_restart: "qp_reclaim Q older now (sc_queue (sy_sched y)) = (n, q') \<Longrightarrow>
     system_step Q nd y (y\<lparr>sy_sched := (sy_sched y)\<lparr>sc_queue := q', sc_running := []\<rparr>, sy_tasks := []\<rparr>)"

definition credited :: "pystr \<Rightarrow> calls \<Rightarrow> pyfloat" where
  "credited i cs = sum_list (map (\<lambda>(k, c). case c of Call_credit p a why cp \<Rightarrow> if k = i then a else 0 | _ \<Rightarrow> 0) cs)"

definition debited :: "pystr \<Rightarrow> calls \<Rightarrow> pyfloat" where
  "debited i cs = sum_list (map (\<lambda>(k, c). case c of Call_debit p a why \<Rightarrow> if k = i then a else 0 | _ \<Rightarrow> 0) cs)"

lemma credited_simps [simp]: "credited i [] = 0" "credited i (xs @ ys) = credited i xs + credited i ys"
  "credited i ((k, Call_credit p a why cp) # cs) = (if k = i then a else 0) + credited i cs"
  "credited i ((k, Call_debit p a why) # cs) = credited i cs"
  by (simp_all add: credited_def)

lemma debited_simps [simp]: "debited i [] = 0" "debited i (xs @ ys) = debited i xs + debited i ys"
  "debited i ((k, Call_debit p a why) # cs) = (if k = i then a else 0) + debited i cs"
  "debited i ((k, Call_credit p a why cp) # cs) = debited i cs"
  by (simp_all add: debited_def)

section \<open>What they rely on\<close>

text \<open>Of a row the laws speak of its state, its stake and its owner.\<close>

definition with_state :: "job_state \<Rightarrow> queued_job \<Rightarrow> job_state \<times> pyfloat \<times> pystr" where
  "with_state s j = (s, q_stake j, q_owner_id j)"

definition job_key :: "queued_job \<Rightarrow> job_state \<times> pyfloat \<times> pystr" where
  "job_key j = with_state (q_state j) j"

lemma with_state_fun: "with_state s = (\<lambda>j. (s, q_stake j, q_owner_id j))"
  by (rule ext) (simp add: with_state_def)

lemma job_key_fun: "job_key = (\<lambda>j. (q_state j, q_stake j, q_owner_id j))"
  by (rule ext) (simp add: job_key_def with_state_def)

text \<open>
  The books of one job, from its key: it was debited at least its stake (where there is a ledger), and it
  has been credited nothing, or its stake, being then finished without an answer and not in flight.
\<close>

definition job_books :: "bool \<Rightarrow> (job_state \<times> pyfloat \<times> pystr) option \<Rightarrow> bool \<Rightarrow> pyfloat \<Rightarrow> pyfloat \<Rightarrow> bool" where
  "job_books has_ledger k in_flight deb cred \<longleftrightarrow>
     (case k of None \<Rightarrow> cred = 0 \<and> \<not> in_flight \<and> 0 \<le> deb
      | Some (s, stake, owner) \<Rightarrow> 0 \<le> stake \<and> 0 \<le> deb \<and> (has_ledger \<longrightarrow> stake \<le> deb)
          \<and> (in_flight \<longrightarrow> s \<in> {RUNNING, CANCELLED})
          \<and> (cred = 0 \<or> has_ledger \<and> cred = stake \<and> s \<in> {EXPIRED, FAILED, CANCELLED} \<and> \<not> in_flight))"

definition task_ids :: "(queued_job \<times> target list) list \<Rightarrow> pystr list" where
  "task_ids ts = map (q_job_id \<circ> fst) ts"

locale job_store =
  fixes Q :: "'q queue_port" and ok :: "'q \<Rightarrow> bool" and row :: "pystr \<Rightarrow> 'q \<Rightarrow> queued_job option"
  assumes row_id: "ok q \<Longrightarrow> row i q = Some j \<Longrightarrow> q_job_id j = i"
    and get_law: "qp_get Q i q = row i q"
    and submit_law: "ok q \<Longrightarrow> qp_submit Q i now s q = Some (j, q') \<Longrightarrow>
        ok q' \<and> row i q = None \<and> map_option job_key (row i q') = Some (QUEUED, max 0 (s_stake s), q_owner_id j)
        \<and> q_job_id j = i \<and> (\<forall>k. k \<noteq> i \<longrightarrow> row k q' = row k q)"
    and claim_law: "ok q \<Longrightarrow> qp_claim Q i now q = (b, q') \<Longrightarrow>
        ok q' \<and> b = (\<exists>j. row i q = Some j \<and> q_state j = QUEUED)
        \<and> map_option job_key (row i q') = map_option (if b then with_state RUNNING else job_key) (row i q)
        \<and> (\<forall>k. k \<noteq> i \<longrightarrow> row k q' = row k q)"
    and finish_law: "ok q \<Longrightarrow> ok (qp_finish Q i now r q)
        \<and> map_option job_key (row i (qp_finish Q i now r q)) = map_option (with_state (o_state r)) (row i q)
        \<and> (\<forall>k. k \<noteq> i \<longrightarrow> row k (qp_finish Q i now r q) = row k q)"
    and requeue_law: "ok q \<Longrightarrow> ok (qp_requeue Q i now w q)
        \<and> map_option job_key (row i (qp_requeue Q i now w q))
          = map_option (\<lambda>j. with_state (if q_state j = RUNNING then QUEUED else q_state j) j) (row i q)
        \<and> (\<forall>k. k \<noteq> i \<longrightarrow> row k (qp_requeue Q i now w q) = row k q)"
    and note_law: "ok q \<Longrightarrow> ok (qp_note Q i now w q)
        \<and> map_option job_key (row k (qp_note Q i now w q)) = map_option job_key (row k q)"
    and cancel_law: "ok q \<Longrightarrow> qp_cancel Q i now q = (b, q') \<Longrightarrow>
        ok q' \<and> b = (\<exists>j. row i q = Some j \<and> q_state j \<in> {QUEUED, RUNNING})
        \<and> map_option job_key (row i q') = map_option (if b then with_state CANCELLED else job_key) (row i q)
        \<and> (\<forall>k. k \<noteq> i \<longrightarrow> row k q' = row k q)"
    and expire_law: "ok q \<Longrightarrow> qp_expire Q now q = (ids, q') \<Longrightarrow>
        ok q' \<and> distinct ids \<and> (\<forall>i \<in> set ids. map_option q_state (row i q) = Some QUEUED)
        \<and> (\<forall>k. map_option job_key (row k q')
            = map_option (if k \<in> set ids then with_state EXPIRED else job_key) (row k q))"
    and reclaim_law: "ok q \<Longrightarrow> qp_reclaim Q older now q = (n, q') \<Longrightarrow>
        ok q' \<and> (map_option job_key (row k q') = map_option job_key (row k q)
          \<or> map_option q_state (row k q) = Some RUNNING
            \<and> map_option job_key (row k q') = map_option (with_state QUEUED) (row k q))"
begin

definition key :: "pystr \<Rightarrow> 'q \<Rightarrow> (job_state \<times> pyfloat \<times> pystr) option" where
  "key i q = map_option job_key (row i q)"

lemma key_claim:
  assumes "ok q" "qp_claim Q i now q = (b, q')"
  shows "ok q'" "b \<longleftrightarrow> (\<exists>x. key i q = Some (QUEUED, x))"
    "key k q' = (if b \<and> k = i then map_option (\<lambda>(s, x). (RUNNING, x)) (key k q) else key k q)"
proof -
  note law = claim_law [OF assms]
  show "ok q'" using law by blast
  show "b \<longleftrightarrow> (\<exists>x. key i q = Some (QUEUED, x))"
    using law by (auto simp: key_def job_key_fun with_state_fun)
  show "key k q' = (if b \<and> k = i then map_option (\<lambda>(s, x). (RUNNING, x)) (key k q) else key k q)"
    using law by (cases "k = i") (auto simp: key_def job_key_fun with_state_fun option.map_comp o_def)
qed

lemma key_tick_jobs:
  assumes "ok (sc_queue s)" "tick_jobs Q ts clock js n s = (started, s')"
  shows "ok (sc_queue s') \<and> distinct (map (q_job_id \<circ> fst) started)
    \<and> sc_running s' = sc_running s @ map (q_job_id \<circ> fst) started
    \<and> (\<forall>i \<in> set (map (q_job_id \<circ> fst) started). \<exists>x. key i (sc_queue s) = Some (QUEUED, x))
    \<and> (\<forall>k. key k (sc_queue s') = (if k \<in> set (map (q_job_id \<circ> fst) started)
          then map_option (\<lambda>(s, x). (RUNNING, x)) (key k (sc_queue s)) else key k (sc_queue s)))"
  using assms
proof (induction js arbitrary: n s started s')
  case (Cons j js)
  let ?ts = "job_targets ts j" and ?i = "q_job_id j"
  let ?wait = "waiting_reason_for j ?ts ts"
  consider (full) "length (sc_running s) \<ge> sc_max s" | (wait) "\<not> length (sc_running s) \<ge> sc_max s" "?wait \<noteq> []"
    | (claim) "\<not> length (sc_running s) \<ge> sc_max s" "?wait = []" by blast
  then show ?case
  proof cases
    case full
    then show ?thesis using Cons.prems by auto
  next
    case wait
    note nt = note_law [OF Cons.prems(1), of ?i "clock n" ?wait]
    then have "ok (qp_note Q ?i (clock n) ?wait (sc_queue s))"
      "\<And>k. key k (qp_note Q ?i (clock n) ?wait (sc_queue s)) = key k (sc_queue s)" by (simp_all add: key_def)
    then show ?thesis using wait Cons.prems(2)
        Cons.IH [of "s\<lparr>sc_queue := qp_note Q ?i (clock n) ?wait (sc_queue s)\<rparr>" "n + 1" started s']
      by (simp add: Let_def)
  next
    case claim
    obtain b q1 where c: "qp_claim Q ?i (clock n) (sc_queue s) = (b, q1)" by fastforce
    note k = key_claim [OF Cons.prems(1) c]
    show ?thesis
    proof (cases b)
      case False
      then show ?thesis using claim Cons.prems(2) c k Cons.IH [of "s\<lparr>sc_queue := q1\<rparr>" "n + 1" started s']
        by (simp add: Let_def)
    next
      case True
      obtain st1 s1 where r: "tick_jobs Q ts clock js (n + 1) (s\<lparr>sc_queue := q1, sc_running := sc_running s @ [?i]\<rparr>)
          = (st1, s1)" by fastforce
      have e: "started = (j, ?ts) # st1" "s' = s1" using claim Cons.prems(2) c r True by (simp_all add: Let_def)
      define I where "I = map (q_job_id \<circ> fst) st1"
      have I: "map (q_job_id \<circ> fst) started = ?i # I" by (simp add: e I_def)
      have ok1: "ok (sc_queue (s\<lparr>sc_queue := q1, sc_running := sc_running s @ [?i]\<rparr>))" using k(1) by simp
      have IH: "ok (sc_queue s1)" "distinct I" "sc_running s1 = sc_running s @ [?i] @ I"
        "\<And>i. i \<in> set I \<Longrightarrow> \<exists>x. key i q1 = Some (QUEUED, x)"
        "\<And>k. key k (sc_queue s1) = (if k \<in> set I then map_option (\<lambda>(s, x). (RUNNING, x)) (key k q1) else key k q1)"
        using Cons.IH [OF ok1 r] unfolding I_def [symmetric] by simp_all
      have notin: "?i \<notin> set I" using IH(4) [of ?i] k(2,3) True by auto
      have started: "\<exists>x. key i (sc_queue s) = Some (QUEUED, x)" if "i \<in> set (?i # I)" for i
        using that k(2,3) True IH(4) [of i] notin by (cases "i = ?i") auto
      show ?thesis unfolding I e(2)
        using IH(1-3,5) notin started k(3) True by (auto simp: e(2))
    qed
  qed
qed simp

definition system_inv :: "bool \<Rightarrow> 'q system \<Rightarrow> bool" where
  "system_inv hl y \<longleftrightarrow> ok (sc_queue (sy_sched y)) \<and>
     (\<forall>i. job_books hl (key i (sc_queue (sy_sched y))) (i \<in> set (task_ids (sy_tasks y)))
            (debited i (sy_calls y)) (credited i (sy_calls y)))"

lemma refund_credited:
  assumes "map_option (\<lambda>(s, x). x) (key i q) = Some (stake, owner)"
  shows "credited k (refund_call Q nd why q i) =
     (if k = i \<and> nd_has_ledger nd \<and> 0 < stake \<and> owner \<noteq> [] then stake else 0)"
    "debited k (refund_call Q nd why q i) = 0"
  using assms by (auto simp: refund_call_def get_law key_def job_key_fun with_state_fun)

lemma store_effect:
  assumes "ok q" "store_job Q peer new_id clock b model min_tier q stake cs0 = (r, cs, q')"
  shows "cs = cs0 \<and> (q' = q \<or> ok q' \<and> key new_id q = None
    \<and> (\<exists>owner. key new_id q' = Some (QUEUED, max 0 stake, owner)) \<and> (\<forall>k. k \<noteq> new_id \<longrightarrow> key k q' = key k q))"
  using assms(2) submit_law [OF assms(1)] unfolding store_job_def
  by (fastforce simp: key_def split: option.splits prod.splits)

lemma submit_shape:
  obtains (refused) e where "submit_job Q peer ledger new_id clock b q = (Some (Inl e), [], q)"
  | (stored) model min_tier stake cs where
      "submit_job Q peer ledger new_id clock b q = store_job Q peer new_id clock b model min_tier q stake cs"
      "0 \<le> stake" "cs = [(new_id, Call_debit peer stake ''queue_stake'')] \<or> cs = [] \<and> (ledger \<noteq> None \<longrightarrow> stake = 0)"
proof -
  define tier where "tier = py_lower (py_strip (b_min_tier b))"
  define model where "model = (if py_lower (py_strip (b_model b)) \<in> {''auto'', ''default''} then [] else py_strip (b_model b))"
  define stake where "stake = max 0 (b_stake b)"
  let ?acc = "store_job Q peer new_id clock b model tier q"
  let ?go = "case (if stake > 0 then ledger else None) of
      None \<Rightarrow> ?acc stake []
    | Some (balance, debit_ok) \<Rightarrow>
        if balance \<noteq> None \<and> the balance < stake then (Some (Inl (Insufficient_stake stake (the balance))), [], q)
        else if debit_ok then ?acc stake [(new_id, Call_debit peer stake ''queue_stake'')]
        else ?acc 0 []"
  have e: "submit_job Q peer ledger new_id clock b q =
     (if b_messages b = [] then (Some (Inl Messages_required), [], q)
      else if tier \<noteq> [] \<and> map_of TIER_RANK tier = None then (Some (Inl (Unknown_tier tier)), [], q)
      else if model \<noteq> [] \<and> tier \<noteq> [] then (Some (Inl Tier_with_model), [], q) else ?go)"
    unfolding submit_job_def Let_def tier_def model_def stake_def ..
  have pos: "0 \<le> stake" by (simp add: stake_def)
  consider (early) e where "submit_job Q peer ledger new_id clock b q = (Some (Inl e), [], q)"
    | (go) "submit_job Q peer ledger new_id clock b q = ?go"
    unfolding e by metis
  then show ?thesis
  proof cases
    case early
    then show ?thesis by (rule refused)
  next
    case go
    show ?thesis
    proof (cases "if stake > 0 then ledger else None")
      case None
      then show ?thesis using go pos stored [of model tier stake "[]"] by (simp split: if_splits)
    next
      case (Some p)
      obtain balance debit_ok where p: "p = (balance, debit_ok)" by (cases p)
      show ?thesis
      proof (cases "balance \<noteq> None \<and> the balance < stake")
        case True
        then show ?thesis using go Some p refused by simp
      next
        case False
        then show ?thesis using go Some p pos
            stored [of model tier stake "[(new_id, Call_debit peer stake ''queue_stake'')]"]
            stored [of model tier 0 "[]"] by (cases debit_ok) auto
      qed
    qed
  qed
qed

lemma submit_books:
  assumes "ok q" "submit_job Q peer ledger new_id clock b q = (r, cs, q')"
    "job_books hl (key i q) fl deb cred" "hl = (ledger \<noteq> None)"
  shows "job_books hl (key i q') fl (deb + debited i cs) (cred + credited i cs)" "ok q'"
proof -
  have "ok q' \<and> job_books hl (key i q') fl (deb + debited i cs) (cred + credited i cs)"
  proof (cases rule: submit_shape [of peer ledger new_id clock b q])
    case (refused e)
    then show ?thesis using assms by simp
  next
    case (stored model min_tier stake cs0)
    note e = store_effect [OF assms(1), of peer new_id clock b model min_tier stake cs0 r cs q']
    have e: "cs = cs0" "q' = q \<or> ok q' \<and> key new_id q = None
        \<and> (\<exists>owner. key new_id q' = Some (QUEUED, stake, owner)) \<and> (\<forall>k. k \<noteq> new_id \<longrightarrow> key k q' = key k q)"
      using e stored(1,2) assms(2) by (simp_all add: max_def)
    have c: "credited i cs = 0" "0 \<le> debited i cs" "ledger \<noteq> None \<Longrightarrow> i = new_id \<Longrightarrow> stake \<le> debited i cs"
      using stored(2,3) e(1) by auto
    show ?thesis using e(2)
    proof
      assume "q' = q"
      then show ?thesis using assms(1,3) c(1,2) by (auto simp: job_books_def split: option.splits prod.splits)
    next
      assume n: "ok q' \<and> key new_id q = None \<and> (\<exists>owner. key new_id q' = Some (QUEUED, stake, owner))
        \<and> (\<forall>k. k \<noteq> new_id \<longrightarrow> key k q' = key k q)"
      show ?thesis
      proof (cases "i = new_id")
        case True
        then show ?thesis using n assms(3,4) c stored(2) by (fastforce simp: job_books_def)
      next
        case False
        then show ?thesis using n assms(3) c(1,2) by (auto simp: job_books_def split: option.splits prod.splits)
      qed
    qed
  qed
  then show "job_books hl (key i q') fl (deb + debited i cs) (cred + credited i cs)" "ok q'" by blast+
qed

lemma credited_refunds:
  assumes "distinct ids" "\<And>i. i \<in> set ids \<Longrightarrow> map_option snd (key i q) = map_option snd (k i)"
    "\<And>i. i \<in> set ids \<Longrightarrow> k i \<noteq> None"
  shows "credited i (concat (map (refund_call Q nd why q) ids)) \<in>
     {0, (if i \<in> set ids \<and> nd_has_ledger nd then fst (snd (the (k i))) else 0)}
    \<and> debited i (concat (map (refund_call Q nd why q) ids)) = 0"
  using assms
proof (induction ids)
  case (Cons x ids)
  obtain s stake owner where kx: "k x = Some (s, stake, owner)" using Cons.prems(3) [of x] by (cases "k x") auto
  then have "map_option snd (key x q) = Some (stake, owner)" using Cons.prems(2) [of x] by simp
  then have m: "map_option (\<lambda>(s, x). x) (key x q) = Some (stake, owner)" by (cases "key x q") auto
  note r = refund_credited [OF m, of i nd why]
  have IH: "credited i (concat (map (refund_call Q nd why q) ids)) \<in>
      {0, (if i \<in> set ids \<and> nd_has_ledger nd then fst (snd (the (k i))) else 0)}
    \<and> debited i (concat (map (refund_call Q nd why q) ids)) = 0"
    using Cons.IH Cons.prems by simp
  then show ?case using r Cons.prems(1) kx by (cases "i = x") auto
qed simp

lemma key_expire:
  assumes "ok q" "qp_expire Q now q = (ids, q')"
  shows "ok q'" "distinct ids" "i \<in> set ids \<Longrightarrow> \<exists>x. key i q = Some (QUEUED, x)"
    "key k q' = (if k \<in> set ids then map_option (\<lambda>(s, x). (EXPIRED, x)) (key k q) else key k q)"
proof -
  note law = expire_law [OF assms]
  show "ok q'" "distinct ids" using law by blast+
  show "i \<in> set ids \<Longrightarrow> \<exists>x. key i q = Some (QUEUED, x)"
    using law by (force simp: key_def job_key_fun with_state_fun)
  show "key k q' = (if k \<in> set ids then map_option (\<lambda>(s, x). (EXPIRED, x)) (key k q) else key k q)"
    using law by (simp add: key_def job_key_fun with_state_fun option.map_comp o_def)
qed

lemma key_note: "ok q \<Longrightarrow> ok (qp_note Q i now w q)" "ok q \<Longrightarrow> key k (qp_note Q i now w q) = key k q"
  using note_law by (simp_all add: key_def)

lemma tick_effect:
  assumes "ok (sc_queue s)" "tick Q nd clock s = (started, cs, s')"
  obtains ids where "ok (sc_queue s')" "\<And>i. i \<in> set ids \<Longrightarrow> \<exists>x. key i (sc_queue s) = Some (QUEUED, x)"
    "\<And>i. i \<in> set (task_ids started) \<Longrightarrow> i \<notin> set ids \<and> (\<exists>x. key i (sc_queue s) = Some (QUEUED, x))"
    "\<And>i. credited i cs \<in> {0, (if i \<in> set ids \<and> nd_has_ledger nd then fst (snd (the (key i (sc_queue s)))) else 0)}"
    "\<And>i. debited i cs = 0"
    "\<And>k. key k (sc_queue s') = (if k \<in> set ids then map_option (\<lambda>(s, x). (EXPIRED, x)) (key k (sc_queue s))
       else if k \<in> set (task_ids started) then map_option (\<lambda>(s, x). (RUNNING, x)) (key k (sc_queue s))
       else key k (sc_queue s))"
proof -
  let ?q = "sc_queue s"
  obtain ids q1 where ex: "qp_expire Q (clock 0) ?q = (ids, q1)" by fastforce
  note k1 = key_expire [OF assms(1) ex]
  let ?rf = "concat (map (refund_call Q nd ''expired'' q1) ids)"
  have books: "credited i ?rf \<in> {0, (if i \<in> set ids \<and> nd_has_ledger nd then fst (snd (the (key i ?q))) else 0)}
      \<and> debited i ?rf = 0" for i
  proof (rule credited_refunds [OF k1(2)])
    fix i assume i: "i \<in> set ids"
    then obtain x where "key i ?q = Some (QUEUED, x)" using k1(3) by blast
    then show "map_option snd (key i q1) = map_option snd (key i ?q)" "key i ?q \<noteq> None"
      using k1(4) [of i] i by simp_all
  qed
  obtain okd reason where el: "eligible nd (s\<lparr>sc_queue := q1\<rparr>) = (okd, reason)" by fastforce
  consider (idle) "started = []" "sc_queue s' = q1" "cs = ?rf"
    | (wait) j where "started = []" "sc_queue s' = qp_note Q j (clock 2) reason q1" "cs = ?rf"
    | (go) js where "tick_jobs Q (nd_targets nd) clock js 3 (s\<lparr>sc_queue := q1, sc_reason := reason\<rparr>)
        = (started, s')" "cs = ?rf"
    using assms(2) ex el unfolding tick_def
    by (cases "qp_pending Q (clock 1) q1") (auto simp: Let_def simp del: tick_jobs.simps split: prod.splits if_splits)
  then show ?thesis
  proof cases
    case idle
    then show ?thesis using k1 books by (intro that [of ids]) (auto simp: task_ids_def)
  next
    case wait
    then show ?thesis using k1 books key_note [OF k1(1)] by (intro that [of ids]) (auto simp: task_ids_def)
  next
    case go
    have "ok (sc_queue (s\<lparr>sc_queue := q1, sc_reason := reason\<rparr>))" using k1(1) by simp
    then have "ok (sc_queue s') \<and> (\<forall>i \<in> set (task_ids started). \<exists>x. key i q1 = Some (QUEUED, x))
      \<and> (\<forall>k. key k (sc_queue s') = (if k \<in> set (task_ids started)
          then map_option (\<lambda>(s, x). (RUNNING, x)) (key k q1) else key k q1))"
      using key_tick_jobs [OF _ go(1)] by (simp add: task_ids_def)
    then have t: "ok (sc_queue s')" "\<And>i. i \<in> set (task_ids started) \<Longrightarrow> \<exists>x. key i q1 = Some (QUEUED, x)"
      "\<And>k. key k (sc_queue s') = (if k \<in> set (task_ids started)
          then map_option (\<lambda>(s, x). (RUNNING, x)) (key k q1) else key k q1)"
      by blast+
    have sep: "i \<notin> set ids \<and> (\<exists>x. key i ?q = Some (QUEUED, x))" if i: "i \<in> set (task_ids started)" for i
    proof -
      obtain x where x: "key i q1 = Some (QUEUED, x)" using t(2) [OF i] by blast
      then have "i \<notin> set ids" using k1(4) [of i] by auto
      then show ?thesis using x k1(4) [of i] by auto
    qed
    show ?thesis
    proof (rule that [of ids])
      fix k
      show "key k (sc_queue s') = (if k \<in> set ids then map_option (\<lambda>(s, x). (EXPIRED, x)) (key k ?q)
         else if k \<in> set (task_ids started) then map_option (\<lambda>(s, x). (RUNNING, x)) (key k ?q) else key k ?q)"
        using t(3) [of k] k1(4) [of k] sep [of k] by auto
    qed (use t(1) k1(3) sep books go(2) in auto)
  qed
qed

lemma key_other: "row k q' = row k q \<Longrightarrow> key k q' = key k q"
  by (simp add: key_def)

lemma run_effect:
  assumes "ok q" "run_job Q nd now j ts e q = (cs, q')"
  shows "ok q' \<and> (\<forall>k. k \<noteq> q_job_id j \<longrightarrow> key k q' = key k q \<and> credited k cs = 0) \<and> (\<forall>k. debited k cs = 0)
    \<and> (case key (q_job_id j) q of None \<Rightarrow> credited (q_job_id j) cs = 0 \<and> key (q_job_id j) q' = None
       | Some (s, stake, owner) \<Rightarrow> \<exists>s'. key (q_job_id j) q' = Some (s', stake, owner)
         \<and> (s' = DONE \<or> s' = FAILED \<or> s' = s \<or> s = RUNNING \<and> s' = QUEUED)
         \<and> (credited (q_job_id j) cs = 0
            \<or> credited (q_job_id j) cs = stake \<and> nd_has_ledger nd \<and> s' = FAILED))"
proof -
  let ?i = "q_job_id j"
  have fin: "ok (qp_finish Q ?i now r q) \<and> (\<forall>k. k \<noteq> ?i \<longrightarrow> key k (qp_finish Q ?i now r q) = key k q)
      \<and> key ?i (qp_finish Q ?i now r q) = map_option (\<lambda>(s, x). (o_state r, x)) (key ?i q)" for r
    using finish_law [OF assms(1), of ?i now r]
    by (auto simp: key_def job_key_fun with_state_fun option.map_comp o_def)
  have req: "ok (qp_requeue Q ?i now w q) \<and> (\<forall>k. k \<noteq> ?i \<longrightarrow> key k (qp_requeue Q ?i now w q) = key k q)
      \<and> key ?i (qp_requeue Q ?i now w q) = map_option (\<lambda>(s, x). (if s = RUNNING then QUEUED else s, x)) (key ?i q)" for w
    using requeue_law [OF assms(1), of ?i now w]
    by (auto simp: key_def job_key_fun with_state_fun option.map_comp o_def)
  have refund: "(\<forall>k. debited k (refund_call Q nd why q1 ?i) = 0)
      \<and> (\<forall>k. k \<noteq> ?i \<longrightarrow> credited k (refund_call Q nd why q1 ?i) = 0)
      \<and> (case key ?i q1 of None \<Rightarrow> credited ?i (refund_call Q nd why q1 ?i) = 0 | Some (s, stake, owner) \<Rightarrow>
          credited ?i (refund_call Q nd why q1 ?i) \<in> {0, if nd_has_ledger nd then stake else 0})" for why q1
    by (auto simp: refund_call_def get_law key_def job_key_fun with_state_fun split: option.splits)
  consider (again) w where "cs = []" "q' = qp_requeue Q ?i now w q"
    | (fail) err m where "q' = qp_finish Q ?i now (failed_with err m) q" "cs = refund_call Q nd ''failed'' q' ?i"
    | (good) r where "cs = []" "q' = qp_finish Q ?i now r q" "o_state r = DONE"
    using assms(2) unfolding run_job_def
    by (cases e) (auto simp: Let_def split: if_splits prod.splits)
  then show ?thesis
  proof cases
    case again
    then show ?thesis using req [of w] by (auto split: option.splits prod.splits)
  next
    case fail
    then show ?thesis using fin [of "failed_with err m"] refund [of "''failed''" q']
      by (auto simp: failed_with_def split: option.splits prod.splits)
  next
    case good
    then show ?thesis using fin [of r] by (auto split: option.splits prod.splits)
  qed
qed

lemma cancel_effect:
  assumes "ok q" "cancel_job Q nd credit_ok now i q = (r, cs, q')"
  shows "ok q' \<and> (\<forall>k. debited k cs = 0) \<and> (\<forall>k. k \<noteq> i \<longrightarrow> key k q' = key k q \<and> credited k cs = 0)
    \<and> (key i q' = key i q \<and> credited i cs = 0
       \<or> (\<exists>s stake owner. key i q = Some (s, stake, owner) \<and> s \<in> {QUEUED, RUNNING}
            \<and> key i q' = Some (CANCELLED, stake, owner)
            \<and> (credited i cs = 0 \<or> s = QUEUED \<and> nd_has_ledger nd \<and> credited i cs = stake)))"
proof (cases "row i q")
  case None
  then show ?thesis using assms by (simp add: cancel_job_def cancel_refusal_def get_law)
next
  case (Some j)
  have id: "q_job_id j = i" using row_id [OF assms(1) Some] .
  obtain b q1 where c: "qp_cancel Q i now q = (b, q1)" by fastforce
  note law = cancel_law [OF assms(1) c]
  show ?thesis
  proof (cases "terminal (q_state j)")
    case True
    then show ?thesis using assms Some by (simp add: cancel_job_def cancel_refusal_def get_law)
  next
    case False
    then have st: "q_state j \<in> {QUEUED, RUNNING}" by (cases "q_state j") (simp_all add: terminal_def)
    have b using law Some st by blast
    then show ?thesis using assms(2) False Some c id law st
      by (auto simp: cancel_job_def cancel_refusal_def cancel_commit_def get_law key_def job_key_fun with_state_fun
          split: if_splits)
  qed
qed

lemma task_ids_append [simp]: "task_ids (a @ b) = task_ids a @ task_ids b"
  by (simp add: task_ids_def)

lemma task_ids_filter: "set (task_ids (filter (\<lambda>t. q_job_id (fst t) \<noteq> i) ts)) = set (task_ids ts) - {i}"
  by (auto simp: task_ids_def)

lemma system_step_inv:
  assumes "system_step Q nd y y'" "system_inv (nd_has_ledger nd) y"
  shows "system_inv (nd_has_ledger nd) y'"
proof -
  let ?q = "sc_queue (sy_sched y)" and ?hl = "nd_has_ledger nd"
  have okq: "ok ?q" and books: "\<And>i. job_books ?hl (key i ?q) (i \<in> set (task_ids (sy_tasks y)))
      (debited i (sy_calls y)) (credited i (sy_calls y))"
    using assms(2) by (simp_all add: system_inv_def)
  from assms(1) show ?thesis
  proof cases
    case (sys_submit ledger new_id clock b r cs q')
    then show ?thesis using submit_books [OF okq sys_submit(2) books]
      by (auto simp: system_inv_def with_queue_def)
  next
    case (sys_tick hw ts clock started cs s')
    obtain ids where t: "ok (sc_queue s')" "\<And>i. i \<in> set ids \<Longrightarrow> \<exists>x. key i ?q = Some (QUEUED, x)"
      "\<And>i. i \<in> set (task_ids started) \<Longrightarrow> i \<notin> set ids \<and> (\<exists>x. key i ?q = Some (QUEUED, x))"
      "\<And>i. credited i cs \<in> {0, (if i \<in> set ids \<and> ?hl then fst (snd (the (key i ?q))) else 0)}"
      "\<And>i. debited i cs = 0"
      "\<And>k. key k (sc_queue s') = (if k \<in> set ids then map_option (\<lambda>(s, x). (EXPIRED, x)) (key k ?q)
         else if k \<in> set (task_ids started) then map_option (\<lambda>(s, x). (RUNNING, x)) (key k ?q) else key k ?q)"
      using tick_effect [OF okq sys_tick(2)] by auto
    have "job_books ?hl (key i (sc_queue s')) (i \<in> set (task_ids (sy_tasks y @ started)))
        (debited i (sy_calls y @ cs)) (credited i (sy_calls y @ cs))" for i
      using books [of i] t(2-6) [of i]
      by (cases "i \<in> set ids"; cases "i \<in> set (task_ids started)") (auto simp: job_books_def)
    then show ?thesis using t(1) by (simp add: sys_tick(1) system_inv_def)
  next
    case (sys_done j ts now e cs s')
    let ?i = "q_job_id j"
    obtain q' where r: "run_job Q nd now j ts e ?q = (cs, q')" "sc_queue s' = q'"
      using sys_done(3) by (auto simp: task_done_def split: prod.splits)
    note eff = run_effect [OF okq r(1)]
    have fl: "?i \<in> set (task_ids (sy_tasks y))" using sys_done(2) by (force simp: task_ids_def)
    have "job_books ?hl (key k q') (k \<in> set (task_ids (sy_tasks y)) - {?i})
        (debited k (sy_calls y @ cs)) (credited k (sy_calls y @ cs))" for k
    proof (cases "k = ?i")
      case False
      then show ?thesis using eff books [of k] by simp
    next
      case True
      then show ?thesis using eff books [of ?i] fl
        by (cases "key ?i ?q") (auto simp: job_books_def)
    qed
    then show ?thesis using eff r(2) by (simp add: sys_done(1) system_inv_def task_ids_filter)
  next
    case (sys_cancel credit_ok now i r cs q')
    note eff = cancel_effect [OF okq sys_cancel(2)]
    have "job_books ?hl (key k q') (k \<in> set (task_ids (sy_tasks y)))
        (debited k (sy_calls y @ cs)) (credited k (sy_calls y @ cs))" for k
    proof (cases "k = i")
      case False
      then show ?thesis using eff books [of k] by simp
    next
      case True
      then show ?thesis using eff books [of i]
        by (cases "key i ?q") (auto simp: job_books_def)
    qed
    then show ?thesis using eff by (simp add: sys_cancel(1) system_inv_def with_queue_def)
  next
    case (sys_restart older now n q')
    note law = reclaim_law [OF okq sys_restart(2)]
    have moved: "key k q' = key k ?q \<or> (\<exists>x. key k ?q = Some (RUNNING, x) \<and> key k q' = Some (QUEUED, x))" for k
      using law [of k] by (auto simp: key_def job_key_fun with_state_fun)
    have "job_books ?hl (key k q') False (debited k (sy_calls y)) (credited k (sy_calls y))" for k
      using moved [of k]
    proof
      assume "key k q' = key k ?q"
      then show ?thesis using books [of k] by (cases "key k ?q") (auto simp: job_books_def)
    next
      assume "\<exists>x. key k ?q = Some (RUNNING, x) \<and> key k q' = Some (QUEUED, x)"
      then obtain stake owner where "key k ?q = Some (RUNNING, stake, owner)" "key k q' = Some (QUEUED, stake, owner)"
        by auto
      then show ?thesis using books [of k] by (simp add: job_books_def)
    qed
    then show ?thesis using law by (simp add: sys_restart(1) system_inv_def task_ids_def)
  qed
qed

lemma system_steps_inv:
  assumes "(system_step Q nd)\<^sup>*\<^sup>* y y'" "system_inv (nd_has_ledger nd) y"
  shows "system_inv (nd_has_ledger nd) y'"
  using assms by (induction rule: rtranclp_induct) (auto intro: system_step_inv)

end

definition queue_ops_of :: "pystr \<Rightarrow> job_table queue_port" where
  "queue_ops_of owner =
     \<lparr>qp_submit = submit owner, qp_claim = claim, qp_finish = finish, qp_requeue = requeue, qp_note = note_waiting,
      qp_cancel = cancel, qp_expire = expire_due, qp_reclaim = reclaim_stale_running, qp_get = get_job,
      qp_pending = pending 200 owner, qp_position = position owner\<rparr>"

lemma map_row_other:
  "k \<noteq> i \<Longrightarrow> map_option (\<lambda>q. if q_job_id q = i \<and> P q then f q else q) (get_job k tab) = get_job k tab"
  "k \<noteq> i \<Longrightarrow> map_option (\<lambda>q. if q_job_id q = i then f q else q) (get_job k tab) = get_job k tab"
  by (cases "get_job k tab"; auto dest: get_job_SomeD)+

lemma map_row_same:
  "map_option (\<lambda>q. if q_job_id q = i \<and> P q then f q else q) (get_job i tab)
     = map_option (\<lambda>q. if P q then f q else q) (get_job i tab)"
  "map_option (\<lambda>q. if q_job_id q = i then f q else q) (get_job i tab) = map_option f (get_job i tab)"
  by (cases "get_job i tab"; auto dest: get_job_SomeD)+

interpretation jq: job_store "queue_ops_of owner" rows_ok get_job
proof (unfold_locales, goal_cases)
  case (1 q i j)
  then show ?case using get_job_SomeD by blast
next
  case (2 i q)
  then show ?case by (simp add: queue_ops_of_def)
next
  case (3 q i now s j q')
  note s = 3(2) [unfolded queue_ops_of_def queue_port.simps]
  have "get_job i q = None" using s by (auto simp: submit_def Let_def get_job_def find_none_iff_set split: if_splits)
  then show ?case using get_submit [OF s 3(1)] by (simp add: new_job_def job_key_fun with_state_fun)
next
  case (4 q i now b q')
  then have c: "claim i now q = (b, q')" by (simp add: queue_ops_of_def)
  then have "q' = snd (claim i now q)" "b = fst (claim i now q)" by simp_all
  then show ?case using claim_true_iff [OF 4(1), of i now] 4(1) get_job_SomeD [of i q]
    by (cases "get_job i q") (simp_all add: get_claim claimable_def map_row_other map_row_same job_key_fun with_state_fun)
next
  case (5 q i now r)
  then show ?case using get_job_SomeD [of i q]
    by (cases "get_job i q") (simp_all add: queue_ops_of_def get_finish map_row_other map_row_same option.map_comp o_def job_key_fun with_state_fun)
next
  case (6 q i now w)
  then show ?case using get_job_SomeD [of i q]
    by (cases "get_job i q") (simp_all add: queue_ops_of_def get_requeue map_row_other map_row_same job_key_fun with_state_fun)
next
  case (7 q i now w k)
  then show ?case by (cases "get_job k q") (simp_all add: queue_ops_of_def get_note job_key_fun with_state_fun)
next
  case (8 q i now b q')
  then have c: "cancel i now q = (b, q')" by (simp add: queue_ops_of_def)
  then have "q' = snd (cancel i now q)" "b = fst (cancel i now q)" by simp_all
  then show ?case using cancel_true_iff [OF 8(1), of i now] 8(1) get_job_SomeD [of i q]
    by (cases "get_job i q") (simp_all add: get_cancel cancellable_def map_row_other map_row_same job_key_fun with_state_fun)
next
  case (9 q now ids q')
  then have c: "expire_due now q = (ids, q')" by (simp add: queue_ops_of_def)
  then have "q' = snd (expire_due now q)" "ids = fst (expire_due now q)" by simp_all
  then have ids: "distinct ids" "\<And>i. i \<in> set ids \<longleftrightarrow> (\<exists>j. get_job i q = Some j \<and> due now j)"
    and rows: "\<And>k. get_job k q' = map_option (\<lambda>j. if due now j then j\<lparr>q_state := EXPIRED,
      q_finished_at := now, q_updated_at := now,
      q_error := ''Deadline passed before any device could run it.''\<rparr> else j) (get_job k q)"
    using expired_ids [OF 9(1)] get_expire [OF 9(1)] by blast+
  have "map_option job_key (get_job k q')
      = map_option (if k \<in> set ids then with_state EXPIRED else job_key) (get_job k q)" for k
    unfolding rows by (cases "get_job k q") (auto simp: ids(2) job_key_fun with_state_fun)
  then show ?case using ids 9(1) \<open>q' = _\<close> by (auto simp: due_def)
next
  case (10 q older now n q' k)
  then have "q' = snd (reclaim_stale_running older now q)" by (simp add: queue_ops_of_def)
  then show ?case using 10(1)
    by (cases "get_job k q") (auto simp: get_reclaim stale_def job_key_fun with_state_fun)
qed


section \<open>Stakes\<close>

definition idle_system :: "job_table system" where
  "idle_system = \<lparr>sy_sched = \<lparr>sc_queue = [], sc_running = [], sc_max = 1, sc_reason = []\<rparr>,
     sy_tasks = [], sy_calls = []\<rparr>"

lemma idle_system_inv: "jq.system_inv hl idle_system"
  by (simp add: jq.system_inv_def idle_system_def jq.key_def job_books_def task_ids_def rows_ok_def get_job_def)


definition demo_node :: node_view where
  "demo_node = \<lparr>nd_hardware = None, nd_targets = demo_targets, nd_has_ledger = True, nd_peer_id = ''ann''\<rparr>"

definition demo_request :: submit_request where
  "demo_request = \<lparr>b_messages = [\<lparr>m_role = ''user'', m_content = CText ''why is the sky blue''\<rparr>], b_model = [],
     b_min_tier = ''capable'', b_trust = [], b_temperature = 7 / 10, b_max_tokens = 256, b_token_budget = 0,
     b_fanout = 0, b_stake = 5, b_ttl_s = 3600\<rparr>"

definition demo_submitted :: "job_table system" where
  "demo_submitted = (let (r, cs, q) = submit_job (queue_ops_of ''ann'') ''ann'' (Some (Some 100, True)) ''q1'' (\<lambda>n. 10)
     demo_request [] in with_queue q cs idle_system)"

definition demo_cancelled :: "job_table system" where
  "demo_cancelled = (let (r, cs, q) = cancel_job (queue_ops_of ''ann'') demo_node True 20 ''q1''
     (sc_queue (sy_sched demo_submitted)) in with_queue q cs demo_submitted)"


text \<open>
  When another transaction gets between the read and the commit of a cancellation, the guarantee is lost:
  the row is claimed after it was read as queued, the cancellation refunds it, and when the run
  fails it is refunded again.
\<close>

lemma cancel_race_refunds_twice:
  "let Q = queue_ops_of ''ann'';
       j = new_job ''ann'' ''q1'' 10 demo_submission;
       (won, t1) = claim ''q1'' 11 [j];
       (r, cs1, t2) = cancel_commit Q demo_node True 12 j t1;
       (cs2, t3) = run_job Q demo_node 13 j [] (RunRaised ''boom'') t2
   in won \<and> credited ''q1'' (cs1 @ cs2) = 2 * q_stake j \<and> 0 < q_stake j"
  by code_simp

section \<open>What a started job runs on\<close>

lemma tick_jobs_targets:
  "tick_jobs Q all_targets clock js n s = (started, s') \<Longrightarrow> (j, ts) \<in> set started \<Longrightarrow>
     ts = job_targets all_targets j \<and> ts \<noteq> []"
proof (induction js arbitrary: n s started s')
  case (Cons x js)
  have wait: "waiting_reason_for x [] all_targets \<noteq> []"
    by (simp add: waiting_reason_for_def)
  show ?case using Cons.prems Cons.IH wait
    by (auto simp: Let_def split: if_splits prod.splits)
qed simp

lemma tick_targets:
  assumes "tick Q nd clock s = (started, cs, s')" "(j, ts) \<in> set started"
  shows "ts = job_targets (nd_targets nd) j \<and> ts \<noteq> []"
proof -
  have "started = [] \<or> (\<exists>js s0. tick_jobs Q (nd_targets nd) clock js 3 s0 = (started, s'))"
    using assms(1) unfolding tick_def
    by (cases "qp_pending Q (clock 1) (snd (qp_expire Q (clock 0) (sc_queue s)))")
      (auto simp: Let_def simp del: tick_jobs.simps split: prod.splits if_splits)
  then show ?thesis using tick_jobs_targets assms(2) by fastforce
qed

text \<open>
  A queued job runs on what it asked for. Whatever a tick starts, the plan made for it on the targets
  the scheduler narrowed down exists, and each of its units goes to a current target of the node that
  the egress rules of the job permit, that serves the named model if one was named, and whose known size
  reaches the tier floor if one was set.
\<close>

theorem started_job_keeps_its_terms:
  assumes "tick Q nd clock s = (started, cs, s')" "(j, ts) \<in> set started"
    "\<forall>t \<in> set (nd_targets nd). 0 \<le> t_params_b t"
  shows "ts \<noteq> [] \<and> (\<exists>p. plan_job rx (to_job j (Some nets)) ts False = Some p
    \<and> (\<forall>t \<in> u_target ` set (p_units p). t \<in> set (nd_targets nd)
        \<and> may_egress rx (job_policy (to_job j (Some nets)) False) t
        \<and> (q_model j \<noteq> [] \<and> q_model j \<noteq> SWARM_MODEL \<longrightarrow> t_model t = q_model j)
        \<and> (\<forall>threshold. (q_min_tier j, threshold) \<in> set TIER_THRESHOLDS
             \<longrightarrow> (\<exists>size. known_size t = Some size \<and> threshold \<le> size))))"
proof -
  have ts: "ts = job_targets (nd_targets nd) j" "ts \<noteq> []" using tick_targets [OF assms(1,2)] by blast+
  obtain p where p: "plan_job rx (to_job j (Some nets)) ts False = Some p"
    "u_target ` set (p_units p) \<subseteq> set (allowed_targets rx (to_job j (Some nets)) ts False)"
    using plan_job_targets by blast
  have floor: "t \<in> set (nd_targets nd) \<and> (q_model j \<noteq> [] \<and> q_model j \<noteq> SWARM_MODEL \<longrightarrow> t_model t = q_model j)
      \<and> (\<forall>threshold. (q_min_tier j, threshold) \<in> set TIER_THRESHOLDS
             \<longrightarrow> (\<exists>size. known_size t = Some size \<and> threshold \<le> size))" if "t \<in> set ts" for t
  proof -
    have f: "t \<in> set (filter_targets (nd_targets nd) (q_min_tier j))"
      "q_model j \<noteq> [] \<and> q_model j \<noteq> SWARM_MODEL \<longrightarrow> t_model t = q_model j"
      using that unfolding ts(1) job_targets_def Let_def by (auto split: if_splits)
    have t: "t \<in> set (nd_targets nd)" using f(1) by (auto simp: filter_targets_def split: if_splits)
    then show ?thesis using f in_filter_targets assms(3) by blast
  qed
  show ?thesis using ts(2) p floor by (intro conjI exI [of _ p]) auto
qed


definition floor_node :: node_view where
  "floor_node = demo_node\<lparr>nd_targets := [sized ''llama-70b'' 0, sized ''mystery'' 0, sized ''phi-3b'' 0]\<rparr>"

theorem started_job_keeps_its_terms_witness:
  "\<exists>j p. plan_job no_match (to_job j (Some [])) [sized ''llama-70b'' 0] False = Some p \<and> q_min_tier j = ''capable''
     \<and> (\<forall>t \<in> u_target ` set (p_units p). \<exists>size. known_size t = Some size \<and> 13 \<le> size)"
proof -
  let ?s = "(sy_sched demo_submitted)"
  obtain started cs s' where t: "tick (queue_ops_of ''ann'') floor_node (\<lambda>n. 20) ?s = (started, cs, s')"
    by (metis surj_pair)
  have "map (\<lambda>(j, ts). (q_min_tier j, ts)) (fst (tick (queue_ops_of ''ann'') floor_node (\<lambda>n. 20) ?s))
      = [(''capable'', [sized ''llama-70b'' 0])]"
    by code_simp
  then obtain j where j: "(j, [sized ''llama-70b'' 0]) \<in> set started" "q_min_tier j = ''capable''"
    unfolding t by auto
  have pos: "\<forall>t \<in> set (nd_targets floor_node). 0 \<le> t_params_b t" by (simp add: floor_node_def sized_def)
  have thr: "(''capable'', 13) \<in> set TIER_THRESHOLDS" by (simp add: TIER_THRESHOLDS_def)
  obtain p where p: "plan_job no_match (to_job j (Some [])) [sized ''llama-70b'' 0] False = Some p"
    "\<forall>t \<in> u_target ` set (p_units p). \<forall>threshold. (q_min_tier j, threshold) \<in> set TIER_THRESHOLDS
       \<longrightarrow> (\<exists>size. known_size t = Some size \<and> threshold \<le> size)"
    using started_job_keeps_its_terms [OF t j(1) pos, of no_match "[]"] by blast
  then show ?thesis using j(2) thr by (intro exI [of _ j] exI [of _ p]) auto
qed

section \<open>Who answered\<close>

definition served_name :: "target \<Rightarrow> pystr" where
  "served_name t =
     (if t_kind t = ''local'' then ''local''
      else if t_kind t = ''group'' then or_str (t_serving_group_id t) ''external'' else take 8 (t_peer_id t))"

lemma find_map_gen: "find P (map f xs) = map_option f (find (\<lambda>x. P (f x)) xs)"
  by (induction xs) simp_all

lemma takeWhile_colon: "CHR '':'' \<notin> set s \<Longrightarrow> takeWhile (\<lambda>c. c \<noteq> CHR '':'') (s @ CHR '':'' # r) = s"
  by (induction s) auto

lemma served_prefix_target_str:
  assumes "CHR '':'' \<notin> set (t_peer_id t)" "CHR '':'' \<notin> set (t_serving_group_id t)"
  shows "(case served_prefix (target_str t) of Some p \<Rightarrow> p | None \<Rightarrow> ''local'') = served_name t"
proof -
  have "CHR '':'' \<notin> set (take 8 (t_peer_id t))" using assms(1) by (meson in_set_takeD)
  moreover have "CHR '':'' \<notin> set (or_str (t_serving_group_id t) ''external'')"
    using assms(2) by (simp add: or_str_def)
  ultimately show ?thesis using takeWhile_colon
    by (simp add: served_prefix_def target_str_def served_name_def)
qed

text \<open>
  The record of who answered parses back to the plan. For a plan with units, whatever its execution
  gives, the attribution read from the target strings of its metadata is the place and the model of the
  plan's answering unit, the direct one or the synthesizer.
\<close>

theorem attribution_names_answering_unit:
  assumes "plan_job rx j cands ov = Some p" "p_units p \<noteq> []"
    "\<forall>t \<in> set cands. CHR '':'' \<notin> set (t_peer_id t) \<and> CHR '':'' \<notin> set (t_serving_group_id t)"
  shows "\<exists>u \<in> set (p_units p). u_role u \<in> {R_DIRECT, R_SYNTHESIZER}
    \<and> attribution (Some (jr_meta (execute_plan run j p sched el))) ts = (served_name (u_target u), t_model (u_target u))"
proof -
  let ?doc = "\<lambda>u. \<lparr>ud_unit_id = u_id u, ud_role = role_value (u_role u), ud_target = target_str (u_target u),
    ud_model = t_model (u_target u), ud_depends_on = u_depends_on u\<rparr>"
  have meta: "md_plan (jr_meta (execute_plan run j p sched el)) = plan_to_dict p"
    by (simp add: execute_plan_def Let_def split: list.splits)
  have role: "role_value r \<in> {''direct'', ''synthesizer''} \<longleftrightarrow> r \<in> {R_DIRECT, R_SYNTHESIZER}" for r
    by (cases r) simp_all
  have find_doc: "find (\<lambda>d. ud_role d \<in> {''direct'', ''synthesizer''}) (map ?doc us)
      = map_option ?doc (find (\<lambda>u. u_role u \<in> {R_DIRECT, R_SYNTHESIZER}) us)" for us
    unfolding find_map_gen unit_doc.simps role ..
  obtain u where u: "find (\<lambda>u. u_role u \<in> {R_DIRECT, R_SYNTHESIZER}) (p_units p) = Some u"
  proof (cases "find (\<lambda>u. u_role u \<in> {R_DIRECT, R_SYNTHESIZER}) (p_units p)")
    case None
    then show ?thesis using plan_job_answering_unit [OF assms(1,2)] unfolding find_none_iff_set by blast
  qed (rule that)
  then have m: "u \<in> set (p_units p)" "u_role u \<in> {R_DIRECT, R_SYNTHESIZER}"
    unfolding find_Some_iff in_set_conv_nth by blast+
  have "u_target u \<in> set cands" using plan_job_targets [of rx j cands ov] assms(1) m(1) by auto
  then have "(case served_prefix (target_str (u_target u)) of Some p \<Rightarrow> p | None \<Rightarrow> ''local'') = served_name (u_target u)"
    using served_prefix_target_str assms(3) by blast
  then have "attribution (Some (jr_meta (execute_plan run j p sched el))) ts
      = (served_name (u_target u), t_model (u_target u))"
    unfolding attribution_def option.case meta plan_to_dict_def plan_doc.simps find_doc u by simp
  then show ?thesis using m by blast
qed

theorem attribution_names_answering_unit_witness:
  "\<exists>u \<in> set (p_units demo_plan).
     attribution (Some (jr_meta (execute_plan demo_run (demo_job SWARM_MODEL) demo_plan demo_schedule 1))) []
       = (served_name (u_target u), t_model (u_target u))"
proof -
  have p: "plan_job no_match (demo_job SWARM_MODEL) demo_targets False = Some demo_plan" by code_simp
  have n: "p_units demo_plan \<noteq> []" by code_simp
  have "list_all (\<lambda>t. CHR '':'' \<notin> set (t_peer_id t) \<and> CHR '':'' \<notin> set (t_serving_group_id t)) demo_targets"
    by code_simp
  then have c: "\<forall>t \<in> set demo_targets. CHR '':'' \<notin> set (t_peer_id t) \<and> CHR '':'' \<notin> set (t_serving_group_id t)"
    by (simp add: list_all_iff)
  show ?thesis using attribution_names_answering_unit [OF p n c] by blast
qed

definition synthesis_fails :: runner where
  "synthesis_fails u = (if u_role u = R_SYNTHESIZER then (Raised ''peer died'', 1)
     else answer u (t_model (u_target u)) 40)"

text \<open>
  The record is of the plan, not of the run: where the synthesis failed and the best proposal was
  returned, it still names the synthesizer.
\<close>

lemma failed_synthesis_still_credited:
  "let r = execute_plan synthesis_fails (demo_job SWARM_MODEL) demo_plan demo_schedule 1
   in jr_text r = ''qwen-0.5b'' \<and> attribution (Some (jr_meta r)) [] = (''3f9a12bc'', ''qwen-35b'')"
  by code_simp

end
