(* ===== verification/Ledger.thy ===== *)
theory Ledger
  imports Prelude
begin

text \<open>
  The credit ledgers. \<open>src/mycellm/accounting/local_ledger.py\<close> (\<open>LocalLedger\<close>, one SQLite file) and
  \<open>src/mycellm/storage/repositories.py\<close> (\<open>LedgerRepository\<close> with its account cache and
  \<open>NetworkLedgerRepository\<close>, two views of one database). Tables are dictionaries by primary key or
  lists of rows in insertion order. The fresh \<open>uuid4\<close> identifier and the clock are parameters; an
  insert whose primary key exists raises and the uncommitted transaction is rolled back. Every
  operation returns its outcome, an error or a value, with the new state.

  The locale \<open>credit_ledger\<close> is the surface that settlement relies on (\<open>ensure_account\<close>, \<open>balance\<close>,
  \<open>credit\<close>, \<open>debit\<close>, \<open>store_receipt\<close>, all aware of \<open>network_id\<close>); \<open>LocalLedger\<close> and
  \<open>NetworkLedgerRepository\<close> are interpretations of it.
\<close>

datatype ledger_error = Insufficient_credits pyfloat pyfloat | Integrity_error

record account =
  a_balance :: pyfloat
  a_earned :: pyfloat
  a_spent :: pyfloat
  a_created :: pyfloat
  a_updated :: pyfloat

datatype direction = Credit | Debit

record transaction =
  x_id :: pystr
  x_peer :: pystr
  x_counterparty :: pystr
  x_amount :: pyfloat
  x_direction :: direction
  x_reason :: pystr
  x_signature :: pystr
  x_network :: pystr
  x_timestamp :: pyfloat

record receipt =
  rc_tx_id :: pystr
  rc_consumer :: pystr
  rc_seeder :: pystr
  rc_model :: pystr
  rc_tokens :: int
  rc_cost :: pyfloat
  rc_signature :: pystr
  rc_timestamp :: pyfloat

definition new_account :: "pyfloat \<Rightarrow> pyfloat \<Rightarrow> account" where
  "new_account initial now = \<lparr>a_balance = initial, a_earned = 0, a_spent = 0, a_created = now, a_updated = now\<rparr>"

definition add_credit :: "pyfloat \<Rightarrow> pyfloat \<Rightarrow> account \<Rightarrow> account" where
  "add_credit amount now a = a\<lparr>a_balance := a_balance a + amount, a_earned := a_earned a + amount,
     a_updated := now\<rparr>"

definition take_debit :: "pyfloat \<Rightarrow> pyfloat \<Rightarrow> account \<Rightarrow> account" where
  "take_debit amount now a = a\<lparr>a_balance := a_balance a - amount, a_spent := a_spent a + amount,
     a_updated := now\<rparr>"

text \<open>What a caller says about a movement, beside the amount.\<close>

record memo =
  m_reason :: pystr
  m_counterparty :: pystr
  m_signature :: pystr

definition mk_transaction :: "pystr \<Rightarrow> pyfloat \<Rightarrow> direction \<Rightarrow> pystr \<Rightarrow> pyfloat \<Rightarrow> memo \<Rightarrow> pystr \<Rightarrow> transaction" where
  "mk_transaction tx now dir peer amount m net =
     \<lparr>x_id = tx, x_peer = peer, x_counterparty = m_counterparty m, x_amount = amount, x_direction = dir,
      x_reason = m_reason m, x_signature = m_signature m, x_network = net, x_timestamp = now\<rparr>"

section \<open>LocalLedger\<close>

record local_ledger =
  ll_accounts :: "(pystr \<times> pystr, account) dict"
  ll_transactions :: "transaction list"
  ll_receipts :: "receipt list"

definition ll_find :: "pystr \<Rightarrow> pystr \<Rightarrow> local_ledger \<Rightarrow> account option" where
  "ll_find peer net l = map_of (ll_accounts l) (peer, net)"

definition ll_ensure_account :: "pyfloat \<Rightarrow> pystr \<Rightarrow> pyfloat \<Rightarrow> pystr \<Rightarrow> local_ledger \<Rightarrow> local_ledger" where
  "ll_ensure_account now peer initial net l =
     (case ll_find peer net l of
        Some _ \<Rightarrow> l
      | None \<Rightarrow> l\<lparr>ll_accounts := dict_set (ll_accounts l) (peer, net) (new_account initial now)\<rparr>)"

definition ll_balance :: "pystr \<Rightarrow> pystr \<Rightarrow> local_ledger \<Rightarrow> pyfloat" where
  "ll_balance peer net l = (case ll_find peer net l of Some a \<Rightarrow> a_balance a | None \<Rightarrow> 0)"

definition ll_update :: "pystr \<Rightarrow> pystr \<Rightarrow> (account \<Rightarrow> account) \<Rightarrow> local_ledger \<Rightarrow> local_ledger" where
  "ll_update peer net f l =
     (case ll_find peer net l of
        Some a \<Rightarrow> l\<lparr>ll_accounts := dict_set (ll_accounts l) (peer, net) (f a)\<rparr> | None \<Rightarrow> l)"

definition ll_post :: "transaction \<Rightarrow> local_ledger \<Rightarrow> local_ledger \<Rightarrow> (ledger_error + pystr) \<times> local_ledger" where
  "ll_post x before l =
     (if x_id x \<in> x_id ` set (ll_transactions l) then (Inl Integrity_error, before)
      else (Inr (x_id x), l\<lparr>ll_transactions := ll_transactions l @ [x]\<rparr>))"

definition ll_credit :: "pystr \<Rightarrow> pyfloat \<Rightarrow> pystr \<Rightarrow> pyfloat \<Rightarrow> memo \<Rightarrow> pystr \<Rightarrow> local_ledger
    \<Rightarrow> (ledger_error + pystr) \<times> local_ledger" where
  "ll_credit tx now peer amount m net l =
     ll_post (mk_transaction tx now Credit peer amount m net) l
       (ll_update peer net (add_credit amount now) l)"

definition ll_debit :: "pystr \<Rightarrow> pyfloat \<Rightarrow> pystr \<Rightarrow> pyfloat \<Rightarrow> memo \<Rightarrow> pystr \<Rightarrow> local_ledger
    \<Rightarrow> (ledger_error + pystr) \<times> local_ledger" where
  "ll_debit tx now peer amount m net l =
     (case ll_find peer net l of
        Some a \<Rightarrow> if a_balance a < amount then (Inl (Insufficient_credits (a_balance a) amount), l)
          else ll_post (mk_transaction tx now Debit peer amount m net) l
                 (ll_update peer net (take_debit amount now) l)
      | None \<Rightarrow> ll_post (mk_transaction tx now Debit peer amount m net) l l)"

text \<open>\<open>INSERT OR REPLACE\<close>: the row with the same key goes, the new one is added.\<close>

definition ll_store_receipt :: "receipt \<Rightarrow> local_ledger \<Rightarrow> local_ledger" where
  "ll_store_receipt r l = l\<lparr>ll_receipts := filter (\<lambda>q. rc_tx_id q \<noteq> rc_tx_id r) (ll_receipts l) @ [r]\<rparr>"

definition ll_history :: "pystr \<Rightarrow> nat \<Rightarrow> local_ledger \<Rightarrow> transaction list" where
  "ll_history peer limit l =
     take limit (sort_key (\<lambda>x. - x_timestamp x) (filter (\<lambda>x. x_peer x = peer) (ll_transactions l)))"

definition ll_get_receipts :: "pystr \<Rightarrow> nat \<Rightarrow> local_ledger \<Rightarrow> receipt list" where
  "ll_get_receipts peer limit l =
     take limit (sort_key (\<lambda>r. - rc_timestamp r)
       (filter (\<lambda>r. rc_consumer r = peer \<or> rc_seeder r = peer) (ll_receipts l)))"

section \<open>The database of the repositories\<close>

record database =
  db_accounts :: "(pystr, account) dict"
  db_network_accounts :: "(pystr \<times> pystr, account) dict"
  db_transactions :: "transaction list"
  db_receipts :: "receipt list"

definition db_post :: "transaction \<Rightarrow> database \<Rightarrow> database \<Rightarrow> (ledger_error + pystr) \<times> database" where
  "db_post x before d =
     (if x_id x \<in> x_id ` set (db_transactions d) then (Inl Integrity_error, before)
      else (Inr (x_id x), d\<lparr>db_transactions := db_transactions d @ [x]\<rparr>))"

subsection \<open>NetworkLedgerRepository\<close>

definition nl_find :: "pystr \<Rightarrow> pystr \<Rightarrow> database \<Rightarrow> account option" where
  "nl_find peer net d = map_of (db_network_accounts d) (peer, net)"

definition nl_put :: "pystr \<Rightarrow> pystr \<Rightarrow> account \<Rightarrow> database \<Rightarrow> database" where
  "nl_put peer net a d = d\<lparr>db_network_accounts := dict_set (db_network_accounts d) (peer, net) a\<rparr>"

definition nl_ensure_account :: "pyfloat \<Rightarrow> pystr \<Rightarrow> pyfloat \<Rightarrow> pystr \<Rightarrow> database \<Rightarrow> database" where
  "nl_ensure_account now peer initial net d =
     (case nl_find peer net d of None \<Rightarrow> nl_put peer net (new_account initial now) d | Some _ \<Rightarrow> d)"

definition nl_balance :: "pystr \<Rightarrow> pystr \<Rightarrow> database \<Rightarrow> pyfloat" where
  "nl_balance peer net d = (case nl_find peer net d of Some a \<Rightarrow> a_balance a | None \<Rightarrow> 0)"

text \<open>The \<open>Transaction\<close> row has no network column.\<close>

definition nl_credit :: "pystr \<Rightarrow> pyfloat \<Rightarrow> pystr \<Rightarrow> pyfloat \<Rightarrow> memo \<Rightarrow> pystr \<Rightarrow> database
    \<Rightarrow> (ledger_error + pystr) \<times> database" where
  "nl_credit tx now peer amount m net d =
     db_post (mk_transaction tx now Credit peer amount m []) d
       (case nl_find peer net d of Some a \<Rightarrow> nl_put peer net (add_credit amount now a) d | None \<Rightarrow> d)"

definition nl_debit :: "pystr \<Rightarrow> pyfloat \<Rightarrow> pystr \<Rightarrow> pyfloat \<Rightarrow> memo \<Rightarrow> pystr \<Rightarrow> database
    \<Rightarrow> (ledger_error + pystr) \<times> database" where
  "nl_debit tx now peer amount m net d =
     (case nl_find peer net d of
        Some a \<Rightarrow> if a_balance a < amount then (Inl (Insufficient_credits (a_balance a) amount), d)
          else db_post (mk_transaction tx now Debit peer amount m []) d
                 (nl_put peer net (take_debit amount now a) d)
      | None \<Rightarrow> db_post (mk_transaction tx now Debit peer amount m []) d d)"

definition nl_store_receipt :: "receipt \<Rightarrow> database \<Rightarrow> database" where
  "nl_store_receipt r d =
     (if rc_tx_id r \<in> rc_tx_id ` set (db_receipts d) then d
      else d\<lparr>db_receipts := db_receipts d @ [r]\<rparr>)"

definition grant_treasury :: "pyfloat \<Rightarrow> pystr \<Rightarrow> pystr \<Rightarrow> pyfloat \<Rightarrow> database \<Rightarrow> database" where
  "grant_treasury now peer net goal d =
     (case nl_find peer net d of
        None \<Rightarrow> nl_put peer net (new_account goal now) d
      | Some a \<Rightarrow> if a_balance a < goal
          then nl_put peer net (a\<lparr>a_balance := goal, a_updated := now\<rparr>) d else d)"

definition served_count :: "pystr \<Rightarrow> database \<Rightarrow> nat" where
  "served_count peer d = length (filter (\<lambda>r. rc_seeder r = peer) (db_receipts d))"

subsection \<open>LedgerRepository\<close>

text \<open>Its own state: the account cache, a monotonic time and a snapshot by peer.\<close>

type_synonym account_cache = "(pystr, pyfloat \<times> account option) dict"

record repository =
  rp_db :: database
  rp_cache :: account_cache

definition lr_get_account :: "pystr \<Rightarrow> database \<Rightarrow> account option" where
  "lr_get_account peer d = map_of (db_accounts d) peer"

definition invalidate_cache :: "pystr \<Rightarrow> repository \<Rightarrow> repository" where
  "invalidate_cache peer r = r\<lparr>rp_cache := dict_pop (rp_cache r) peer\<rparr>"

text \<open>\<open>ok\<close> says whether the database read of the refresh succeeds; \<open>None\<close> is its error raised.\<close>

definition get_account_cached :: "bool \<Rightarrow> pyfloat \<Rightarrow> pystr \<Rightarrow> pyfloat \<Rightarrow> repository
    \<Rightarrow> account option option \<times> repository" where
  "get_account_cached ok now peer ttl r =
     (let cached = map_of (rp_cache r) peer;
          refresh = (if ok then
              (let account = lr_get_account peer (rp_db r)
               in (Some account, r\<lparr>rp_cache := dict_set (rp_cache r) peer (now, account)\<rparr>))
            else (map_option snd cached, r))
      in case cached of
           Some (ts, account) \<Rightarrow> if now - ts < ttl then (Some account, r) else refresh
         | None \<Rightarrow> refresh)"

definition lr_ensure_account :: "pyfloat \<Rightarrow> pystr \<Rightarrow> pyfloat \<Rightarrow> repository \<Rightarrow> repository" where
  "lr_ensure_account now peer initial r =
     (case lr_get_account peer (rp_db r) of
        None \<Rightarrow> r\<lparr>rp_db := (rp_db r)\<lparr>db_accounts := dict_set (db_accounts (rp_db r)) peer
                 (new_account initial now)\<rparr>\<rparr>
      | Some _ \<Rightarrow> r)"

definition lr_balance :: "pystr \<Rightarrow> repository \<Rightarrow> pyfloat" where
  "lr_balance peer r = (case lr_get_account peer (rp_db r) of Some a \<Rightarrow> a_balance a | None \<Rightarrow> 0)"

definition lr_put :: "pystr \<Rightarrow> account \<Rightarrow> database \<Rightarrow> database" where
  "lr_put peer a d = d\<lparr>db_accounts := dict_set (db_accounts d) peer a\<rparr>"

definition lr_commit :: "pystr \<Rightarrow> (ledger_error + pystr) \<times> database \<Rightarrow> repository
    \<Rightarrow> (ledger_error + pystr) \<times> repository" where
  "lr_commit peer res r =
     (case fst res of
        Inl e \<Rightarrow> (Inl e, r)
      | Inr tx \<Rightarrow> (Inr tx, invalidate_cache peer (r\<lparr>rp_db := snd res\<rparr>)))"

definition lr_credit :: "pystr \<Rightarrow> pyfloat \<Rightarrow> pystr \<Rightarrow> pyfloat \<Rightarrow> memo \<Rightarrow> repository
    \<Rightarrow> (ledger_error + pystr) \<times> repository" where
  "lr_credit tx now peer amount m r =
     (let d = rp_db r in
      lr_commit peer (db_post (mk_transaction tx now Credit peer amount m []) d
        (case lr_get_account peer d of Some a \<Rightarrow> lr_put peer (add_credit amount now a) d | None \<Rightarrow> d)) r)"

definition lr_debit :: "pystr \<Rightarrow> pyfloat \<Rightarrow> pystr \<Rightarrow> pyfloat \<Rightarrow> memo \<Rightarrow> repository
    \<Rightarrow> (ledger_error + pystr) \<times> repository" where
  "lr_debit tx now peer amount m r =
     (let d = rp_db r; x = mk_transaction tx now Debit peer amount m [] in
      case lr_get_account peer d of
        Some a \<Rightarrow> if a_balance a < amount then (Inl (Insufficient_credits (a_balance a) amount), r)
          else lr_commit peer (db_post x d (lr_put peer (take_debit amount now a) d)) r
      | None \<Rightarrow> lr_commit peer (db_post x d d) r)"

definition lr_store_receipt :: "receipt \<Rightarrow> database \<Rightarrow> database" where
  "lr_store_receipt r d =
     (if rc_tx_id r \<in> rc_tx_id ` set (db_receipts d)
      then d\<lparr>db_receipts := map (\<lambda>q. if rc_tx_id q = rc_tx_id r then r else q) (db_receipts d)\<rparr>
      else d\<lparr>db_receipts := db_receipts d @ [r]\<rparr>)"


section \<open>The interface of settlement\<close>

record 'st ledger_ops =
  lo_ensure :: "pyfloat \<Rightarrow> pystr \<Rightarrow> pyfloat \<Rightarrow> pystr \<Rightarrow> 'st \<Rightarrow> 'st"
  lo_balance :: "pystr \<Rightarrow> pystr \<Rightarrow> 'st \<Rightarrow> pyfloat"
  lo_credit :: "pystr \<Rightarrow> pyfloat \<Rightarrow> pystr \<Rightarrow> pyfloat \<Rightarrow> memo \<Rightarrow> pystr \<Rightarrow> 'st \<Rightarrow> (ledger_error + pystr) \<times> 'st"
  lo_debit :: "pystr \<Rightarrow> pyfloat \<Rightarrow> pystr \<Rightarrow> pyfloat \<Rightarrow> memo \<Rightarrow> pystr \<Rightarrow> 'st \<Rightarrow> (ledger_error + pystr) \<times> 'st"
  lo_store :: "receipt \<Rightarrow> 'st \<Rightarrow> 'st"

locale credit_ledger =
  fixes L :: "'st ledger_ops"
    and find :: "pystr \<Rightarrow> pystr \<Rightarrow> 'st \<Rightarrow> account option"
    and used :: "'st \<Rightarrow> pystr set"
  assumes balance_law: "lo_balance L p n s = (case find p n s of Some a \<Rightarrow> a_balance a | None \<Rightarrow> 0)"
    and ensure_law: "find p n (lo_ensure L now q i m s)
        = (if p = q \<and> n = m \<and> find q m s = None then Some (new_account i now) else find p n s)"
    and ensure_used: "used (lo_ensure L now q i m s) = used s"
    and credit_law: "tx \<notin> used s \<Longrightarrow> lo_credit L tx now q amt me m s = (r, s') \<Longrightarrow>
        r = Inr tx \<and> used s' = insert tx (used s) \<and> find p n s'
          = (if p = q \<and> n = m then map_option (add_credit amt now) (find p n s) else find p n s)"
    and credit_clash: "tx \<in> used s \<Longrightarrow> lo_credit L tx now q amt me m s = (Inl Integrity_error, s)"
    and debit_law: "tx \<notin> used s \<Longrightarrow> amt \<le> lo_balance L q m s \<or> find q m s = None \<Longrightarrow>
        lo_debit L tx now q amt me m s = (r, s') \<Longrightarrow>
        r = Inr tx \<and> used s' = insert tx (used s) \<and> find p n s'
          = (if p = q \<and> n = m then map_option (take_debit amt now) (find p n s) else find p n s)"
    and debit_clash: "tx \<in> used s \<Longrightarrow> amt \<le> lo_balance L q m s \<or> find q m s = None \<Longrightarrow>
        lo_debit L tx now q amt me m s = (Inl Integrity_error, s)"
    and debit_short: "find q m s = Some a \<Longrightarrow> a_balance a < amt \<Longrightarrow>
        lo_debit L tx now q amt me m s = (Inl (Insufficient_credits (a_balance a) amt), s)"
    and store_law: "find p n (lo_store L rc s) = find p n s" "used (lo_store L rc s) = used s"
begin

lemma balance_ensure_other:
  "find p n s \<noteq> None \<Longrightarrow> lo_balance L p n (lo_ensure L now q i m s) = lo_balance L p n s"
  by (auto simp: balance_law ensure_law)

lemma ensure_has [simp]: "find q m (lo_ensure L now q i m s) \<noteq> None"
  by (simp add: ensure_law)

lemma credit_balance:
  assumes "tx \<notin> used s" "lo_credit L tx now q amt me m s = (r, s')"
  shows "lo_balance L p n s' = lo_balance L p n s + (if p = q \<and> n = m \<and> find q m s \<noteq> None then amt else 0)"
  using credit_law [OF assms, of p n] by (auto simp: balance_law add_credit_def split: option.splits)

lemma debit_balance:
  assumes "tx \<notin> used s" "amt \<le> lo_balance L q m s" "lo_debit L tx now q amt me m s = (r, s')"
  shows "lo_balance L p n s' = lo_balance L p n s - (if p = q \<and> n = m \<and> find q m s \<noteq> None then amt else 0)"
  using debit_law [OF assms(1) _ assms(3), of p n] assms(2)
  by (auto simp: balance_law take_debit_def split: option.splits)

lemma debit_never_overdraws:
  assumes "tx \<notin> used s" "0 \<le> lo_balance L p n s" "lo_debit L tx now q amt me m s = (r, s')"
  shows "0 \<le> lo_balance L p n s'"
proof (cases "find q m s = None \<or> amt \<le> lo_balance L q m s")
  case True
  then show ?thesis using debit_law [OF assms(1) _ assms(3), of p n] assms(2)
    by (auto simp: balance_law take_debit_def split: option.splits)
next
  case False
  then show ?thesis using debit_short [of q m s _ amt tx now me] assms
    by (auto simp: balance_law split: option.splits)
qed

end

definition local_ops :: "local_ledger ledger_ops" where
  "local_ops = \<lparr>lo_ensure = ll_ensure_account, lo_balance = ll_balance, lo_credit = ll_credit,
     lo_debit = ll_debit, lo_store = ll_store_receipt\<rparr>"

definition network_ops :: "database ledger_ops" where
  "network_ops = \<lparr>lo_ensure = nl_ensure_account, lo_balance = nl_balance, lo_credit = nl_credit,
     lo_debit = nl_debit, lo_store = nl_store_receipt\<rparr>"

definition ll_used :: "local_ledger \<Rightarrow> pystr set" where
  "ll_used l = x_id ` set (ll_transactions l)"

definition db_used :: "database \<Rightarrow> pystr set" where
  "db_used d = x_id ` set (db_transactions d)"

lemma find_ll_ensure: "ll_find p n (ll_ensure_account now q i m s)
    = (if p = q \<and> n = m \<and> ll_find q m s = None then Some (new_account i now) else ll_find p n s)"
  by (auto simp: ll_ensure_account_def ll_find_def split: option.splits)

lemma find_ll_update: "ll_find p n (ll_update q m f s)
    = (if p = q \<and> n = m then map_option f (ll_find p n s) else ll_find p n s)"
  by (auto simp: ll_update_def ll_find_def split: option.splits)

lemma ll_transactions_update [simp]: "ll_transactions (ll_update q m f s) = ll_transactions s"
  "ll_transactions (ll_ensure_account now q i m s) = ll_transactions s"
  by (auto simp: ll_update_def ll_ensure_account_def split: option.splits)

lemma ll_post_fresh: "x_id x \<notin> ll_used l \<Longrightarrow> ll_transactions l' = ll_transactions l \<Longrightarrow>
    ll_post x l l' = (Inr (x_id x), l'\<lparr>ll_transactions := ll_transactions l @ [x]\<rparr>)"
  by (simp add: ll_post_def ll_used_def)

lemma ll_find_post [simp]: "ll_find p n (l\<lparr>ll_transactions := xs\<rparr>) = ll_find p n l"
  "ll_find p n (l\<lparr>ll_receipts := rs\<rparr>) = ll_find p n l"
  by (simp_all add: ll_find_def)

lemma x_id_mk [simp]: "x_id (mk_transaction tx now dir peer amount m net) = tx"
  by (simp add: mk_transaction_def)

interpretation ll: credit_ledger local_ops ll_find ll_used
proof (unfold_locales, goal_cases)
  case (1 p n s)
  then show ?case by (simp add: local_ops_def ll_balance_def)
next
  case (2 p n now q i m s)
  then show ?case by (simp add: local_ops_def find_ll_ensure)
next
  case (3 now q i m s)
  then show ?case by (simp add: local_ops_def ll_used_def)
next
  case (4 tx s now q amt me m r s' p n)
  then show ?case by (auto simp: local_ops_def ll_credit_def ll_post_fresh find_ll_update)
      (auto simp: ll_used_def)
next
  case (5 tx s now q amt me m)
  then show ?case by (auto simp: local_ops_def ll_credit_def ll_post_def ll_used_def)
next
  case (6 tx s amt q m now me r s' p n)
  then show ?case
    by (auto simp: local_ops_def ll_debit_def ll_balance_def ll_post_fresh find_ll_update ll_used_def
        split: option.splits if_splits)
next
  case (7 tx s amt q m now me)
  then show ?case by (auto simp: local_ops_def ll_debit_def ll_balance_def ll_post_def ll_used_def split: option.splits)
next
  case (8 q m s a amt tx now me)
  then show ?case by (simp add: local_ops_def ll_debit_def)
next
  case (9 p n rc s)
  then show ?case by (simp add: local_ops_def ll_store_receipt_def)
next
  case (10 rc s)
  then show ?case by (simp add: local_ops_def ll_store_receipt_def ll_used_def)
qed


lemma nl_find_put [simp]: "nl_find p n (nl_put q m a d) = (if p = q \<and> n = m then Some a else nl_find p n d)"
  by (auto simp: nl_find_def nl_put_def)

lemma nl_find_post [simp]: "nl_find p n (d\<lparr>db_transactions := xs\<rparr>) = nl_find p n d"
  "nl_find p n (d\<lparr>db_receipts := rs\<rparr>) = nl_find p n d"
  by (simp_all add: nl_find_def)

lemma db_transactions_put [simp]: "db_transactions (nl_put q m a d) = db_transactions d"
  "db_transactions (lr_put q a d) = db_transactions d"
  by (simp_all add: nl_put_def lr_put_def)

interpretation nl: credit_ledger network_ops nl_find db_used
proof (unfold_locales, goal_cases)
  case (1 p n s)
  then show ?case by (simp add: network_ops_def nl_balance_def)
next
  case (2 p n now q i m s)
  then show ?case by (auto simp: network_ops_def nl_ensure_account_def split: option.splits)
next
  case (3 now q i m s)
  then show ?case by (simp add: network_ops_def db_used_def nl_ensure_account_def split: option.splits)
next
  case (4 tx s now q amt me m r s' p n)
  then show ?case
    by (auto simp: network_ops_def nl_credit_def db_post_def db_used_def split: option.splits if_splits)
next
  case (5 tx s now q amt me m)
  then show ?case by (auto simp: network_ops_def nl_credit_def db_post_def db_used_def split: option.splits)
next
  case (6 tx s amt q m now me r s' p n)
  then show ?case
    by (auto simp: network_ops_def nl_debit_def nl_balance_def db_post_def db_used_def
        split: option.splits if_splits)
next
  case (7 tx s amt q m now me)
  then show ?case by (auto simp: network_ops_def nl_debit_def nl_balance_def db_post_def db_used_def split: option.splits)
next
  case (8 q m s a amt tx now me)
  then show ?case by (simp add: network_ops_def nl_debit_def)
next
  case (9 p n rc s)
  then show ?case by (simp add: network_ops_def nl_store_receipt_def)
next
  case (10 rc s)
  then show ?case by (simp add: network_ops_def nl_store_receipt_def db_used_def)
qed

section \<open>Books that balance\<close>

text \<open>A history of movements, each under its own transaction identifier.\<close>

datatype movement =
  Mv_open pyfloat pystr pyfloat pystr
| Mv_credit pystr pyfloat pystr pyfloat memo pystr
| Mv_debit pystr pyfloat pystr pyfloat memo pystr

fun move :: "'st ledger_ops \<Rightarrow> movement \<Rightarrow> 'st \<Rightarrow> 'st" where
  "move L (Mv_open now p i n) s = lo_ensure L now p i n s"
| "move L (Mv_credit tx now p amt me n) s = snd (lo_credit L tx now p amt me n s)"
| "move L (Mv_debit tx now p amt me n) s = snd (lo_debit L tx now p amt me n s)"

definition moves :: "'st ledger_ops \<Rightarrow> movement list \<Rightarrow> 'st \<Rightarrow> 'st" where
  "moves L ms s = fold (move L) ms s"

fun mv_amount :: "movement \<Rightarrow> pyfloat" where
  "mv_amount (Mv_open now p i n) = 0"
| "mv_amount (Mv_credit tx now p amt me n) = amt"
| "mv_amount (Mv_debit tx now p amt me n) = amt"

definition opened_with :: "account \<Rightarrow> pyfloat" where
  "opened_with a = a_balance a - a_earned a + a_spent a"

context credit_ledger
begin

lemma move_account:
  assumes "find p n s = Some a" "0 \<le> mv_amount mv"
  shows "\<exists>a'. find p n (move L mv s) = Some a' \<and> opened_with a' = opened_with a
    \<and> (0 \<le> a_balance a \<longrightarrow> 0 \<le> a_balance a') \<and> a_created a' = a_created a
    \<and> a_earned a \<le> a_earned a' \<and> a_spent a \<le> a_spent a'"
proof (cases mv)
  case (Mv_open now q i m)
  then show ?thesis using assms(1) by (auto simp: ensure_law)
next
  case (Mv_credit tx now q amt me m)
  obtain r s' where c: "lo_credit L tx now q amt me m s = (r, s')" by fastforce
  show ?thesis
  proof (cases "tx \<in> used s")
    case True
    then show ?thesis using Mv_credit assms(1) by (simp add: credit_clash)
  next
    case False
    then show ?thesis using credit_law [OF False c, of p n] Mv_credit assms c
      by (auto simp: add_credit_def opened_with_def)
  qed
next
  case (Mv_debit tx now q amt me m)
  obtain r s' where c: "lo_debit L tx now q amt me m s = (r, s')" by fastforce
  consider (short) b where "find q m s = Some b" "a_balance b < amt"
    | (clash) "tx \<in> used s" "amt \<le> lo_balance L q m s \<or> find q m s = None"
    | (fresh) "tx \<notin> used s" "amt \<le> lo_balance L q m s \<or> find q m s = None"
    by (cases "find q m s"; cases "tx \<in> used s"; cases "amt \<le> lo_balance L q m s")
      (auto simp: balance_law)
  then show ?thesis
  proof cases
    case fresh
    then have "find p n s' = (if p = q \<and> n = m then map_option (take_debit amt now) (find p n s) else find p n s)"
      using debit_law [OF fresh c, of p n] by blast
    then show ?thesis using fresh Mv_debit assms c
      by (auto simp: take_debit_def opened_with_def balance_law)
  next
    case clash
    then show ?thesis using Mv_debit assms by (simp add: debit_clash)
  next
    case short
    then show ?thesis using debit_short [of q m s b amt tx now me] Mv_debit assms by simp
  qed
qed

lemma moves_account:
  assumes "find p n s = Some a" "\<And>mv. mv \<in> set ms \<Longrightarrow> 0 \<le> mv_amount mv"
  shows "\<exists>a'. find p n (moves L ms s) = Some a' \<and> opened_with a' = opened_with a
    \<and> (0 \<le> a_balance a \<longrightarrow> 0 \<le> a_balance a') \<and> a_created a' = a_created a
    \<and> a_earned a \<le> a_earned a' \<and> a_spent a \<le> a_spent a'"
  using assms unfolding moves_def
proof (induction ms arbitrary: s a)
  case (Cons mv ms)
  obtain a1 where a1: "find p n (move L mv s) = Some a1" "opened_with a1 = opened_with a"
    "0 \<le> a_balance a \<longrightarrow> 0 \<le> a_balance a1" "a_created a1 = a_created a" "a_earned a \<le> a_earned a1"
    "a_spent a \<le> a_spent a1"
    using move_account [OF Cons.prems(1), of mv] Cons.prems(2) by auto
  obtain a2 where "find p n (fold (move L) ms (move L mv s)) = Some a2" "opened_with a2 = opened_with a1"
    "0 \<le> a_balance a1 \<longrightarrow> 0 \<le> a_balance a2" "a_created a2 = a_created a1" "a_earned a1 \<le> a_earned a2"
    "a_spent a1 \<le> a_spent a2"
    using Cons.IH [OF a1(1)] Cons.prems(2) by auto
  then show ?case using a1 by force
qed simp

end


definition empty_db :: database where
  "empty_db = \<lparr>db_accounts = [], db_network_accounts = [], db_transactions = [], db_receipts = []\<rparr>"

definition demo_db :: database where
  "demo_db = nl_ensure_account 1 ''bob'' 100 ''net'' (nl_ensure_account 1 ''ann'' 100 ''net'' empty_db)"

definition demo_moves :: "movement list" where
  "demo_moves = [Mv_debit ''t1'' 2 ''ann'' 30 \<lparr>m_reason = ''consumed'', m_counterparty = ''bob'', m_signature = []\<rparr> ''net'',
     Mv_debit ''t2'' 2 ''ann'' 90 \<lparr>m_reason = ''consumed'', m_counterparty = ''bob'', m_signature = []\<rparr> ''net'',
     Mv_open 3 ''ann'' 100 ''net'']"


section \<open>The account cache\<close>

datatype repo_op =
  Rp_credit pystr pyfloat pystr pyfloat memo
| Rp_debit pystr pyfloat pystr pyfloat memo
| Rp_read bool pyfloat pystr pyfloat

fun repo_step :: "repo_op \<Rightarrow> repository \<Rightarrow> repository" where
  "repo_step (Rp_credit tx now p amt me) r = snd (lr_credit tx now p amt me r)"
| "repo_step (Rp_debit tx now p amt me) r = snd (lr_debit tx now p amt me r)"
| "repo_step (Rp_read ok now p ttl) r = snd (get_account_cached ok now p ttl r)"

definition cache_fresh :: "repository \<Rightarrow> bool" where
  "cache_fresh r \<longleftrightarrow> (\<forall>p ts a. map_of (rp_cache r) p = Some (ts, a) \<longrightarrow> a = lr_get_account p (rp_db r))"

lemma lr_get_put [simp]: "lr_get_account p (lr_put q a d) = (if p = q then Some a else lr_get_account p d)"
  "lr_get_account p (d\<lparr>db_transactions := xs\<rparr>) = lr_get_account p d"
  by (simp_all add: lr_get_account_def lr_put_def)

lemma lr_commit_fresh:
  assumes "cache_fresh r" "\<And>q. q \<noteq> p \<Longrightarrow> lr_get_account q d = lr_get_account q (rp_db r)"
  shows "cache_fresh (snd (lr_commit p (db_post x (rp_db r) d) r))"
  using assms by (auto simp: cache_fresh_def lr_commit_def db_post_def invalidate_cache_def)

lemma cached_read_fresh:
  "cache_fresh r \<Longrightarrow> cache_fresh (snd (get_account_cached ok now p ttl r))"
  by (auto simp: cache_fresh_def get_account_cached_def Let_def split: option.splits)

lemma cached_read_value:
  "cache_fresh r \<Longrightarrow> fst (get_account_cached ok now p ttl r)
    = (if \<not> ok \<and> map_of (rp_cache r) p = None then None else Some (lr_get_account p (rp_db r)))"
  by (cases "map_of (rp_cache r) p") (auto simp: cache_fresh_def get_account_cached_def Let_def)

lemma repo_step_fresh: "cache_fresh r \<Longrightarrow> cache_fresh (repo_step op r)"
proof (cases op)
  case (Rp_credit tx now p amt me)
  assume "cache_fresh r"
  then show ?thesis unfolding Rp_credit repo_step.simps lr_credit_def Let_def
    by (rule lr_commit_fresh) (auto split: option.splits)
next
  case (Rp_debit tx now p amt me)
  assume "cache_fresh r"
  then show ?thesis unfolding Rp_debit repo_step.simps lr_debit_def Let_def
    by (auto intro!: lr_commit_fresh split: option.splits)
qed (simp add: cached_read_fresh)

lemma repo_steps_fresh: "cache_fresh r \<Longrightarrow> cache_fresh (fold repo_step ops r)"
  by (induction ops arbitrary: r) (simp_all add: repo_step_fresh)

text \<open>
  The cached balance is the balance. From an empty cache, after any sequence of credits, debits and
  cached reads, a cached read returns exactly the account in the database at any age of the entry; it
  fails only when the database does and nothing was cached.
\<close>

theorem account_cache_coherent:
  fixes ops :: "repo_op list" and d :: database
  defines "r \<equiv> fold repo_step ops \<lparr>rp_db = d, rp_cache = []\<rparr>"
  shows "fst (get_account_cached ok now p ttl r)
    = (if \<not> ok \<and> map_of (rp_cache r) p = None then None else Some (lr_get_account p (rp_db r)))"
proof -
  have "cache_fresh r" unfolding r_def by (rule repo_steps_fresh) (simp add: cache_fresh_def)
  then show ?thesis by (rule cached_read_value)
qed

text \<open>Opening an account does not drop a cached absence: until the entry ages it is still reported absent.\<close>

lemma opening_leaves_stale_absence:
  "let r0 = \<lparr>rp_db = empty_db, rp_cache = []\<rparr>;
       r1 = snd (get_account_cached True 0 ''ann'' 30 r0);
       r2 = lr_ensure_account 1 ''ann'' 100 r1
   in lr_balance ''ann'' r2 = 100 \<and> fst (get_account_cached True 5 ''ann'' 30 r2) = Some None"
  by code_simp

section \<open>The treasury\<close>

text \<open>
  The treasury is idempotent and never lowers a balance: after a grant the authority's account holds
  the larger of what it held and the target, no other account moves, and a second grant of the same
  target changes nothing.
\<close>

theorem treasury_tops_up:
  "map_option a_balance (nl_find q m (grant_treasury now p n goal d))
     = (if q = p \<and> m = n then Some (case nl_find p n d of None \<Rightarrow> goal | Some a \<Rightarrow> max goal (a_balance a))
        else map_option a_balance (nl_find q m d))
   \<and> grant_treasury later p n goal (grant_treasury now p n goal d) = grant_treasury now p n goal d"
  by (auto simp: grant_treasury_def new_account_def split: option.splits)

end
