(* ===== verification/Tracker.thy ===== *)
theory Tracker
  imports Ledger
begin

text \<open>
  Receipts and settlement: \<open>src/mycellm/accounting/receipts.py\<close>, \<open>tracker.py\<close>, \<open>pricing.py\<close> and
  \<open>identity/peer_id.py\<close>. The third-party primitives are parameters: the CBOR encoder, SHA-256 and the
  Ed25519 verification (which here returns false wherever the library raises, as the caller catches
  every exception). A submitted receipt is a JSON object; the fields \<open>cost\<close>, \<open>tokens\<close> and \<open>ts\<close> hold what
  \<open>float()\<close> or \<open>int()\<close> makes of the submitted value, \<open>None\<close> where it raises. The clock is read in
  several places of one call: \<open>clock n\<close> is its \<open>n\<close>-th reading.
\<close>

type_synonym bytes = "nat list"

record receipt_fields =
  rf_consumer :: pystr
  rf_seeder :: pystr
  rf_model :: pystr
  rf_tokens :: int
  rf_cost :: pyfloat
  rf_request_id :: pystr
  rf_ts :: pyfloat
  rf_network_id :: "pystr option"

record primitives =
  cbor_dumps :: "receipt_fields \<Rightarrow> bytes"
  sha256_hex :: "bytes \<Rightarrow> pystr"
  ed25519_ok :: "bytes \<Rightarrow> bytes \<Rightarrow> bytes \<Rightarrow> bool"

section \<open>Pricing\<close>

definition BASE_RATE_PER_TOKEN :: pyfloat where "BASE_RATE_PER_TOKEN = 1 / 1000"

definition TIER_MULTIPLIERS :: "(pystr, pyfloat) dict" where
  "TIER_MULTIPLIERS = [(''frontier'', 3), (''capable'', 3 / 2), (''fast'', 1), (''tiny'', 1 / 2)]"

definition compute_cost :: "int \<Rightarrow> pyfloat \<Rightarrow> pystr \<Rightarrow> pyfloat" where
  "compute_cost tokens model_size_b tier =
     of_int tokens * BASE_RATE_PER_TOKEN * max 1 (model_size_b / 7) * dict_get TIER_MULTIPLIERS tier 1"

definition compute_reward :: "int \<Rightarrow> pyfloat \<Rightarrow> pystr \<Rightarrow> pyfloat" where
  "compute_reward tokens model_size_b tier = compute_cost tokens model_size_b tier"

section \<open>Receipts\<close>

fun hex_digit :: "char \<Rightarrow> nat option" where
  "hex_digit c = (let n = (of_char c :: nat) in
     if 48 \<le> n \<and> n \<le> 57 then Some (n - 48)
     else if 97 \<le> n \<and> n \<le> 102 then Some (n - 87)
     else if 65 \<le> n \<and> n \<le> 70 then Some (n - 55) else None)"

text \<open>\<open>bytes.fromhex\<close>: white space between bytes is skipped, anything else raises (\<open>None\<close>).\<close>

fun bytes_fromhex :: "pystr \<Rightarrow> bytes option" where
  "bytes_fromhex [] = Some []"
| "bytes_fromhex [c] = (if is_space c then Some [] else None)"
| "bytes_fromhex (c # d # s) =
     (if is_space c then bytes_fromhex (d # s)
      else case (hex_digit c, hex_digit d) of
        (Some h, Some l) \<Rightarrow> map_option (\<lambda>bs. (16 * h + l) # bs) (bytes_fromhex s)
      | _ \<Rightarrow> None)"

definition peer_id_from_bytes :: "primitives \<Rightarrow> bytes \<Rightarrow> pystr" where
  "peer_id_from_bytes P pub = take 32 (sha256_hex P pub)"

definition receipt_fields_of :: "pyfloat \<Rightarrow> pystr \<Rightarrow> pystr \<Rightarrow> pystr \<Rightarrow> int \<Rightarrow> pyfloat \<Rightarrow> pystr \<Rightarrow> pyfloat \<Rightarrow> pystr
    \<Rightarrow> receipt_fields" where
  "receipt_fields_of now consumer seeder model tokens cost request_id ts network_id =
     \<lparr>rf_consumer = consumer, rf_seeder = seeder, rf_model = model, rf_tokens = tokens, rf_cost = cost,
      rf_request_id = request_id, rf_ts = or_num ts now,
      rf_network_id = (if network_id = [] then None else Some network_id)\<rparr>"

definition build_receipt_data :: "primitives \<Rightarrow> pyfloat \<Rightarrow> pystr \<Rightarrow> pystr \<Rightarrow> pystr \<Rightarrow> int \<Rightarrow> pyfloat \<Rightarrow> pystr
    \<Rightarrow> pyfloat \<Rightarrow> pystr \<Rightarrow> bytes" where
  "build_receipt_data P now consumer seeder model tokens cost request_id ts network_id =
     cbor_dumps P (receipt_fields_of now consumer seeder model tokens cost request_id ts network_id)"

definition verify_receipt_signature :: "primitives \<Rightarrow> bytes \<Rightarrow> pystr \<Rightarrow> bytes \<Rightarrow> bool" where
  "verify_receipt_signature P receipt_data signature_hex pubkey =
     (case bytes_fromhex signature_hex of None \<Rightarrow> False | Some sig \<Rightarrow> ed25519_ok P pubkey sig receipt_data)"

definition verify_cosigned_receipt :: "primitives \<Rightarrow> bytes \<Rightarrow> pystr \<Rightarrow> bytes \<Rightarrow> pystr \<Rightarrow> bytes \<Rightarrow> bool" where
  "verify_cosigned_receipt P receipt_data seeder_sig seeder_pub consumer_sig consumer_pub =
     (if \<not> verify_receipt_signature P receipt_data seeder_sig seeder_pub then False
      else verify_receipt_signature P receipt_data consumer_sig consumer_pub)"

section \<open>ReceiptValidator\<close>

record validator =
  v_seen :: "(pystr, pyfloat) dict"
  v_rate :: "(pystr, pyfloat list) dict"
  v_max_rate :: nat

definition REQUEST_ID_TTL :: pyfloat where "REQUEST_ID_TTL = 3600"

definition check_replay :: "pyfloat \<Rightarrow> pystr \<Rightarrow> validator \<Rightarrow> bool \<times> validator" where
  "check_replay now request_id v =
     (if request_id = [] then (True, v)
      else let seen = filter (\<lambda>(k, t). now - t < REQUEST_ID_TTL) (v_seen v) in
        if request_id \<in> fst ` set seen then (False, v\<lparr>v_seen := seen\<rparr>)
        else (True, v\<lparr>v_seen := dict_set seen request_id now\<rparr>))"

definition check_credit_rate :: "pyfloat \<Rightarrow> pystr \<Rightarrow> validator \<Rightarrow> bool \<times> validator" where
  "check_credit_rate now peer v =
     (let ts = filter (\<lambda>t. now - t < 60) (dict_get (v_rate v) peer []) in
      if length ts \<ge> v_max_rate v then (False, v\<lparr>v_rate := dict_set (v_rate v) peer ts\<rparr>)
      else (True, v\<lparr>v_rate := dict_set (v_rate v) peer (ts @ [now])\<rparr>))"

section \<open>Settlement\<close>

definition SEED_BALANCE :: pyfloat where "SEED_BALANCE = 100"
definition TRACKER_TREASURY :: pyfloat where "TRACKER_TREASURY = 1000000000"

record submitted =
  sr_consumer :: pystr
  sr_seeder :: pystr
  sr_model :: pystr
  sr_request_id :: pystr
  sr_network_id :: pystr
  sr_cost :: "pyfloat option"
  sr_tokens :: "int option"
  sr_ts :: "pyfloat option"
  sr_seeder_pubkey :: pystr
  sr_consumer_pubkey :: pystr
  sr_seeder_signature :: pystr
  sr_consumer_signature :: pystr

datatype settle_out = Rejected pystr | Settled pyfloat pyfloat | Raised ledger_error

text \<open>The checks that read the receipt alone, in their order; \<open>None\<close> is a receipt that passes them.\<close>

definition receipt_refused :: "primitives \<Rightarrow> (nat \<Rightarrow> pyfloat) \<Rightarrow> submitted \<Rightarrow> pystr option" where
  "receipt_refused P clock r =
     (case (sr_cost r, sr_tokens r, sr_ts r) of
        (Some cost, Some tokens, Some ts) \<Rightarrow>
          if sr_consumer r = [] \<or> sr_seeder r = [] \<or> cost < 0 then Some ''malformed''
          else if sr_seeder r = sr_consumer r then Some ''self_deal''
          else (case (bytes_fromhex (sr_seeder_pubkey r), bytes_fromhex (sr_consumer_pubkey r)) of
             (Some seeder_pub, Some consumer_pub) \<Rightarrow>
               if peer_id_from_bytes P seeder_pub \<noteq> sr_seeder r then Some ''seeder_pubkey_mismatch''
               else if peer_id_from_bytes P consumer_pub \<noteq> sr_consumer r then Some ''consumer_pubkey_mismatch''
               else let data = build_receipt_data P (clock 0) (sr_consumer r) (sr_seeder r) (sr_model r)
                      tokens cost (sr_request_id r) ts (sr_network_id r) in
                 if \<not> verify_cosigned_receipt P data (sr_seeder_signature r) seeder_pub
                        (sr_consumer_signature r) consumer_pub
                 then Some ''bad_signature'' else None
           | _ \<Rightarrow> Some ''bad_pubkey_hex'')
      | _ \<Rightarrow> Some ''malformed'')"

text \<open>
  \<open>settle_cosigned_receipt\<close>: \<open>tx1\<close> and \<open>tx2\<close> are the identifiers the ledger draws for the debit and the
  credit. A ledger exception propagates (\<open>Raised\<close>) and leaves what was committed before it.
\<close>

definition settle_cosigned_receipt :: "primitives \<Rightarrow> (nat \<Rightarrow> pyfloat) \<Rightarrow> pystr \<Rightarrow> pystr \<Rightarrow> 'st ledger_ops
    \<Rightarrow> submitted \<Rightarrow> 'st \<Rightarrow> validator \<Rightarrow> settle_out \<times> 'st \<times> validator" where
  "settle_cosigned_receipt P clock tx1 tx2 L r s v =
     (case receipt_refused P clock r of
        Some why \<Rightarrow> (Rejected why, s, v)
      | None \<Rightarrow>
        let consumer = sr_consumer r; seeder = sr_seeder r; net = sr_network_id r;
            cost = the (sr_cost r); tokens = the (sr_tokens r);
            (rate_ok, v1) = check_credit_rate (clock 1) seeder v
        in if \<not> rate_ok then (Rejected ''rate_limited'', s, v1)
        else let s1 = lo_ensure L (clock 2) seeder SEED_BALANCE net s;
                 s2 = lo_ensure L (clock 3) consumer SEED_BALANCE net s1
        in if lo_balance L consumer net s2 < cost
           then (Rejected ''insufficient_consumer_balance'', s2, v1)
        else let (new, v2) = check_replay (clock 4) (sr_request_id r) v1
        in if \<not> new then (Rejected ''replay'', s2, v2)
        else (case lo_debit L tx1 (clock 5) consumer cost
                 \<lparr>m_reason = ''consumed:'' @ sr_model r, m_counterparty = seeder,
                  m_signature = sr_consumer_signature r\<rparr> net s2 of
            (Inl e, s3) \<Rightarrow> (Raised e, s3, v2)
          | (Inr _, s3) \<Rightarrow>
             (case lo_credit L tx2 (clock 6) seeder cost
                 \<lparr>m_reason = ''served:'' @ sr_model r, m_counterparty = consumer,
                  m_signature = sr_seeder_signature r\<rparr> net s3 of
               (Inl e, s4) \<Rightarrow> (Raised e, s4, v2)
             | (Inr tx, s4) \<Rightarrow>
                let s5 = lo_store L \<lparr>rc_tx_id = tx, rc_consumer = consumer, rc_seeder = seeder,
                      rc_model = sr_model r, rc_tokens = tokens, rc_cost = cost,
                      rc_signature = sr_seeder_signature r, rc_timestamp = clock 7\<rparr> s4
                in (Settled (lo_balance L seeder net s5) (lo_balance L consumer net s5), s5, v2))))"


section \<open>What a settlement does to the ledger\<close>

definition funds :: "account option \<Rightarrow> pyfloat" where
  "funds a = (case a of None \<Rightarrow> SEED_BALANCE | Some a \<Rightarrow> a_balance a)"

lemma accepted_receipt:
  assumes "receipt_refused P clock r = None"
  obtains cost tokens ts sp cp where "sr_cost r = Some cost" "sr_tokens r = Some tokens"
    "sr_ts r = Some ts" "0 \<le> cost" "sr_seeder r \<noteq> sr_consumer r"
    "bytes_fromhex (sr_seeder_pubkey r) = Some sp" "bytes_fromhex (sr_consumer_pubkey r) = Some cp"
    "peer_id_from_bytes P sp = sr_seeder r" "peer_id_from_bytes P cp = sr_consumer r"
    "verify_receipt_signature P (build_receipt_data P (clock 0) (sr_consumer r) (sr_seeder r) (sr_model r)
       tokens cost (sr_request_id r) ts (sr_network_id r)) (sr_seeder_signature r) sp"
    "verify_receipt_signature P (build_receipt_data P (clock 0) (sr_consumer r) (sr_seeder r) (sr_model r)
       tokens cost (sr_request_id r) ts (sr_network_id r)) (sr_consumer_signature r) cp"
  using assms unfolding receipt_refused_def verify_cosigned_receipt_def Let_def
  by (auto split: option.splits if_splits)

text \<open>The body after the checks, step by step.\<close>

context credit_ledger
begin

lemma find_after_opening:
  "find p n (lo_ensure L t2 c SEED_BALANCE net (lo_ensure L t1 q SEED_BALANCE net s)) =
     (if find p n s = None \<and> n = net \<and> (p = q \<or> p = c)
      then Some (new_account SEED_BALANCE (if p = q then t1 else t2)) else find p n s)"
  by (auto simp: ensure_law)

lemma balance_after_opening:
  "p \<in> {q, c} \<Longrightarrow> lo_balance L p net (lo_ensure L t2 c SEED_BALANCE net (lo_ensure L t1 q SEED_BALANCE net s))
     = funds (find p net s)"
  by (auto simp: balance_law find_after_opening funds_def new_account_def split: option.splits)

lemma transfer:
  assumes "c \<noteq> q" "t1 \<noteq> t2" "t1 \<notin> used s" "t2 \<notin> used s" "find c n s \<noteq> None" "find q n s \<noteq> None"
    "cost \<le> lo_balance L c n s"
  obtains s3 s4 where "lo_debit L t1 k1 c cost m1 n s = (Inr t1, s3)"
    "lo_credit L t2 k2 q cost m2 n s3 = (Inr t2, s4)"
    "\<forall>p m. find p m (lo_store L rc s4) = (if m = n \<and> p = c then map_option (take_debit cost k1) (find c n s)
       else if m = n \<and> p = q then map_option (add_credit cost k2) (find q n s) else find p m s)"
    "lo_balance L q n (lo_store L rc s4) = lo_balance L q n s + cost"
    "lo_balance L c n (lo_store L rc s4) = lo_balance L c n s - cost"
proof -
  obtain r3 s3 where d: "lo_debit L t1 k1 c cost m1 n s = (r3, s3)" by fastforce
  have d': "r3 = Inr t1 \<and> used s3 = insert t1 (used s)
      \<and> find p m s3 = (if p = c \<and> m = n then map_option (take_debit cost k1) (find p m s) else find p m s)" for p m
    using debit_law [OF assms(3) _ d, of p m] assms(7) by blast
  have fresh2: "t2 \<notin> used s3" using d' assms(2,4) by auto
  obtain r4 s4 where c: "lo_credit L t2 k2 q cost m2 n s3 = (r4, s4)" by fastforce
  have c': "r4 = Inr t2 \<and> find p m s4
      = (if p = q \<and> m = n then map_option (add_credit cost k2) (find p m s3) else find p m s3)" for p m
    using credit_law [OF fresh2 c, of p m] by blast
  have f: "find p m (lo_store L rc s4) = (if m = n \<and> p = c then map_option (take_debit cost k1) (find c n s)
       else if m = n \<and> p = q then map_option (add_credit cost k2) (find q n s) else find p m s)" for p m
    using d' c' assms(1) by (simp add: store_law)
  show thesis
  proof (rule that)
    show "lo_debit L t1 k1 c cost m1 n s = (Inr t1, s3)" using d d' by blast
    show "lo_credit L t2 k2 q cost m2 n s3 = (Inr t2, s4)" using c c' by blast
    show "lo_balance L q n (lo_store L rc s4) = lo_balance L q n s + cost"
      "lo_balance L c n (lo_store L rc s4) = lo_balance L c n s - cost"
      using assms(1,5,6) by (auto simp: balance_law f take_debit_def add_credit_def)
  qed (use f in blast)
qed

text \<open>
  The whole handler, by the guard that decides: the accounts are those of the state after opening,
  untouched by a refusal.
\<close>

lemma settle_cases:
  assumes "settle_cosigned_receipt P clock tx1 tx2 L r s v = (res, s', v')"
    "tx1 \<noteq> tx2" "tx1 \<notin> used s" "tx2 \<notin> used s"
  obtains (refused) why where "res = Rejected why" "\<And>p n. find p n s' = find p n s
      \<or> find p n s = None \<and> (\<exists>t. find p n s' = Some (new_account SEED_BALANCE t))"
  | (settled) v1 where "receipt_refused P clock r = None"
      "res = Settled (funds (find (sr_seeder r) (sr_network_id r) s) + the (sr_cost r))
         (funds (find (sr_consumer r) (sr_network_id r) s) - the (sr_cost r))"
      "the (sr_cost r) \<le> funds (find (sr_consumer r) (sr_network_id r) s)"
      "\<And>p n. (p, n) \<noteq> (sr_seeder r, sr_network_id r) \<Longrightarrow> (p, n) \<noteq> (sr_consumer r, sr_network_id r)
         \<Longrightarrow> find p n s' = find p n s"
      "lo_balance L (sr_seeder r) (sr_network_id r) s'
         = funds (find (sr_seeder r) (sr_network_id r) s) + the (sr_cost r)"
      "lo_balance L (sr_consumer r) (sr_network_id r) s'
         = funds (find (sr_consumer r) (sr_network_id r) s) - the (sr_cost r)"
      "check_credit_rate (clock 1) (sr_seeder r) v = (True, v1)"
      "check_replay (clock 4) (sr_request_id r) v1 = (True, v')"
proof (cases "receipt_refused P clock r")
  case (Some why)
  then have "res = Rejected why" "s' = s" using assms(1) by (simp_all add: settle_cosigned_receipt_def)
  then show ?thesis using refused by blast
next
  case None
  let ?c = "sr_consumer r" and ?q = "sr_seeder r" and ?n = "sr_network_id r" and ?cost = "the (sr_cost r)"
  let ?s2 = "lo_ensure L (clock 3) ?c SEED_BALANCE ?n (lo_ensure L (clock 2) ?q SEED_BALANCE ?n s)"
  have ne: "?c \<noteq> ?q" using accepted_receipt [OF None] by metis
  have opened: "find p n ?s2 = find p n s
      \<or> find p n s = None \<and> (\<exists>t. find p n ?s2 = Some (new_account SEED_BALANCE t))" for p n
    by (auto simp: find_after_opening)
  obtain ok v1 where rate: "check_credit_rate (clock 1) ?q v = (ok, v1)" by fastforce
  obtain new v2 where replay: "check_replay (clock 4) (sr_request_id r) v1 = (new, v2)" by fastforce
  note body = assms(1) [unfolded settle_cosigned_receipt_def None option.case Let_def rate replay prod.case]
  show ?thesis
  proof (cases "ok \<and> \<not> lo_balance L ?c ?n ?s2 < ?cost \<and> new")
    case False
    then show ?thesis using body refused opened rate replay
      by (auto simp: Let_def split: if_splits)
  next
    case True
    have has: "find ?c ?n ?s2 \<noteq> None" "find ?q ?n ?s2 \<noteq> None" by (simp_all add: find_after_opening)
    have u: "tx1 \<notin> used ?s2" "tx2 \<notin> used ?s2" using assms(3,4) by (simp_all add: ensure_used)
    have enough: "?cost \<le> lo_balance L ?c ?n ?s2" using True by simp
    let ?rc = "\<lparr>rc_tx_id = tx2, rc_consumer = ?c, rc_seeder = ?q, rc_model = sr_model r,
      rc_tokens = the (sr_tokens r), rc_cost = ?cost, rc_signature = sr_seeder_signature r,
      rc_timestamp = clock 7\<rparr>"
    obtain s3 s4 where t: "lo_debit L tx1 (clock 5) ?c ?cost \<lparr>m_reason = ''consumed:'' @ sr_model r,
          m_counterparty = ?q, m_signature = sr_consumer_signature r\<rparr> ?n ?s2 = (Inr tx1, s3)"
      "lo_credit L tx2 (clock 6) ?q ?cost \<lparr>m_reason = ''served:'' @ sr_model r,
          m_counterparty = ?c, m_signature = sr_seeder_signature r\<rparr> ?n s3 = (Inr tx2, s4)"
      "\<forall>p m. find p m (lo_store L ?rc s4) = (if m = ?n \<and> p = ?c then map_option (take_debit ?cost (clock 5)) (find ?c ?n ?s2)
         else if m = ?n \<and> p = ?q then map_option (add_credit ?cost (clock 6)) (find ?q ?n ?s2) else find p m ?s2)"
      "lo_balance L ?q ?n (lo_store L ?rc s4) = lo_balance L ?q ?n ?s2 + ?cost"
      "lo_balance L ?c ?n (lo_store L ?rc s4) = lo_balance L ?c ?n ?s2 - ?cost"
      by (rule transfer [OF ne assms(2) u has enough, where ?k1.0 = "clock 5" and ?k2.0 = "clock 6"
            and ?m1.0 = "\<lparr>m_reason = ''consumed:'' @ sr_model r, m_counterparty = ?q,
                          m_signature = sr_consumer_signature r\<rparr>"
            and ?m2.0 = "\<lparr>m_reason = ''served:'' @ sr_model r, m_counterparty = ?c,
                          m_signature = sr_seeder_signature r\<rparr>" and rc = ?rc]) (rule that)
    have fin: "res = Settled (lo_balance L ?q ?n s') (lo_balance L ?c ?n s')" "s' = lo_store L ?rc s4" "v' = v2"
      using body True t(1,2) by (auto simp: Let_def)
    have bal: "lo_balance L ?q ?n ?s2 = funds (find ?q ?n s)" "lo_balance L ?c ?n ?s2 = funds (find ?c ?n s)"
      using balance_after_opening by simp_all
    show ?thesis
    proof (rule settled [of v1])
      show b: "lo_balance L ?q ?n s' = funds (find ?q ?n s) + ?cost"
        "lo_balance L ?c ?n s' = funds (find ?c ?n s) - ?cost"
        using t(4,5) bal by (simp_all only: fin(2))
      show "res = Settled (funds (find ?q ?n s) + ?cost) (funds (find ?c ?n s) - ?cost)"
        using fin(1) by (simp only: b)
      show "?cost \<le> funds (find ?c ?n s)" using enough by (simp only: bal)
      show "find p n s' = find p n s" if "(p, n) \<noteq> (?q, ?n)" "(p, n) \<noteq> (?c, ?n)" for p n
      proof -
        have d: "\<not> (n = ?n \<and> p = ?c)" "\<not> (n = ?n \<and> p = ?q)" using that by auto
        then have "find p n s' = find p n ?s2" using t(3) by (simp only: fin(2) if_False)
        also have "\<dots> = find p n s" using opened [of p n] d unfolding find_after_opening by auto
        finally show ?thesis .
      qed
      show "check_credit_rate (clock 1) ?q v = (True, v1)" using True unfolding rate by simp
      show "check_replay (clock 4) (sr_request_id r) v1 = (True, v')"
        using True unfolding replay fin(3) by simp
    qed (rule None)
  qed
qed

end



text \<open>A toy instance of the primitives: an identifier is its key's characters, a signature its key.\<close>

definition toy :: primitives where
  "toy = \<lparr>cbor_dumps = (\<lambda>f. map of_char (rf_request_id f)), sha256_hex = map char_of,
     ed25519_ok = (\<lambda>pub sig data. sig = pub)\<rparr>"

definition demo_receipt :: submitted where
  "demo_receipt = \<lparr>sr_consumer = ''c'', sr_seeder = ''s'', sr_model = ''qwen'', sr_request_id = ''r1'',
     sr_network_id = ''public'', sr_cost = Some 7, sr_tokens = Some 700, sr_ts = Some 50,
     sr_seeder_pubkey = ''73'', sr_consumer_pubkey = ''63'', sr_seeder_signature = ''73'',
     sr_consumer_signature = ''63''\<rparr>"

definition fresh_validator :: "nat \<Rightarrow> validator" where
  "fresh_validator m = \<lparr>v_seen = [], v_rate = [], v_max_rate = m\<rparr>"



section \<open>Replays\<close>

record submission_event =
  ev_clock :: "nat \<Rightarrow> pyfloat"
  ev_tx1 :: pystr
  ev_tx2 :: pystr
  ev_receipt :: submitted

fun settle_run :: "primitives \<Rightarrow> 'st ledger_ops \<Rightarrow> submission_event list \<Rightarrow> 'st \<Rightarrow> validator \<Rightarrow> settle_out list" where
  "settle_run P L [] s v = []"
| "settle_run P L (e # es) s v =
     (let (res, s', v') = settle_cosigned_receipt P (ev_clock e) (ev_tx1 e) (ev_tx2 e) L (ev_receipt e) s v
      in res # settle_run P L es s' v')"

fun is_settled :: "settle_out \<Rightarrow> bool" where
  "is_settled (Settled sb cb) = True"
| "is_settled (Rejected why) = False"
| "is_settled (Raised e) = False"

lemma check_replay_seen: "v_seen v = v_seen w \<Longrightarrow>
    fst (check_replay t i v) = fst (check_replay t i w) \<and> v_seen (snd (check_replay t i v)) = v_seen (snd (check_replay t i w))"
  by (simp add: check_replay_def Let_def)

lemma check_rate_seen [simp]: "v_seen (snd (check_credit_rate t p v)) = v_seen v"
  by (simp add: check_credit_rate_def Let_def)

lemma settle_seen:
  assumes "settle_cosigned_receipt P clock tx1 tx2 L r s v = (res, s', v')"
  shows "v_seen v' = v_seen v \<and> \<not> is_settled res
    \<or> v_seen v' = v_seen (snd (check_replay (clock 4) (sr_request_id r) v))
      \<and> (is_settled res \<longrightarrow> fst (check_replay (clock 4) (sr_request_id r) v))"
proof (cases "receipt_refused P clock r")
  case (Some why)
  then show ?thesis using assms by (auto simp: settle_cosigned_receipt_def)
next
  case None
  obtain ok v1 where rate: "check_credit_rate (clock 1) (sr_seeder r) v = (ok, v1)" by fastforce
  obtain new v2 where replay: "check_replay (clock 4) (sr_request_id r) v1 = (new, v2)" by fastforce
  have v1: "v_seen v1 = v_seen v" using check_rate_seen [of "clock 1" "sr_seeder r" v] unfolding rate by simp
  show ?thesis
    using check_replay_seen [OF v1, of "clock 4" "sr_request_id r"] replay v1
      assms [unfolded settle_cosigned_receipt_def None option.case Let_def rate replay prod.case]
    by (auto split: if_splits prod.splits sum.splits)
qed

lemma replay_remembers:
  assumes "dict_ok (v_seen v)" "i \<noteq> []" "fst (check_replay t i v)"
  shows "map_of (v_seen (snd (check_replay t i v))) i = Some t"
  using assms by (simp add: check_replay_def Let_def split: if_splits)

lemma replay_keeps:
  assumes "dict_ok (v_seen v)" "map_of (v_seen v) i = Some t0" "t - t0 < REQUEST_ID_TTL"
  shows "map_of (v_seen (snd (check_replay t k v))) i = Some t0" "i \<noteq> [] \<Longrightarrow> \<not> fst (check_replay t i v)"
proof -
  let ?seen = "filter (\<lambda>(k, t0). t - t0 < REQUEST_ID_TTL) (v_seen v)"
  have m: "map_of ?seen i = Some t0" using assms by (simp add: map_of_filter_ok)
  then have "i \<in> fst ` set ?seen" by (metis domI dom_map_of_conv_image_fst)
  then show "map_of (v_seen (snd (check_replay t k v))) i = Some t0" "i \<noteq> [] \<Longrightarrow> \<not> fst (check_replay t i v)"
    using m assms(2) by (auto simp: check_replay_def Let_def)
qed

lemma replay_dict_ok: "dict_ok (v_seen v) \<Longrightarrow> dict_ok (v_seen (snd (check_replay t i v)))"
  by (simp add: check_replay_def Let_def)


lemma run_blocks_replay:
  assumes "dict_ok (v_seen v)" "map_of (v_seen v) i = Some t0" "i \<noteq> []"
    "sorted (map (\<lambda>e. ev_clock e 4) es)" "k < length es" "sr_request_id (ev_receipt (es ! k)) = i"
    "is_settled (settle_run P L es s v ! k)"
  shows "t0 + REQUEST_ID_TTL \<le> ev_clock (es ! k) 4"
  using assms
proof (induction es arbitrary: k s v)
  case (Cons e es)
  obtain res s' v' where st: "settle_cosigned_receipt P (ev_clock e) (ev_tx1 e) (ev_tx2 e) L (ev_receipt e) s v
      = (res, s', v')" by (metis surj_pair)
  note seen = settle_seen [OF st]
  have ok': "dict_ok (v_seen v')" using seen replay_dict_ok [OF Cons.prems(1)] Cons.prems(1) by auto
  show ?case
  proof (rule ccontr)
    assume late: "\<not> ?thesis"
    have le: "ev_clock e 4 \<le> ev_clock ((e # es) ! k) 4"
      using Cons.prems(4,5) by (cases k) auto
    then have in_window: "ev_clock e 4 - t0 < REQUEST_ID_TTL" using late by linarith
    note keep = replay_keeps [OF Cons.prems(1,2) in_window]
    have kept: "map_of (v_seen v') i = Some t0" using seen keep(1) Cons.prems(2) by auto
    show False
    proof (cases k)
      case 0
      then show False using Cons.prems(3,6,7) st seen keep(2) by auto
    next
      case (Suc k')
      then show False using Cons.IH [OF ok' kept Cons.prems(3), of k' s'] Cons.prems(4-7) st late by simp
    qed
  qed
qed simp

text \<open>
  C7: within the hour a request settles once. In any sequence of submissions to one validator, whatever
  the ledger, two settlements of the same non-empty request identifier lie at least the
  deduplication window apart.
\<close>

theorem no_double_settlement:
  assumes "dict_ok (v_seen v)" "sorted (map (\<lambda>e. ev_clock e 4) es)" "i < j" "j < length es"
    "sr_request_id (ev_receipt (es ! i)) = sr_request_id (ev_receipt (es ! j))"
    "sr_request_id (ev_receipt (es ! i)) \<noteq> []"
    "is_settled (settle_run P L es s v ! i)" "is_settled (settle_run P L es s v ! j)"
  shows "3600 \<le> ev_clock (es ! j) 4 - ev_clock (es ! i) 4"
  using assms
proof (induction es arbitrary: i j s v)
  case (Cons e es)
  obtain res s' v' where st: "settle_cosigned_receipt P (ev_clock e) (ev_tx1 e) (ev_tx2 e) L (ev_receipt e) s v
      = (res, s', v')" by (metis surj_pair)
  note seen = settle_seen [OF st]
  have ok': "dict_ok (v_seen v')" using seen replay_dict_ok [OF Cons.prems(1)] Cons.prems(1) by auto
  obtain j' where j: "j = Suc j'" using Cons.prems(3) by (cases j) auto
  show ?case
  proof (cases i)
    case (Suc i')
    then show ?thesis using Cons.IH [OF ok', of i' j' s'] Cons.prems j st by simp
  next
    case 0
    then have mem: "map_of (v_seen v') (sr_request_id (ev_receipt e)) = Some (ev_clock e 4)"
      using Cons.prems(1,6,7) seen st replay_remembers by auto
    have "ev_clock e 4 + REQUEST_ID_TTL \<le> ev_clock (es ! j') 4"
    proof (rule run_blocks_replay [OF ok' mem])
      show "is_settled (settle_run P L es s' v' ! j')" using Cons.prems(8) j st by simp
    qed (use Cons.prems(2,4-6) 0 j in simp_all)
    then show ?thesis using 0 j by (simp add: REQUEST_ID_TTL_def)
  qed
qed simp

definition resubmission :: "pyfloat \<Rightarrow> pystr \<Rightarrow> pystr \<Rightarrow> submission_event" where
  "resubmission t a b = \<lparr>ev_clock = (\<lambda>n. t), ev_tx1 = a, ev_tx2 = b, ev_receipt = demo_receipt\<rparr>"

text \<open>
  Nothing binds the receipt's own timestamp to the clock: past the window the very same receipt settles
  again, and one without a request identifier settles every time.
\<close>

lemma stale_receipt_settles_again:
  "settle_run toy network_ops [resubmission 100 ''a'' ''b'', resubmission 200 ''c'' ''d'', resubmission 3700 ''e'' ''f'']
     empty_db (fresh_validator 100) = [Settled 107 93, Rejected ''replay'', Settled 114 86]"
  by code_simp

lemma anonymous_receipt_settles_again:
  "settle_run toy network_ops [(resubmission 100 ''a'' ''b'')\<lparr>ev_receipt := demo_receipt\<lparr>sr_request_id := []\<rparr>\<rparr>,
       (resubmission 101 ''c'' ''d'')\<lparr>ev_receipt := demo_receipt\<lparr>sr_request_id := []\<rparr>\<rparr>]
     empty_db (fresh_validator 100) = [Settled 107 93, Settled 114 86]"
  by code_simp

theorem no_double_settlement_witness:
  "settle_run toy network_ops [resubmission 100 ''a'' ''b'', resubmission 3700 ''e'' ''f'']
      empty_db (fresh_validator 100) = [Settled 107 93, Settled 114 86] \<and> (3600::pyfloat) \<le> 3700 - 100"
proof -
  let ?es = "[resubmission 100 ''a'' ''b'', resubmission 3700 ''e'' ''f'']"
  have run: "settle_run toy network_ops ?es empty_db (fresh_validator 100) = [Settled 107 93, Settled 114 86]"
    by code_simp
  then show ?thesis
    using no_double_settlement [of "fresh_validator 100" ?es 0 1 toy network_ops empty_db]
    by (simp add: fresh_validator_def resubmission_def demo_receipt_def)
qed

section \<open>The credit rate\<close>

fun rate_run :: "(pyfloat \<times> pystr) list \<Rightarrow> validator \<Rightarrow> (pyfloat \<times> pystr \<times> bool) list" where
  "rate_run [] v = []"
| "rate_run ((t, p) # xs) v = (let (ok, v') = check_credit_rate t p v in (t, p, ok) # rate_run xs v')"

definition admitted :: "pystr \<Rightarrow> (pyfloat \<times> pystr \<times> bool) list \<Rightarrow> pyfloat list" where
  "admitted p ys = map fst (filter (\<lambda>(t, q, ok). q = p \<and> ok) ys)"

definition in_window :: "pyfloat \<Rightarrow> pyfloat list \<Rightarrow> pyfloat list" where
  "in_window T ts = filter (\<lambda>t. T - 60 < t \<and> t \<le> T) ts"

text \<open>
  \<open>hist\<close> is what was admitted so far: the validator's list is its part younger than a minute at the last
  check.
\<close>

definition rate_inv :: "pystr \<Rightarrow> pyfloat list \<Rightarrow> pyfloat \<Rightarrow> validator \<Rightarrow> bool" where
  "rate_inv p hist now v \<longleftrightarrow>
     (\<exists>u \<le> now. dict_get (v_rate v) p [] = filter (\<lambda>t. u - t < 60) hist)
     \<and> (\<forall>t \<in> set hist. t \<le> now) \<and> (\<forall>T. length (in_window T hist) \<le> v_max_rate v)"

lemma in_window_append [simp]: "in_window T (xs @ ys) = in_window T xs @ in_window T ys"
  by (simp add: in_window_def)

lemma length_filter_filter_le: "length (filter P (filter Q xs)) \<le> length (filter P xs)"
  by (induction xs) auto

lemma rate_step:
  assumes "rate_inv p hist now v" "now \<le> t" "check_credit_rate t q v = (ok, v')"
  shows "rate_inv p (hist @ (if q = p \<and> ok then [t] else [])) t v'" "v_max_rate v' = v_max_rate v"
proof -
  show "v_max_rate v' = v_max_rate v"
    using assms(3) by (auto simp: check_credit_rate_def Let_def split: if_splits)
  obtain u where u: "u \<le> now" "dict_get (v_rate v) p [] = filter (\<lambda>t. u - t < 60) hist"
    "\<forall>t \<in> set hist. t \<le> now" "\<forall>T. length (in_window T hist) \<le> v_max_rate v"
    using assms(1) unfolding rate_inv_def by blast
  have older: "\<forall>x \<in> set hist. x \<le> t" using u(3) assms(2) by auto
  show "rate_inv p (hist @ (if q = p \<and> ok then [t] else [])) t v'"
  proof (cases "q = p")
    case False
    then have "dict_get (v_rate v') p [] = dict_get (v_rate v) p []" "v_max_rate v' = v_max_rate v"
      using assms(3) by (auto simp: check_credit_rate_def Let_def dict_get_def split: if_splits)
    then show ?thesis using False u assms(2) older unfolding rate_inv_def
      by (auto intro!: exI [of _ u])
  next
    case True
    have recent: "filter (\<lambda>x. t - x < 60) (filter (\<lambda>x. u - x < 60) hist) = filter (\<lambda>x. t - x < 60) hist"
      using u(1) assms(2) by (auto intro: filter_cong)
    have split: "check_credit_rate t p v = (if length (filter (\<lambda>x. t - x < 60) hist) \<ge> v_max_rate v
        then (False, v\<lparr>v_rate := dict_set (v_rate v) p (filter (\<lambda>x. t - x < 60) hist)\<rparr>)
        else (True, v\<lparr>v_rate := dict_set (v_rate v) p (filter (\<lambda>x. t - x < 60) hist @ [t])\<rparr>))"
      unfolding check_credit_rate_def u(2) recent by (simp add: Let_def)
    have same: "in_window T hist = filter (\<lambda>x. t - x < 60) (in_window T hist)" if "t \<le> T" for T
      using that unfolding in_window_def by (auto intro: filter_cong)
    have bound: "length (in_window T hist) \<le> length (filter (\<lambda>x. t - x < 60) hist)" if "t \<le> T" for T
      using arg_cong [OF same [OF that], of length] length_filter_filter_le
        [of "\<lambda>x. t - x < 60" "\<lambda>x. T - 60 < x \<and> x \<le> T" hist] unfolding in_window_def by simp
    show ?thesis
    proof (cases "length (filter (\<lambda>x. t - x < 60) hist) \<ge> v_max_rate v")
      case full: True
      then show ?thesis using assms(3) split True u(4) older unfolding rate_inv_def
        by (auto simp: dict_get_def intro!: exI [of _ t])
    next
      case room: False
      have w: "length (in_window T (hist @ [t])) \<le> v_max_rate v" for T
        using u(4) bound [of T] room by (cases "t \<le> T") (auto simp: in_window_def)
      then show ?thesis using assms(3) split True room older unfolding rate_inv_def
        by (auto simp: dict_get_def intro!: exI [of _ t])
    qed
  qed
qed


lemma rate_run_inv:
  assumes "rate_inv p hist now v" "sorted (now # map fst xs)"
  shows "length (in_window T (hist @ admitted p (rate_run xs v))) \<le> v_max_rate v"
  using assms
proof (induction xs arbitrary: hist now v)
  case Nil
  then show ?case by (simp add: rate_inv_def admitted_def)
next
  case (Cons x xs)
  obtain t q where x: "x = (t, q)" by (cases x)
  obtain ok v' where c: "check_credit_rate t q v = (ok, v')" by fastforce
  have le: "now \<le> t" "sorted (t # map fst xs)" using Cons.prems(2) x by auto
  note st = rate_step [OF Cons.prems(1) le(1) c]
  have "hist @ admitted p (rate_run (x # xs) v)
      = (hist @ (if q = p \<and> ok then [t] else [])) @ admitted p (rate_run xs v')"
    by (simp add: x c admitted_def)
  then show ?case using Cons.IH [OF st(1) le(2)] st(2) by metis
qed

text \<open>
  No peer earns faster than the limit. Whatever the sequence of checks for whatever peers, in every
  window of sixty seconds at most \<open>max_receipts_per_minute\<close> checks of one peer are admitted.
\<close>

theorem credit_rate_limited:
  assumes "sorted (map fst xs)"
  shows "length (filter (\<lambda>t. T - 60 < t \<and> t \<le> T) (admitted p (rate_run xs (fresh_validator m)))) \<le> m"
proof -
  have "rate_inv p [] (case xs of [] \<Rightarrow> 0 | x # _ \<Rightarrow> fst x) (fresh_validator m)"
    by (auto simp: rate_inv_def fresh_validator_def dict_get_def in_window_def)
  moreover have "sorted ((case xs of [] \<Rightarrow> 0 | x # _ \<Rightarrow> fst x) # map fst xs)"
    using assms by (cases xs) auto
  ultimately show ?thesis
    using rate_run_inv [of p "[]" _ "fresh_validator m" xs T] by (simp add: in_window_def fresh_validator_def)
qed

theorem credit_rate_limited_witness:
  "length (filter (\<lambda>t. 70 - 60 < t \<and> t \<le> 70)
     (admitted ''s'' (rate_run [(1, ''s''), (20, ''s''), (30, ''s''), (40, ''s''), (70, ''s'')] (fresh_validator 2)))) \<le> 2"
  by (rule credit_rate_limited) simp

section \<open>The receipt handler of a node\<close>

text \<open>
  \<open>node.py\<close>, \<open>_handle_credit_receipt\<close>: the connection table gives for an authenticated peer the public key
  of its certificate, if it sent one. Settlement with the tracker is a separate message or call and
  cannot fail this handler; the handler's own effects are the validator, the stored receipt and
  the reputation credit. \<open>None\<close> is a dropped receipt.
\<close>

record credit_receipt_msg =
  cm_id :: pystr
  cm_from :: pystr
  cm_signature :: pystr
  cm_request_id :: pystr
  cm_consumer :: pystr
  cm_seeder :: pystr
  cm_model :: pystr
  cm_tokens :: int
  cm_cost :: pyfloat
  cm_timestamp :: pyfloat
  cm_network_id :: pystr

definition handle_credit_receipt :: "primitives \<Rightarrow> (nat \<Rightarrow> pyfloat) \<Rightarrow> (pystr \<Rightarrow> bytes option option)
    \<Rightarrow> credit_receipt_msg \<Rightarrow> validator \<Rightarrow> receipt option \<times> validator" where
  "handle_credit_receipt P clock peer_connections m v =
     (case peer_connections (cm_from m) of
        None \<Rightarrow> (None, v)
      | Some cert \<Rightarrow>
        let (new, v1) = check_replay (clock 0) (cm_request_id m) v;
            stored = \<lparr>rc_tx_id = cm_id m, rc_consumer = cm_consumer m, rc_seeder = cm_seeder m,
              rc_model = cm_model m, rc_tokens = cm_tokens m, rc_cost = cm_cost m,
              rc_signature = cm_signature m, rc_timestamp = clock 2\<rparr>
        in if \<not> new then (None, v1)
        else (case cert of
            Some pubkey \<Rightarrow>
              if cm_signature m \<noteq> [] \<and> \<not> verify_receipt_signature P
                   (build_receipt_data P (clock 1) (cm_consumer m) (cm_seeder m) (cm_model m) (cm_tokens m)
                      (cm_cost m) (cm_request_id m) (cm_timestamp m) (cm_network_id m)) (cm_signature m) pubkey
              then (None, v1) else (Some stored, v1)
          | None \<Rightarrow> (Some stored, v1)))"

text \<open>
  A forged signature is never stored. A stored receipt comes from an authenticated peer, is not a
  replay, and if that peer has a certificate and the receipt a signature, the signature verifies over
  its fields under that key. A receipt with no signature at all is stored too.
\<close>

theorem stored_receipt_checked:
  "fst (handle_credit_receipt P clock conns m v) \<noteq> None \<longleftrightarrow>
     conns (cm_from m) \<noteq> None \<and> fst (check_replay (clock 0) (cm_request_id m) v)
     \<and> (cm_signature m = [] \<or> the (conns (cm_from m)) = None
        \<or> verify_receipt_signature P
             (build_receipt_data P (clock 1) (cm_consumer m) (cm_seeder m) (cm_model m) (cm_tokens m)
                (cm_cost m) (cm_request_id m) (cm_timestamp m) (cm_network_id m))
             (cm_signature m) (the (the (conns (cm_from m)))))"
  by (auto simp: handle_credit_receipt_def Let_def split: option.splits prod.splits if_splits)

text \<open>The request identifier is consumed before the signature is looked at: a forgery blocks the original.\<close>

lemma forgery_burns_request_id:
  "let m = \<lparr>cm_id = ''m1'', cm_from = ''s'', cm_signature = ''00'', cm_request_id = ''r1'', cm_consumer = ''c'',
        cm_seeder = ''s'', cm_model = ''qwen'', cm_tokens = 10, cm_cost = 1, cm_timestamp = 5, cm_network_id = []\<rparr>;
       conns = (\<lambda>p. Some (Some [0x73]));
       (r1, v1) = handle_credit_receipt toy (\<lambda>n. 10) conns m (fresh_validator 5);
       (r2, v2) = handle_credit_receipt toy (\<lambda>n. 11) conns (m\<lparr>cm_signature := ''73''\<rparr>) v1
   in r1 = None \<and> r2 = None
      \<and> fst (handle_credit_receipt toy (\<lambda>n. 11) conns (m\<lparr>cm_signature := ''73''\<rparr>) (fresh_validator 5)) \<noteq> None"
  by code_simp

end
