(* ===== verification/Peer_Registry.thy ===== *)
theory Peer_Registry
  imports Prelude
begin

text \<open>
  \<open>src/mycellm/router/registry.py\<close> with the parts of \<open>protocol/capabilities.py\<close> and
  \<open>transport/connection.py\<close> it reads: the in-memory registry of peers and its index by model. A peer
  entry is shared and mutable in the code; here the registry is the only store of entries, and who
  changes one changes it in the registry under its identifier. The sets of the model index are lists
  without repetition, in insertion order.
\<close>

datatype peer_state = DISCOVERED | DIALABLE | AUTHENTICATED | ROUTABLE | SERVING | DISCONNECTED

record model_cap =
  mc_name :: pystr
  mc_backend :: pystr
  mc_tags :: "pystr list"
  mc_tier :: pystr
  mc_param_count_b :: pyfloat
  mc_scope :: pystr
  mc_visible_networks :: "pystr list"

record capabilities =
  cap_models :: "model_cap list"
  cap_est_tok_s :: pyfloat

text \<open>A connection as the router sees it; \<open>cn_protocol\<close> is \<open>None\<close> without a protocol, else its \<open>_is_closed\<close>.\<close>

record conn =
  cn_state :: peer_state
  cn_protocol :: "bool option"
  cn_active_requests :: nat
  cn_rtt_history :: "pyfloat list"

definition MAX_CONCURRENT :: nat where "MAX_CONCURRENT = 4"
definition RTT_MAX_SAMPLES :: nat where "RTT_MAX_SAMPLES = 10"

definition is_overloaded :: "conn \<Rightarrow> bool" where
  "is_overloaded c = (cn_active_requests c \<ge> MAX_CONCURRENT)"

definition record_rtt :: "pyfloat \<Rightarrow> conn \<Rightarrow> conn" where
  "record_rtt rtt c =
     (let h = cn_rtt_history c @ [rtt]
      in c\<lparr>cn_rtt_history := (if length h > RTT_MAX_SAMPLES then last_n RTT_MAX_SAMPLES h else h)\<rparr>)"

definition conn_avg_rtt :: "conn \<Rightarrow> pyfloat" where
  "conn_avg_rtt c = (if cn_rtt_history c = [] then 0
     else sum_list (cn_rtt_history c) / of_nat (length (cn_rtt_history c)))"

record peer_entry =
  pe_peer_id :: pystr
  pe_connection :: "conn option"
  pe_capabilities :: capabilities
  pe_state :: peer_state
  pe_addresses :: "pystr list"
  pe_last_seen :: pyfloat
  pe_failure_count :: nat
  pe_network_ids :: "pystr list"
  pe_address_scores :: "(pystr, int) dict"

definition record_address_success :: "pystr \<Rightarrow> peer_entry \<Rightarrow> peer_entry" where
  "record_address_success a e =
     e\<lparr>pe_address_scores := dict_set (pe_address_scores e) a (dict_get (pe_address_scores e) a 0 + 1)\<rparr>"

definition record_address_failure :: "pystr \<Rightarrow> peer_entry \<Rightarrow> peer_entry" where
  "record_address_failure a e =
     e\<lparr>pe_address_scores := dict_set (pe_address_scores e) a (max (dict_get (pe_address_scores e) a 0 - 1) (- 3))\<rparr>"

text \<open>\<open>sorted(..., reverse=True)\<close> keeps the order of equal keys.\<close>

definition sorted_addresses :: "peer_entry \<Rightarrow> pystr list" where
  "sorted_addresses e = sort_key (\<lambda>a. - dict_get (pe_address_scores e) a 0) (pe_addresses e)"

definition is_live :: "peer_entry \<Rightarrow> bool" where
  "is_live e = (case pe_connection e of
     None \<Rightarrow> False
   | Some c \<Rightarrow> (case cn_protocol c of None \<Rightarrow> False | Some shut \<Rightarrow> \<not> shut))"

section \<open>PeerRegistry\<close>

record registry =
  rg_peers :: "(pystr, peer_entry) dict"
  rg_index :: "(pystr, pystr list) dict"

definition new_entry :: "pystr \<Rightarrow> pyfloat \<Rightarrow> peer_entry" where
  "new_entry pid now = \<lparr>pe_peer_id = pid, pe_connection = None,
     pe_capabilities = \<lparr>cap_models = [], cap_est_tok_s = 0\<rparr>, pe_state = DISCOVERED, pe_addresses = [],
     pe_last_seen = now, pe_failure_count = 0, pe_network_ids = [], pe_address_scores = []\<rparr>"

definition remove_from_model_index :: "pystr \<Rightarrow> (pystr, pystr list) dict \<Rightarrow> (pystr, pystr list) dict" where
  "remove_from_model_index pid idx = map (\<lambda>(m, ps). (m, filter (\<lambda>p. p \<noteq> pid) ps)) idx"

definition add_to_model_index :: "pystr \<Rightarrow> model_cap \<Rightarrow> (pystr, pystr list) dict \<Rightarrow> (pystr, pystr list) dict" where
  "add_to_model_index pid m idx =
     (let ps = dict_get idx (mc_name m) []
      in dict_set idx (mc_name m) (if pid \<in> set ps then ps else ps @ [pid]))"

definition register :: "pystr \<Rightarrow> conn option \<Rightarrow> capabilities option \<Rightarrow> pystr list \<Rightarrow> pystr list option \<Rightarrow> pyfloat
    \<Rightarrow> registry \<Rightarrow> registry" where
  "register pid connection caps addresses network_ids now r =
     (let e0 = dict_get (rg_peers r) pid (new_entry pid now);
          e1 = (case connection of None \<Rightarrow> e0 | Some c \<Rightarrow> e0\<lparr>pe_connection := Some c, pe_state := cn_state c\<rparr>);
          e2 = (case caps of None \<Rightarrow> e1 | Some c \<Rightarrow> e1\<lparr>pe_capabilities := c\<rparr>);
          idx = (case caps of None \<Rightarrow> rg_index r | Some c \<Rightarrow>
                   fold (add_to_model_index pid) (cap_models c) (remove_from_model_index pid (rg_index r)));
          e3 = (if addresses = [] then e2 else e2\<lparr>pe_addresses := addresses\<rparr>);
          e4 = (case network_ids of None \<Rightarrow> e3 | Some ns \<Rightarrow> e3\<lparr>pe_network_ids := ns\<rparr>)
      in \<lparr>rg_peers = dict_set (rg_peers r) pid (e4\<lparr>pe_last_seen := now\<rparr>), rg_index = idx\<rparr>)"

definition unregister :: "pystr \<Rightarrow> registry \<Rightarrow> registry" where
  "unregister pid r = \<lparr>rg_peers = dict_pop (rg_peers r) pid, rg_index = remove_from_model_index pid (rg_index r)\<rparr>"

definition get_peer :: "pystr \<Rightarrow> registry \<Rightarrow> peer_entry option" where
  "get_peer pid r = map_of (rg_peers r) pid"

text \<open>An in-place change of a registered entry.\<close>

definition touch_peer :: "pystr \<Rightarrow> (peer_entry \<Rightarrow> peer_entry) \<Rightarrow> registry \<Rightarrow> registry" where
  "touch_peer pid f r = (case get_peer pid r of
     None \<Rightarrow> r | Some e \<Rightarrow> r\<lparr>rg_peers := dict_set (rg_peers r) pid (f e)\<rparr>)"

definition shares :: "pystr list \<Rightarrow> pystr list \<Rightarrow> bool" where
  "shares ns ms = list_ex (\<lambda>n. n \<in> set ms) ns"

definition model_visible :: "peer_entry \<Rightarrow> pystr \<Rightarrow> pystr list \<Rightarrow> bool" where
  "model_visible e model want =
     (case find (\<lambda>m. mc_name m = model) (cap_models (pe_capabilities e)) of
        None \<Rightarrow> True
      | Some m \<Rightarrow>
          if mc_scope m = ''public'' then True
          else if mc_scope m = ''networks'' then shares want (mc_visible_networks m)
          else pe_network_ids e = [] \<or> shares want (pe_network_ids e))"

text \<open>The body of the loop: whether an entry passes. \<open>want\<close> is empty where the requester's networks are unknown.\<close>

definition passes :: "peer_entry \<Rightarrow> pystr \<Rightarrow> pystr list \<Rightarrow> bool" where
  "passes e model want =
     (if pe_state e \<notin> {AUTHENTICATED, ROUTABLE, SERVING} \<or> \<not> is_live e then False
      else if want \<noteq> [] \<and> pe_network_ids e \<noteq> [] \<and> \<not> shares want (pe_network_ids e) then False
      else if want \<noteq> [] \<and> \<not> model_visible e model want then False
      else True)"

definition peers_for_model :: "pystr \<Rightarrow> pystr list \<Rightarrow> registry \<Rightarrow> peer_entry list" where
  "peers_for_model model want r =
     List.map_filter (\<lambda>pid. case get_peer pid r of
        None \<Rightarrow> None | Some e \<Rightarrow> if passes e model want then Some e else None) (dict_get (rg_index r) model [])"

definition all_peers :: "registry \<Rightarrow> peer_entry list" where
  "all_peers r = map snd (rg_peers r)"

definition connected_peers :: "registry \<Rightarrow> peer_entry list" where
  "connected_peers r = filter (\<lambda>e. pe_state e \<in> {AUTHENTICATED, ROUTABLE, SERVING} \<and> is_live e) (all_peers r)"

definition serving_state :: "peer_entry \<Rightarrow> bool" where
  "serving_state e = (pe_state e \<in> {ROUTABLE, SERVING})"

definition peers_for_tag :: "pystr \<Rightarrow> registry \<Rightarrow> peer_entry list" where
  "peers_for_tag tag r = filter (\<lambda>e. serving_state e
     \<and> list_ex (\<lambda>m. py_lower tag \<in> set (map py_lower (mc_tags m))) (cap_models (pe_capabilities e))) (all_peers r)"

definition peers_for_tier :: "pystr \<Rightarrow> registry \<Rightarrow> peer_entry list" where
  "peers_for_tier tier r = filter (\<lambda>e. serving_state e
     \<and> list_ex (\<lambda>m. mc_tier m = py_lower tier) (cap_models (pe_capabilities e))) (all_peers r)"

definition all_models :: "registry \<Rightarrow> (pystr \<times> pystr) list" where
  "all_models r = concat (map (\<lambda>e. if serving_state e
     then map (\<lambda>m. (mc_name m, pe_peer_id e)) (cap_models (pe_capabilities e)) else []) (all_peers r))"

definition peers_for_network :: "pystr \<Rightarrow> registry \<Rightarrow> peer_entry list" where
  "peers_for_network n r = filter (\<lambda>e. n \<in> set (pe_network_ids e) \<and> serving_state e) (all_peers r)"

definition models_visible_to_network :: "pystr \<Rightarrow> registry \<Rightarrow> (pystr \<times> pystr) list" where
  "models_visible_to_network n r = concat (map (\<lambda>e. if serving_state e then
     List.map_filter (\<lambda>m.
        if mc_scope m = ''public'' \<or> mc_scope m = ''networks'' \<and> n \<in> set (mc_visible_networks m)
           \<or> mc_scope m = ''home'' \<and> n \<in> set (pe_network_ids e)
        then Some (mc_name m, pe_peer_id e) else None) (cap_models (pe_capabilities e)) else []) (all_peers r))"

section \<open>The index\<close>

definition index_of :: "(pystr, pystr list) dict \<Rightarrow> pystr \<Rightarrow> pystr set" where
  "index_of idx m = set (dict_get idx m [])"

definition offers :: "peer_entry \<Rightarrow> pystr set" where
  "offers e = mc_name ` set (cap_models (pe_capabilities e))"

definition registry_inv :: "registry \<Rightarrow> bool" where
  "registry_inv r \<longleftrightarrow> dict_ok (rg_peers r) \<and> (\<forall>m. distinct (dict_get (rg_index r) m []))
     \<and> (\<forall>pid e. get_peer pid r = Some e \<longrightarrow> pe_peer_id e = pid)
     \<and> (\<forall>m pid. pid \<in> index_of (rg_index r) m \<longleftrightarrow> (\<exists>e. get_peer pid r = Some e \<and> m \<in> offers e))"

inductive registry_step :: "registry \<Rightarrow> registry \<Rightarrow> bool" where
  rs_register: "registry_step r (register pid c caps addrs nets now r)"
| rs_unregister: "registry_step r (unregister pid r)"
| rs_touch: "(\<And>e. pe_peer_id (f e) = pe_peer_id e \<and> pe_capabilities (f e) = pe_capabilities e) \<Longrightarrow>
     registry_step r (touch_peer pid f r)"

lemma map_of_map_snd: "map_of (map (\<lambda>(k, v). (k, f v)) d) k = map_option f (map_of d k)"
  by (induction d) auto

lemma get_removed: "dict_get (remove_from_model_index pid idx) m [] = filter (\<lambda>p. p \<noteq> pid) (dict_get idx m [])"
  unfolding remove_from_model_index_def dict_get_def map_of_map_snd by (simp split: option.split)

lemma get_added:
  "dict_get (add_to_model_index pid mc idx) m [] =
     (if m = mc_name mc \<and> pid \<notin> set (dict_get idx m []) then dict_get idx m [] @ [pid] else dict_get idx m [])"
  by (auto simp: add_to_model_index_def Let_def dict_get_def split: option.splits)

lemma index_removed: "index_of (remove_from_model_index pid idx) m = index_of idx m - {pid}"
  by (auto simp: index_of_def get_removed)

lemma index_added: "index_of (add_to_model_index pid mc idx) m
    = index_of idx m \<union> (if m = mc_name mc then {pid} else {})"
  by (auto simp: index_of_def get_added)

lemma index_added_all:
  "index_of (fold (add_to_model_index pid) ms idx) m
     = index_of idx m \<union> (if m \<in> mc_name ` set ms then {pid} else {})"
  by (induction ms arbitrary: idx) (auto simp: index_added)

lemma distinct_added_all:
  "distinct (dict_get idx m []) \<Longrightarrow> distinct (dict_get (fold (add_to_model_index pid) ms idx) m [])"
proof (induction ms arbitrary: idx)
  case (Cons a ms)
  have "distinct (dict_get (add_to_model_index pid a idx) m [])" using Cons.prems by (auto simp: get_added)
  then show ?case using Cons.IH by simp
qed simp

lemma registry_inv_empty: "registry_inv \<lparr>rg_peers = [], rg_index = []\<rparr>"
  by (simp add: registry_inv_def get_peer_def index_of_def dict_get_def)

lemma get_register:
  "get_peer p (register pid c caps addrs nets now r) =
     (if p = pid then Some (the (get_peer pid (register pid c caps addrs nets now r))) else get_peer p r)"
  by (simp add: get_peer_def register_def Let_def)

lemma register_self:
  obtains e where "get_peer pid (register pid c caps addrs nets now r) = Some e"
    "pe_peer_id e = pe_peer_id (dict_get (rg_peers r) pid (new_entry pid now))"
    "pe_capabilities e = (case caps of None \<Rightarrow> pe_capabilities (dict_get (rg_peers r) pid (new_entry pid now)) | Some x \<Rightarrow> x)"
  by (auto simp: get_peer_def register_def Let_def split: option.splits)

lemma registry_step_inv:
  assumes "registry_step r r'" "registry_inv r"
  shows "registry_inv r'"
proof -
  note inv = assms(2) [unfolded registry_inv_def]
  from assms(1) show ?thesis
  proof cases
    case (rs_register pid c caps addrs nets now)
    obtain e where e: "get_peer pid r' = Some e"
      "pe_peer_id e = pe_peer_id (dict_get (rg_peers r) pid (new_entry pid now))"
      "pe_capabilities e = (case caps of None \<Rightarrow> pe_capabilities (dict_get (rg_peers r) pid (new_entry pid now)) | Some x \<Rightarrow> x)"
      using register_self [of pid c caps addrs nets now r] unfolding rs_register by blast
    have other: "get_peer p r' = get_peer p r" if "p \<noteq> pid" for p
      using that unfolding rs_register by (simp add: get_peer_def register_def Let_def)
    have old: "pe_peer_id (dict_get (rg_peers r) pid (new_entry pid now)) = pid"
      using inv by (auto simp: dict_get_def get_peer_def new_entry_def split: option.splits)
    have idx: "index_of (rg_index r') m = (case caps of None \<Rightarrow> index_of (rg_index r) m
        | Some x \<Rightarrow> (index_of (rg_index r) m - {pid}) \<union> (if m \<in> mc_name ` set (cap_models x) then {pid} else {}))" for m
      unfolding rs_register register_def Let_def
      by (simp add: index_added_all index_removed split: option.split)
    have dist: "distinct (dict_get (rg_index r') m [])" for m
      using inv unfolding rs_register register_def Let_def
      by (simp add: distinct_added_all get_removed split: option.split)
    have dk: "dict_ok (rg_peers r')" using inv unfolding rs_register register_def Let_def by simp
    have "p \<in> index_of (rg_index r') m \<longleftrightarrow> (\<exists>e. get_peer p r' = Some e \<and> m \<in> offers e)" for m p
    proof (cases "p = pid")
      case False
      then show ?thesis using inv other [of p] by (auto simp: idx split: option.splits)
    next
      case True
      have "pid \<in> index_of (rg_index r) m \<longleftrightarrow> m \<in> offers (dict_get (rg_peers r) pid (new_entry pid now))"
        using inv by (auto simp: dict_get_def get_peer_def new_entry_def offers_def split: option.splits)
      then show ?thesis using True e by (auto simp: idx offers_def split: option.splits)
    qed
    moreover have "pe_peer_id e' = p" if "get_peer p r' = Some e'" for p e'
      using that e(1,2) old other [of p] inv by (cases "p = pid") auto
    ultimately show ?thesis using dk dist unfolding registry_inv_def by blast
  next
    case (rs_unregister pid)
    have g: "get_peer p r' = (if p = pid then None else get_peer p r)" for p
      unfolding rs_unregister by (simp add: get_peer_def unregister_def)
    have i: "dict_get (rg_index r') m [] = filter (\<lambda>p. p \<noteq> pid) (dict_get (rg_index r) m [])" for m
      unfolding rs_unregister unregister_def by (simp add: get_removed)
    show ?thesis using inv unfolding registry_inv_def index_of_def g i
      by (auto simp: rs_unregister unregister_def)
  next
    case (rs_touch f pid)
    have g: "get_peer p r' = (if p = pid then map_option f (get_peer p r) else get_peer p r)" for p
      unfolding rs_touch(1) by (simp add: touch_peer_def get_peer_def split: option.splits)
    have i: "rg_index r' = rg_index r" "dict_ok (rg_peers r')"
      using inv unfolding rs_touch(1) touch_peer_def by (simp_all split: option.splits)
    show ?thesis using inv i rs_touch(2) unfolding registry_inv_def g
      by (auto simp: offers_def split: if_splits)
  qed
qed

lemma registry_steps_inv: "registry_step\<^sup>*\<^sup>* r r' \<Longrightarrow> registry_inv r \<Longrightarrow> registry_inv r'"
  by (induction rule: rtranclp_induct) (auto intro: registry_step_inv)

text \<open>Who may serve a model to a requester on the networks \<open>want\<close>.\<close>

definition may_serve :: "peer_entry \<Rightarrow> pystr \<Rightarrow> pystr list \<Rightarrow> bool" where
  "may_serve e model want \<longleftrightarrow> pe_state e \<in> {AUTHENTICATED, ROUTABLE, SERVING} \<and> is_live e \<and> model \<in> offers e
     \<and> (want = [] \<or> (pe_network_ids e = [] \<or> set want \<inter> set (pe_network_ids e) \<noteq> {}) \<and> model_visible e model want)"

lemma shares_iff: "shares ns ms \<longleftrightarrow> set ns \<inter> set ms \<noteq> {}"
  by (auto simp: shares_def list_ex_iff)

lemma set_map_filter: "set (List.map_filter f xs) = {y. \<exists>x \<in> set xs. f x = Some y}"
  by (induction xs) (auto simp: List.map_filter_simps split: option.splits)

lemma dict_values: "dict_ok d \<Longrightarrow> v \<in> set (map snd d) \<longleftrightarrow> (\<exists>k. map_of d k = Some v)"
  unfolding dict_ok_def by (force simp: map_of_eq_Some_iff)

lemma peers_for_model_iff:
  assumes "registry_inv r"
  shows "e \<in> set (peers_for_model model want r) \<longleftrightarrow> e \<in> set (all_peers r) \<and> may_serve e model want"
proof -
  have mem: "e \<in> set (all_peers r) \<longleftrightarrow> (\<exists>pid. get_peer pid r = Some e)"
    unfolding all_peers_def get_peer_def by (rule dict_values) (use assms in \<open>simp add: registry_inv_def\<close>)
  have idx: "pid \<in> set (dict_get (rg_index r) model []) \<longleftrightarrow> (\<exists>e. get_peer pid r = Some e \<and> model \<in> offers e)" for pid
    using assms by (simp add: registry_inv_def index_of_def)
  have serve: "may_serve e model want \<longleftrightarrow> passes e model want \<and> model \<in> offers e"
    by (auto simp: may_serve_def passes_def shares_iff)
  have "e \<in> set (peers_for_model model want r)
      \<longleftrightarrow> (\<exists>pid. pid \<in> set (dict_get (rg_index r) model []) \<and> get_peer pid r = Some e \<and> passes e model want)"
  proof -
    have "(case g of None \<Rightarrow> None | Some e \<Rightarrow> if passes e model want then Some e else None) = Some e
        \<longleftrightarrow> g = Some e \<and> passes e model want" for g
      by (cases g) auto
    then show ?thesis unfolding peers_for_model_def set_map_filter by auto
  qed
  then show ?thesis unfolding mem serve idx by (metis option.inject)
qed

lemma distinct_peers_for_model:
  assumes "registry_inv r"
  shows "distinct (map pe_peer_id (peers_for_model model want r))"
proof -
  have *: "distinct (map pe_peer_id (List.map_filter f ps))"
    if "distinct ps" "\<And>p e. f p = Some e \<Longrightarrow> pe_peer_id e = p" for f ps
    using that by (induction ps) (auto simp: List.map_filter_simps set_map_filter split: option.splits)
  show ?thesis unfolding peers_for_model_def
  proof (rule *)
    show "distinct (dict_get (rg_index r) model [])" using assms by (simp add: registry_inv_def)
  qed (use assms in \<open>auto simp: registry_inv_def split: option.splits if_splits\<close>)
qed

text \<open>
  C9: routing sees exactly the peers that may serve. After any registrations, removals and changes of
  peers, the peers returned for a model and a requester's networks are, each once, the registered ones
  that finished the handshake, hold an open connection, advertise the model now, share a network with
  the requester and offer that model to it.
\<close>

theorem model_lookup_exact:
  assumes "registry_step\<^sup>*\<^sup>* \<lparr>rg_peers = [], rg_index = []\<rparr> r"
  shows "set (peers_for_model model want r) = {e \<in> set (all_peers r). may_serve e model want}
    \<and> distinct (map pe_peer_id (peers_for_model model want r))"
proof -
  have "registry_inv r" using registry_steps_inv [OF assms registry_inv_empty] .
  then show ?thesis using peers_for_model_iff distinct_peers_for_model by blast
qed

definition demo_conn :: conn where
  "demo_conn = \<lparr>cn_state = AUTHENTICATED, cn_protocol = Some False, cn_active_requests = 0, cn_rtt_history = []\<rparr>"

definition demo_caps :: "pystr \<Rightarrow> capabilities" where
  "demo_caps scope = \<lparr>cap_models = [\<lparr>mc_name = ''qwen'', mc_backend = ''mlx'', mc_tags = [], mc_tier = [],
     mc_param_count_b = 8, mc_scope = scope, mc_visible_networks = [''net-a'']\<rparr>], cap_est_tok_s = 30\<rparr>"

definition demo_registry :: registry where
  "demo_registry = register ''p2'' (Some demo_conn) (Some (demo_caps ''networks'')) [] (Some [''net-a'', ''net-b'']) 2
     (register ''p1'' (Some demo_conn) (Some (demo_caps ''home'')) [] (Some [''net-b'']) 1
       \<lparr>rg_peers = [], rg_index = []\<rparr>)"

lemma demo_reachable: "registry_step\<^sup>*\<^sup>* \<lparr>rg_peers = [], rg_index = []\<rparr> demo_registry"
  unfolding demo_registry_def
  by (rule rtranclp.rtrancl_into_rtrancl, rule r_into_rtranclp, rule rs_register, rule rs_register)

theorem model_lookup_exact_witness:
  "{e \<in> set (all_peers demo_registry). may_serve e ''qwen'' [''net-b'']}
     = set (peers_for_model ''qwen'' [''net-b''] demo_registry)
   \<and> map pe_peer_id (peers_for_model ''qwen'' [''net-b''] demo_registry) = [''p1'']"
proof -
  have "map pe_peer_id (peers_for_model ''qwen'' [''net-b''] demo_registry) = [''p1'']" by code_simp
  then show ?thesis using model_lookup_exact [OF demo_reachable] by blast
qed

text \<open>
  The two readings of a model's scope differ: a peer without declared networks offers its home models to
  every requester here, and to none in \<open>models_visible_to_network\<close>.
\<close>

lemma scope_rules_drift:
  "let r = touch_peer ''p1'' (\<lambda>e. e\<lparr>pe_state := ROUTABLE\<rparr>)
         (register ''p1'' (Some demo_conn) (Some (demo_caps ''home'')) [] None 1 \<lparr>rg_peers = [], rg_index = []\<rparr>)
   in map pe_peer_id (peers_for_model ''qwen'' [''net-a''] r) = [''p1''] \<and> models_visible_to_network ''net-a'' r = []"
  by code_simp

end
