(* ===== verification/Routing.thy ===== *)
theory Routing
  imports Peer_Registry
begin

text \<open>
  Choosing a peer and getting an answer from it: \<open>src/mycellm/router/health.py\<close>, \<open>chain.py\<close> and
  \<open>router.py\<close>, \<open>ping\<close> of \<open>transport/connection.py\<close> and the error codes of \<open>protocol/errors.py\<close>. What a
  peer answers is a parameter; so is the random primary of \<open>route_weighted\<close>.
\<close>

section \<open>Health\<close>

record health_metrics =
  hm_rtt_samples :: "pyfloat list"
  hm_success_history :: "bool list"
  hm_last_check :: pyfloat
  hm_consecutive_failures :: nat

definition new_metrics :: health_metrics where
  "new_metrics = \<lparr>hm_rtt_samples = [], hm_success_history = [], hm_last_check = 0, hm_consecutive_failures = 0\<rparr>"

definition MAX_SUCCESS_SAMPLES :: nat where "MAX_SUCCESS_SAMPLES = 20"

definition capped :: "nat \<Rightarrow> 'a list \<Rightarrow> 'a list" where
  "capped n xs = (if length xs > n then last_n n xs else xs)"

definition avg_rtt :: "health_metrics \<Rightarrow> pyfloat" where
  "avg_rtt m = (if hm_rtt_samples m = [] then 0
     else sum_list (hm_rtt_samples m) / of_nat (length (hm_rtt_samples m)))"

definition success_rate :: "health_metrics \<Rightarrow> pyfloat" where
  "success_rate m = (if hm_success_history m = [] then 1
     else of_nat (length (filter (\<lambda>s. s) (hm_success_history m))) / of_nat (length (hm_success_history m)))"

definition health_score :: "health_metrics \<Rightarrow> pyfloat" where
  "health_score m =
     (let rtt_factor = (if avg_rtt m > 0 then max (3 / 10) (min 1 ((2 / 10) / max (avg_rtt m) (1 / 100))) else 1)
      in success_rate m * (7 / 10) + rtt_factor * (3 / 10))"

definition record_success :: "pyfloat \<Rightarrow> pyfloat \<Rightarrow> health_metrics \<Rightarrow> health_metrics" where
  "record_success now rtt m = m\<lparr>hm_rtt_samples := capped RTT_MAX_SAMPLES (hm_rtt_samples m @ [rtt]),
     hm_success_history := capped MAX_SUCCESS_SAMPLES (hm_success_history m @ [True]), hm_last_check := now\<rparr>"

definition record_failure :: "pyfloat \<Rightarrow> health_metrics \<Rightarrow> health_metrics" where
  "record_failure now m =
     m\<lparr>hm_success_history := capped MAX_SUCCESS_SAMPLES (hm_success_history m @ [False]), hm_last_check := now\<rparr>"

definition FAILURE_THRESHOLD :: nat where "FAILURE_THRESHOLD = 3"

text \<open>
  \<open>PeerConnection.ping\<close>: an overloaded connection raises before sending; otherwise the pong arrives, the
  wait times out (the connection is marked and -1 returned) or sending raises.
\<close>

datatype ping_wire = Pong pyfloat | Ping_timeout | Ping_error

datatype ping_result = Rtt pyfloat | Ping_raised

definition ping :: "ping_wire \<Rightarrow> conn \<Rightarrow> ping_result \<times> conn" where
  "ping w c =
     (if is_overloaded c then (Ping_raised, c)
      else case w of
        Pong rtt \<Rightarrow> (Rtt rtt, record_rtt rtt c)
      | Ping_timeout \<Rightarrow> (Rtt (- 1), c\<lparr>cn_state := DISCONNECTED\<rparr>)
      | Ping_error \<Rightarrow> (Ping_raised, c))"

definition missed :: "ping_result \<Rightarrow> bool" where
  "missed r = (case r of Rtt rtt \<Rightarrow> rtt < 0 | Ping_raised \<Rightarrow> True)"

definition check_entry :: "pyfloat \<Rightarrow> ping_result \<Rightarrow> health_metrics \<times> peer_entry \<Rightarrow> health_metrics \<times> peer_entry" where
  "check_entry now r me =
     (let (m, e) = me in
      if missed r then
        (let m1 = record_failure now m;
             m2 = m1\<lparr>hm_consecutive_failures := hm_consecutive_failures m1 + 1\<rparr>;
             e1 = e\<lparr>pe_failure_count := pe_failure_count e + 1\<rparr>
         in (m2, if hm_consecutive_failures m2 \<ge> FAILURE_THRESHOLD then e1\<lparr>pe_state := DISCONNECTED\<rparr> else e1))
      else
        (case r of Rtt rtt \<Rightarrow> ((record_success now rtt m)\<lparr>hm_consecutive_failures := 0\<rparr>,
             e\<lparr>pe_state := ROUTABLE, pe_failure_count := 0\<rparr>)
         | Ping_raised \<Rightarrow> (m, e)))"

record checker =
  hc_metrics :: "(pystr, health_metrics) dict"
  hc_registry :: registry

definition get_metrics :: "pystr \<Rightarrow> checker \<Rightarrow> health_metrics" where
  "get_metrics pid h = dict_get (hc_metrics h) pid new_metrics"

definition get_health_score :: "pystr \<Rightarrow> checker \<Rightarrow> pyfloat" where
  "get_health_score pid h = (case map_of (hc_metrics h) pid of Some m \<Rightarrow> health_score m | None \<Rightarrow> 1 / 2)"

definition check_peer :: "(pystr \<Rightarrow> ping_wire) \<Rightarrow> pyfloat \<Rightarrow> pystr \<Rightarrow> checker \<Rightarrow> checker" where
  "check_peer wire now pid h =
     (case get_peer pid (hc_registry h) of
        None \<Rightarrow> h
      | Some e \<Rightarrow> (case pe_connection e of
          None \<Rightarrow> h
        | Some c \<Rightarrow>
            let (r, c') = ping (wire pid) c;
                (m', e') = check_entry now r (get_metrics pid h, e\<lparr>pe_connection := Some c'\<rparr>)
            in \<lparr>hc_metrics = dict_set (hc_metrics h) pid m',
                hc_registry = touch_peer pid (\<lambda>_. e') (hc_registry h)\<rparr>))"

definition check_all :: "(pystr \<Rightarrow> ping_wire) \<Rightarrow> pyfloat \<Rightarrow> checker \<Rightarrow> checker" where
  "check_all wire now h =
     (let connected = connected_peers (hc_registry h);
          disconnected = filter (\<lambda>e. pe_state e = DISCONNECTED \<and> pe_connection e \<noteq> None) (all_peers (hc_registry h))
      in fold (\<lambda>e. check_peer wire now (pe_peer_id e)) (connected @ disconnected) h)"

section \<open>Chains\<close>

record peer_target =
  pt_peer_id :: pystr
  pt_entry :: peer_entry
  pt_score :: pyfloat

definition score_peer :: "checker option \<Rightarrow> peer_entry \<Rightarrow> pyfloat" where
  "score_peer hc e =
     (let s0 = max (cap_est_tok_s (pe_capabilities e)) 1;
          s1 = (if pe_failure_count e > 0 then s0 * (1 / 2) ^ pe_failure_count e else s0);
          s2 = (case pe_connection e of None \<Rightarrow> s1
                | Some c \<Rightarrow> if conn_avg_rtt c > 0 then s1 * max (1 / 10) (1 - (conn_avg_rtt c - 1 / 10)) else s1)
      in case hc of None \<Rightarrow> s2 | Some h \<Rightarrow> s2 * (1 / 2 + get_health_score (pe_peer_id e) h))"

definition connection_overloaded :: "peer_entry \<Rightarrow> bool" where
  "connection_overloaded e = (case pe_connection e of None \<Rightarrow> False | Some c \<Rightarrow> is_overloaded c)"

definition mk_target :: "checker option \<Rightarrow> peer_entry \<Rightarrow> peer_target" where
  "mk_target hc e = \<lparr>pt_peer_id = pe_peer_id e, pt_entry = e, pt_score = score_peer hc e\<rparr>"

definition route :: "checker option \<Rightarrow> pystr \<Rightarrow> pystr list \<Rightarrow> registry \<Rightarrow> peer_target list" where
  "route hc model want r =
     sort_key (\<lambda>t. - pt_score t)
       (map (mk_target hc) (filter (\<lambda>e. \<not> connection_overloaded e) (peers_for_model model want r)))"

definition route_weighted :: "checker option \<Rightarrow> (pyfloat list \<Rightarrow> nat) \<Rightarrow> pystr \<Rightarrow> registry \<Rightarrow> peer_target list" where
  "route_weighted hc pick model r =
     (let scored = route hc model [] r in
      if length scored \<le> 1 then scored
      else let total_score = sum_list (map pt_score scored) in
        if total_score \<le> 0 then scored
        else let i = pick (map (\<lambda>t. pt_score t / total_score) scored)
             in (scored ! i) # take i scored @ drop (i + 1) scored)"

definition route_multihop :: "checker option \<Rightarrow> nat \<Rightarrow> pystr \<Rightarrow> registry \<Rightarrow> peer_target list" where
  "route_multihop hc max_hops model r =
     (let direct = route hc model [] r in
      if direct \<noteq> [] then direct
      else take max_hops (sort_key (\<lambda>t. - pt_score t)
        (map (\<lambda>e. (mk_target hc e)\<lparr>pt_score := score_peer hc e * (1 / 2)\<rparr>)
          (filter (\<lambda>e. pe_connection e \<noteq> None \<and> \<not> connection_overloaded e) (connected_peers r)))))"

section \<open>The router\<close>

datatype error_code = AUTH_FAILED | CERT_EXPIRED | CERT_REVOKED | PEER_UNREACHABLE | MODEL_UNAVAILABLE
  | OVERLOADED | TIMEOUT | BACKEND_ERROR | INSUFFICIENT_CREDIT | PROTOCOL_VERSION_MISMATCH
  | INVALID_MESSAGE | FLEET_KEY_DENIED | UNKNOWN

definition error_codes :: "(pystr \<times> error_code) list" where
  "error_codes = [(''auth_failed'', AUTH_FAILED), (''cert_expired'', CERT_EXPIRED), (''cert_revoked'', CERT_REVOKED),
     (''peer_unreachable'', PEER_UNREACHABLE), (''model_unavailable'', MODEL_UNAVAILABLE), (''overloaded'', OVERLOADED),
     (''timeout'', TIMEOUT), (''backend_error'', BACKEND_ERROR), (''insufficient_credit'', INSUFFICIENT_CREDIT),
     (''protocol_version_mismatch'', PROTOCOL_VERSION_MISMATCH), (''invalid_message'', INVALID_MESSAGE),
     (''fleet_key_denied'', FLEET_KEY_DENIED), (''unknown'', UNKNOWN)]"

text \<open>
  How \<open>connection.request\<close> ends: a response, an error message with its \<open>error_code\<close> string, a timeout
  or another exception. An error code that is not one of \<open>ErrorCode\<close> raises while the error is being
  recorded, after the failure was counted: the handler counts it a second time.
\<close>

datatype 'a reply = Reply 'a | Reply_error pystr | Reply_timeout | Reply_raised

definition MAX_RETRY_ATTEMPTS :: nat where "MAX_RETRY_ATTEMPTS = 3"

definition reply_penalty :: "'a reply \<Rightarrow> nat" where
  "reply_penalty r = (case r of
     Reply _ \<Rightarrow> 0
   | Reply_error code \<Rightarrow> if code = ''overloaded'' then 0
       else if code = [] \<or> map_of error_codes code \<noteq> None then 1 else 2
   | Reply_timeout \<Rightarrow> 1 | Reply_raised \<Rightarrow> 1)"

definition reply_error :: "'a reply \<Rightarrow> error_code option \<Rightarrow> error_code option" where
  "reply_error r prev = (case r of
     Reply _ \<Rightarrow> prev
   | Reply_error code \<Rightarrow> if code = ''overloaded'' then prev
       else if code = [] then Some UNKNOWN
       else (case map_of error_codes code of Some c \<Rightarrow> Some c | None \<Rightarrow> Some BACKEND_ERROR)
   | Reply_timeout \<Rightarrow> Some TIMEOUT | Reply_raised \<Rightarrow> Some BACKEND_ERROR)"

fun try_targets :: "(pystr \<Rightarrow> 'a reply) \<Rightarrow> peer_target list \<Rightarrow> nat \<Rightarrow> error_code option \<Rightarrow> registry
    \<Rightarrow> (error_code + 'a) \<times> registry" where
  "try_targets answer [] attempts prev r = (Inl (case prev of Some e \<Rightarrow> e | None \<Rightarrow> PEER_UNREACHABLE), r)"
| "try_targets answer (t # ts) attempts prev r =
     (if attempts \<ge> MAX_RETRY_ATTEMPTS then (Inl (case prev of Some e \<Rightarrow> e | None \<Rightarrow> PEER_UNREACHABLE), r)
      else if pe_connection (pt_entry t) = None then try_targets answer ts attempts prev r
      else case answer (pt_peer_id t) of
        Reply x \<Rightarrow> (Inr x, touch_peer (pt_peer_id t) (\<lambda>e. e\<lparr>pe_failure_count := pe_failure_count e - 1\<rparr>) r)
      | rep \<Rightarrow> try_targets answer ts (attempts + 1) (reply_error rep prev)
          (touch_peer (pt_peer_id t) (\<lambda>e. e\<lparr>pe_failure_count := pe_failure_count e + reply_penalty rep\<rparr>) r))"

definition route_inference :: "(pystr \<Rightarrow> 'a reply) \<Rightarrow> pystr \<Rightarrow> registry \<Rightarrow> (error_code + 'a) \<times> registry" where
  "route_inference answer model r =
     (let targets = route None model [] r in
      if targets = [] then (Inl MODEL_UNAVAILABLE, r) else try_targets answer targets 0 None r)"


section \<open>Health over time\<close>

lemma success_rate_range: "0 \<le> success_rate m" "success_rate m \<le> 1"
proof -
  let ?h = "hm_success_history m"
  have "length (filter (\<lambda>s. s) ?h) \<le> length ?h" by (rule length_filter_le)
  then have "(of_nat (length (filter (\<lambda>s. s) ?h)) :: pyfloat) \<le> of_nat (length ?h)"
    by (simp only: of_nat_le_iff)
  then show "0 \<le> success_rate m" "success_rate m \<le> 1" by (auto simp: success_rate_def divide_le_eq_1)
qed

lemma health_score_range: "9 / 100 \<le> health_score m" "health_score m \<le> 1"
proof -
  define f where "f = (if avg_rtt m > 0 then max (3 / 10) (min 1 ((2 / 10) / max (avg_rtt m) (1 / 100))) else 1)"
  have f: "3 / 10 \<le> f" "f \<le> 1" unfolding f_def by (simp_all add: max_def min_def)
  have h: "health_score m = success_rate m * (7 / 10) + f * (3 / 10)"
    unfolding health_score_def f_def Let_def ..
  show "9 / 100 \<le> health_score m" "health_score m \<le> 1"
    unfolding h using f success_rate_range [of m] by linarith+
qed

definition misses :: "ping_result list \<Rightarrow> nat" where
  "misses rs = length (takeWhile missed (rev rs))"

lemma misses_snoc [simp]: "misses (rs @ [r]) = (if missed r then misses rs + 1 else 0)"
  by (simp add: misses_def)

lemma misses_Nil [simp]: "misses [] = 0"
  by (simp add: misses_def)

lemma misses_all: "list_all missed rs \<Longrightarrow> misses rs = length rs"
  by (induction rs rule: rev_induct) simp_all

definition checked :: "(pyfloat \<times> ping_result) list \<Rightarrow> peer_entry \<Rightarrow> health_metrics \<times> peer_entry" where
  "checked evs e = fold (\<lambda>(now, r). check_entry now r) evs (new_metrics, e)"

text \<open>
  Three strikes. After any sequence of checks of a new peer, the consecutive failures counted are the
  length of the unbroken run of misses at its end; the peer is disconnected exactly when that run
  reaches three, routable again after any pong, and otherwise as it was; the routing penalty counts
  the same run; the health score stays between 0.09 and 1.
\<close>

theorem health_three_strikes:
  "case checked evs e of (m', e') \<Rightarrow>
     hm_consecutive_failures m' = misses (map snd evs)
     \<and> pe_state e' = (if misses (map snd evs) \<ge> 3 then DISCONNECTED
                      else if list_all missed (map snd evs) then pe_state e else ROUTABLE)
     \<and> pe_failure_count e' = misses (map snd evs) + (if list_all missed (map snd evs) then pe_failure_count e else 0)
     \<and> pe_connection e' = pe_connection e
     \<and> 9 / 100 \<le> health_score m' \<and> health_score m' \<le> 1"
proof (induction evs rule: rev_induct)
  case Nil
  then show ?case using health_score_range [of new_metrics] by (simp add: checked_def new_metrics_def misses_def)
next
  case (snoc ev evs)
  obtain now r where ev: "ev = (now, r)" by (cases ev)
  obtain m1 e1 where c: "checked evs e = (m1, e1)" by fastforce
  have nx: "checked (evs @ [ev]) e = check_entry now r (m1, e1)" using c by (simp add: checked_def ev)
  show ?case
  proof (cases "missed r")
    case True
    then show ?thesis using snoc.IH health_score_range unfolding nx c
      by (auto simp: check_entry_def ev record_failure_def FAILURE_THRESHOLD_def)
  next
    case False
    then obtain rtt where "r = Rtt rtt" by (cases r) (simp_all add: missed_def)
    then show ?thesis using snoc.IH False health_score_range unfolding nx c
      by (auto simp: check_entry_def ev record_success_def)
  qed
qed

text \<open>A busy connection refuses the ping, and the refusal counts as a miss: load looks like absence.\<close>

lemma busy_peer_struck_out:
  "let busy = demo_conn\<lparr>cn_active_requests := 4\<rparr>;
       h0 = \<lparr>hc_metrics = [], hc_registry = touch_peer ''p1'' (\<lambda>e. e\<lparr>pe_connection := Some busy\<rparr>) demo_registry\<rparr>;
       h3 = (check_all (\<lambda>p. Pong (1 / 10)) 3 \<circ> check_all (\<lambda>p. Pong (1 / 10)) 2 \<circ> check_all (\<lambda>p. Pong (1 / 10)) 1) h0
   in map_option pe_state (get_peer ''p1'' (hc_registry h3)) = Some DISCONNECTED
      \<and> map_option pe_state (get_peer ''p2'' (hc_registry h3)) = Some ROUTABLE"
  by code_simp

section \<open>Ranking\<close>

lemma get_health_score_pos: "0 < get_health_score pid h"
proof -
  have "0 < health_score m" for m using health_score_range(1) [of m] by linarith
  then show ?thesis by (simp add: get_health_score_def split: option.split)
qed

lemma score_peer_pos: "0 < score_peer hc e"
proof -
  define s0 where "s0 = max (cap_est_tok_s (pe_capabilities e)) 1"
  have s0: "0 < s0" by (simp add: s0_def max_def)
  define s1 where "s1 = (if pe_failure_count e > 0 then s0 * (1 / 2) ^ pe_failure_count e else s0)"
  have s1: "0 < s1" using s0 by (simp add: s1_def)
  define s2 where "s2 = (case pe_connection e of None \<Rightarrow> s1
      | Some c \<Rightarrow> if conn_avg_rtt c > 0 then s1 * max (1 / 10) (1 - (conn_avg_rtt c - 1 / 10)) else s1)"
  have "0 < max (1 / 10) x" for x :: pyfloat by (simp add: less_max_iff_disj)
  then have s2: "0 < s2" using s1 by (simp add: s2_def split: option.split)
  have "score_peer hc e = (case hc of None \<Rightarrow> s2 | Some h \<Rightarrow> s2 * (1 / 2 + get_health_score (pe_peer_id e) h))"
    unfolding score_peer_def s0_def s1_def s2_def Let_def ..
  moreover have "0 < (1 / 2 :: pyfloat) + get_health_score pid h" for pid h
    using get_health_score_pos [of pid h] by linarith
  ultimately show ?thesis using s2 by (simp split: option.split)
qed

lemma set_route: "set (route hc model want r)
    = mk_target hc ` {e \<in> set (peers_for_model model want r). \<not> connection_overloaded e}"
  by (simp add: route_def)

lemma mset_move_front: "i < length xs \<Longrightarrow> mset ((xs ! i) # take i xs @ drop (i + 1) xs) = mset xs"
  by (metis Suc_eq_plus1 id_take_nth_drop mset.simps(2) mset_append union_mset_add_mset_right)

text \<open>
  Routing ranks and never drops. The route is the peers that may serve the model and are not
  overloaded, each once, best score first; every score is positive, so no usable peer is starved out;
  the weighted choice only moves one of them to the front.
\<close>

theorem route_ranks:
  assumes "\<forall>ws. ws \<noteq> [] \<longrightarrow> pick ws < length ws"
  shows "sorted (map (\<lambda>t. - pt_score t) (route hc model want r))
    \<and> mset (map pt_entry (route hc model want r))
        = filter_mset (\<lambda>e. \<not> connection_overloaded e) (mset (peers_for_model model want r))
    \<and> list_all (\<lambda>t. 0 < pt_score t \<and> pt_peer_id t = pe_peer_id (pt_entry t)) (route hc model want r)
    \<and> mset (route_weighted hc pick model r) = mset (route hc model [] r)"
proof (intro conjI)
  show "sorted (map (\<lambda>t. - pt_score t) (route hc model want r))"
    unfolding route_def by (rule sorted_sort_key)
  have "map pt_entry (map (mk_target hc) es) = es" for es
    by (induction es) (simp_all add: mk_target_def)
  then show "mset (map pt_entry (route hc model want r))
        = filter_mset (\<lambda>e. \<not> connection_overloaded e) (mset (peers_for_model model want r))"
    unfolding route_def by (simp add: mset_filter [symmetric] mset_map [symmetric] del: mset_map mset_filter)
      (simp add: image_mset.compositionality o_def mk_target_def)
  show "list_all (\<lambda>t. 0 < pt_score t \<and> pt_peer_id t = pe_peer_id (pt_entry t)) (route hc model want r)"
    by (auto simp: list_all_iff set_route mk_target_def score_peer_pos)
  let ?s = "route hc model [] r"
  show "mset (route_weighted hc pick model r) = mset ?s"
  proof (cases "length ?s \<le> 1 \<or> sum_list (map pt_score ?s) \<le> 0")
    case True
    then show ?thesis by (auto simp: route_weighted_def Let_def)
  next
    case False
    then have "pick (map (\<lambda>t. pt_score t / sum_list (map pt_score ?s)) ?s) < length ?s"
      using assms by (metis (no_types, lifting) length_map list.size(3) map_is_Nil_conv zero_le_one)
    then show ?thesis using False mset_move_front unfolding route_weighted_def Let_def by auto
  qed
qed

theorem route_ranks_witness:
  "mset (route_weighted None (\<lambda>ws. length ws - 1) ''qwen'' demo_registry) = mset (route None ''qwen'' [] demo_registry)
   \<and> length (route None ''qwen'' [] demo_registry) = 2"
proof -
  have "length (route None ''qwen'' [] demo_registry) = 2" by code_simp
  then show ?thesis using route_ranks [of "\<lambda>ws. length ws - 1" None "''qwen''" "[]" demo_registry] by auto
qed

section \<open>Failover\<close>

definition answered :: "'a reply \<Rightarrow> bool" where
  "answered rep = (case rep of Reply _ \<Rightarrow> True | _ \<Rightarrow> False)"

text \<open>The first three of the peers in order, up to the first that answers: those that fail, and the answer.\<close>

definition failing :: "(pystr \<Rightarrow> 'a reply) \<Rightarrow> pystr list \<Rightarrow> pystr list" where
  "failing answer ids = takeWhile (\<lambda>p. \<not> answered (answer p)) ids"

definition winner :: "(pystr \<Rightarrow> 'a reply) \<Rightarrow> pystr list \<Rightarrow> pystr option" where
  "winner answer ids = find (\<lambda>p. answered (answer p)) ids"

definition busy_reply :: "'a reply \<Rightarrow> bool" where
  "busy_reply rep = (case rep of Reply_error code \<Rightarrow> code = ''overloaded'' | _ \<Rightarrow> False)"

definition error_of :: "'a reply \<Rightarrow> error_code" where
  "error_of rep = (case reply_error rep None of Some c \<Rightarrow> c | None \<Rightarrow> PEER_UNREACHABLE)"

definition verdict :: "'a reply list \<Rightarrow> error_code" where
  "verdict reps = (case rev (filter (\<lambda>rep. \<not> busy_reply rep) reps) of [] \<Rightarrow> PEER_UNREACHABLE | rep # _ \<Rightarrow> error_of rep)"

definition outcome_of :: "(pystr \<Rightarrow> 'a reply) \<Rightarrow> pystr list \<Rightarrow> error_code + 'a reply" where
  "outcome_of answer ids = (case winner answer ids of
     Some p \<Rightarrow> Inr (answer p) | None \<Rightarrow> Inl (verdict (map answer ids)))"

definition failures_after :: "(pystr \<Rightarrow> 'a reply) \<Rightarrow> pystr list \<Rightarrow> pystr \<Rightarrow> nat \<Rightarrow> nat" where
  "failures_after answer ids p n =
     (if p \<in> set (failing answer ids) then n + reply_penalty (answer p)
      else if winner answer ids = Some p then n - 1 else n)"

lemma get_touch: "get_peer p (touch_peer q f r) = (if p = q then map_option f (get_peer p r) else get_peer p r)"
  by (simp add: touch_peer_def get_peer_def split: option.splits)

lemma reply_error_next: "\<not> answered rep \<Longrightarrow>
    reply_error rep prev = (if busy_reply rep then prev else Some (error_of rep))"
  by (cases rep) (auto simp: reply_error_def answered_def busy_reply_def error_of_def split: option.splits)

lemma winner_in: "winner answer ids = Some p \<Longrightarrow> p \<in> set ids"
  by (auto simp: winner_def find_Some_iff)

lemma verdict_Cons: "verdict (rep # reps) =
    (if list_all busy_reply reps then (if busy_reply rep then PEER_UNREACHABLE else error_of rep) else verdict reps)"
proof -
  have "rev (filter (\<lambda>rep. \<not> busy_reply rep) reps) = [] \<longleftrightarrow> list_all busy_reply reps"
    by (induction reps) auto
  then show ?thesis by (cases "rev (filter (\<lambda>rep. \<not> busy_reply rep) reps)") (auto simp: verdict_def)
qed

lemma try_winner:
  assumes "pe_connection (pt_entry t) \<noteq> None" "n < 3" "answer (pt_peer_id t) = Reply x"
  shows "try_targets answer (t # ts) n prev r
    = (Inr x, touch_peer (pt_peer_id t) (\<lambda>e. e\<lparr>pe_failure_count := pe_failure_count e - 1\<rparr>) r)"
  using assms by (simp add: MAX_RETRY_ATTEMPTS_def del: not_None_eq)

lemma try_failure:
  assumes "pe_connection (pt_entry t) \<noteq> None" "n < 3" "\<not> answered (answer (pt_peer_id t))"
  shows "try_targets answer (t # ts) n prev r
    = try_targets answer ts (Suc n) (reply_error (answer (pt_peer_id t)) prev)
        (touch_peer (pt_peer_id t) (\<lambda>e. e\<lparr>pe_failure_count := pe_failure_count e + reply_penalty (answer (pt_peer_id t))\<rparr>) r)"
  using assms by (cases "answer (pt_peer_id t)") (simp_all add: MAX_RETRY_ATTEMPTS_def answered_def del: not_None_eq)

lemma answered_Reply: "answered rep \<Longrightarrow> \<exists>x. rep = Reply x"
  by (cases rep) (simp_all add: answered_def)

lemma try_targets_result:
  assumes "\<forall>t \<in> set ts. pe_connection (pt_entry t) \<noteq> None" "n \<le> 3"
  shows "fst (try_targets answer ts n prev r) =
    (let ids = take (3 - n) (map pt_peer_id ts)
     in case winner answer ids of
          Some p \<Rightarrow> (case answer p of Reply x \<Rightarrow> Inr x | _ \<Rightarrow> Inl PEER_UNREACHABLE)
        | None \<Rightarrow> Inl (if list_all busy_reply (map answer ids)
            then (case prev of Some c \<Rightarrow> c | None \<Rightarrow> PEER_UNREACHABLE) else verdict (map answer ids)))"
  using assms
proof (induction ts arbitrary: n prev r)
  case Nil
  then show ?case by (simp add: winner_def)
next
  case (Cons t ts)
  show ?case
  proof (cases "n = 3")
    case True
    then show ?thesis by (simp add: winner_def MAX_RETRY_ATTEMPTS_def)
  next
    case False
    then have n: "n < 3" "3 - n = Suc (3 - Suc n)" using Cons.prems by simp_all
    show ?thesis
    proof (cases "answered (answer (pt_peer_id t))")
      case True
      then obtain x where x: "answer (pt_peer_id t) = Reply x" using answered_Reply by blast
      then show ?thesis using n Cons.prems True by (simp add: x MAX_RETRY_ATTEMPTS_def winner_def Let_def del: not_None_eq)
    next
      case no: False
      have step: "try_targets answer (t # ts) n prev r = try_targets answer ts (Suc n) (reply_error (answer (pt_peer_id t)) prev)
          (touch_peer (pt_peer_id t) (\<lambda>e. e\<lparr>pe_failure_count := pe_failure_count e + reply_penalty (answer (pt_peer_id t))\<rparr>) r)"
        using n Cons.prems no by (intro try_failure) auto
      have IH: "fst (try_targets answer (t # ts) n prev r) =
        (let ids = take (3 - Suc n) (map pt_peer_id ts)
         in case winner answer ids of
          Some p \<Rightarrow> (case answer p of Reply x \<Rightarrow> Inr x | _ \<Rightarrow> Inl PEER_UNREACHABLE)
        | None \<Rightarrow> Inl (if list_all busy_reply (map answer ids)
            then (case reply_error (answer (pt_peer_id t)) prev of Some c \<Rightarrow> c | None \<Rightarrow> PEER_UNREACHABLE)
            else verdict (map answer ids)))"
        unfolding step by (rule Cons.IH) (use n Cons.prems in auto)
      show ?thesis unfolding IH n(2) using no
        by (simp add: Let_def winner_def verdict_Cons reply_error_next split: option.split)
    qed
  qed
qed

lemma try_targets_failures:
  assumes "\<forall>t \<in> set ts. pe_connection (pt_entry t) \<noteq> None" "n \<le> 3" "distinct (map pt_peer_id ts)"
  shows "get_peer p (snd (try_targets answer ts n prev r)) =
    map_option (\<lambda>e. e\<lparr>pe_failure_count := failures_after answer (take (3 - n) (map pt_peer_id ts)) p (pe_failure_count e)\<rparr>)
      (get_peer p r)"
  using assms
proof (induction ts arbitrary: n prev r)
  case Nil
  then show ?case by (simp add: winner_def failing_def failures_after_def option.map_ident)
next
  case (Cons t ts)
  show ?case
  proof (cases "n = 3")
    case True
    then show ?thesis by (simp add: winner_def failing_def failures_after_def MAX_RETRY_ATTEMPTS_def option.map_ident)
  next
    case False
    then have n: "n < 3" "3 - n = Suc (3 - Suc n)" using Cons.prems by simp_all
    let ?ids = "take (3 - Suc n) (map pt_peer_id ts)"
    have fresh: "pt_peer_id t \<notin> set (failing answer ?ids)" "winner answer ?ids \<noteq> Some (pt_peer_id t)"
      using Cons.prems(3) by (auto simp: failing_def dest!: set_takeWhileD winner_in dest: in_set_takeD)
    show ?thesis
    proof (cases "answered (answer (pt_peer_id t))")
      case True
      then obtain x where x: "answer (pt_peer_id t) = Reply x" using answered_Reply by blast
      then show ?thesis using n Cons.prems True
        by (auto simp: x MAX_RETRY_ATTEMPTS_def winner_def failing_def failures_after_def get_touch option.map_ident)
    next
      case no: False
      let ?r = "touch_peer (pt_peer_id t) (\<lambda>e. e\<lparr>pe_failure_count := pe_failure_count e + reply_penalty (answer (pt_peer_id t))\<rparr>) r"
      have step: "try_targets answer (t # ts) n prev r = try_targets answer ts (Suc n) (reply_error (answer (pt_peer_id t)) prev) ?r"
        using n Cons.prems no by (intro try_failure) auto
      have "get_peer p (snd (try_targets answer (t # ts) n prev r)) =
          map_option (\<lambda>e. e\<lparr>pe_failure_count := failures_after answer ?ids p (pe_failure_count e)\<rparr>) (get_peer p ?r)"
        unfolding step by (rule Cons.IH) (use n Cons.prems in auto)
      moreover have "failures_after answer (pt_peer_id t # ?ids) p k =
          (if p = pt_peer_id t then k + reply_penalty (answer p) else failures_after answer ?ids p k)" for k
        using no by (simp add: failures_after_def failing_def winner_def)
      moreover have "p = pt_peer_id t \<Longrightarrow> failures_after answer ?ids p k = k" for k
        using fresh by (simp add: failures_after_def)
      ultimately show ?thesis unfolding n(2)
        by (cases "get_peer p r") (auto simp: get_touch)
    qed
  qed
qed

lemma route_targets_ready:
  assumes "registry_inv r"
  shows "\<forall>t \<in> set (route hc model want r). pe_connection (pt_entry t) \<noteq> None"
    "distinct (map pt_peer_id (route hc model want r))"
proof -
  show "\<forall>t \<in> set (route hc model want r). pe_connection (pt_entry t) \<noteq> None"
    using peers_for_model_iff [OF assms, of _ model want]
    by (auto simp: set_route mk_target_def may_serve_def is_live_def split: option.splits)
  have "mset (map pt_peer_id (route hc model want r))
      = mset (map pe_peer_id (filter (\<lambda>e. \<not> connection_overloaded e) (peers_for_model model want r)))"
    by (simp add: route_def image_mset.compositionality o_def mk_target_def)
  then show "distinct (map pt_peer_id (route hc model want r))"
    using distinct_peers_for_model [OF assms, of model want]
    by (metis distinct_filter distinct_map_filter mset_eq_imp_distinct_iff)
qed

text \<open>
  Failover tells the truth. On any reachable registry a request asks the three best peers at most,
  in order, and stops at the first answer, which it returns; without one it fails with the error of the
  last peer that was not merely busy, and with "model unavailable" only when no peer could be asked.
  Each peer that failed is charged its penalty, nothing for being busy; the one that answered is
  forgiven one failure; no other field of any peer changes.
\<close>

theorem failover_truthful:
  assumes "registry_step\<^sup>*\<^sup>* \<lparr>rg_peers = [], rg_index = []\<rparr> r"
  shows "let ids = take 3 (map pt_peer_id (route None model [] r)); (res, r') = route_inference answer model r
    in res = (case winner answer ids of
          Some p \<Rightarrow> (case answer p of Reply x \<Rightarrow> Inr x | _ \<Rightarrow> Inl PEER_UNREACHABLE)
        | None \<Rightarrow> Inl (if ids = [] then MODEL_UNAVAILABLE else verdict (map answer ids)))
       \<and> (\<forall>p. get_peer p r' = map_option
            (\<lambda>e. e\<lparr>pe_failure_count := failures_after answer ids p (pe_failure_count e)\<rparr>) (get_peer p r))"
proof -
  have inv: "registry_inv r" using registry_steps_inv [OF assms registry_inv_empty] .
  note ready = route_targets_ready [OF inv, of None model "[]"]
  let ?ts = "route None model [] r"
  show ?thesis
  proof (cases "?ts = []")
    case True
    then show ?thesis
      by (simp add: route_inference_def winner_def failing_def failures_after_def option.map_ident)
  next
    case False
    have v: "list_all busy_reply reps \<Longrightarrow> verdict reps = PEER_UNREACHABLE" for reps :: "'a reply list"
      by (induction reps) (auto simp: verdict_Cons, simp add: verdict_def)
    obtain res r' where run: "try_targets answer ?ts 0 None r = (res, r')" by fastforce
    have "route_inference answer model r = (res, r')" using False run by (simp add: route_inference_def)
    moreover note try_targets_result [OF ready(1), of 0 answer None r] try_targets_failures [OF ready(1) _ ready(2), of 0 _ answer None r]
    ultimately show ?thesis using False v unfolding run by (simp add: Let_def split: option.split)
  qed
qed

theorem failover_truthful_witness:
  "let answer = (\<lambda>p. if p = ''p2'' then Reply (7 :: nat) else Reply_timeout);
       (res, r') = route_inference answer ''qwen'' demo_registry
   in res = Inr 7 \<and> map_option pe_failure_count (get_peer ''p1'' r') = Some 1
      \<and> map_option pe_failure_count (get_peer ''p2'' r') = Some 0"
proof -
  define answer where "answer = (\<lambda>p. if p = ''p2'' then Reply (7 :: nat) else Reply_timeout)"
  have ids: "take 3 (map pt_peer_id (route None ''qwen'' [] demo_registry)) = [''p1'', ''p2'']"
    "map_option pe_failure_count (get_peer ''p1'' demo_registry) = Some 0"
    "map_option pe_failure_count (get_peer ''p2'' demo_registry) = Some 0" by (code_simp, code_simp, code_simp)
  obtain res r' where run: "route_inference answer ''qwen'' demo_registry = (res, r')" by fastforce
  have "res = Inr 7 \<and> (\<forall>p. get_peer p r' = map_option
      (\<lambda>e. e\<lparr>pe_failure_count := failures_after answer [''p1'', ''p2''] p (pe_failure_count e)\<rparr>) (get_peer p demo_registry))"
    using failover_truthful [OF demo_reachable, of "''qwen''" answer] unfolding ids run Let_def
    by (simp add: winner_def answered_def answer_def)
  moreover have "failures_after answer [''p1'', ''p2''] ''p1'' 0 = 1" "failures_after answer [''p1'', ''p2''] ''p2'' 0 = 0"
    unfolding answer_def by (simp_all add: failures_after_def failing_def winner_def answered_def reply_penalty_def)
  ultimately have "res = Inr 7 \<and> map_option pe_failure_count (get_peer ''p1'' r') = Some 1
      \<and> map_option pe_failure_count (get_peer ''p2'' r') = Some 0"
    using ids(2,3) by (auto simp: option.map_comp o_def)
  then show ?thesis unfolding answer_def [symmetric] Let_def run by simp
qed

end
