(* ===== verification/Model_Resolver.thy ===== *)
theory Model_Resolver
  imports Model_Names Peer_Registry
begin

text \<open>
  From what a request asks for to the places its prompt goes: \<open>ModelResolver\<close> of
  \<open>src/mycellm/router/model_resolver.py\<close>, \<open>resolve_model_name\<close> of \<open>inference/manager.py\<close>, and the
  choice made by \<open>chat_completions\<close> of \<open>api/openai.py\<close>. Whether a remote attempt yields a result is
  a parameter; a local generation, whatever it returns, ends the request.
\<close>

section \<open>Candidates\<close>

definition FLEET_ONLINE_WINDOW_S :: pyfloat where "FLEET_ONLINE_WINDOW_S = 120"

text \<open>A model of a fleet entry is a dictionary with a name or a bare name.\<close>

datatype fleet_model = Model_dict pystr | Model_str pystr

record fleet_entry =
  fe_status :: pystr
  fe_last_seen :: "pyfloat option"
  fe_peer_id :: pystr
  fe_models :: "fleet_model list"

definition is_fleet_entry_online :: "fleet_entry \<Rightarrow> pyfloat \<Rightarrow> bool" where
  "is_fleet_entry_online e now =
     (now - (case fe_last_seen e of Some t \<Rightarrow> t | None \<Rightarrow> 0) < FLEET_ONLINE_WINDOW_S)"

definition fleet_model_name :: "fleet_model \<Rightarrow> pystr" where
  "fleet_model_name m = (case m of Model_dict n \<Rightarrow> n | Model_str n \<Rightarrow> n)"

record quality_constraints =
  qc_min_tier :: pystr
  qc_min_params :: pyfloat
  qc_min_context :: int
  qc_required_tags :: "pystr list"
  qc_max_cost :: pyfloat
  qc_trust :: pystr

record resolved_model =
  rm_model_name :: pystr
  rm_peer_id :: pystr
  rm_source :: pystr
  rm_score :: pyfloat
  rm_tier :: pystr
  rm_tags :: "pystr list"

definition tier_scores :: "(pystr, pyfloat) dict" where
  "tier_scores = [(''frontier'', 100), (''capable'', 60), (''fast'', 30), (''tiny'', 10)]"

text \<open>\<open>_score_model\<close>; its \<open>param_b\<close> is not read. \<open>plat\<close> is the host's platform.\<close>

definition score_model :: "pystr \<Rightarrow> pystr \<Rightarrow> pystr \<Rightarrow> pyfloat \<Rightarrow> pystr \<Rightarrow> pyfloat" where
  "score_model plat tier source health backend =
     (let s0 = dict_get tier_scores tier 10;
          s1 = (if source = ''local'' then s0 * (3 / 2) else if source = ''quic'' then s0 * (6 / 5) else s0);
          s2 = (if source = ''local'' \<and> backend \<noteq> [] then s1 * backend_efficiency plat backend else s1)
      in s2 * health)"

definition local_candidate :: "pystr \<Rightarrow> model_cap \<Rightarrow> resolved_model" where
  "local_candidate plat m =
     (let param_b = or_num (mc_param_count_b m) (estimate_param_count (mc_name m));
          tier = or_str (mc_tier m) (derive_tier param_b);
          tags = (if mc_tags m \<noteq> [] then mc_tags m else derive_capability_tags (mc_name m) (mc_backend m))
      in \<lparr>rm_model_name = mc_name m, rm_peer_id = [], rm_source = ''local'',
          rm_score = score_model plat tier ''local'' 1 (mc_backend m), rm_tier = tier, rm_tags = tags\<rparr>)"

definition quic_candidate :: "pystr \<Rightarrow> peer_entry \<Rightarrow> model_cap \<Rightarrow> resolved_model" where
  "quic_candidate plat e m =
     (let param_b = or_num (mc_param_count_b m) (estimate_param_count (mc_name m));
          tier = or_str (mc_tier m) (derive_tier param_b);
          tags = (if mc_tags m \<noteq> [] then mc_tags m else derive_tags (mc_name m));
          health = (if pe_failure_count e > 0 then (1 / 2) ^ pe_failure_count e else 1)
      in \<lparr>rm_model_name = mc_name m, rm_peer_id = pe_peer_id e, rm_source = ''quic'',
          rm_score = score_model plat tier ''quic'' health [], rm_tier = tier, rm_tags = tags\<rparr>)"

definition fleet_candidate :: "pystr \<Rightarrow> fleet_entry \<Rightarrow> fleet_model \<Rightarrow> resolved_model" where
  "fleet_candidate plat e m =
     (let name = fleet_model_name m; tier = derive_tier (estimate_param_count name)
      in \<lparr>rm_model_name = name, rm_peer_id = fe_peer_id e, rm_source = ''fleet'',
          rm_score = score_model plat tier ''fleet'' 1 [], rm_tier = tier, rm_tags = derive_tags name\<rparr>)"

definition quic_candidates :: "pystr \<Rightarrow> registry \<Rightarrow> resolved_model list" where
  "quic_candidates plat r = concat (map (\<lambda>e.
     if pe_state e \<notin> {ROUTABLE, SERVING, AUTHENTICATED} \<or> \<not> is_live e then []
     else map (quic_candidate plat e) (cap_models (pe_capabilities e))) (all_peers r))"

definition fleet_candidates :: "pystr \<Rightarrow> pyfloat \<Rightarrow> (pystr, fleet_entry) dict \<Rightarrow> resolved_model list" where
  "fleet_candidates plat now fleet = concat (map (\<lambda>e.
     if fe_status e \<noteq> ''approved'' \<or> \<not> is_fleet_entry_online e now then []
     else map (fleet_candidate plat e) (fe_models e)) (map snd fleet))"

text \<open>What the node knows when a request comes: its platform, the time, the peers, the fleet and its own models.\<close>

record network_view =
  nv_plat :: pystr
  nv_now :: pyfloat
  nv_registry :: registry
  nv_fleet :: "(pystr, fleet_entry) dict"
  nv_local :: "model_cap list"

definition all_candidates :: "network_view \<Rightarrow> resolved_model list" where
  "all_candidates v = map (local_candidate (nv_plat v)) (nv_local v) @ quic_candidates (nv_plat v) (nv_registry v)
     @ fleet_candidates (nv_plat v) (nv_now v) (nv_fleet v)"

section \<open>Filters\<close>

definition filter_candidates :: "pystr \<Rightarrow> resolved_model list \<Rightarrow> resolved_model list" where
  "filter_candidates requested cs =
     (let exact = filter (\<lambda>c. rm_model_name c = requested) cs;
          tag_match = filter (\<lambda>c. py_lower requested \<in> set (map py_lower (rm_tags c))) cs;
          tier_match = filter (\<lambda>c. rm_tier c = py_lower requested) cs;
          substr = filter (\<lambda>c. py_contains (py_lower (rm_model_name c)) (py_lower requested)) cs
      in if exact \<noteq> [] then exact else if tag_match \<noteq> [] then tag_match
         else if tier_match \<noteq> [] then tier_match else substr)"

definition meets :: "quality_constraints \<Rightarrow> resolved_model \<Rightarrow> bool" where
  "meets q c =
     (let min_tier_val = dict_get TIER_RANK (qc_min_tier q) 0 in
      if min_tier_val > 0 \<and> dict_get TIER_RANK (rm_tier c) 0 < min_tier_val then False
      else if qc_min_params q > 0 \<and> estimate_param_count (rm_model_name c) < qc_min_params q then False
      else if qc_required_tags q \<noteq> []
              \<and> \<not> list_all (\<lambda>t. py_lower t \<in> set (map py_lower (rm_tags c))) (qc_required_tags q) then False
      else True)"

definition apply_constraints :: "quality_constraints \<Rightarrow> resolved_model list \<Rightarrow> resolved_model list" where
  "apply_constraints q cs = filter (meets q) cs"

definition apply_trust_filter :: "pystr \<Rightarrow> resolved_model list \<Rightarrow> resolved_model list" where
  "apply_trust_filter trust cs =
     (if trust = ''local'' then filter (\<lambda>c. rm_source c = ''local'') cs
      else if trust = ''trusted'' then filter (\<lambda>c. rm_source c \<in> {''local'', ''quic''}) cs
      else cs)"

definition max_tier :: "pyfloat \<Rightarrow> nat" where
  "max_tier balance = (if balance \<ge> 50 then 4 else if balance \<ge> 10 then 3 else 2)"

definition apply_balance_filter :: "pyfloat \<Rightarrow> resolved_model list \<Rightarrow> resolved_model list" where
  "apply_balance_filter balance cs =
     (let filtered = filter (\<lambda>c. dict_get TIER_RANK (rm_tier c) 1 \<le> max_tier balance) cs;
          filtered = (if filtered = [] \<and> cs \<noteq> [] then filter (\<lambda>c. dict_get TIER_RANK (rm_tier c) 1 \<le> 2) cs else filtered)
      in if filtered \<noteq> [] then filtered else cs)"

definition resolve :: "network_view \<Rightarrow> pystr \<Rightarrow> quality_constraints option \<Rightarrow> pyfloat \<Rightarrow> resolved_model list" where
  "resolve v requested constraints consumer_balance =
     (let cs0 = all_candidates v in
      if cs0 = [] then []
      else
        let cs1 = (if requested \<noteq> [] then
                     (let filtered = filter_candidates requested cs0 in if filtered \<noteq> [] then filtered else cs0)
                   else filter (\<lambda>c. ''embedding'' \<notin> set (rm_tags c)) cs0);
            cs2 = (case constraints of Some q \<Rightarrow> apply_constraints q cs1 | None \<Rightarrow> cs1);
            cs3 = (if consumer_balance \<ge> 0 then apply_balance_filter consumer_balance cs2 else cs2);
            cs4 = (case constraints of Some q \<Rightarrow> if qc_trust q \<noteq> [] then apply_trust_filter (qc_trust q) cs3 else cs3
                   | None \<Rightarrow> cs3)
        in sort_key (\<lambda>c. - rm_score c) cs4)"

section \<open>Names of loaded models\<close>

record inference =
  in_backends :: "pystr list"
  in_info :: "(pystr, model_cap) dict"

definition capability_tags :: "inference \<Rightarrow> pystr \<Rightarrow> pystr list" where
  "capability_tags im name = (case map_of (in_info im) name of
     None \<Rightarrow> derive_capability_tags name []
   | Some m \<Rightarrow> if mc_tags m \<noteq> [] then mc_tags m else derive_capability_tags (mc_name m) (mc_backend m))"

definition resolve_model_name :: "inference \<Rightarrow> pystr \<Rightarrow> pystr option \<Rightarrow> pystr option \<Rightarrow> pystr" where
  "resolve_model_name im requested prefer exclude =
     (if requested \<noteq> [] \<and> requested \<in> set (in_backends im) then requested
      else if requested = [] \<and> in_backends im \<noteq> [] then
        (case (case prefer of None \<Rightarrow> None
               | Some t \<Rightarrow> find (\<lambda>n. t \<in> set (capability_tags im n)) (in_backends im)) of
           Some n \<Rightarrow> n
         | None \<Rightarrow> (case exclude of
             Some t \<Rightarrow> (case find (\<lambda>n. t \<notin> set (capability_tags im n)) (in_backends im) of
                          Some n \<Rightarrow> n | None \<Rightarrow> [])
           | None \<Rightarrow> hd (in_backends im)))
      else [])"

section \<open>chat_completions\<close>

record routing_block =
  rb_constraints :: quality_constraints
  rb_fallback :: pystr

text \<open>The three ways a prompt is handed on: a loaded model, \<open>route_inference\<close> and \<open>_route_via_fleet\<close>.\<close>

datatype place = To_local pystr | To_quic pystr | To_fleet pystr

datatype chat_outcome = Served place | Rejected_422 | Unserved

fun try_resolved :: "(place \<Rightarrow> bool) \<Rightarrow> resolved_model list \<Rightarrow> place list \<times> place option \<times> pystr" where
  "try_resolved answers [] = ([], None, [])"
| "try_resolved answers (best # rest) =
     (if rm_source best = ''local'' then ([], None, rm_model_name best)
      else if rm_source best \<in> {''quic'', ''fleet''} then
        (let p = (if rm_source best = ''quic'' then To_quic else To_fleet) (rm_model_name best) in
         if answers p then ([p], Some p, [])
         else let (tried, res, name) = try_resolved answers rest in (p # tried, res, name))
      else try_resolved answers rest)"

definition try_last :: "(place \<Rightarrow> bool) \<Rightarrow> inference \<Rightarrow> pystr \<Rightarrow> pystr \<Rightarrow> place list \<times> chat_outcome" where
  "try_last answers im model requested =
     (let n = resolve_model_name im requested None (Some ''embedding'') in
      if n \<noteq> [] then ([To_local n], Served (To_local n))
      else if answers (To_quic model) then ([To_quic model], Served (To_quic model))
      else ([To_quic model, To_fleet model], if answers (To_fleet model) then Served (To_fleet model) else Unserved))"

definition resolved_for :: "network_view \<Rightarrow> routing_block option \<Rightarrow> pyfloat \<Rightarrow> pystr \<Rightarrow> resolved_model list option" where
  "resolved_for v block balance requested =
     (let cs = resolve v requested (map_option rb_constraints block) balance in
      case block of None \<Rightarrow> Some cs
      | Some b \<Rightarrow> if cs = [] then
            (if rb_fallback b = ''reject'' then None
             else if rb_fallback b = ''downgrade'' then Some (resolve v requested None (- 1))
             else Some cs)
          else Some cs)"

definition chat_completions :: "(place \<Rightarrow> bool) \<Rightarrow> network_view \<Rightarrow> inference \<Rightarrow> routing_block option \<Rightarrow> pyfloat \<Rightarrow> pystr
    \<Rightarrow> place list \<times> chat_outcome" where
  "chat_completions answers v im block balance model =
     (let requested = (if model \<noteq> ''auto'' then model else []);
          name = (if requested \<noteq> [] then resolve_model_name im requested None None else [])
      in if name \<noteq> [] then ([To_local name], Served (To_local name))
         else case resolved_for v block balance requested of
           None \<Rightarrow> ([], Rejected_422)
         | Some cs \<Rightarrow> (case try_resolved answers cs of
             (tried, Some p, _) \<Rightarrow> (tried, Served p)
           | (tried, None, n) \<Rightarrow>
               if n \<noteq> [] then (tried @ [To_local n], Served (To_local n))
               else let (more, res) = try_last answers im model requested in (tried @ more, res)))"

text \<open>The candidates of a streamed request; its routing block is not read.\<close>

definition stream_candidates :: "network_view \<Rightarrow> pystr \<Rightarrow> pystr list" where
  "stream_candidates v model =
     (if model \<notin> {''auto'', []} then [model]
      else fold (\<lambda>c names. if rm_model_name c \<in> set names then names else names @ [rm_model_name c])
        (resolve v [] None (- 1)) [])"

section \<open>What resolution promises\<close>

definition reachable_candidate :: "network_view \<Rightarrow> resolved_model \<Rightarrow> bool" where
  "reachable_candidate v c \<longleftrightarrow>
     rm_source c = ''local'' \<and> rm_model_name c \<in> mc_name ` set (nv_local v)
   \<or> rm_source c = ''quic'' \<and> (\<exists>e \<in> set (connected_peers (nv_registry v)). rm_peer_id c = pe_peer_id e \<and> rm_model_name c \<in> offers e)
   \<or> rm_source c = ''fleet'' \<and> (\<exists>e \<in> snd ` set (nv_fleet v). fe_status e = ''approved'' \<and> rm_peer_id c = fe_peer_id e
        \<and> is_fleet_entry_online e (nv_now v) \<and> rm_model_name c \<in> fleet_model_name ` set (fe_models e))"

definition satisfies :: "quality_constraints \<Rightarrow> resolved_model \<Rightarrow> bool" where
  "satisfies q c \<longleftrightarrow> tier_rank (qc_min_tier q) \<le> tier_rank (rm_tier c)
     \<and> (0 < qc_min_params q \<longrightarrow> qc_min_params q \<le> estimate_param_count (rm_model_name c))
     \<and> py_lower ` set (qc_required_tags q) \<subseteq> py_lower ` set (rm_tags c)
     \<and> (qc_trust q = ''local'' \<longrightarrow> rm_source c = ''local'')
     \<and> (qc_trust q = ''trusted'' \<longrightarrow> rm_source c \<noteq> ''fleet'')"

definition affordable :: "pyfloat \<Rightarrow> resolved_model \<Rightarrow> bool" where
  "affordable balance c = (dict_get TIER_RANK (rm_tier c) 1 \<le> max_tier balance)"

lemma all_candidates_reachable: "c \<in> set (all_candidates v) \<Longrightarrow> reachable_candidate v c"
  by (auto simp: all_candidates_def quic_candidates_def fleet_candidates_def reachable_candidate_def local_candidate_def
      quic_candidate_def fleet_candidate_def connected_peers_def offers_def Let_def split: if_splits)

lemma meets_iff: "meets q c \<longleftrightarrow> tier_rank (qc_min_tier q) \<le> tier_rank (rm_tier c)
     \<and> (0 < qc_min_params q \<longrightarrow> qc_min_params q \<le> estimate_param_count (rm_model_name c))
     \<and> py_lower ` set (qc_required_tags q) \<subseteq> py_lower ` set (rm_tags c)"
  by (auto simp: meets_def Let_def tier_rank_def list_all_iff)

lemma filter_candidates_sub: "set (filter_candidates requested cs) \<subseteq> set cs"
  by (auto simp: filter_candidates_def Let_def)

lemma trust_filter_sub: "set (apply_trust_filter t cs) \<subseteq> set cs"
  "c \<in> set (apply_trust_filter t cs) \<Longrightarrow> (t = ''local'' \<longrightarrow> rm_source c = ''local'') \<and> (t = ''trusted'' \<longrightarrow> rm_source c \<noteq> ''fleet'')"
  by (auto simp: apply_trust_filter_def split: if_splits)

text \<open>The second fallback of the balance filter never helps: the cap is at least 2.\<close>

lemma balance_filter_eq:
  "apply_balance_filter b cs =
     (if list_ex (affordable b) cs then filter (affordable b) cs else cs)"
proof -
  have le: "dict_get TIER_RANK t 1 \<le> 2 \<Longrightarrow> dict_get TIER_RANK t 1 \<le> max_tier b" for t
    by (simp add: max_tier_def)
  have "filter (affordable b) cs = [] \<longleftrightarrow> \<not> list_ex (affordable b) cs"
    by (induction cs) auto
  moreover have "filter (affordable b) cs = [] \<Longrightarrow> filter (\<lambda>c. dict_get TIER_RANK (rm_tier c) 1 \<le> 2) cs = []"
    using le by (auto simp: filter_empty_conv affordable_def)
  ultimately show ?thesis unfolding apply_balance_filter_def affordable_def [symmetric] Let_def by auto
qed

text \<open>The stages of \<open>resolve\<close>: the candidates picked by name, then the three filters.\<close>

definition picked :: "network_view \<Rightarrow> pystr \<Rightarrow> resolved_model list" where
  "picked v requested = (if requested \<noteq> [] then
     (if filter_candidates requested (all_candidates v) \<noteq> [] then filter_candidates requested (all_candidates v)
      else all_candidates v)
     else filter (\<lambda>c. ''embedding'' \<notin> set (rm_tags c)) (all_candidates v))"

definition constrained :: "quality_constraints option \<Rightarrow> resolved_model list \<Rightarrow> resolved_model list" where
  "constrained q cs = (case q of Some q \<Rightarrow> filter (meets q) cs | None \<Rightarrow> cs)"

definition budgeted :: "pyfloat \<Rightarrow> resolved_model list \<Rightarrow> resolved_model list" where
  "budgeted b cs = (if b \<ge> 0 \<and> list_ex (affordable b) cs then filter (affordable b) cs else cs)"

definition trusting :: "quality_constraints option \<Rightarrow> resolved_model list \<Rightarrow> resolved_model list" where
  "trusting q cs = (case q of Some q \<Rightarrow> apply_trust_filter (qc_trust q) cs | None \<Rightarrow> cs)"

lemma resolve_eq: "resolve v requested q b
    = sort_key (\<lambda>c. - rm_score c) (trusting q (budgeted b (constrained q (picked v requested))))"
proof (cases "all_candidates v = []")
  case True
  then have "picked v requested = []" by (simp add: picked_def filter_candidates_def)
  then show ?thesis using True
    by (simp add: resolve_def constrained_def budgeted_def trusting_def apply_trust_filter_def split: option.split)
next
  case False
  have "apply_trust_filter [] cs = cs" for cs by (simp add: apply_trust_filter_def)
  then show ?thesis using False
    unfolding resolve_def constrained_def budgeted_def trusting_def apply_constraints_def Let_def balance_filter_eq picked_def
    by (cases q) simp_all
qed

lemma trusting_sub: "set (trusting q cs) \<subseteq> set cs"
  using trust_filter_sub(1) by (auto simp: trusting_def split: option.splits)

lemma budgeted_sub: "set (budgeted b cs) \<subseteq> set cs"
  by (simp add: budgeted_def)

lemma picked_sub: "set (picked v requested) \<subseteq> set (all_candidates v)"
  using filter_candidates_sub by (auto simp: picked_def)

lemma resolve_members:
  assumes "c \<in> set (resolve v requested q b)"
  shows "c \<in> set (picked v requested)" "c \<in> set (all_candidates v)" "q = Some k \<Longrightarrow> satisfies k c"
proof -
  have b: "c \<in> set (budgeted b (constrained q (picked v requested)))" "c \<in> set (trusting q (budgeted b (constrained q (picked v requested))))"
    using assms trusting_sub by (auto simp: resolve_eq)
  then have c: "c \<in> set (constrained q (picked v requested))" using budgeted_sub by blast
  then show p: "c \<in> set (picked v requested)" by (auto simp: constrained_def split: option.splits)
  then show "c \<in> set (all_candidates v)" using picked_sub by blast
  show "satisfies k c" if "q = Some k"
    using b(2) c that trust_filter_sub(2) unfolding satisfies_def
    by (auto simp: constrained_def trusting_def meets_iff)
qed

text \<open>
  C10: resolution respects the request. Every candidate returned is loaded here, offered by a connected
  peer, or offered by an approved fleet node seen in the last two minutes; the best score is first; an
  unnamed request never gets an embedding model; a stated tier, size, tag or trust is met by every
  candidate; a consumer's balance admits all or, failing any, keeps the unaffordable ones; and a named
  request without constraints is never refused while any candidate exists.
\<close>

theorem resolver_respects_request:
  "let out = resolve v requested constraints balance in
     sorted (map (\<lambda>c. - rm_score c) out)
   \<and> list_all (reachable_candidate v) out
   \<and> (requested = [] \<longrightarrow> list_all (\<lambda>c. ''embedding'' \<notin> set (rm_tags c)) out)
   \<and> (\<forall>q. constraints = Some q \<longrightarrow> list_all (satisfies q) out)
   \<and> (0 \<le> balance \<longrightarrow> list_all (affordable balance) out \<or> list_all (\<lambda>c. \<not> affordable balance c) out)
   \<and> (requested \<noteq> [] \<and> constraints = None \<and> all_candidates v \<noteq> [] \<longrightarrow> out \<noteq> [])"
proof -
  let ?cs = "constrained constraints (picked v requested)"
  have aff: "list_all (affordable balance) (resolve v requested constraints balance)
      \<or> list_all (\<lambda>c. \<not> affordable balance c) (resolve v requested constraints balance)" if "0 \<le> balance"
    using that trusting_sub [of constraints "budgeted balance ?cs"]
    by (auto simp: resolve_eq budgeted_def list_all_iff list_ex_iff split: if_splits)
  have ne: "resolve v requested None balance \<noteq> []" if "requested \<noteq> []" "all_candidates v \<noteq> []"
  proof -
    have "picked v requested \<noteq> []" using that by (simp add: picked_def)
    then have "budgeted balance (picked v requested) \<noteq> []"
      by (auto simp: budgeted_def filter_empty_conv list_ex_iff)
    then show ?thesis
      by (simp add: resolve_eq trusting_def constrained_def) (metis length_0_conv length_sort)
  qed
  have auto: "''embedding'' \<notin> set (rm_tags c)" if "c \<in> set (resolve v [] constraints balance)" for c
    using resolve_members(1) [OF that] by (simp add: picked_def)
  show ?thesis unfolding Let_def list_all_iff [of "reachable_candidate v"]
  proof (intro conjI impI allI)
    show "sorted (map (\<lambda>c. - rm_score c) (resolve v requested constraints balance))"
      unfolding resolve_eq by (rule sorted_sort_key)
  qed (use resolve_members all_candidates_reachable aff ne auto in \<open>auto simp: list_all_iff\<close>)
qed

definition demo_model :: "pystr \<Rightarrow> pystr \<Rightarrow> model_cap" where
  "demo_model name backend = \<lparr>mc_name = name, mc_backend = backend, mc_tags = [], mc_tier = [], mc_param_count_b = 0,
     mc_scope = ''home'', mc_visible_networks = []\<rparr>"

definition demo_view :: network_view where
  "demo_view = \<lparr>nv_plat = ''darwin-arm64'', nv_now = 1000, nv_registry = demo_registry,
     nv_fleet = [(''f1'', \<lparr>fe_status = ''approved'', fe_last_seen = Some 950, fe_peer_id = ''f1'',
                   fe_models = [Model_str ''llama-70b'', Model_dict ''all-MiniLM-L6-v2'']\<rparr>),
                 (''f2'', \<lparr>fe_status = ''approved'', fe_last_seen = Some 500, fe_peer_id = ''f2'', fe_models = [Model_str ''gone-70b'']\<rparr>)],
     nv_local = [demo_model ''mistral-14b'' ''mlx'', demo_model ''relay-model'' ''openai'']\<rparr>"

definition demo_constraints :: "pystr \<Rightarrow> pystr \<Rightarrow> quality_constraints" where
  "demo_constraints tier trust = \<lparr>qc_min_tier = tier, qc_min_params = 10, qc_min_context = 0,
     qc_required_tags = [''Chat''], qc_max_cost = 0, qc_trust = trust\<rparr>"

theorem resolver_respects_request_witness:
  "list_all (satisfies (demo_constraints ''capable'' ''trusted'')) (resolve demo_view [] (Some (demo_constraints ''capable'' ''trusted'')) 12)
   \<and> map rm_model_name (resolve demo_view [] (Some (demo_constraints ''capable'' ''trusted'')) 12) = [''mistral-14b'']
   \<and> map rm_model_name (resolve demo_view ''nothing-like-it'' None (- 1))
       = [''mistral-14b'', ''llama-70b'', ''relay-model'', ''qwen'', ''qwen'', ''all-MiniLM-L6-v2'']"
proof -
  have "map rm_model_name (resolve demo_view [] (Some (demo_constraints ''capable'' ''trusted'')) 12) = [''mistral-14b'']"
    by code_simp
  moreover have "map rm_model_name (resolve demo_view ''nothing-like-it'' None (- 1))
       = [''mistral-14b'', ''llama-70b'', ''relay-model'', ''qwen'', ''qwen'', ''all-MiniLM-L6-v2'']"
    by code_simp
  ultimately show ?thesis
    using resolver_respects_request [where constraints = "Some (demo_constraints ''capable'' ''trusted'')"]
    unfolding Let_def by blast
qed

text \<open>
  A loaded model on Apple hardware with the fast backend outranks a larger model of the fleet, although an
  unnamed request is documented to get the highest tier available.
\<close>

lemma mlx_outranks_frontier:
  "map (\<lambda>c. (rm_model_name c, rm_tier c)) (take 2 (resolve demo_view [] None (- 1)))
     = [(''mistral-14b'', ''capable''), (''llama-70b'', ''frontier'')]"
  by code_simp

text \<open>A model whose name says no size passes a stated floor on the assumption that it has seven billion parameters.\<close>

lemma unsized_passes_floor:
  "parse_param_count ''relay-model'' = None
   \<and> ''relay-model'' \<in> rm_model_name ` set (resolve demo_view [] (Some ((demo_constraints ''fast'' [])\<lparr>qc_min_params := 7\<rparr>)) (- 1))"
proof
  show "parse_param_count ''relay-model'' = None" by code_simp
  have "list_ex (\<lambda>c. rm_model_name c = ''relay-model'')
      (resolve demo_view [] (Some ((demo_constraints ''fast'' [])\<lparr>qc_min_params := 7\<rparr>)) (- 1))" by code_simp
  then show "''relay-model'' \<in> rm_model_name ` set (resolve demo_view [] (Some ((demo_constraints ''fast'' [])\<lparr>qc_min_params := 7\<rparr>)) (- 1))"
    unfolding list_ex_iff by (metis image_eqI)
qed

section \<open>Where a prompt goes\<close>

lemma try_resolved_local:
  "cs \<noteq> [] \<Longrightarrow> list_all (\<lambda>c. rm_source c = ''local'') cs \<Longrightarrow> try_resolved answers cs = ([], None, rm_model_name (hd cs))"
  by (cases cs) auto


definition private_block :: "pystr \<Rightarrow> routing_block" where
  "private_block fallback = \<lparr>rb_constraints = (demo_constraints [] ''local'')\<lparr>qc_min_params := 0\<rparr>, rb_fallback = fallback\<rparr>"


text \<open>
  Fallback "downgrade", the default, repeats the resolution without any constraint: trust is dropped with
  the rest, and the prompt leaves the node. A "trusted" request whose peers all fail ends at the fleet,
  and a streamed request is resolved without its constraints.
\<close>

lemma downgrade_drops_trust:
  "chat_completions (\<lambda>p. True) (demo_view\<lparr>nv_local := []\<rparr>) \<lparr>in_backends = [], in_info = []\<rparr> (Some (private_block ''downgrade'')) 100 ''auto''
     = ([To_fleet ''llama-70b''], Served (To_fleet ''llama-70b''))"
  by code_simp

lemma trusted_ends_at_fleet:
  "let b = \<lparr>rb_constraints = (demo_constraints [] ''trusted'')\<lparr>qc_min_params := 0\<rparr>, rb_fallback = ''reject''\<rparr>
   in fst (chat_completions (\<lambda>p. p = To_fleet ''qwen'') (demo_view\<lparr>nv_local := []\<rparr>) \<lparr>in_backends = [], in_info = []\<rparr> (Some b) 100 ''qwen'')
     = [To_quic ''qwen'', To_quic ''qwen'', To_quic ''qwen'', To_fleet ''qwen'']"
  by code_simp

lemma stream_reaches_fleet: "hd (stream_candidates (demo_view\<lparr>nv_local := []\<rparr>) ''auto'') = ''llama-70b''"
  by code_simp

end
