(* ===== verification/Advert.thy ===== *)
theory Advert
  imports Peer_Registry "HOL-Library.Monad_Syntax"
begin

text \<open>
  The capability advertisement of \<open>src/mycellm/protocol/capabilities.py\<close> as it travels: the three classes,
  their dictionaries and the way back. A dictionary value is one of the kinds CBOR carries. Where a key
  holds a value of an unexpected kind, which Python would store as it is, reading is \<open>None\<close> here.
\<close>

section \<open>Dictionary values\<close>

datatype pv = PStr pystr | PNum pyfloat | PInt int | PBool bool | PList "pv list" | PDict "(pystr \<times> pv) list"

type_synonym pdict = "(pystr \<times> pv) list"

definition pv_strs :: "pystr list \<Rightarrow> pv" where
  "pv_strs ss = PList (map PStr ss)"

fun as_str :: "pv \<Rightarrow> pystr option" where "as_str (PStr s) = Some s" | "as_str _ = None"
fun as_num :: "pv \<Rightarrow> pyfloat option" where "as_num (PNum x) = Some x" | "as_num _ = None"
fun as_int :: "pv \<Rightarrow> int option" where "as_int (PInt i) = Some i" | "as_int _ = None"
fun as_dict :: "pv \<Rightarrow> pdict option" where "as_dict (PDict d) = Some d" | "as_dict _ = None"
fun as_list :: "pv \<Rightarrow> pv list option" where "as_list (PList vs) = Some vs" | "as_list _ = None"

definition as_strs :: "pv \<Rightarrow> pystr list option" where
  "as_strs v = do { vs \<leftarrow> as_list v; those (map as_str vs) }"

definition truthy :: "pv \<Rightarrow> bool" where
  "truthy v = (case v of PStr s \<Rightarrow> s \<noteq> [] | PNum x \<Rightarrow> x \<noteq> 0 | PInt i \<Rightarrow> i \<noteq> 0 | PBool b \<Rightarrow> b
     | PList vs \<Rightarrow> vs \<noteq> [] | PDict d \<Rightarrow> d \<noteq> [])"

text \<open>\<open>d.get(key, default)\<close> read as a kind, and \<open>d.get(key) or {}\<close>.\<close>

definition dget :: "(pv \<Rightarrow> 'a option) \<Rightarrow> pdict \<Rightarrow> pystr \<Rightarrow> 'a \<Rightarrow> 'a option" where
  "dget f d k dflt = (case map_of d k of None \<Rightarrow> Some dflt | Some v \<Rightarrow> f v)"

definition dget_dict :: "pdict \<Rightarrow> pystr \<Rightarrow> pdict option" where
  "dget_dict d k = (case map_of d k of None \<Rightarrow> Some [] | Some v \<Rightarrow> if truthy v then as_dict v else Some [])"

definition dget_bool :: "pdict \<Rightarrow> pystr \<Rightarrow> bool" where
  "dget_bool d k = (case map_of d k of None \<Rightarrow> False | Some v \<Rightarrow> truthy v)"

text \<open>A key emitted only under a condition.\<close>

definition emit :: "bool \<Rightarrow> pystr \<Rightarrow> pv \<Rightarrow> pdict" where
  "emit c k v = (if c then [(k, v)] else [])"

lemma map_of_emit: "map_of (emit c k v @ d) k' = (if c \<and> k' = k then Some v else map_of d k')"
  by (simp add: emit_def)

lemma map_of_emit1: "map_of (emit c k v) k' = (if c \<and> k' = k then Some v else None)"
  by (simp add: emit_def)

lemma those_map_Some: "(\<And>x. x \<in> set xs \<Longrightarrow> f x = Some (g x)) \<Longrightarrow> those (map f xs) = Some (map g xs)"
  by (induction xs) auto

lemma as_strs_strs [simp]: "as_strs (pv_strs ss) = Some ss"
proof -
  have "those (map (as_str \<circ> PStr) ss) = Some (map (\<lambda>s. s) ss)" by (rule those_map_Some) simp
  then show ?thesis by (simp add: as_strs_def pv_strs_def)
qed

section \<open>The classes\<close>

record model_advert =
  ma_name :: pystr
  ma_quant :: pystr
  ma_ctx_len :: int
  ma_backend :: pystr
  ma_tags :: "pystr list"
  ma_tier :: pystr
  ma_param_count_b :: pyfloat
  ma_scope :: pystr
  ma_visible_networks :: "pystr list"
  ma_features :: "pystr list"
  ma_throughput_tok_s :: pyfloat
  ma_loaded_bytes :: int
  ma_deployment_id :: pystr
  ma_serving_group_id :: pystr
  ma_execution_roles :: "pystr list"
  ma_parallelism :: pdict

record hardware_info =
  hw_gpu :: pystr
  hw_vram_gb :: pyfloat
  hw_backend :: pystr
  hw_ram_gb :: pyfloat
  hw_available_memory_gb :: pyfloat
  hw_architecture :: pystr
  hw_device_class :: pystr
  hw_power_constrained :: bool
  hw_thermal_constrained :: bool
  hw_network_expensive :: bool
  hw_network_constrained :: bool

record advert =
  ad_models :: "model_advert list"
  ad_hardware :: hardware_info
  ad_max_concurrent :: int
  ad_est_tok_s :: pyfloat
  ad_role :: pystr
  ad_version :: pystr
  ad_network_ids :: "pystr list"

definition model_to_dict :: "model_advert \<Rightarrow> pdict" where
  "model_to_dict m =
     [(''name'', PStr (ma_name m)), (''quant'', PStr (ma_quant m)), (''ctx_len'', PInt (ma_ctx_len m)),
      (''backend'', PStr (ma_backend m))]
     @ emit (ma_tags m \<noteq> []) ''tags'' (pv_strs (ma_tags m))
     @ emit (ma_tier m \<noteq> []) ''tier'' (PStr (ma_tier m))
     @ emit (ma_param_count_b m > 0) ''param_count_b'' (PNum (ma_param_count_b m))
     @ emit (ma_scope m \<noteq> ''home'') ''scope'' (PStr (ma_scope m))
     @ emit (ma_visible_networks m \<noteq> []) ''visible_networks'' (pv_strs (ma_visible_networks m))
     @ emit (ma_features m \<noteq> []) ''features'' (pv_strs (ma_features m))
     @ emit (ma_throughput_tok_s m > 0) ''throughput_tok_s'' (PNum (ma_throughput_tok_s m))
     @ emit (ma_loaded_bytes m > 0) ''loaded_bytes'' (PInt (ma_loaded_bytes m))
     @ emit (ma_deployment_id m \<noteq> []) ''deployment_id'' (PStr (ma_deployment_id m))
     @ emit (ma_serving_group_id m \<noteq> []) ''serving_group_id'' (PStr (ma_serving_group_id m))
     @ emit (ma_execution_roles m \<noteq> []) ''execution_roles'' (pv_strs (ma_execution_roles m))
     @ emit (ma_parallelism m \<noteq> []) ''parallelism'' (PDict (ma_parallelism m))"

definition model_from_dict :: "pdict \<Rightarrow> model_advert option" where
  "model_from_dict d = do {
     name \<leftarrow> Option.bind (map_of d ''name'') as_str;
     quant \<leftarrow> dget as_str d ''quant'' [];
     ctx_len \<leftarrow> dget as_int d ''ctx_len'' 4096;
     backend \<leftarrow> dget as_str d ''backend'' ''llama.cpp'';
     tags \<leftarrow> dget as_strs d ''tags'' [];
     tier \<leftarrow> dget as_str d ''tier'' [];
     param_count_b \<leftarrow> dget as_num d ''param_count_b'' 0;
     scope \<leftarrow> dget as_str d ''scope'' ''home'';
     visible_networks \<leftarrow> dget as_strs d ''visible_networks'' [];
     features \<leftarrow> dget as_strs d ''features'' [];
     throughput_tok_s \<leftarrow> dget as_num d ''throughput_tok_s'' 0;
     loaded_bytes \<leftarrow> dget as_int d ''loaded_bytes'' 0;
     deployment_id \<leftarrow> dget as_str d ''deployment_id'' [];
     serving_group_id \<leftarrow> dget as_str d ''serving_group_id'' [];
     execution_roles \<leftarrow> dget as_strs d ''execution_roles'' [];
     parallelism \<leftarrow> dget as_dict d ''parallelism'' [];
     Some \<lparr>ma_name = name, ma_quant = quant, ma_ctx_len = ctx_len, ma_backend = backend, ma_tags = tags,
       ma_tier = tier, ma_param_count_b = param_count_b, ma_scope = scope, ma_visible_networks = visible_networks,
       ma_features = features, ma_throughput_tok_s = throughput_tok_s, ma_loaded_bytes = loaded_bytes,
       ma_deployment_id = deployment_id, ma_serving_group_id = serving_group_id,
       ma_execution_roles = execution_roles, ma_parallelism = parallelism\<rparr> }"

definition hardware_to_dict :: "hardware_info \<Rightarrow> pdict" where
  "hardware_to_dict h =
     [(''gpu'', PStr (hw_gpu h)), (''vram_gb'', PNum (hw_vram_gb h)), (''backend'', PStr (hw_backend h))]
     @ emit (hw_ram_gb h > 0) ''ram_gb'' (PNum (hw_ram_gb h))
     @ emit (hw_available_memory_gb h > 0) ''available_memory_gb'' (PNum (hw_available_memory_gb h))
     @ emit (hw_architecture h \<noteq> []) ''architecture'' (PStr (hw_architecture h))
     @ emit (hw_device_class h \<noteq> []) ''device_class'' (PStr (hw_device_class h))
     @ emit (hw_power_constrained h) ''power'' (PDict [(''constrained'', PBool True)])
     @ emit (hw_thermal_constrained h) ''thermal'' (PDict [(''constrained'', PBool True)])
     @ emit (hw_network_expensive h \<or> hw_network_constrained h) ''network''
         (PDict [(''expensive'', PBool (hw_network_expensive h)), (''constrained'', PBool (hw_network_constrained h))])"

definition hardware_from_dict :: "pdict \<Rightarrow> hardware_info option" where
  "hardware_from_dict d = do {
     power \<leftarrow> dget_dict d ''power'';
     thermal \<leftarrow> dget_dict d ''thermal'';
     network \<leftarrow> dget_dict d ''network'';
     gpu \<leftarrow> dget as_str d ''gpu'' ''none'';
     vram_gb \<leftarrow> dget as_num d ''vram_gb'' 0;
     backend \<leftarrow> dget as_str d ''backend'' ''cpu'';
     ram_gb \<leftarrow> dget as_num d ''ram_gb'' 0;
     available_memory_gb \<leftarrow> dget as_num d ''available_memory_gb'' 0;
     architecture \<leftarrow> dget as_str d ''architecture'' [];
     device_class \<leftarrow> dget as_str d ''device_class'' [];
     Some \<lparr>hw_gpu = gpu, hw_vram_gb = vram_gb, hw_backend = backend, hw_ram_gb = ram_gb,
       hw_available_memory_gb = available_memory_gb, hw_architecture = architecture, hw_device_class = device_class,
       hw_power_constrained = dget_bool power ''constrained'', hw_thermal_constrained = dget_bool thermal ''constrained'',
       hw_network_expensive = dget_bool network ''expensive'', hw_network_constrained = dget_bool network ''constrained''\<rparr> }"

definition is_constrained :: "hardware_info \<Rightarrow> bool" where
  "is_constrained h = (hw_power_constrained h \<or> hw_thermal_constrained h)"

definition advert_to_dict :: "advert \<Rightarrow> pdict" where
  "advert_to_dict a =
     [(''models'', PList (map (\<lambda>m. PDict (model_to_dict m)) (ad_models a))),
      (''hardware'', PDict (hardware_to_dict (ad_hardware a))),
      (''max_concurrent'', PInt (ad_max_concurrent a)), (''est_tok_s'', PNum (ad_est_tok_s a)),
      (''role'', PStr (ad_role a)), (''version'', PStr (ad_version a))]
     @ emit (ad_network_ids a \<noteq> []) ''network_ids'' (pv_strs (ad_network_ids a))"

definition advert_from_dict :: "pdict \<Rightarrow> advert option" where
  "advert_from_dict d = do {
     ms \<leftarrow> dget as_list d ''models'' [];
     models \<leftarrow> those (map (\<lambda>v. Option.bind (as_dict v) model_from_dict) ms);
     hd \<leftarrow> dget as_dict d ''hardware'' [];
     hardware \<leftarrow> hardware_from_dict hd;
     max_concurrent \<leftarrow> dget as_int d ''max_concurrent'' 2;
     est_tok_s \<leftarrow> dget as_num d ''est_tok_s'' 0;
     role \<leftarrow> dget as_str d ''role'' ''seeder'';
     version \<leftarrow> dget as_str d ''version'' ''0.1.0'';
     network_ids \<leftarrow> dget as_strs d ''network_ids'' [];
     Some \<lparr>ad_models = models, ad_hardware = hardware, ad_max_concurrent = max_concurrent, ad_est_tok_s = est_tok_s,
       ad_role = role, ad_version = version, ad_network_ids = network_ids\<rparr> }"

text \<open>\<open>can\<close> and \<open>is_grouped\<close> of a model; \<open>normalize_model_name\<close>; \<open>classify_tier\<close> with its last bound infinite.\<close>

definition model_can :: "model_advert \<Rightarrow> pystr \<Rightarrow> bool" where
  "model_can m role = (if ma_execution_roles m = [] then role = ''direct'' else role \<in> set (ma_execution_roles m))"

definition is_grouped :: "model_advert \<Rightarrow> bool" where
  "is_grouped m = (ma_serving_group_id m \<noteq> [])"

definition normalize_model_name :: "pystr \<Rightarrow> pystr" where
  "normalize_model_name name = (if name = [] then name else if py_startswith name ''relay:'' then drop 6 name else name)"

definition classify_tier :: "pyfloat \<Rightarrow> nat" where
  "classify_tier p = (if p \<le> 0 then 1 else if p \<le> 8 then 1 else if p \<le> 70 then 2 else 3)"

text \<open>What routing reads of an advertisement.\<close>

definition routing_model :: "model_advert \<Rightarrow> model_cap" where
  "routing_model m = \<lparr>mc_name = ma_name m, mc_backend = ma_backend m, mc_tags = ma_tags m, mc_tier = ma_tier m,
     mc_param_count_b = ma_param_count_b m, mc_scope = ma_scope m, mc_visible_networks = ma_visible_networks m\<rparr>"

definition routing_view :: "advert \<Rightarrow> capabilities" where
  "routing_view a = \<lparr>cap_models = map routing_model (ad_models a), cap_est_tok_s = ad_est_tok_s a\<rparr>"

section \<open>Round trip\<close>

text \<open>Sizes and speeds below zero are not emitted and come back as zero.\<close>

definition sane_model :: "model_advert \<Rightarrow> model_advert" where
  "sane_model m = m\<lparr>ma_param_count_b := max 0 (ma_param_count_b m), ma_throughput_tok_s := max 0 (ma_throughput_tok_s m),
     ma_loaded_bytes := max 0 (ma_loaded_bytes m)\<rparr>"

definition sane_hardware :: "hardware_info \<Rightarrow> hardware_info" where
  "sane_hardware h = h\<lparr>hw_ram_gb := max 0 (hw_ram_gb h), hw_available_memory_gb := max 0 (hw_available_memory_gb h)\<rparr>"

definition sane :: "advert \<Rightarrow> advert" where
  "sane a = a\<lparr>ad_models := map sane_model (ad_models a), ad_hardware := sane_hardware (ad_hardware a)\<rparr>"

lemma dget_emit: "dget f (emit c k v @ d) k' dflt = (if c \<and> k' = k then f v else dget f d k' dflt)"
  unfolding dget_def map_of_emit by simp

lemma dget_emit1: "dget f (emit c k v) k' dflt = (if c \<and> k' = k then f v else Some dflt)"
  by (simp add: dget_def map_of_emit1)

lemma dget_Cons: "dget f ((k, v) # d) k' dflt = (if k' = k then f v else dget f d k' dflt)"
  by (simp add: dget_def)

lemma dget_dict_emit: "dget_dict (emit c k v @ d) k' = (if c \<and> k' = k then if truthy v then as_dict v else Some [] else dget_dict d k')"
  unfolding dget_dict_def map_of_emit by simp

lemma dget_dict_emit1: "dget_dict (emit c k v) k' = (if c \<and> k' = k then if truthy v then as_dict v else Some [] else Some [])"
  by (simp add: dget_dict_def map_of_emit1)

lemma dget_dict_Cons: "dget_dict ((k, v) # d) k' = (if k' = k then if truthy v then as_dict v else Some [] else dget_dict d k')"
  by (simp add: dget_dict_def)

lemmas dict_reads = dget_emit dget_emit1 dget_Cons dget_dict_emit dget_dict_emit1 dget_dict_Cons

lemma model_reads:
  "map_of (model_to_dict m) ''name'' = Some (PStr (ma_name m))"
  "dget as_str (model_to_dict m) ''quant'' [] = Some (ma_quant m)"
  "dget as_int (model_to_dict m) ''ctx_len'' 4096 = Some (ma_ctx_len m)"
  "dget as_str (model_to_dict m) ''backend'' ''llama.cpp'' = Some (ma_backend m)"
  "dget as_strs (model_to_dict m) ''tags'' [] = Some (ma_tags m)"
  "dget as_str (model_to_dict m) ''tier'' [] = Some (ma_tier m)"
  "dget as_num (model_to_dict m) ''param_count_b'' 0 = Some (max 0 (ma_param_count_b m))"
  "dget as_str (model_to_dict m) ''scope'' ''home'' = Some (ma_scope m)"
  "dget as_strs (model_to_dict m) ''visible_networks'' [] = Some (ma_visible_networks m)"
  "dget as_strs (model_to_dict m) ''features'' [] = Some (ma_features m)"
  "dget as_num (model_to_dict m) ''throughput_tok_s'' 0 = Some (max 0 (ma_throughput_tok_s m))"
  "dget as_int (model_to_dict m) ''loaded_bytes'' 0 = Some (max 0 (ma_loaded_bytes m))"
  "dget as_str (model_to_dict m) ''deployment_id'' [] = Some (ma_deployment_id m)"
  "dget as_str (model_to_dict m) ''serving_group_id'' [] = Some (ma_serving_group_id m)"
  "dget as_strs (model_to_dict m) ''execution_roles'' [] = Some (ma_execution_roles m)"
  "dget as_dict (model_to_dict m) ''parallelism'' [] = Some (ma_parallelism m)"
  unfolding model_to_dict_def append_Cons append_Nil
  by (simp_all only: dict_reads map_of.simps) (simp_all add: max_def)

lemma model_roundtrip: "model_from_dict (model_to_dict m) = Some (sane_model m)"
  unfolding model_from_dict_def model_reads by (simp add: sane_model_def)

lemma hardware_reads:
  "dget_dict (hardware_to_dict h) ''power'' = Some (if hw_power_constrained h then [(''constrained'', PBool True)] else [])"
  "dget_dict (hardware_to_dict h) ''thermal'' = Some (if hw_thermal_constrained h then [(''constrained'', PBool True)] else [])"
  "dget_dict (hardware_to_dict h) ''network'' = Some (if hw_network_expensive h \<or> hw_network_constrained h
     then [(''expensive'', PBool (hw_network_expensive h)), (''constrained'', PBool (hw_network_constrained h))] else [])"
  "dget as_str (hardware_to_dict h) ''gpu'' ''none'' = Some (hw_gpu h)"
  "dget as_num (hardware_to_dict h) ''vram_gb'' 0 = Some (hw_vram_gb h)"
  "dget as_str (hardware_to_dict h) ''backend'' ''cpu'' = Some (hw_backend h)"
  "dget as_num (hardware_to_dict h) ''ram_gb'' 0 = Some (max 0 (hw_ram_gb h))"
  "dget as_num (hardware_to_dict h) ''available_memory_gb'' 0 = Some (max 0 (hw_available_memory_gb h))"
  "dget as_str (hardware_to_dict h) ''architecture'' [] = Some (hw_architecture h)"
  "dget as_str (hardware_to_dict h) ''device_class'' [] = Some (hw_device_class h)"
  unfolding hardware_to_dict_def append_Cons append_Nil
  by (simp_all only: dict_reads) (simp_all add: max_def truthy_def)

lemma hardware_roundtrip: "hardware_from_dict (hardware_to_dict h) = Some (sane_hardware h)"
  unfolding hardware_from_dict_def hardware_reads
  by (simp add: sane_hardware_def dget_bool_def truthy_def)

lemma advert_read_back: "advert_from_dict (advert_to_dict a) = Some (sane a)"
proof -
  have ms: "those (map (\<lambda>v. Option.bind (as_dict v) model_from_dict) (map (\<lambda>m. PDict (model_to_dict m)) (ad_models a)))
      = Some (map sane_model (ad_models a))"
    unfolding map_map by (rule those_map_Some) (simp add: model_roundtrip)
  have r: "dget as_list (advert_to_dict a) ''models'' [] = Some (map (\<lambda>m. PDict (model_to_dict m)) (ad_models a))"
    "dget as_dict (advert_to_dict a) ''hardware'' [] = Some (hardware_to_dict (ad_hardware a))"
    "dget as_int (advert_to_dict a) ''max_concurrent'' 2 = Some (ad_max_concurrent a)"
    "dget as_num (advert_to_dict a) ''est_tok_s'' 0 = Some (ad_est_tok_s a)"
    "dget as_str (advert_to_dict a) ''role'' ''seeder'' = Some (ad_role a)"
    "dget as_str (advert_to_dict a) ''version'' ''0.1.0'' = Some (ad_version a)"
    "dget as_strs (advert_to_dict a) ''network_ids'' [] = Some (ad_network_ids a)"
    unfolding advert_to_dict_def append_Cons append_Nil by (simp_all only: dict_reads) simp_all
  show ?thesis
    unfolding advert_from_dict_def r by (simp add: ms hardware_roundtrip sane_def del: map_map)
qed

text \<open>
  C13: an advertisement survives the wire. What a node announces is what its peers read back, field by
  field, except that a negative size or speed, which is never sent, is read as zero; and a model without
  any optional field set is announced with the four keys of the first protocol version only.
\<close>

theorem advert_roundtrip:
  "advert_from_dict (advert_to_dict a) = Some (sane a)
   \<and> model_to_dict \<lparr>ma_name = n, ma_quant = q, ma_ctx_len = c, ma_backend = b, ma_tags = [], ma_tier = [],
        ma_param_count_b = 0, ma_scope = ''home'', ma_visible_networks = [], ma_features = [], ma_throughput_tok_s = 0,
        ma_loaded_bytes = 0, ma_deployment_id = [], ma_serving_group_id = [], ma_execution_roles = [], ma_parallelism = []\<rparr>
      = [(''name'', PStr n), (''quant'', PStr q), (''ctx_len'', PInt c), (''backend'', PStr b)]"
  by (simp add: advert_read_back model_to_dict_def emit_def)

end
