(* ===== verification/Wire.thy ===== *)
theory Wire
  imports Prelude "HOL-Library.Word" "HOL-Library.Countable"
begin

text \<open>
  Messages on the wire: the envelope of \<open>src/mycellm/protocol/envelope.py\<close> and the streams of
  \<open>transport/quic.py\<close> that carry it. CBOR and zlib are parameters. Bytes are 8-bit words.
\<close>

type_synonym octets = "8 word list"

section \<open>Envelopes\<close>

datatype message_type = NODE_HELLO | NODE_HELLO_ACK | PEER_ANNOUNCE | PEER_QUERY | PEER_RESPONSE
  | INFERENCE_REQ | INFERENCE_RESP | INFERENCE_STREAM | INFERENCE_DONE | PING | PONG | CREDIT_RECEIPT
  | INFERENCE_RELAY | PEER_EXCHANGE | FLEET_COMMAND | FLEET_RESPONSE | PUNCH_REQUEST | PUNCH_INITIATE
  | PUNCH_RESPONSE | PUNCH_RESULT | DHT_QUERY | DHT_RESPONSE | TRAIN_ROUND | TRAIN_UPDATE | TRAIN_RESULT
  | ERROR

definition message_types :: "(message_type \<times> pystr) list" where
  "message_types = [(NODE_HELLO, ''node_hello''), (NODE_HELLO_ACK, ''node_hello_ack''),
     (PEER_ANNOUNCE, ''peer_announce''), (PEER_QUERY, ''peer_query''), (PEER_RESPONSE, ''peer_response''),
     (INFERENCE_REQ, ''inference_req''), (INFERENCE_RESP, ''inference_resp''), (INFERENCE_STREAM, ''inference_stream''),
     (INFERENCE_DONE, ''inference_done''), (PING, ''ping''), (PONG, ''pong''), (CREDIT_RECEIPT, ''credit_receipt''),
     (INFERENCE_RELAY, ''inference_relay''), (PEER_EXCHANGE, ''peer_exchange''), (FLEET_COMMAND, ''fleet_command''),
     (FLEET_RESPONSE, ''fleet_response''), (PUNCH_REQUEST, ''punch_request''), (PUNCH_INITIATE, ''punch_initiate''),
     (PUNCH_RESPONSE, ''punch_response''), (PUNCH_RESULT, ''punch_result''), (DHT_QUERY, ''dht_query''),
     (DHT_RESPONSE, ''dht_response''), (TRAIN_ROUND, ''train_round''), (TRAIN_UPDATE, ''train_update''),
     (TRAIN_RESULT, ''train_result''), (ERROR, ''error'')]"

definition type_value :: "message_type \<Rightarrow> pystr" where
  "type_value t = the (map_of message_types t)"

text \<open>\<open>MessageType(s)\<close>, which raises for an unknown value.\<close>

definition message_type_of :: "pystr \<Rightarrow> message_type option" where
  "message_type_of s = map_option fst (find (\<lambda>(t, v). v = s) message_types)"

record 'p envelope =
  en_v :: int
  en_type :: message_type
  en_id :: pystr
  en_ts :: pyfloat
  en_from :: pystr
  en_payload :: 'p

text \<open>
  The six-key map CBOR carries. \<open>cd_loads\<close> is \<open>None\<close> where \<open>loads\<close> raises or the six keys are not all there;
  \<open>cd_decompress\<close> is \<open>None\<close> where zlib raises.
\<close>

type_synonym 'p wire_map = "int \<times> pystr \<times> pystr \<times> pyfloat \<times> pystr \<times> 'p"

record 'p codec =
  cd_dumps :: "'p wire_map \<Rightarrow> octets"
  cd_loads :: "octets \<Rightarrow> 'p wire_map option"
  cd_compress :: "octets \<Rightarrow> octets"
  cd_decompress :: "octets \<Rightarrow> octets option"

definition COMPRESS_THRESHOLD :: nat where "COMPRESS_THRESHOLD = 1024"

definition to_cbor :: "'p codec \<Rightarrow> 'p envelope \<Rightarrow> octets" where
  "to_cbor C e =
     (let raw = cd_dumps C (en_v e, type_value (en_type e), en_id e, en_ts e, en_from e, en_payload e);
          compressed = cd_compress C raw
      in if length raw \<ge> COMPRESS_THRESHOLD \<and> length compressed < length raw - 16
         then 1 # compressed else 0 # raw)"

datatype wire_error = Empty_message | Bad_data | Frame_too_large nat

definition from_cbor :: "'p codec \<Rightarrow> octets \<Rightarrow> wire_error + 'p envelope" where
  "from_cbor C data = (case data of
     [] \<Rightarrow> Inl Empty_message
   | b # rest \<Rightarrow>
       (case (if b = 1 then cd_decompress C rest else if b = 0 then Some rest else Some data) of
          None \<Rightarrow> Inl Bad_data
        | Some body \<Rightarrow> (case cd_loads C body of
            None \<Rightarrow> Inl Bad_data
          | Some (v, t, i, ts, from, payload) \<Rightarrow> (case message_type_of t of
              None \<Rightarrow> Inl Bad_data
            | Some ty \<Rightarrow> Inr \<lparr>en_v = v, en_type = ty, en_id = i, en_ts = ts, en_from = from, en_payload = payload\<rparr>))))"

section \<open>Frames\<close>

text \<open>\<open>n.to_bytes(4, "big")\<close>, which raises from \<open>2 ^ 32\<close> on, and \<open>int.from_bytes(b, "big")\<close>.\<close>

definition to_be32 :: "nat \<Rightarrow> octets option" where
  "to_be32 n = (if n < 2 ^ 32 then Some (map (\<lambda>k. word_of_nat (n div 256 ^ k)) [3, 2, 1, 0]) else None)"

definition from_be :: "octets \<Rightarrow> nat" where
  "from_be bs = foldl (\<lambda>n b. 256 * n + unat b) 0 bs"

definition MAX_FRAME :: nat where "MAX_FRAME = 10 * 1024 * 1024"

definition to_framed :: "'p codec \<Rightarrow> 'p envelope \<Rightarrow> octets option" where
  "to_framed C e = (let payload = to_cbor C e in map_option (\<lambda>h. h @ payload) (to_be32 (length payload)))"

definition read_frame :: "'p codec \<Rightarrow> octets \<Rightarrow> wire_error + ('p envelope option \<times> octets)" where
  "read_frame C data =
     (if length data < 4 then Inr (None, data)
      else let n = from_be (take 4 data) in
        if n > MAX_FRAME then Inl (Frame_too_large n)
        else if length data < 4 + n then Inr (None, data)
        else (case from_cbor C (take n (drop 4 data)) of
                Inl e \<Rightarrow> Inl e | Inr m \<Rightarrow> Inr (Some m, drop (4 + n) data)))"

section \<open>Streams\<close>

text \<open>\<open>_dispatch_message\<close>: what does not parse is logged and dropped.\<close>

definition dispatch_message :: "'p codec \<Rightarrow> octets \<Rightarrow> 'p envelope list" where
  "dispatch_message C data = (case from_cbor C data of Inl _ \<Rightarrow> [] | Inr m \<Rightarrow> [m])"

text \<open>The loop of \<open>_try_framed_dispatch\<close>; \<open>None\<close> is its early return, which leaves the stored buffer as it was.\<close>

function drain :: "'p codec \<Rightarrow> octets \<Rightarrow> 'p envelope list \<times> octets option" where
  "drain C buf =
     (if length buf < 4 then ([], Some buf)
      else let n = from_be (take 4 buf) in
        if n > MAX_FRAME then ([], None)
        else if length buf < 4 + n then ([], Some buf)
        else let (ms, rest) = drain C (drop (4 + n) buf)
             in (dispatch_message C (take n (drop 4 buf)) @ ms, rest))"
  by pat_completeness auto

termination by (relation "measure (\<lambda>(C, buf). length buf)") auto

declare drain.simps [simp del]

definition try_framed_dispatch :: "'p codec \<Rightarrow> nat \<Rightarrow> (nat, octets) dict \<Rightarrow> 'p envelope list \<times> (nat, octets) dict" where
  "try_framed_dispatch C sid bufs =
     (let (ms, rest) = drain C (dict_get bufs sid [])
      in (ms, case rest of Some b \<Rightarrow> dict_set bufs sid b | None \<Rightarrow> bufs))"

text \<open>\<open>StreamDataReceived\<close>: the messages parsed, in order, and the buffers after it.\<close>

definition stream_data :: "'p codec \<Rightarrow> nat \<Rightarrow> octets \<Rightarrow> bool \<Rightarrow> (nat, octets) dict \<Rightarrow> 'p envelope list \<times> (nat, octets) dict" where
  "stream_data C sid data end_stream bufs =
     (let buf = dict_get bufs sid [] @ data in
      if length buf > 10 * 1024 * 1024 then ([], dict_pop bufs sid)
      else let bufs1 = dict_set bufs sid buf in
        if end_stream then
          (let (ms, bufs2) = (if sid mod 4 \<le> 1 then try_framed_dispatch C sid bufs1 else ([], bufs1));
               leftover = dict_get bufs2 sid [];
               more = (if leftover \<noteq> [] then dispatch_message C leftover else [])
           in (ms @ more, dict_pop bufs2 sid))
        else if sid mod 4 \<le> 1 then try_framed_dispatch C sid bufs1
        else ([], bufs1))"

text \<open>
  \<open>_dispatch_single\<close>: an answer to a pending request settles its future once; anything else goes to the
  handler, which is set before any data arrives. \<open>_response_futures\<close> holds the outcome, if any.
\<close>

datatype 'p delivery = To_future pystr "'p envelope" | To_handler nat "'p envelope"

record 'p quic =
  qu_buffers :: "(nat, octets) dict"
  qu_futures :: "(pystr, 'p envelope option) dict"
  qu_closed :: bool

definition dispatch_single :: "nat \<Rightarrow> 'p envelope \<Rightarrow> 'p quic \<Rightarrow> 'p delivery list \<times> 'p quic" where
  "dispatch_single sid m q = (case map_of (qu_futures q) (en_id m) of
     Some None \<Rightarrow> ([To_future (en_id m) m], q\<lparr>qu_futures := dict_set (qu_futures q) (en_id m) (Some m)\<rparr>)
   | _ \<Rightarrow> ([To_handler sid m], q))"

fun dispatch_all :: "nat \<Rightarrow> 'p envelope list \<Rightarrow> 'p quic \<Rightarrow> 'p delivery list \<times> 'p quic" where
  "dispatch_all sid [] q = ([], q)"
| "dispatch_all sid (m # ms) q =
     (let (ds, q1) = dispatch_single sid m q; (ds', q2) = dispatch_all sid ms q1 in (ds @ ds', q2))"

definition on_stream_data :: "'p codec \<Rightarrow> nat \<Rightarrow> octets \<Rightarrow> bool \<Rightarrow> 'p quic \<Rightarrow> 'p delivery list \<times> 'p quic" where
  "on_stream_data C sid data end_stream q =
     (let (ms, bufs) = stream_data C sid data end_stream (qu_buffers q)
      in dispatch_all sid ms (q\<lparr>qu_buffers := bufs\<rparr>))"

definition on_terminated :: "'p quic \<Rightarrow> 'p quic" where
  "on_terminated q = q\<lparr>qu_closed := True, qu_futures := []\<rparr>"

section \<open>Codec laws\<close>

text \<open>
  What the code relies on: reading back what was written, and the first bytes of what is written. A
  six-key map starts with \<open>0xA6\<close> and its first key, "v", is \<open>0x61 0x76\<close>; a zlib stream of the fastest
  level starts with \<open>0x78 0x01\<close>.
\<close>

definition codec_ok :: "'p codec \<Rightarrow> bool" where
  "codec_ok C \<longleftrightarrow> (\<forall>x. cd_loads C (cd_dumps C x) = Some x \<and> (\<exists>r. cd_dumps C x = 0xA6 # 0x61 # 0x76 # r \<and> r \<noteq> []))
     \<and> (\<forall>b. cd_decompress C (cd_compress C b) = Some b \<and> (\<exists>r. cd_compress C b = 0x78 # 0x01 # r \<and> r \<noteq> []))"

lemma message_type_roundtrip: "message_type_of (type_value t) = Some t"
  by (cases t) (simp_all add: message_type_of_def type_value_def message_types_def)

lemma from_to_cbor: "codec_ok C \<Longrightarrow> from_cbor C (to_cbor C e) = Inr e"
  unfolding codec_ok_def from_cbor_def to_cbor_def Let_def
  by (simp add: message_type_roundtrip)

lemma to_cbor_head:
  assumes "codec_ok C"
  obtains b c d r where "to_cbor C e = b # c # d # r" "r \<noteq> []" "MAX_FRAME < from_be (take 4 (to_cbor C e))"
proof -
  let ?x = "(en_v e, type_value (en_type e), en_id e, en_ts e, en_from e, en_payload e)"
  obtain r where r: "cd_dumps C ?x = 0xA6 # 0x61 # 0x76 # r" "r \<noteq> []" using assms by (metis codec_ok_def)
  obtain s where s: "cd_compress C (cd_dumps C ?x) = 0x78 # 0x01 # s" "s \<noteq> []" using assms by (metis codec_ok_def)
  consider "to_cbor C e = 0 # 0xA6 # 0x61 # 0x76 # r" | "to_cbor C e = 1 # 0x78 # 0x01 # s"
    by (simp add: to_cbor_def Let_def r(1) s(1) split: if_splits) (metis r(1) s(1))
  then show thesis
  proof cases
    case 1
    then show ?thesis by (intro that) (auto simp: from_be_def MAX_FRAME_def)
  next
    case 2
    then show ?thesis using s(2) by (cases s) (auto intro!: that simp: from_be_def MAX_FRAME_def)
  qed
qed

lemma from_to_be32: "to_be32 n = Some h \<Longrightarrow> length h = 4 \<and> from_be h = n"
proof -
  assume a: "to_be32 n = Some h"
  then have n: "n < 2 ^ 32" and h: "h = map (\<lambda>k. word_of_nat (n div 256 ^ k)) [3, 2, 1, 0]"
    by (auto simp: to_be32_def split: if_splits)
  have u: "unat (word_of_nat k :: 8 word) = k mod 256" for k by (simp add: unat_of_nat)
  have "from_be h = 256 * (256 * (256 * (n div 256 ^ 3 mod 256) + n div 256 ^ 2 mod 256) + n div 256 mod 256) + n mod 256"
    by (simp add: h from_be_def u)
  also have "\<dots> = n"
  proof -
    define a where "a = n div 256"
    define b where "b = a div 256"
    define c where "c = b div 256"
    have d: "n div 256 ^ 2 = b" "n div 256 ^ 3 = c" by (simp_all add: a_def b_def c_def div_mult2_eq [symmetric])
    have "c mod 256 = c" using n by (simp add: a_def b_def c_def div_mult2_eq [symmetric] less_mult_imp_div_less)
    moreover have "256 * c + b mod 256 = b" "256 * b + a mod 256 = a" "256 * a + n mod 256 = n"
      by (simp_all add: a_def b_def c_def)
    ultimately show ?thesis unfolding d a_def [symmetric] by simp
  qed
  finally show ?thesis by (simp add: h)
qed

section \<open>Reassembly\<close>

text \<open>What the loop takes off a prefix of the stream it also takes off the whole.\<close>

lemma drain_append:
  "drain C (b @ d) = (case drain C b of
     (ms, Some rest) \<Rightarrow> (let (ms', r) = drain C (rest @ d) in (ms @ ms', r))
   | (ms, None) \<Rightarrow> (ms, None))"
proof (induction C b rule: drain.induct)
  case (1 C buf)
  let ?n = "from_be (take 4 buf)"
  show ?case
  proof (cases "length buf < 4")
    case True
    then show ?thesis by (simp add: drain.simps [of C buf])
  next
    case ge: False
    then have t: "take 4 (buf @ d) = take 4 buf" by simp
    consider "?n > MAX_FRAME" | "\<not> ?n > MAX_FRAME" "length buf < 4 + ?n" | "\<not> ?n > MAX_FRAME" "\<not> length buf < 4 + ?n" by blast
    then show ?thesis
    proof cases
      case 1
      then show ?thesis using ge t by (simp add: drain.simps [of C buf] drain.simps [of C "buf @ d"] Let_def)
    next
      case 2
      then show ?thesis using ge by (simp add: drain.simps [of C buf] Let_def)
    next
      case 3
      have IH: "drain C (drop (4 + ?n) buf @ d) = (case drain C (drop (4 + ?n) buf) of
          (ms, Some rest) \<Rightarrow> (let (ms', r) = drain C (rest @ d) in (ms @ ms', r)) | (ms, None) \<Rightarrow> (ms, None))"
        using "1.IH" [OF ge refl 3] .
      have l: "drain C buf = (let (ms, rest) = drain C (drop (4 + ?n) buf)
          in (dispatch_message C (take ?n (drop 4 buf)) @ ms, rest))"
        using ge 3 by (subst drain.simps) (simp add: Let_def)
      have r: "drain C (buf @ d) = (let (ms, rest) = drain C (drop (4 + ?n) buf @ d)
          in (dispatch_message C (take ?n (drop 4 buf)) @ ms, rest))"
        using ge 3 t by (subst drain.simps) (simp add: Let_def)
      show ?thesis unfolding l r IH by (simp split: prod.split option.split)
    qed
  qed
qed

lemma drain_framed:
  assumes "codec_ok C" "to_framed C m = Some f" "length f \<le> MAX_FRAME"
  shows "drain C (f @ d) = (let (ms, r) = drain C d in (m # ms, r))"
proof -
  obtain h where h: "to_be32 (length (to_cbor C m)) = Some h" "f = h @ to_cbor C m"
    using assms(2) by (auto simp: to_framed_def Let_def)
  note hd = from_to_be32 [OF h(1)]
  have "take 4 (f @ d) = h" "drop (4 + length (to_cbor C m)) (f @ d) = d" "take (length (to_cbor C m)) (drop 4 (f @ d)) = to_cbor C m"
    using hd h(2) by simp_all
  then show ?thesis using hd assms(3) h(2)
    by (subst drain.simps) (simp add: Let_def dispatch_message_def from_to_cbor [OF assms(1)])
qed

lemma drain_frames:
  assumes "codec_ok C" "those (map (to_framed C) ms) = Some fs" "length (concat fs) \<le> MAX_FRAME"
  shows "drain C (concat fs) = (ms, Some [])"
  using assms(2,3)
proof (induction ms arbitrary: fs)
  case Nil
  then show ?case by (simp add: drain.simps)
next
  case (Cons m ms)
  then obtain f gs where f: "to_framed C m = Some f" "those (map (to_framed C) ms) = Some gs" "fs = f # gs"
    by (auto split: option.splits)
  then show ?case using Cons.IH [OF f(2)] Cons.prems(2) by (simp add: drain_framed [OF assms(1) f(1)])
qed

text \<open>The events of one stream: chunks of data, the last one with the end of the stream.\<close>

fun run_stream :: "'p codec \<Rightarrow> nat \<Rightarrow> octets list \<Rightarrow> octets \<Rightarrow> (nat, octets) dict \<Rightarrow> 'p envelope list \<times> (nat, octets) dict" where
  "run_stream C sid [] fin bufs = stream_data C sid fin True bufs"
| "run_stream C sid (c # cs) fin bufs =
     (let (ms, bufs1) = stream_data C sid c False bufs; (ms', bufs2) = run_stream C sid cs fin bufs1 in (ms @ ms', bufs2))"

lemma dict_get_set [simp]: "dict_get (dict_set d k v) k' w = (if k' = k then v else dict_get d k' w)"
  by (simp add: dict_get_def)

lemma drain_shrinks: "drain C b = (ms, Some rest) \<Longrightarrow> length rest \<le> length b"
proof (induction C b arbitrary: ms rest rule: drain.induct)
  case (1 C buf)
  let ?n = "from_be (take 4 buf)"
  show ?case
  proof (cases "length buf < 4 \<or> ?n > MAX_FRAME \<or> length buf < 4 + ?n")
    case True
    then show ?thesis using "1.prems" by (subst (asm) drain.simps) (auto simp: Let_def split: if_splits)
  next
    case False
    then have c: "\<not> length buf < 4" "\<not> ?n > MAX_FRAME" "\<not> length buf < 4 + ?n" by auto
    obtain ms' where "drain C (drop (4 + ?n) buf) = (ms', Some rest)"
      using "1.prems" c by (subst (asm) drain.simps) (auto simp: Let_def split: prod.splits)
    then have "length rest \<le> length (drop (4 + ?n) buf)" using "1.IH" [OF c(1) refl c(2,3)] by blast
    then show ?thesis by simp
  qed
qed

lemma data_framed:
  assumes "sid mod 4 \<le> 1" "drain C (dict_get bufs sid [] @ c) = (ms, Some rest)" "length (dict_get bufs sid [] @ c) \<le> MAX_FRAME"
  shows "\<exists>bufs'. stream_data C sid c False bufs = (ms, bufs') \<and> dict_get bufs' sid [] = rest
    \<and> (\<forall>s. s \<noteq> sid \<longrightarrow> map_of bufs' s = map_of bufs s)"
  using assms by (simp add: stream_data_def try_framed_dispatch_def Let_def MAX_FRAME_def)

lemma fin_framed:
  assumes "sid mod 4 \<le> 1" "drain C (dict_get bufs sid [] @ c) = (ms, Some [])" "length (dict_get bufs sid [] @ c) \<le> MAX_FRAME"
  shows "\<exists>bufs'. stream_data C sid c True bufs = (ms, bufs') \<and> map_of bufs' = (map_of bufs)(sid := None)"
  using assms by (simp add: stream_data_def try_framed_dispatch_def Let_def MAX_FRAME_def)

lemma run_framed:
  assumes "sid mod 4 \<le> 1" "drain C (dict_get bufs sid [] @ concat cs @ fin) = (ms, Some [])"
    "length (dict_get bufs sid [] @ concat cs @ fin) \<le> MAX_FRAME"
  shows "\<exists>bufs'. run_stream C sid cs fin bufs = (ms, bufs') \<and> map_of bufs' = (map_of bufs)(sid := None)"
  using assms
proof (induction cs arbitrary: bufs ms)
  case Nil
  then show ?case using fin_framed [of sid C bufs fin ms] by (simp only: run_stream.simps concat.simps append_Nil)
next
  case (Cons c cs)
  let ?buf = "dict_get bufs sid [] @ c"
  have split: "drain C (?buf @ concat cs @ fin) = (ms, Some [])" using Cons.prems(2) by simp
  obtain ms1 rest where d: "drain C ?buf = (ms1, Some rest)"
    using split drain_append [of C ?buf "concat cs @ fin"] by (auto split: prod.splits option.splits)
  obtain ms2 where d2: "drain C (rest @ concat cs @ fin) = (ms2, Some [])" "ms = ms1 @ ms2"
    using split drain_append [of C ?buf "concat cs @ fin"] d by (auto split: prod.splits)
  have len: "length ?buf \<le> MAX_FRAME" "length (rest @ concat cs @ fin) \<le> MAX_FRAME"
    using Cons.prems(3) drain_shrinks [OF d] by simp_all
  obtain bufs1 where b: "stream_data C sid c False bufs = (ms1, bufs1)" "dict_get bufs1 sid [] = rest"
    "\<forall>s. s \<noteq> sid \<longrightarrow> map_of bufs1 s = map_of bufs s"
    using data_framed [OF Cons.prems(1) d len(1)] by blast
  obtain bufs' where "run_stream C sid cs fin bufs1 = (ms2, bufs')" "map_of bufs' = (map_of bufs1)(sid := None)"
    using Cons.IH [OF Cons.prems(1), of bufs1 ms2] d2(1) len(2) unfolding b(2) by blast
  moreover have "(map_of bufs1)(sid := None) = (map_of bufs)(sid := None)" using b(3) by auto
  ultimately have "run_stream C sid (c # cs) fin bufs = (ms, bufs')" "map_of bufs' = (map_of bufs)(sid := None)"
    using b(1) d2(2) by simp_all
  then show ?case by blast
qed

text \<open>A single unframed message: until the end nothing is taken off the buffer.\<close>

lemma drain_prefix_unframed:
  assumes "codec_ok C" "to_cbor C m = p @ q"
  shows "\<exists>rest. drain C p = ([], rest) \<and> (rest = None \<or> rest = Some p)"
proof (cases "length p < 4")
  case True
  then show ?thesis by (simp add: drain.simps)
next
  case False
  then have "take 4 (to_cbor C m) = take 4 p" using assms(2) by simp
  then have "from_be (take 4 p) > MAX_FRAME" using to_cbor_head [OF assms(1), of m] by metis
  then show ?thesis using False by (subst drain.simps) (simp add: Let_def)
qed

lemma data_unframed:
  assumes "codec_ok C" "to_cbor C m = dict_get bufs sid [] @ c @ q" "length (dict_get bufs sid [] @ c) \<le> MAX_FRAME"
  shows "\<exists>bufs'. stream_data C sid c False bufs = ([], bufs') \<and> dict_get bufs' sid [] = dict_get bufs sid [] @ c
    \<and> (\<forall>s. s \<noteq> sid \<longrightarrow> map_of bufs' s = map_of bufs s)"
proof -
  obtain rest where d: "drain C (dict_get bufs sid [] @ c) = ([], rest)" "rest = None \<or> rest = Some (dict_get bufs sid [] @ c)"
    using drain_prefix_unframed [OF assms(1), of m "dict_get bufs sid [] @ c" q] assms(2) by auto
  then show ?thesis using assms(3)
    by (auto simp: stream_data_def try_framed_dispatch_def Let_def MAX_FRAME_def)
qed

lemma fin_unframed:
  assumes "codec_ok C" "to_cbor C m = dict_get bufs sid [] @ c" "length (to_cbor C m) \<le> MAX_FRAME"
  shows "\<exists>bufs'. stream_data C sid c True bufs = ([m], bufs') \<and> map_of bufs' = (map_of bufs)(sid := None)"
proof -
  obtain rest where d: "drain C (to_cbor C m) = ([], rest)" "rest = None \<or> rest = Some (to_cbor C m)"
    using drain_prefix_unframed [OF assms(1), of m "to_cbor C m" "[]"] by auto
  have "to_cbor C m \<noteq> []" using to_cbor_head [OF assms(1), of m] by (metis list.distinct(1))
  moreover have "dispatch_message C (to_cbor C m) = [m]" by (simp add: dispatch_message_def from_to_cbor [OF assms(1)])
  ultimately show ?thesis using d assms(3) unfolding assms(2) [symmetric]
    by (auto simp: stream_data_def assms(2) [symmetric] try_framed_dispatch_def Let_def MAX_FRAME_def)
qed

lemma run_unframed:
  assumes "codec_ok C" "to_cbor C m = dict_get bufs sid [] @ concat cs @ fin" "length (to_cbor C m) \<le> MAX_FRAME"
  shows "\<exists>bufs'. run_stream C sid cs fin bufs = ([m], bufs') \<and> map_of bufs' = (map_of bufs)(sid := None)"
  using assms
proof (induction cs arbitrary: bufs)
  case Nil
  then show ?case using fin_unframed [of C m bufs sid fin] by (simp only: run_stream.simps concat.simps append_Nil)
next
  case (Cons c cs)
  have e: "to_cbor C m = dict_get bufs sid [] @ c @ concat cs @ fin" using Cons.prems(2) by simp
  have len: "length (dict_get bufs sid [] @ c) \<le> MAX_FRAME" using Cons.prems(3) unfolding e by simp
  obtain bufs1 where b: "stream_data C sid c False bufs = ([], bufs1)" "dict_get bufs1 sid [] = dict_get bufs sid [] @ c"
    "\<forall>s. s \<noteq> sid \<longrightarrow> map_of bufs1 s = map_of bufs s"
    using data_unframed [OF Cons.prems(1) e len] by blast
  have "to_cbor C m = dict_get bufs1 sid [] @ concat cs @ fin" by (simp add: e b(2))
  then obtain bufs' where "run_stream C sid cs fin bufs1 = ([m], bufs')" "map_of bufs' = (map_of bufs1)(sid := None)"
    using Cons.IH [OF Cons.prems(1) _ Cons.prems(3), of bufs1] by blast
  moreover have "(map_of bufs1)(sid := None) = (map_of bufs)(sid := None)" using b(3) by auto
  ultimately have "run_stream C sid (c # cs) fin bufs = ([m], bufs')" "map_of bufs' = (map_of bufs)(sid := None)"
    using b(1) by simp_all
  then show ?case by blast
qed

text \<open>
  C12: streams reassemble, however the network cuts them. On a bidirectional stream, a sequence of framed
  messages within the 10 MB limit is delivered in order, each once, by whatever chunks it arrives in and
  whether or not the end comes with the last; and a single unframed message is delivered, once, on any
  stream: its first bytes are never taken for the length of a frame. Afterwards the stream holds no
  buffer and the other streams are as they were.
\<close>

theorem streams_reassemble:
  assumes "codec_ok C" "map_of bufs sid = None"
  shows "(sid mod 4 \<le> 1 \<and> those (map (to_framed C) ms) = Some fs \<and> concat cs @ fin = concat fs \<and> length (concat fs) \<le> MAX_FRAME
      \<longrightarrow> (\<exists>bufs'. run_stream C sid cs fin bufs = (ms, bufs') \<and> map_of bufs' = map_of bufs))
    \<and> (concat cs @ fin = to_cbor C m \<and> length (to_cbor C m) \<le> MAX_FRAME
      \<longrightarrow> (\<exists>bufs'. run_stream C sid cs fin bufs = ([m], bufs') \<and> map_of bufs' = map_of bufs))"
proof -
  have g: "dict_get bufs sid [] = []" "(map_of bufs)(sid := None) = map_of bufs"
    using assms(2) by (auto simp: dict_get_def)
  have "\<exists>bufs'. run_stream C sid cs fin bufs = (ms, bufs') \<and> map_of bufs' = map_of bufs"
    if "sid mod 4 \<le> 1" "those (map (to_framed C) ms) = Some fs" "concat cs @ fin = concat fs" "length (concat fs) \<le> MAX_FRAME"
    using run_framed [of sid C bufs cs fin ms] drain_frames [OF assms(1) that(2,4)] that unfolding g by simp
  moreover have "\<exists>bufs'. run_stream C sid cs fin bufs = ([m], bufs') \<and> map_of bufs' = map_of bufs"
    if "concat cs @ fin = to_cbor C m" "length (to_cbor C m) \<le> MAX_FRAME"
    using run_unframed [OF assms(1), of m bufs sid cs fin] that unfolding g by simp
  ultimately show ?thesis by blast
qed

text \<open>A codec with the laws, under which one message has a short encoding.\<close>

definition demo_message :: "unit envelope" where
  "demo_message = \<lparr>en_v = 1, en_type = PING, en_id = ''m1'', en_ts = 0, en_from = ''p1'', en_payload = ()\<rparr>"

definition demo_map :: "unit wire_map" where
  "demo_map = (1, ''ping'', ''m1'', 0, ''p1'', ())"

definition demo_codec :: "unit codec" where
  "demo_codec = \<lparr>cd_dumps = (\<lambda>x. [0xA6, 0x61, 0x76] @ (if x = demo_map then [0] else 1 # replicate (to_nat x) 0)),
     cd_loads = (\<lambda>b. if drop 3 b = [0] then Some demo_map else Some (from_nat (length b - 4))),
     cd_compress = (\<lambda>b. 0x78 # 0x01 # b @ [0]), cd_decompress = (\<lambda>b. Some (butlast (drop 2 b)))\<rparr>"

lemma demo_codec_ok: "codec_ok demo_codec"
proof -
  have "1 # replicate n 0 \<noteq> [0 :: 8 word]" for n by simp
  then show ?thesis unfolding codec_ok_def demo_codec_def by (auto simp: butlast_append)
qed

lemma demo_bytes: "to_cbor demo_codec demo_message = [0, 0xA6, 0x61, 0x76, 0]"
  "to_framed demo_codec demo_message = Some [0, 0, 0, 5, 0, 0xA6, 0x61, 0x76, 0]"
proof -
  show *: "to_cbor demo_codec demo_message = [0, 0xA6, 0x61, 0x76, 0]"
    by (simp add: to_cbor_def demo_codec_def demo_message_def demo_map_def type_value_def message_types_def COMPRESS_THRESHOLD_def)
  show "to_framed demo_codec demo_message = Some [0, 0, 0, 5, 0, 0xA6, 0x61, 0x76, 0]"
    unfolding to_framed_def * by (simp add: to_be32_def)
qed

theorem streams_reassemble_witness:
  "(\<exists>bufs'. run_stream demo_codec 4 [[0, 0, 0], [5, 0, 0xA6, 0x61, 0x76, 0, 0, 0], [], [0, 5, 0, 0xA6]] [0x61, 0x76, 0] []
       = ([demo_message, demo_message], bufs'))
   \<and> (\<exists>bufs'. run_stream demo_codec 2 [[0], [0xA6, 0x61, 0x76]] [0] [] = ([demo_message], bufs'))"
proof -
  note * = streams_reassemble [OF demo_codec_ok, of "[]"]
  let ?f = "[0, 0, 0, 5, 0, 0xA6, 0x61, 0x76, 0] :: octets"
  let ?cs = "[[0, 0, 0], [5, 0, 0xA6, 0x61, 0x76, 0, 0, 0], [], [0, 5, 0, 0xA6]] :: octets list"
  have "(4 :: nat) mod 4 \<le> 1 \<and> those (map (to_framed demo_codec) [demo_message, demo_message]) = Some [?f, ?f]
      \<and> concat ?cs @ [0x61, 0x76, 0] = concat [?f, ?f] \<and> length (concat [?f, ?f]) \<le> MAX_FRAME"
    by (simp add: demo_bytes MAX_FRAME_def)
  then have "\<exists>bufs'. run_stream demo_codec 4 ?cs [0x61, 0x76, 0] [] = ([demo_message, demo_message], bufs')"
    using mp [OF conjunct1 [OF * [of 4 "[demo_message, demo_message]" "[?f, ?f]" ?cs "[0x61, 0x76, 0]"]]] by (auto simp del: run_stream.simps)
  moreover have "concat [[0], [0xA6, 0x61, 0x76]] @ [0] = to_cbor demo_codec demo_message \<and> length (to_cbor demo_codec demo_message) \<le> MAX_FRAME"
    by (simp add: demo_bytes MAX_FRAME_def)
  then have "\<exists>bufs'. run_stream demo_codec 2 [[0], [0xA6, 0x61, 0x76]] [0] [] = ([demo_message], bufs')"
    using mp [OF conjunct2 [OF * [of 2 "[]" "[]" "[[0], [0xA6, 0x61, 0x76]]" "[0]" demo_message]]] by (auto simp del: run_stream.simps)
  ultimately show ?thesis by blast
qed

text \<open>
  The early return keeps frames already delivered in the buffer: bytes after a frame that are no frame
  make the next event on the stream deliver it again.
\<close>

lemma oversized_prefix_redelivers:
  "let (ms1, bufs) = stream_data demo_codec 0 [0, 0, 0, 5, 0, 0xA6, 0x61, 0x76, 0, 0xFF, 0xFF, 0xFF, 0xFF] False [];
       (ms2, _) = stream_data demo_codec 0 [0xFF] False bufs
   in ms1 = [demo_message] \<and> ms2 = [demo_message]"
proof -
  have "drain demo_codec ([0, 0, 0, 5, 0, 0xA6, 0x61, 0x76, 0] @ d) = (let (ms, r) = drain demo_codec d in (demo_message # ms, r))" for d
    by (rule drain_framed [OF demo_codec_ok demo_bytes(2)]) (simp add: MAX_FRAME_def)
  moreover have "drain demo_codec (0xFF # 0xFF # 0xFF # 0xFF # d) = ([], None)" for d
    by (subst drain.simps) (simp add: from_be_def MAX_FRAME_def)
  ultimately have "drain demo_codec (0 # 0 # 0 # 5 # 0 # 0xA6 # 0x61 # 0x76 # 0 # 0xFF # 0xFF # 0xFF # 0xFF # d) = ([demo_message], None)" for d
    by simp
  then show ?thesis by (simp add: stream_data_def try_framed_dispatch_def Let_def dict_get_def)
qed

text \<open>Every pending request is answered at most once; what arrives later for it goes to the handler.\<close>

lemma fst_dispatch_all: "fst (dispatch_all sid (m # ms) q)
    = fst (dispatch_single sid m q) @ fst (dispatch_all sid ms (snd (dispatch_single sid m q)))"
  by (simp add: case_prod_beta Let_def)

definition answers_to :: "pystr \<Rightarrow> 'p delivery \<Rightarrow> bool" where
  "answers_to i d = (case d of To_future j _ \<Rightarrow> j = i | To_handler _ _ \<Rightarrow> False)"

lemma settled_stays: "map_of (qu_futures q) i \<noteq> Some None \<Longrightarrow> filter (answers_to i) (fst (dispatch_all sid ms q)) = []"
proof (induction ms arbitrary: q)
  case (Cons m ms)
  then have "filter (answers_to i) (fst (dispatch_single sid m q)) = []"
    "map_of (qu_futures (snd (dispatch_single sid m q))) i \<noteq> Some None"
    by (auto simp: dispatch_single_def answers_to_def split: option.split)
  then show ?case unfolding fst_dispatch_all by (simp add: Cons.IH)
qed simp

lemma future_settled_once: "length (filter (answers_to i) (fst (dispatch_all sid ms q))) \<le> 1"
proof (induction ms arbitrary: q)
  case (Cons m ms)
  let ?q = "snd (dispatch_single sid m q)"
  have "filter (answers_to i) (fst (dispatch_single sid m q)) = []
      \<or> length (filter (answers_to i) (fst (dispatch_single sid m q))) = 1 \<and> map_of (qu_futures ?q) i \<noteq> Some None"
    by (auto simp: dispatch_single_def answers_to_def split: option.split)
  then show ?case unfolding fst_dispatch_all using Cons.IH [of ?q] settled_stays [of ?q i sid ms] by auto
qed simp

end
