(* ===== verification/Federation.thy ===== *)
theory Federation
  imports Advert
begin

text \<open>
  Networks, memberships and invitations: \<open>src/mycellm/federation.py\<close>. The manager keeps its state in memory
  and writes it to files; both are modelled, a file as the dictionary its JSON holds and a directory as
  a map from file names. SHA-256, Ed25519, CBOR and the portable form of a token are parameters; byte
  strings are character lists.
\<close>

record fed_prims =
  fp_sha256_hex :: "pystr \<Rightarrow> pystr"
  fp_sign :: "pystr \<Rightarrow> pdict \<Rightarrow> pystr"
  fp_verify :: "pystr \<Rightarrow> pystr \<Rightarrow> pdict \<Rightarrow> bool"
  fp_encode :: "pdict \<Rightarrow> pystr"
  fp_decode :: "pystr \<Rightarrow> pdict option"

section \<open>The classes\<close>

record network_identity =
  ni_network_id :: pystr
  ni_network_name :: pystr
  ni_bootstrap_addrs :: "pystr list"
  ni_created_at :: pyfloat
  ni_public :: bool
  ni_trust_level :: pystr
  ni_min_model_tier :: pystr
  ni_join_key :: pystr

record membership =
  me_network_id :: pystr
  me_network_name :: pystr
  me_role :: pystr
  me_bootstrap_addrs :: "pystr list"
  me_models :: "pystr list"
  me_quota :: pdict
  me_joined_at :: pyfloat
  me_invite_token_id :: pystr
  me_join_key :: pystr

record invite_token =
  it_network_id :: pystr
  it_allowed_roles :: "pystr list"
  it_max_uses :: int
  it_uses :: int
  it_expires_at :: pyfloat
  it_created_at :: pyfloat
  it_token_id :: pystr
  it_signature :: pystr

fun as_bool :: "pv \<Rightarrow> bool option" where "as_bool (PBool b) = Some b" | "as_bool _ = None"

definition need_str :: "pdict \<Rightarrow> pystr \<Rightarrow> pystr option" where
  "need_str d k = Option.bind (map_of d k) as_str"

definition identity_to_dict :: "network_identity \<Rightarrow> pdict" where
  "identity_to_dict n =
     [(''network_id'', PStr (ni_network_id n)), (''network_name'', PStr (ni_network_name n)),
      (''bootstrap_addrs'', pv_strs (ni_bootstrap_addrs n)), (''created_at'', PNum (ni_created_at n)),
      (''public'', PBool (ni_public n)), (''trust_level'', PStr (ni_trust_level n)),
      (''min_model_tier'', PStr (ni_min_model_tier n))]
     @ emit (ni_join_key n \<noteq> []) ''join_key'' (PStr (ni_join_key n))"

definition identity_from_dict :: "pdict \<Rightarrow> network_identity option" where
  "identity_from_dict d = do {
     network_id \<leftarrow> need_str d ''network_id'';
     network_name \<leftarrow> dget as_str d ''network_name'' [];
     bootstrap_addrs \<leftarrow> dget as_strs d ''bootstrap_addrs'' [];
     created_at \<leftarrow> dget as_num d ''created_at'' 0;
     public \<leftarrow> dget as_bool d ''public'' False;
     trust_level \<leftarrow> dget as_str d ''trust_level'' ''untrusted'';
     min_model_tier \<leftarrow> dget as_str d ''min_model_tier'' [];
     join_key \<leftarrow> dget as_str d ''join_key'' [];
     Some \<lparr>ni_network_id = network_id, ni_network_name = network_name, ni_bootstrap_addrs = bootstrap_addrs,
       ni_created_at = created_at, ni_public = public, ni_trust_level = trust_level,
       ni_min_model_tier = min_model_tier, ni_join_key = join_key\<rparr> }"

definition membership_to_dict :: "membership \<Rightarrow> pdict" where
  "membership_to_dict m =
     [(''network_id'', PStr (me_network_id m)), (''network_name'', PStr (me_network_name m)),
      (''role'', PStr (me_role m)), (''bootstrap_addrs'', pv_strs (me_bootstrap_addrs m)),
      (''models'', pv_strs (me_models m)), (''quota'', PDict (me_quota m)), (''joined_at'', PNum (me_joined_at m)),
      (''invite_token_id'', PStr (me_invite_token_id m))]
     @ emit (me_join_key m \<noteq> []) ''join_key'' (PStr (me_join_key m))"

definition membership_from_dict :: "pdict \<Rightarrow> membership option" where
  "membership_from_dict d = do {
     network_id \<leftarrow> need_str d ''network_id'';
     network_name \<leftarrow> dget as_str d ''network_name'' [];
     role \<leftarrow> dget as_str d ''role'' ''seeder'';
     bootstrap_addrs \<leftarrow> dget as_strs d ''bootstrap_addrs'' [];
     models \<leftarrow> dget as_strs d ''models'' [];
     quota \<leftarrow> dget as_dict d ''quota'' [];
     joined_at \<leftarrow> dget as_num d ''joined_at'' 0;
     invite_token_id \<leftarrow> dget as_str d ''invite_token_id'' [];
     join_key \<leftarrow> dget as_str d ''join_key'' [];
     Some \<lparr>me_network_id = network_id, me_network_name = network_name, me_role = role,
       me_bootstrap_addrs = bootstrap_addrs, me_models = models, me_quota = quota, me_joined_at = joined_at,
       me_invite_token_id = invite_token_id, me_join_key = join_key\<rparr> }"

definition token_to_dict :: "invite_token \<Rightarrow> pdict" where
  "token_to_dict t =
     [(''token_id'', PStr (it_token_id t)), (''network_id'', PStr (it_network_id t)),
      (''allowed_roles'', pv_strs (it_allowed_roles t)), (''max_uses'', PInt (it_max_uses t)),
      (''uses'', PInt (it_uses t)), (''expires_at'', PNum (it_expires_at t)),
      (''created_at'', PNum (it_created_at t)), (''signature'', PStr (it_signature t))]"

text \<open>A token read without an identifier draws one (\<open>__post_init__\<close>); \<open>drawn\<close> is that draw.\<close>

definition token_from_dict :: "pystr \<Rightarrow> pdict \<Rightarrow> invite_token option" where
  "token_from_dict drawn d = do {
     token_id \<leftarrow> dget as_str d ''token_id'' [];
     network_id \<leftarrow> need_str d ''network_id'';
     allowed_roles \<leftarrow> dget as_strs d ''allowed_roles'' [''seeder''];
     max_uses \<leftarrow> dget as_int d ''max_uses'' 0;
     uses \<leftarrow> dget as_int d ''uses'' 0;
     expires_at \<leftarrow> dget as_num d ''expires_at'' 0;
     created_at \<leftarrow> dget as_num d ''created_at'' 0;
     signature \<leftarrow> dget as_str d ''signature'' [];
     Some \<lparr>it_network_id = network_id, it_allowed_roles = allowed_roles, it_max_uses = max_uses, it_uses = uses,
       it_expires_at = expires_at, it_created_at = created_at,
       it_token_id = (if token_id = [] then drawn else token_id), it_signature = signature\<rparr> }"

definition token_is_valid :: "pyfloat \<Rightarrow> invite_token \<Rightarrow> bool" where
  "token_is_valid now t =
     (if it_expires_at t > 0 \<and> now > it_expires_at t then False
      else if it_max_uses t > 0 \<and> it_uses t \<ge> it_max_uses t then False
      else True)"

definition token_signable :: "invite_token \<Rightarrow> pdict" where
  "token_signable t =
     [(''token_id'', PStr (it_token_id t)), (''network_id'', PStr (it_network_id t)),
      (''allowed_roles'', pv_strs (it_allowed_roles t)), (''max_uses'', PInt (it_max_uses t)),
      (''expires_at'', PNum (it_expires_at t))]"

definition token_sign :: "fed_prims \<Rightarrow> pystr \<Rightarrow> invite_token \<Rightarrow> invite_token" where
  "token_sign P device_key t = t\<lparr>it_signature := fp_sign P device_key (token_signable t)\<rparr>"

definition token_verify :: "fed_prims \<Rightarrow> pystr \<Rightarrow> invite_token \<Rightarrow> bool" where
  "token_verify P pub t = fp_verify P pub (it_signature t) (token_signable t)"

definition to_portable :: "fed_prims \<Rightarrow> invite_token \<Rightarrow> pystr" where
  "to_portable P t = fp_encode P (token_to_dict t)"

definition from_portable :: "fed_prims \<Rightarrow> pystr \<Rightarrow> pystr \<Rightarrow> invite_token option" where
  "from_portable P drawn s = Option.bind (fp_decode P s) (token_from_dict drawn)"

section \<open>FederationManager\<close>

type_synonym directory = "(pystr, pdict) dict"

record manager =
  fm_identity :: "network_identity option"
  fm_tokens :: "(pystr, invite_token) dict"
  fm_memberships :: "(pystr, membership) dict"
  fm_hosted :: "(pystr, network_identity) dict"
  fm_home_file :: "pdict option"
  fm_tokens_dir :: directory
  fm_memberships_dir :: directory
  fm_hosted_dir :: directory

definition fm_network_id :: "manager \<Rightarrow> pystr" where
  "fm_network_id f = (case fm_identity f of Some n \<Rightarrow> ni_network_id n | None \<Rightarrow> [])"

definition home_ids :: "manager \<Rightarrow> pystr list" where
  "home_ids f = (case fm_identity f of Some n \<Rightarrow> [ni_network_id n] | None \<Rightarrow> [])"

definition fm_network_ids :: "manager \<Rightarrow> pystr list" where
  "fm_network_ids f = home_ids f @ map fst (fm_hosted f) @ map fst (fm_memberships f)"

definition host_network_ids :: "manager \<Rightarrow> pystr list" where
  "host_network_ids f = home_ids f @ map fst (fm_hosted f)"

definition membership_join_keys :: "manager \<Rightarrow> (pystr, pystr) dict" where
  "membership_join_keys f = fold (\<lambda>m d. if me_join_key m \<noteq> [] then dict_set d (me_network_id m) (me_join_key m) else d)
     (map snd (fm_memberships f)) []"

definition required_keys :: "manager \<Rightarrow> (pystr, pystr) dict" where
  "required_keys f =
     (let home = (case fm_identity f of
            Some n \<Rightarrow> if ni_join_key n \<noteq> [] then [(ni_network_id n, ni_join_key n)] else []
          | None \<Rightarrow> [])
      in fold (\<lambda>h d. if ni_join_key h \<noteq> [] then dict_set d (ni_network_id h) (ni_join_key h) else d)
           (map snd (fm_hosted f)) home)"

definition filter_claimed_network_ids :: "manager \<Rightarrow> pystr list \<Rightarrow> (pystr, pystr) dict \<Rightarrow> pystr list" where
  "filter_claimed_network_ids f claimed presented =
     filter (\<lambda>nid. case map_of (required_keys f) nid of None \<Rightarrow> True | Some key \<Rightarrow> dict_get presented nid [] = key) claimed"

definition file_name :: "pystr \<Rightarrow> pystr" where
  "file_name network_id = take 16 network_id @ ''.json''"

definition join_network :: "pyfloat \<Rightarrow> pystr \<Rightarrow> pystr \<Rightarrow> pystr \<Rightarrow> pystr list \<Rightarrow> pystr list \<Rightarrow> pdict \<Rightarrow> pystr \<Rightarrow> pystr
    \<Rightarrow> manager \<Rightarrow> membership \<times> manager" where
  "join_network now network_id network_name role addrs models quota invite join_key f =
     (let m = \<lparr>me_network_id = network_id,
            me_network_name = (if network_name = [] then ''network-'' @ take 8 network_id else network_name), me_role = role,
            me_bootstrap_addrs = addrs, me_models = models, me_quota = quota, me_joined_at = now,
            me_invite_token_id = invite, me_join_key = join_key\<rparr>
      in (m, f\<lparr>fm_memberships := dict_set (fm_memberships f) network_id m,
              fm_memberships_dir := dict_set (fm_memberships_dir f) (file_name network_id) (membership_to_dict m)\<rparr>))"

definition leave_network :: "pystr \<Rightarrow> manager \<Rightarrow> bool \<times> manager" where
  "leave_network network_id f =
     (if network_id = fm_network_id f then (False, f)
      else case map_of (fm_memberships f) network_id of
        None \<Rightarrow> (False, f)
      | Some _ \<Rightarrow> (True, f\<lparr>fm_memberships := dict_pop (fm_memberships f) network_id,
             fm_memberships_dir := dict_pop (fm_memberships_dir f) (file_name network_id)\<rparr>))"

definition is_model_visible :: "manager \<Rightarrow> pystr \<Rightarrow> pystr list \<Rightarrow> pystr \<Rightarrow> bool" where
  "is_model_visible f scope nets requesting =
     (if scope = ''public'' then True
      else if scope = ''networks'' then requesting \<in> set nets
      else requesting \<in> set (host_network_ids f))"

definition save_hosted :: "network_identity \<Rightarrow> manager \<Rightarrow> manager" where
  "save_hosted n f = f\<lparr>fm_hosted := dict_set (fm_hosted f) (ni_network_id n) n,
     fm_hosted_dir := dict_set (fm_hosted_dir f) (file_name (ni_network_id n)) (identity_to_dict n)\<rparr>"

definition host_network :: "fed_prims \<Rightarrow> pyfloat \<Rightarrow> pystr \<Rightarrow> pystr \<Rightarrow> bool \<Rightarrow> pystr \<Rightarrow> pystr list \<Rightarrow> manager
    \<Rightarrow> network_identity option \<times> manager" where
  "host_network P now account_pubkey name public join_key addrs f =
     (let nid = fp_sha256_hex P (account_pubkey @ name) in
      if map_of (fm_hosted f) nid \<noteq> None \<or> nid = fm_network_id f then
        (case map_of (fm_hosted f) nid of Some n \<Rightarrow> (Some n, f) | None \<Rightarrow> (fm_identity f, f))
      else let n = \<lparr>ni_network_id = nid, ni_network_name = name, ni_bootstrap_addrs = addrs, ni_created_at = now,
                   ni_public = public, ni_trust_level = ''untrusted'', ni_min_model_tier = [], ni_join_key = join_key\<rparr>
           in (Some n, save_hosted n f))"

datatype import_error = Unreadable | Home_network

definition import_hosted_network :: "pdict \<Rightarrow> manager \<Rightarrow> (import_error + network_identity) \<times> manager" where
  "import_hosted_network file f = (case identity_from_dict file of
     None \<Rightarrow> (Inl Unreadable, f)
   | Some n \<Rightarrow> if ni_network_id n = fm_network_id f then (Inl Home_network, f) else (Inr n, save_hosted n f))"

definition set_join_key :: "pystr \<Rightarrow> pystr \<Rightarrow> manager \<Rightarrow> bool \<times> manager" where
  "set_join_key network_id key f =
     (let hosted = (case map_of (fm_hosted f) network_id of
            None \<Rightarrow> (False, f) | Some n \<Rightarrow> (True, save_hosted (n\<lparr>ni_join_key := key\<rparr>) f))
      in case fm_identity f of
           Some n \<Rightarrow> if network_id = ni_network_id n
             then (True, f\<lparr>fm_identity := Some (n\<lparr>ni_join_key := key\<rparr>),
                        fm_home_file := Some (identity_to_dict (n\<lparr>ni_join_key := key\<rparr>))\<rparr>)
             else hosted
         | None \<Rightarrow> hosted)"

definition drop_hosted_network :: "pystr \<Rightarrow> manager \<Rightarrow> bool \<times> manager" where
  "drop_hosted_network network_id f = (case map_of (fm_hosted f) network_id of
     None \<Rightarrow> (False, f)
   | Some _ \<Rightarrow> (True, f\<lparr>fm_hosted := dict_pop (fm_hosted f) network_id,
        fm_hosted_dir := dict_pop (fm_hosted_dir f) (file_name network_id)\<rparr>))"

text \<open>A directory read back: unreadable files are skipped.\<close>

definition load_dir :: "(pdict \<Rightarrow> 'a option) \<Rightarrow> ('a \<Rightarrow> pystr) \<Rightarrow> directory \<Rightarrow> (pystr, 'a) dict \<Rightarrow> (pystr, 'a) dict" where
  "load_dir read key dir = fold (\<lambda>(_, file) d. case read file of None \<Rightarrow> d | Some x \<Rightarrow> dict_set d (key x) x) dir"

definition init_network :: "fed_prims \<Rightarrow> pyfloat \<Rightarrow> pystr \<Rightarrow> pystr \<Rightarrow> pystr \<Rightarrow> pystr list \<Rightarrow> bool \<Rightarrow> manager \<Rightarrow> manager option" where
  "init_network P now drawn account_pubkey name addrs public f =
     (let nid = fp_sha256_hex P account_pubkey;
          fresh = \<lparr>ni_network_id = nid, ni_network_name = (if name = [] then ''mycellm-'' @ take 8 nid else name),
             ni_bootstrap_addrs = addrs, ni_created_at = now, ni_public = public, ni_trust_level = ''untrusted'',
             ni_min_model_tier = [], ni_join_key = []\<rparr>;
          home = (case fm_home_file f of Some file \<Rightarrow> identity_from_dict file | None \<Rightarrow> Some fresh)
      in map_option (\<lambda>n. f\<lparr>fm_identity := Some n,
            fm_home_file := (case fm_home_file f of Some file \<Rightarrow> Some file | None \<Rightarrow> Some (identity_to_dict n)),
            fm_tokens := load_dir (token_from_dict drawn) it_token_id (fm_tokens_dir f) (fm_tokens f),
            fm_hosted := load_dir identity_from_dict ni_network_id (fm_hosted_dir f) (fm_hosted f),
            fm_memberships := load_dir membership_from_dict me_network_id (fm_memberships_dir f) (fm_memberships f)\<rparr>) home)"

definition save_token :: "invite_token \<Rightarrow> manager \<Rightarrow> manager" where
  "save_token t f = f\<lparr>fm_tokens := dict_set (fm_tokens f) (it_token_id t) t,
     fm_tokens_dir := dict_set (fm_tokens_dir f) (it_token_id t @ ''.json'') (token_to_dict t)\<rparr>"

text \<open>\<open>create_invite\<close> raises, here \<open>None\<close>, for a network not hosted here.\<close>

definition create_invite :: "fed_prims \<Rightarrow> pyfloat \<Rightarrow> pystr \<Rightarrow> pystr \<Rightarrow> pystr list \<Rightarrow> int \<Rightarrow> pyfloat \<Rightarrow> pystr \<Rightarrow> manager
    \<Rightarrow> (invite_token \<times> manager) option" where
  "create_invite P now drawn device_key roles max_uses expires_hours network_id f =
     (let target = (if network_id = [] then fm_network_id f else network_id) in
      if target \<notin> set (host_network_ids f) then None
      else let t = token_sign P device_key \<lparr>it_network_id = target, it_allowed_roles = (if roles = [] then [''seeder''] else roles),
                   it_max_uses = max_uses, it_uses = 0,
                   it_expires_at = (if expires_hours > 0 then now + expires_hours * 3600 else 0), it_created_at = now,
                   it_token_id = drawn, it_signature = []\<rparr>
           in Some (t, save_token t f))"

datatype invite_verdict = Accepted | Bad_format | Other_network | Spent_or_expired | Invalid_signature

definition validate_invite :: "fed_prims \<Rightarrow> pyfloat \<Rightarrow> pystr \<Rightarrow> pystr \<Rightarrow> pystr \<Rightarrow> manager \<Rightarrow> invite_verdict" where
  "validate_invite P now drawn portable pub f = (case from_portable P drawn portable of
     None \<Rightarrow> Bad_format
   | Some t \<Rightarrow> if it_network_id t \<notin> set (host_network_ids f) then Other_network
       else if \<not> token_is_valid now t then Spent_or_expired
       else if \<not> token_verify P pub t then Invalid_signature else Accepted)"

definition use_invite :: "pyfloat \<Rightarrow> pystr \<Rightarrow> manager \<Rightarrow> bool \<times> manager" where
  "use_invite now token_id f = (case map_of (fm_tokens f) token_id of
     None \<Rightarrow> (False, f)
   | Some t \<Rightarrow> if \<not> token_is_valid now t then (False, f)
       else let t' = t\<lparr>it_uses := it_uses t + 1\<rparr>
            in (True, f\<lparr>fm_tokens := dict_set (fm_tokens f) token_id t',
                 fm_tokens_dir := dict_set (fm_tokens_dir f) (token_id @ ''.json'') (token_to_dict t')\<rparr>))"

section \<open>Files\<close>

lemma identity_roundtrip: "identity_from_dict (identity_to_dict n) = Some n"
  unfolding identity_from_dict_def identity_to_dict_def need_str_def append_Cons append_Nil
  by (simp add: dict_reads)

lemma membership_roundtrip: "membership_from_dict (membership_to_dict m) = Some m"
  unfolding membership_from_dict_def membership_to_dict_def need_str_def append_Cons append_Nil
  by (simp add: dict_reads)

lemma token_roundtrip: "it_token_id t \<noteq> [] \<Longrightarrow> token_from_dict drawn (token_to_dict t) = Some t"
  unfolding token_from_dict_def token_to_dict_def need_str_def
  by (simp add: dict_reads)

text \<open>A dictionary in memory kept with one file per entry.\<close>

locale shelf =
  fixes name :: "pystr \<Rightarrow> pystr"
    and put :: "'a \<Rightarrow> pdict"
    and read :: "pdict \<Rightarrow> 'a option"
    and key :: "'a \<Rightarrow> pystr"
    and ok :: "'a \<Rightarrow> bool"
  assumes read_put: "ok x \<Longrightarrow> read (put x) = Some x"
begin

definition kept :: "(pystr, 'a) dict \<Rightarrow> directory \<Rightarrow> bool" where
  "kept d files \<longleftrightarrow> dict_ok d \<and> dict_ok files
     \<and> (\<forall>k x. map_of d k = Some x \<longrightarrow> key x = k \<and> ok x \<and> map_of files (name k) = Some (put x))
     \<and> (\<forall>n js. map_of files n = Some js \<longrightarrow> (\<exists>k x. map_of d k = Some x \<and> n = name k \<and> js = put x))"

lemma kept_empty: "kept [] []"
  by (simp add: kept_def)

lemma kept_set:
  assumes "kept d files" "ok x" "key x = k" "\<And>k'. map_of d k' \<noteq> None \<Longrightarrow> name k' = name k \<Longrightarrow> k' = k"
  shows "kept (dict_set d k x) (dict_set files (name k) (put x))"
  unfolding kept_def
proof (intro conjI allI impI)
  fix n js assume "map_of (dict_set files (name k) (put x)) n = Some js"
  then show "\<exists>k' x'. map_of (dict_set d k x) k' = Some x' \<and> n = name k' \<and> js = put x'"
    using assms(1,4) unfolding kept_def
    by (cases "n = name k") (auto, metis option.distinct(1))
qed (use assms in \<open>auto simp: kept_def split: if_splits\<close>)

lemma kept_pop:
  assumes "kept d files" "\<And>k'. map_of d k' \<noteq> None \<Longrightarrow> name k' = name k \<Longrightarrow> k' = k"
  shows "kept (dict_pop d k) (dict_pop files (name k))"
  unfolding kept_def
proof (intro conjI allI impI)
  fix k' x assume a: "map_of (dict_pop d k) k' = Some x"
  then have m: "map_of d k' = Some x" "k' \<noteq> k" by (auto split: if_splits)
  then have "name k' \<noteq> name k" using assms(2) [of k'] by auto
  then show "key x = k'" "ok x" "map_of (dict_pop files (name k)) (name k') = Some (put x)"
    using m assms(1) by (auto simp: kept_def)
next
  fix n js assume a: "map_of (dict_pop files (name k)) n = Some js"
  then have "map_of files n = Some js" "n \<noteq> name k" by (auto split: if_splits)
  then obtain k' x where "map_of d k' = Some x" "n = name k'" "js = put x" "n \<noteq> name k"
    using assms(1) unfolding kept_def by blast
  then show "\<exists>k' x. map_of (dict_pop d k) k' = Some x \<and> n = name k' \<and> js = put x" by (intro exI [of _ k'] exI [of _ x]) auto
qed (use assms in \<open>auto simp: kept_def\<close>)

definition backed :: "(pystr \<rightharpoonup> 'a) \<Rightarrow> directory \<Rightarrow> bool" where
  "backed m files \<longleftrightarrow> (\<forall>(n, js) \<in> set files. \<exists>x. ok x \<and> js = put x \<and> m (key x) = Some x)"

lemma load_Cons: "ok x \<Longrightarrow> load_dir read key ((n, put x) # files) d = load_dir read key files (dict_set d (key x) x)"
  by (simp add: load_dir_def read_put)

lemma load_sound:
  "backed m files \<Longrightarrow> map_of d \<subseteq>\<^sub>m m \<Longrightarrow> map_of (load_dir read key files d) \<subseteq>\<^sub>m m"
proof (induction files arbitrary: d)
  case Nil
  then show ?case by (simp add: load_dir_def)
next
  case (Cons p files)
  obtain n x where x: "p = (n, put x)" "ok x" "m (key x) = Some x" using Cons.prems(1) by (cases p) (auto simp: backed_def)
  have "backed m files" using Cons.prems(1) by (simp add: backed_def)
  moreover have "map_of (dict_set d (key x) x) \<subseteq>\<^sub>m m" using Cons.prems(2) x(3) by (auto simp: map_le_def)
  ultimately show ?case unfolding x(1) load_Cons [OF x(2)] by (rule Cons.IH)
qed

lemma load_complete:
  "backed m files \<Longrightarrow> map_of d k \<noteq> None \<or> (\<exists>n x. (n, put x) \<in> set files \<and> ok x \<and> key x = k)
    \<Longrightarrow> map_of (load_dir read key files d) k \<noteq> None"
proof (induction files arbitrary: d)
  case Nil
  then show ?case by (simp add: load_dir_def)
next
  case (Cons p files)
  obtain n x where x: "p = (n, put x)" "ok x" "m (key x) = Some x" using Cons.prems(1) by (cases p) (auto simp: backed_def)
  have same: "put y = put x \<Longrightarrow> ok y \<Longrightarrow> y = x" for y using read_put x(2) by (metis option.inject)
  have "backed m files" using Cons.prems(1) by (simp add: backed_def)
  moreover have "map_of (dict_set d (key x) x) k \<noteq> None \<or> (\<exists>n x. (n, put x) \<in> set files \<and> ok x \<and> key x = k)"
    using Cons.prems(2) same x(1) by auto
  ultimately show ?case unfolding x(1) load_Cons [OF x(2)] by (rule Cons.IH)
qed

lemma reload:
  assumes "kept d files"
  shows "map_of (load_dir read key files []) = map_of d"
proof
  fix k
  have b: "backed (map_of d) files"
    unfolding backed_def
  proof clarify
    fix n js assume "(n, js) \<in> set files"
    then have "map_of files n = Some js" using assms by (simp add: kept_def dict_ok_def)
    then show "\<exists>x. ok x \<and> js = put x \<and> map_of d (key x) = Some x" using assms unfolding kept_def by metis
  qed
  have sound: "map_of (load_dir read key files []) \<subseteq>\<^sub>m map_of d" by (rule load_sound [OF b]) simp
  show "map_of (load_dir read key files []) k = map_of d k"
  proof (cases "map_of d k")
    case None
    then show ?thesis using sound by (metis domIff map_le_def)
  next
    case (Some x)
    then have "ok x" "key x = k" "(name k, put x) \<in> set files" using assms by (auto simp: kept_def dest: map_of_SomeD)
    then have "map_of (load_dir read key files []) k \<noteq> None" using load_complete [OF b, of "[]" k] by blast
    then show ?thesis using sound by (metis domIff map_le_def)
  qed
qed

end

interpretation hosted_shelf: shelf file_name identity_to_dict identity_from_dict ni_network_id "\<lambda>_. True"
  by unfold_locales (rule identity_roundtrip)

interpretation membership_shelf: shelf file_name membership_to_dict membership_from_dict me_network_id "\<lambda>_. True"
  by unfold_locales (rule membership_roundtrip)

interpretation token_shelf: shelf "\<lambda>i. i @ ''.json''" token_to_dict "token_from_dict drawn" it_token_id "\<lambda>t. it_token_id t \<noteq> []"
  for drawn
  by unfold_locales (rule token_roundtrip)

section \<open>The manager over time\<close>

text \<open>
  The operations after \<open>init_network\<close>, on network identifiers from a set \<open>ids\<close>; an invitation draws an
  identifier not in use.
\<close>

inductive fed_step :: "fed_prims \<Rightarrow> pystr set \<Rightarrow> manager \<Rightarrow> manager \<Rightarrow> bool" for P ids where
  fs_join: "nid \<in> ids \<Longrightarrow> fed_step P ids f (snd (join_network now nid name role addrs models quota invite jk f))"
| fs_leave: "fed_step P ids f (snd (leave_network nid f))"
| fs_host: "fp_sha256_hex P (pub @ name) \<in> ids \<Longrightarrow> fed_step P ids f (snd (host_network P now pub name public jk addrs f))"
| fs_import: "(\<And>n. identity_from_dict js = Some n \<Longrightarrow> ni_network_id n \<in> ids) \<Longrightarrow> fed_step P ids f (snd (import_hosted_network js f))"
| fs_key: "fed_step P ids f (snd (set_join_key nid jk f))"
| fs_drop: "fed_step P ids f (snd (drop_hosted_network nid f))"
| fs_invite: "drawn \<noteq> [] \<Longrightarrow> map_of (fm_tokens f) drawn = None \<Longrightarrow>
     create_invite P now drawn dk roles uses hours nid f = Some (t, f') \<Longrightarrow> fed_step P ids f f'"
| fs_use: "fed_step P ids f (snd (use_invite now tid f))"

definition token_ok :: "invite_token \<Rightarrow> bool" where
  "token_ok t = (0 \<le> it_uses t \<and> (it_max_uses t > 0 \<longrightarrow> it_uses t \<le> it_max_uses t))"

definition fed_inv :: "pystr set \<Rightarrow> manager \<Rightarrow> bool" where
  "fed_inv ids f \<longleftrightarrow> hosted_shelf.kept (fm_hosted f) (fm_hosted_dir f)
     \<and> membership_shelf.kept (fm_memberships f) (fm_memberships_dir f)
     \<and> token_shelf.kept (fm_tokens f) (fm_tokens_dir f)
     \<and> dom (map_of (fm_hosted f)) \<subseteq> ids \<and> dom (map_of (fm_memberships f)) \<subseteq> ids
     \<and> (\<exists>n. fm_identity f = Some n \<and> fm_home_file f = Some (identity_to_dict n) \<and> ni_network_id n \<notin> dom (map_of (fm_hosted f)))
     \<and> (\<forall>i t. map_of (fm_tokens f) i = Some t \<longrightarrow> token_ok t)"

lemma file_name_inj: "inj_on (take 16) ids \<Longrightarrow> a \<in> ids \<Longrightarrow> b \<in> ids \<Longrightarrow> file_name a = file_name b \<Longrightarrow> a = b"
  by (simp add: file_name_def inj_on_def)

lemma distinct_file_names:
  "inj_on (take 16) ids \<Longrightarrow> dom m \<subseteq> ids \<Longrightarrow> m a \<noteq> None \<Longrightarrow> m b \<noteq> None \<Longrightarrow> file_name a = file_name b \<Longrightarrow> a = b"
  by (rule file_name_inj) auto

lemma save_hosted_inv:
  assumes "fed_inv ids f" "inj_on (take 16) ids" "ni_network_id n \<in> ids" "ni_network_id n \<noteq> fm_network_id f"
  shows "fed_inv ids (save_hosted n f)"
proof -
  have "hosted_shelf.kept (dict_set (fm_hosted f) (ni_network_id n) n)
      (dict_set (fm_hosted_dir f) (file_name (ni_network_id n)) (identity_to_dict n))"
    using assms file_name_inj [OF assms(2)] by (intro hosted_shelf.kept_set) (auto simp: fed_inv_def)
  then show ?thesis using assms by (auto simp: fed_inv_def save_hosted_def fm_network_id_def)
qed

lemma home_not_hosted: "fed_inv ids f \<Longrightarrow> map_of (fm_hosted f) (fm_network_id f) = None"
  by (auto simp: fed_inv_def fm_network_id_def)

lemma hosted_key: "fed_inv ids f \<Longrightarrow> map_of (fm_hosted f) i = Some n \<Longrightarrow> ni_network_id n = i \<and> i \<in> ids"
  unfolding fed_inv_def hosted_shelf.kept_def by blast

lemma fed_step_inv:
  assumes "fed_step P ids f f'" "fed_inv ids f" "inj_on (take 16) ids"
  shows "fed_inv ids f'"
  using assms(1)
proof cases
  case (fs_join nid now name role addrs models quota invite jk)
  have "membership_shelf.kept (dict_set (fm_memberships f) nid m) (dict_set (fm_memberships_dir f) (file_name nid) (membership_to_dict m))"
    if "me_network_id m = nid" for m
    using assms(2) fs_join(2) file_name_inj [OF assms(3)] that by (intro membership_shelf.kept_set) (auto simp: fed_inv_def)
  then show ?thesis using assms(2) fs_join by (auto simp: fed_inv_def join_network_def Let_def)
next
  case (fs_leave nid)
  have "membership_shelf.kept (dict_pop (fm_memberships f) nid) (dict_pop (fm_memberships_dir f) (file_name nid))"
    if "map_of (fm_memberships f) nid \<noteq> None"
    using assms(2) distinct_file_names [OF assms(3), of "map_of (fm_memberships f)" _ nid] that
    by (intro membership_shelf.kept_pop) (simp_all add: fed_inv_def)
  then show ?thesis using assms(2) unfolding fs_leave
    by (auto simp: fed_inv_def leave_network_def split: option.split)
next
  case (fs_host pub name now public jk addrs)
  let ?id = "fp_sha256_hex P (pub @ name)"
  have "ni_network_id n = ?id \<Longrightarrow> ?id \<noteq> fm_network_id f \<Longrightarrow> fed_inv ids (save_hosted n f)" for n
    using save_hosted_inv [OF assms(2,3), of n] fs_host(2) by simp
  then show ?thesis using assms(2) unfolding fs_host by (auto simp: host_network_def Let_def split: option.split)
next
  case (fs_import js)
  then show ?thesis using assms(2) save_hosted_inv [OF assms(2,3)]
    by (auto simp: import_hosted_network_def split: option.split)
next
  case (fs_key nid jk)
  have "fed_inv ids (save_hosted (n\<lparr>ni_join_key := jk\<rparr>) f)" if "map_of (fm_hosted f) nid = Some n" for n
  proof -
    have "ni_network_id n = nid" "nid \<in> ids" "nid \<noteq> fm_network_id f"
      using hosted_key [OF assms(2) that] home_not_hosted [OF assms(2)] that by auto
    then show ?thesis using save_hosted_inv [OF assms(2,3), of "n\<lparr>ni_join_key := jk\<rparr>"] by simp
  qed
  then show ?thesis using assms(2) unfolding fs_key
    by (auto simp: set_join_key_def Let_def fed_inv_def split: option.splits)
next
  case (fs_drop nid)
  have "hosted_shelf.kept (dict_pop (fm_hosted f) nid) (dict_pop (fm_hosted_dir f) (file_name nid))"
    if "map_of (fm_hosted f) nid \<noteq> None"
    using assms(2) distinct_file_names [OF assms(3), of "map_of (fm_hosted f)" _ nid] that
    by (intro hosted_shelf.kept_pop) (simp_all add: fed_inv_def)
  then show ?thesis using assms(2) unfolding fs_drop
    by (auto simp: fed_inv_def drop_hosted_network_def split: option.split)
next
  case (fs_invite drawn now dk roles uses hours nid t)
  then have t: "f' = save_token t f" "it_token_id t = drawn" "token_ok t"
    by (auto simp: create_invite_def Let_def token_sign_def token_ok_def split: if_splits)
  have "token_shelf.kept (dict_set (fm_tokens f) drawn t) (dict_set (fm_tokens_dir f) (drawn @ ''.json'') (token_to_dict t))"
    using assms(2) fs_invite(1) t(2) by (intro token_shelf.kept_set) (auto simp: fed_inv_def)
  then show ?thesis using assms(2) t by (auto simp: fed_inv_def save_token_def)
next
  case (fs_use now tid)
  have "fed_inv ids (f\<lparr>fm_tokens := dict_set (fm_tokens f) tid t', fm_tokens_dir := dict_set (fm_tokens_dir f) (tid @ ''.json'') (token_to_dict t')\<rparr>)"
    if t: "map_of (fm_tokens f) tid = Some t" "token_is_valid now t" "t' = t\<lparr>it_uses := it_uses t + 1\<rparr>" for t t'
  proof -
    have k: "it_token_id t = tid \<and> it_token_id t \<noteq> []" using assms(2) t(1) by (auto simp: fed_inv_def token_shelf.kept_def)
    then have "token_shelf.kept (dict_set (fm_tokens f) tid t') (dict_set (fm_tokens_dir f) (tid @ ''.json'') (token_to_dict t'))"
      using assms(2) t(3) by (intro token_shelf.kept_set) (auto simp: fed_inv_def)
    moreover have "token_ok t'" using assms(2) t by (auto simp: fed_inv_def token_ok_def token_is_valid_def split: if_splits)
    ultimately show ?thesis using assms(2) by (auto simp: fed_inv_def)
  qed
  then show ?thesis using assms(2) unfolding fs_use by (auto simp: use_invite_def Let_def split: option.split)
qed

definition blank :: manager where
  "blank = \<lparr>fm_identity = None, fm_tokens = [], fm_memberships = [], fm_hosted = [], fm_home_file = None,
     fm_tokens_dir = [], fm_memberships_dir = [], fm_hosted_dir = []\<rparr>"

text \<open>A new process on the same data directory.\<close>

definition restarted :: "manager \<Rightarrow> manager" where
  "restarted f = f\<lparr>fm_identity := None, fm_tokens := [], fm_memberships := [], fm_hosted := []\<rparr>"

definition fed_reachable :: "fed_prims \<Rightarrow> pystr set \<Rightarrow> manager \<Rightarrow> bool" where
  "fed_reachable P ids f \<longleftrightarrow> (\<exists>now drawn pub name addrs public f0.
     init_network P now drawn pub name addrs public blank = Some f0 \<and> (fed_step P ids)\<^sup>*\<^sup>* f0 f)"

lemma init_inv: "init_network P now drawn pub name addrs public blank = Some f0 \<Longrightarrow> fed_inv ids f0"
  by (auto simp: init_network_def blank_def fed_inv_def Let_def load_dir_def hosted_shelf.kept_empty membership_shelf.kept_empty
      token_shelf.kept_empty)

lemma reachable_inv: "fed_reachable P ids f \<Longrightarrow> inj_on (take 16) ids \<Longrightarrow> fed_inv ids f"
proof -
  assume a: "fed_reachable P ids f" "inj_on (take 16) ids"
  then obtain f0 where f0: "fed_inv ids f0" "(fed_step P ids)\<^sup>*\<^sup>* f0 f" using init_inv unfolding fed_reachable_def by blast
  from f0(2,1) show ?thesis by (induction rule: rtranclp_induct) (auto intro: fed_step_inv [OF _ _ a(2)])
qed

text \<open>
  C15: nothing is lost at a restart. After any operations, a new process on the same data directory
  recovers the same home network, the same hosted networks with their join keys, the same memberships
  and the same invitations with their use counts, provided no two network identifiers share the sixteen
  characters that name their files; and no invitation was ever used more often than it allows.
\<close>

theorem restart_recovers:
  assumes "fed_reachable P ids f" "inj_on (take 16) ids"
  shows "(\<exists>f'. init_network P now drawn pub name addrs public (restarted f) = Some f'
      \<and> fm_identity f' = fm_identity f \<and> map_of (fm_hosted f') = map_of (fm_hosted f)
      \<and> map_of (fm_memberships f') = map_of (fm_memberships f) \<and> map_of (fm_tokens f') = map_of (fm_tokens f))
    \<and> (\<forall>t \<in> ran (map_of (fm_tokens f)). 0 < it_max_uses t \<longrightarrow> it_uses t \<le> it_max_uses t)"
proof -
  have inv: "fed_inv ids f" by (rule reachable_inv [OF assms])
  then obtain n where n: "fm_identity f = Some n" "fm_home_file f = Some (identity_to_dict n)" by (auto simp: fed_inv_def)
  have r: "map_of (load_dir identity_from_dict ni_network_id (fm_hosted_dir f) []) = map_of (fm_hosted f)"
    "map_of (load_dir membership_from_dict me_network_id (fm_memberships_dir f) []) = map_of (fm_memberships f)"
    "map_of (load_dir (token_from_dict drawn) it_token_id (fm_tokens_dir f) []) = map_of (fm_tokens f)"
    using inv hosted_shelf.reload membership_shelf.reload token_shelf.reload by (auto simp: fed_inv_def)
  have "\<exists>f'. init_network P now drawn pub name addrs public (restarted f) = Some f'
      \<and> fm_identity f' = fm_identity f \<and> map_of (fm_hosted f') = map_of (fm_hosted f)
      \<and> map_of (fm_memberships f') = map_of (fm_memberships f) \<and> map_of (fm_tokens f') = map_of (fm_tokens f)"
    using n by (simp add: init_network_def restarted_def Let_def identity_roundtrip r)
  moreover have "\<forall>t \<in> ran (map_of (fm_tokens f)). 0 < it_max_uses t \<longrightarrow> it_uses t \<le> it_max_uses t"
    using inv by (auto simp: fed_inv_def token_ok_def ran_def)
  ultimately show ?thesis by blast
qed

definition demo_prims :: fed_prims where
  "demo_prims = \<lparr>fp_sha256_hex = (\<lambda>b. rev b), fp_sign = (\<lambda>k d. k), fp_verify = (\<lambda>pub sig d. pub = sig),
     fp_encode = (\<lambda>d. (case map_of d ''token_id'' of Some (PStr s) \<Rightarrow> s | _ \<Rightarrow> [])),
     fp_decode = (\<lambda>s. Some [(''token_id'', PStr s), (''network_id'', PStr ''emoh''), (''max_uses'', PInt 1), (''signature'', PStr ''key'')])\<rparr>"

definition demo_home :: manager where
  "demo_home = the (init_network demo_prims 1 ''t'' ''home'' ''Home'' [] False blank)"

definition demo_federation :: manager where
  "demo_federation = snd (use_invite 4 ''tok'' (snd (the (create_invite demo_prims 3 ''tok'' ''key'' [] 1 0 [] 
     (snd (host_network demo_prims 2 ''home'' ''lab'' False ''s3cret'' []
       (snd (join_network 2 ''net-b'' [] ''seeder'' [] [] [] [] [] demo_home)))))))) "

lemma four_steps: "R a b \<Longrightarrow> R b c \<Longrightarrow> R c d \<Longrightarrow> R d e \<Longrightarrow> R\<^sup>*\<^sup>* a e"
  by (meson converse_rtranclp_into_rtranclp rtranclp.rtrancl_refl)

lemma demo_federation_reachable: "fed_reachable demo_prims {''net-b'', ''balemoh''} demo_federation"
proof -
  let ?ids = "{''net-b'', ''balemoh''}"
  let ?f1 = "snd (join_network 2 ''net-b'' [] ''seeder'' [] [] [] [] [] demo_home)"
  let ?f2 = "snd (host_network demo_prims 2 ''home'' ''lab'' False ''s3cret'' [] ?f1)"
  have 0: "init_network demo_prims 1 ''t'' ''home'' ''Home'' [] False blank = Some demo_home"
    by (simp add: demo_home_def init_network_def blank_def Let_def)
  have 1: "fed_step demo_prims ?ids demo_home ?f1" by (rule fs_join) simp
  have 2: "fed_step demo_prims ?ids ?f1 ?f2" by (rule fs_host) (simp add: demo_prims_def)
  have "\<not> Option.is_none (create_invite demo_prims 3 ''tok'' ''key'' [] 1 0 [] ?f2)" "Option.is_none (map_of (fm_tokens ?f2) ''tok'')"
    by (code_simp, code_simp)
  then obtain t f3 where c: "create_invite demo_prims 3 ''tok'' ''key'' [] 1 0 [] ?f2 = Some (t, f3)" "map_of (fm_tokens ?f2) ''tok'' = None"
    by (auto simp: Option.is_none_def)
  have 3: "fed_step demo_prims ?ids ?f2 f3" by (rule fs_invite [OF _ c(2,1)]) simp
  have 4: "fed_step demo_prims ?ids f3 (snd (use_invite 4 ''tok'' f3))" by (rule fs_use)
  have "demo_federation = snd (use_invite 4 ''tok'' f3)" by (simp add: demo_federation_def c(1))
  then have "(fed_step demo_prims ?ids)\<^sup>*\<^sup>* demo_home demo_federation" using four_steps [where R = "fed_step demo_prims ?ids", OF 1 2 3 4] by simp
  with 0 show ?thesis unfolding fed_reachable_def by blast
qed

lemma demo_ids_prefixes: "inj_on (take 16) {''net-b'', ''balemoh''}"
  by (simp add: inj_on_def)

theorem restart_recovers_witness:
  "(\<exists>f'. init_network demo_prims 9 ''x'' ''other'' [] [] True (restarted demo_federation) = Some f'
      \<and> map_of (fm_hosted f') = map_of (fm_hosted demo_federation) \<and> map_of (fm_memberships f') = map_of (fm_memberships demo_federation)
      \<and> map_of (fm_tokens f') = map_of (fm_tokens demo_federation))
   \<and> map_option it_uses (map_of (fm_tokens demo_federation) ''tok'') = Some 1
   \<and> map_option ni_join_key (map_of (fm_hosted demo_federation) ''balemoh'') = Some ''s3cret''"
proof -
  have "map_option it_uses (map_of (fm_tokens demo_federation) ''tok'') = Some 1"
    "map_option ni_join_key (map_of (fm_hosted demo_federation) ''balemoh'') = Some ''s3cret''"
    by (code_simp, code_simp)
  then show ?thesis
    using restart_recovers [OF demo_federation_reachable demo_ids_prefixes, where now = 9 and drawn = "''x''" and pub = "''other''"
        and name = "[]" and addrs = "[]" and public = True] by blast
qed

section \<open>The join key gate\<close>

text \<open>The key a network asks for: of those this node is the authority for.\<close>

definition gate_key :: "manager \<Rightarrow> pystr \<Rightarrow> pystr" where
  "gate_key f nid = (case map_of (fm_hosted f) nid of Some h \<Rightarrow> ni_join_key h
   | None \<Rightarrow> (case fm_identity f of Some n \<Rightarrow> if ni_network_id n = nid then ni_join_key n else [] | None \<Rightarrow> []))"

lemma keys_fold:
  assumes "dict_ok hs" "\<forall>k h. map_of hs k = Some h \<longrightarrow> ni_network_id h = k"
  shows "map_of (fold (\<lambda>h d. if ni_join_key h \<noteq> [] then dict_set d (ni_network_id h) (ni_join_key h) else d) (map snd hs) d) nid
    = (case map_of hs nid of Some h \<Rightarrow> if ni_join_key h \<noteq> [] then Some (ni_join_key h) else map_of d nid | None \<Rightarrow> map_of d nid)"
  using assms
proof (induction hs arbitrary: d)
  case (Cons p hs)
  obtain k h where p: "p = (k, h)" by (cases p)
  have k: "ni_network_id h = k" "map_of hs k = None" "dict_ok hs" using Cons.prems p by (auto simp: dict_ok_def map_of_eq_None_iff)
  have rest: "\<forall>k h. map_of hs k = Some h \<longrightarrow> ni_network_id h = k"
    using Cons.prems(2) k(2) p by (metis map_of_Cons_code(2) option.distinct(1))
  show ?case using k Cons.IH [OF k(3) rest] by (auto simp: p split: option.split)
qed simp

lemma required_keys_spec:
  assumes "fed_inv ids f"
  shows "map_of (required_keys f) nid = (if gate_key f nid = [] then None else Some (gate_key f nid))"
proof -
  have h: "dict_ok (fm_hosted f)" "\<forall>k h. map_of (fm_hosted f) k = Some h \<longrightarrow> ni_network_id h = k"
    using assms by (auto simp: fed_inv_def hosted_shelf.kept_def)
  obtain n where n: "fm_identity f = Some n" "map_of (fm_hosted f) (ni_network_id n) = None" using assms by (auto simp: fed_inv_def)
  show ?thesis unfolding required_keys_def Let_def keys_fold [OF h]
    using n by (auto simp: gate_key_def split: option.split)
qed

lemma host_ids_iff: "fed_inv ids f \<Longrightarrow> nid \<in> set (host_network_ids f) \<longleftrightarrow> nid = fm_network_id f \<or> map_of (fm_hosted f) nid \<noteq> None"
  by (auto simp: fed_inv_def host_network_ids_def home_ids_def fm_network_id_def dom_map_of_conv_image_fst [symmetric] split: option.splits)

lemma set_join_key_gate:
  assumes "fed_inv ids f"
  shows "fst (set_join_key nid k f) \<longleftrightarrow> nid \<in> set (host_network_ids f)"
    "fst (set_join_key nid k f) \<Longrightarrow> gate_key (snd (set_join_key nid k f)) nid = k"
    "n \<noteq> nid \<Longrightarrow> gate_key (snd (set_join_key nid k f)) n = gate_key f n"
proof -
  obtain h where h: "fm_identity f = Some h" "map_of (fm_hosted f) (ni_network_id h) = None" using assms by (auto simp: fed_inv_def)
  have k: "ni_network_id x = i" if "map_of (fm_hosted f) i = Some x" for i x using hosted_key [OF assms that] by simp
  show "fst (set_join_key nid k f) \<longleftrightarrow> nid \<in> set (host_network_ids f)"
    unfolding host_ids_iff [OF assms] using h by (auto simp: set_join_key_def fm_network_id_def Let_def split: option.splits)
  show "fst (set_join_key nid k f) \<Longrightarrow> gate_key (snd (set_join_key nid k f)) nid = k"
    using h k by (auto simp: set_join_key_def gate_key_def save_hosted_def Let_def split: option.splits if_splits)
  show "n \<noteq> nid \<Longrightarrow> gate_key (snd (set_join_key nid k f)) n = gate_key f n"
    using h k by (auto simp: set_join_key_def gate_key_def save_hosted_def Let_def split: option.splits if_splits)
qed



text \<open>
  A portable invitation carries its own use count, outside the signature: validation never looks at the
  stored one, and a spent invitation still validates.
\<close>

lemma spent_invite_validates:
  "fst (use_invite 5 ''tok'' demo_federation) = False
   \<and> validate_invite demo_prims 5 [] ''tok'' ''key'' demo_federation = Accepted"
  by code_simp

end
