(* ===== verification/Handshake.thy ===== *)
theory Handshake
  imports Advert Wire
begin

text \<open>
  Who a peer is: device certificates (\<open>identity/certs.py\<close>), the local revocation list
  (\<open>identity/revocation.py\<close>), the NodeHello message (\<open>protocol/node_hello.py\<close>) and its construction and
  verification (\<open>transport/auth.py\<close>). Byte strings are character lists. Ed25519, SHA-256 and CBOR are the
  parameters \<open>auth_prims\<close>; what the code relies on of them is \<open>prims_ok\<close>.
\<close>

record auth_prims =
  ap_sha256_hex :: "pystr \<Rightarrow> pystr"
  ap_public :: "pystr \<Rightarrow> pystr"
  ap_sign :: "pystr \<Rightarrow> pystr \<Rightarrow> pystr"
  ap_verify :: "pystr \<Rightarrow> pystr \<Rightarrow> pystr \<Rightarrow> bool"
  ap_dumps :: "pdict \<Rightarrow> pystr"
  ap_loads :: "pystr \<Rightarrow> pdict option"

text \<open>
  A signature by a key verifies under its public half, and what \<open>dumps\<close> wrote, which is never empty,
  \<open>loads\<close> reads back. \<open>ap_verify\<close> is false, and \<open>ap_loads\<close> \<open>None\<close>, where the library raises.
\<close>

definition prims_ok :: "auth_prims \<Rightarrow> bool" where
  "prims_ok P \<longleftrightarrow> (\<forall>k d. ap_verify P (ap_public P k) (ap_sign P k d) d)
     \<and> (\<forall>d. ap_loads P (ap_dumps P d) = Some d \<and> ap_dumps P d \<noteq> [])"

definition peer_id_from_public_key :: "auth_prims \<Rightarrow> pystr \<Rightarrow> pystr" where
  "peer_id_from_public_key P pub = take 32 (ap_sha256_hex P pub)"

section \<open>Certificates\<close>

record device_cert =
  dc_account_pubkey :: pystr
  dc_device_pubkey :: pystr
  dc_device_name :: pystr
  dc_role :: pystr
  dc_created_at :: pyfloat
  dc_expires_at :: pyfloat
  dc_revoked :: bool
  dc_signature :: pystr

definition cert_payload :: "device_cert \<Rightarrow> pdict" where
  "cert_payload c =
     [(''account_pubkey'', PStr (dc_account_pubkey c)), (''device_pubkey'', PStr (dc_device_pubkey c)),
      (''device_name'', PStr (dc_device_name c)), (''role'', PStr (dc_role c)), (''created_at'', PNum (dc_created_at c)),
      (''expires_at'', PNum (dc_expires_at c)), (''revoked'', PBool (dc_revoked c))]"

definition cert_to_cbor :: "auth_prims \<Rightarrow> device_cert \<Rightarrow> pystr" where
  "cert_to_cbor P c = ap_dumps P (cert_payload c @ [(''signature'', PStr (dc_signature c))])"

definition need :: "(pv \<Rightarrow> 'a option) \<Rightarrow> pdict \<Rightarrow> pystr \<Rightarrow> 'a option" where
  "need f d k = Option.bind (map_of d k) f"

fun as_flag :: "pv \<Rightarrow> bool option" where "as_flag (PBool b) = Some b" | "as_flag _ = None"

definition cert_from_cbor :: "auth_prims \<Rightarrow> pystr \<Rightarrow> device_cert option" where
  "cert_from_cbor P data = do {
     obj \<leftarrow> ap_loads P data;
     account_pubkey \<leftarrow> need as_str obj ''account_pubkey'';
     device_pubkey \<leftarrow> need as_str obj ''device_pubkey'';
     device_name \<leftarrow> need as_str obj ''device_name'';
     role \<leftarrow> dget as_str obj ''role'' ''seeder'';
     created_at \<leftarrow> dget as_num obj ''created_at'' 0;
     expires_at \<leftarrow> dget as_num obj ''expires_at'' 0;
     revoked \<leftarrow> dget as_flag obj ''revoked'' False;
     signature \<leftarrow> dget as_str obj ''signature'' [];
     Some \<lparr>dc_account_pubkey = account_pubkey, dc_device_pubkey = device_pubkey, dc_device_name = device_name,
       dc_role = role, dc_created_at = created_at, dc_expires_at = expires_at, dc_revoked = revoked,
       dc_signature = signature\<rparr> }"

definition is_expired :: "pyfloat \<Rightarrow> device_cert \<Rightarrow> bool" where
  "is_expired now c = (if dc_expires_at c = 0 then False else now > dc_expires_at c)"

text \<open>\<open>ttl\<close> is \<open>None\<close> for a certificate without end; a ttl of zero is falsy and means the same.\<close>

definition create_device_cert :: "auth_prims \<Rightarrow> pyfloat \<Rightarrow> pystr \<Rightarrow> pystr \<Rightarrow> pystr \<Rightarrow> pystr \<Rightarrow> pyfloat option \<Rightarrow> device_cert" where
  "create_device_cert P now account_key device_key name role ttl =
     (let c = \<lparr>dc_account_pubkey = ap_public P account_key, dc_device_pubkey = ap_public P device_key,
          dc_device_name = name, dc_role = role, dc_created_at = now,
          dc_expires_at = (case ttl of Some t \<Rightarrow> if t \<noteq> 0 then now + t else 0 | None \<Rightarrow> 0),
          dc_revoked = False, dc_signature = []\<rparr>
      in c\<lparr>dc_signature := ap_sign P account_key (ap_dumps P (cert_payload c))\<rparr>)"

definition verify_device_cert :: "auth_prims \<Rightarrow> pyfloat \<Rightarrow> device_cert \<Rightarrow> pystr option \<Rightarrow> bool" where
  "verify_device_cert P now c account_pubkey =
     (if dc_revoked c then False
      else if is_expired now c then False
      else if (case account_pubkey of Some a \<Rightarrow> a \<noteq> [] \<and> dc_account_pubkey c \<noteq> a | None \<Rightarrow> False) then False
      else ap_verify P (dc_account_pubkey c) (dc_signature c) (ap_dumps P (cert_payload c)))"

lemma cert_roundtrip: "prims_ok P \<Longrightarrow> cert_from_cbor P (cert_to_cbor P c) = Some c"
  by (simp add: cert_from_cbor_def cert_to_cbor_def prims_ok_def cert_payload_def need_def dict_reads)

lemma created_cert_verifies:
  assumes "prims_ok P" "case ttl of Some t \<Rightarrow> t = 0 \<or> now' \<le> now + t | None \<Rightarrow> True" "account = None \<or> account = Some (ap_public P ak)"
  shows "verify_device_cert P now' (create_device_cert P now ak dk name role ttl) account"
  using assms by (auto simp: verify_device_cert_def create_device_cert_def is_expired_def prims_ok_def cert_payload_def Let_def split: option.splits)

section \<open>The revocation list\<close>

text \<open>The set of revoked keys in memory and in the file; the file's sorted list is read back as a set.\<close>

record revocations =
  rv_file :: "pystr set option"
  rv_revoked :: "pystr set"

definition rv_load :: "pystr set option \<Rightarrow> revocations" where
  "rv_load file = \<lparr>rv_file = file, rv_revoked = (case file of Some r \<Rightarrow> r | None \<Rightarrow> {})\<rparr>"

definition rv_save :: "revocations \<Rightarrow> revocations" where
  "rv_save r = r\<lparr>rv_file := Some (rv_revoked r)\<rparr>"

definition revoke :: "pystr \<Rightarrow> revocations \<Rightarrow> revocations" where
  "revoke k r = rv_save (r\<lparr>rv_revoked := insert k (rv_revoked r)\<rparr>)"

definition is_revoked :: "pystr \<Rightarrow> revocations \<Rightarrow> bool" where
  "is_revoked k r = (k \<in> rv_revoked r)"

definition unrevoke :: "pystr \<Rightarrow> revocations \<Rightarrow> revocations" where
  "unrevoke k r = rv_save (r\<lparr>rv_revoked := rv_revoked r - {k}\<rparr>)"

lemma revocation_survives_restart:
  "is_revoked j (rv_load (rv_file (revoke k r))) = (j = k \<or> is_revoked j r)"
  "is_revoked j (rv_load (rv_file (unrevoke k r))) = (j \<noteq> k \<and> is_revoked j r)"
  by (auto simp: is_revoked_def rv_load_def revoke_def unrevoke_def rv_save_def)

section \<open>NodeHello\<close>

record node_hello =
  nh_peer_id :: pystr
  nh_device_pubkey :: pystr
  nh_cert :: device_cert
  nh_capabilities :: advert
  nh_nonce :: pystr
  nh_timestamp :: pyfloat
  nh_signature :: pystr
  nh_observed_addr :: pystr
  nh_network_ids :: "pystr list"
  nh_join_keys :: "(pystr, pystr) dict"

definition signable_data :: "auth_prims \<Rightarrow> node_hello \<Rightarrow> pystr" where
  "signable_data P h = ap_dumps P
     [(''nonce'', PStr (nh_nonce h)), (''timestamp'', PNum (nh_timestamp h)), (''peer_id'', PStr (nh_peer_id h))]"

definition hello_sign :: "auth_prims \<Rightarrow> pystr \<Rightarrow> node_hello \<Rightarrow> node_hello" where
  "hello_sign P device_key h = h\<lparr>nh_signature := ap_sign P device_key (signable_data P h)\<rparr>"

definition pv_keys :: "(pystr, pystr) dict \<Rightarrow> pv" where
  "pv_keys d = PDict (map (\<lambda>(k, v). (k, PStr v)) d)"

text \<open>\<open>obj.get("join_keys", {}) or {}\<close>.\<close>

definition as_keys :: "pv \<Rightarrow> (pystr, pystr) dict option" where
  "as_keys v = (if \<not> truthy v then Some []
     else Option.bind (as_dict v) (\<lambda>d. those (map (\<lambda>(k, x). map_option (Pair k) (as_str x)) d)))"

definition hello_to_cbor :: "auth_prims \<Rightarrow> node_hello \<Rightarrow> pystr" where
  "hello_to_cbor P h = ap_dumps P
     ([(''peer_id'', PStr (nh_peer_id h)), (''device_pubkey'', PStr (nh_device_pubkey h)),
       (''cert'', PStr (cert_to_cbor P (nh_cert h))), (''capabilities'', PDict (advert_to_dict (nh_capabilities h))),
       (''nonce'', PStr (nh_nonce h)), (''timestamp'', PNum (nh_timestamp h)), (''signature'', PStr (nh_signature h)),
       (''observed_addr'', PStr (nh_observed_addr h)), (''network_ids'', pv_strs (nh_network_ids h))]
      @ emit (nh_join_keys h \<noteq> []) ''join_keys'' (pv_keys (nh_join_keys h)))"

definition hello_from_cbor :: "auth_prims \<Rightarrow> pystr \<Rightarrow> node_hello option" where
  "hello_from_cbor P data = do {
     obj \<leftarrow> ap_loads P data;
     peer_id \<leftarrow> need as_str obj ''peer_id'';
     device_pubkey \<leftarrow> need as_str obj ''device_pubkey'';
     cert_bytes \<leftarrow> need as_str obj ''cert'';
     cert \<leftarrow> cert_from_cbor P cert_bytes;
     caps \<leftarrow> need as_dict obj ''capabilities'';
     capabilities \<leftarrow> advert_from_dict caps;
     nonce \<leftarrow> need as_str obj ''nonce'';
     timestamp \<leftarrow> need as_num obj ''timestamp'';
     signature \<leftarrow> need as_str obj ''signature'';
     observed_addr \<leftarrow> dget as_str obj ''observed_addr'' [];
     network_ids \<leftarrow> dget as_strs obj ''network_ids'' [];
     join_keys \<leftarrow> dget as_keys obj ''join_keys'' [];
     Some \<lparr>nh_peer_id = peer_id, nh_device_pubkey = device_pubkey, nh_cert = cert, nh_capabilities = capabilities,
       nh_nonce = nonce, nh_timestamp = timestamp, nh_signature = signature, nh_observed_addr = observed_addr,
       nh_network_ids = network_ids, nh_join_keys = join_keys\<rparr> }"

lemma keys_roundtrip: "as_keys (pv_keys d) = Some d"
proof -
  have "those (map (\<lambda>(k, x). map_option (Pair k) (as_str x)) (map (\<lambda>(k, v). (k, PStr v)) d)) = Some d"
    by (induction d) auto
  then show ?thesis by (auto simp: as_keys_def pv_keys_def truthy_def)
qed

lemma need_Cons: "need f ((k, v) # d) k' = (if k' = k then f v else need f d k')"
  by (simp add: need_def)

definition sane_hello :: "node_hello \<Rightarrow> node_hello" where
  "sane_hello h = h\<lparr>nh_capabilities := sane (nh_capabilities h)\<rparr>"

lemma hello_roundtrip:
  assumes "prims_ok P"
  shows "hello_from_cbor P (hello_to_cbor P h) = Some (sane_hello h)"
proof -
  define d where "d = [(''peer_id'', PStr (nh_peer_id h)), (''device_pubkey'', PStr (nh_device_pubkey h)),
       (''cert'', PStr (cert_to_cbor P (nh_cert h))), (''capabilities'', PDict (advert_to_dict (nh_capabilities h))),
       (''nonce'', PStr (nh_nonce h)), (''timestamp'', PNum (nh_timestamp h)), (''signature'', PStr (nh_signature h)),
       (''observed_addr'', PStr (nh_observed_addr h)), (''network_ids'', pv_strs (nh_network_ids h))]
      @ emit (nh_join_keys h \<noteq> []) ''join_keys'' (pv_keys (nh_join_keys h))"
  have r: "need as_str d ''peer_id'' = Some (nh_peer_id h)" "need as_str d ''device_pubkey'' = Some (nh_device_pubkey h)"
    "need as_str d ''cert'' = Some (cert_to_cbor P (nh_cert h))" "need as_dict d ''capabilities'' = Some (advert_to_dict (nh_capabilities h))"
    "need as_str d ''nonce'' = Some (nh_nonce h)" "need as_num d ''timestamp'' = Some (nh_timestamp h)"
    "need as_str d ''signature'' = Some (nh_signature h)" "dget as_str d ''observed_addr'' [] = Some (nh_observed_addr h)"
    "dget as_strs d ''network_ids'' [] = Some (nh_network_ids h)" "dget as_keys d ''join_keys'' [] = Some (nh_join_keys h)"
    unfolding d_def append_Cons append_Nil by (simp_all only: dict_reads need_Cons) (simp_all add: keys_roundtrip)
  have "ap_loads P (hello_to_cbor P h) = Some d" using assms by (simp add: hello_to_cbor_def prims_ok_def d_def)
  then show ?thesis
    unfolding hello_from_cbor_def by (simp add: r cert_roundtrip [OF assms] advert_read_back sane_hello_def)
qed

section \<open>Verification\<close>

datatype hello_fault = Stale | Bad_cert | Key_mismatch | Id_mismatch | Bad_signature

definition MAX_AGE :: pyfloat where "MAX_AGE = 300"

text \<open>The clock is read twice: for the age of the hello and for the expiry of its certificate.\<close>

definition verify_node_hello :: "auth_prims \<Rightarrow> (nat \<Rightarrow> pyfloat) \<Rightarrow> node_hello \<Rightarrow> hello_fault option" where
  "verify_node_hello P clock h =
     (if \<bar>clock 0 - nh_timestamp h\<bar> > MAX_AGE then Some Stale
      else if \<not> verify_device_cert P (clock 1) (nh_cert h) None then Some Bad_cert
      else if dc_device_pubkey (nh_cert h) \<noteq> nh_device_pubkey h then Some Key_mismatch
      else if nh_peer_id h \<noteq> peer_id_from_public_key P (nh_device_pubkey h) then Some Id_mismatch
      else if \<not> ap_verify P (nh_device_pubkey h) (nh_signature h) (signable_data P h) then Some Bad_signature
      else None)"

type_synonym message = "pdict envelope"

datatype auth_error = Not_a_hello | No_hello | Undecodable | Rejected hello_fault

definition verify_hello_message :: "auth_prims \<Rightarrow> (nat \<Rightarrow> pyfloat) \<Rightarrow> message \<Rightarrow> auth_error + node_hello" where
  "verify_hello_message P clock m =
     (if en_type m \<noteq> NODE_HELLO then Inl Not_a_hello
      else case map_of (en_payload m) ''hello'' of
        None \<Rightarrow> Inl No_hello
      | Some v \<Rightarrow> if \<not> truthy v then Inl No_hello
          else case Option.bind (as_str v) (hello_from_cbor P) of
            None \<Rightarrow> Inl Undecodable
          | Some h \<Rightarrow> (case verify_node_hello P clock h of Some e \<Rightarrow> Inl (Rejected e) | None \<Rightarrow> Inr h))"

text \<open>The hello a node builds of itself: \<open>now\<close> its timestamp, \<open>nonce\<close> its 32 random bytes.\<close>

definition own_hello :: "auth_prims \<Rightarrow> pyfloat \<Rightarrow> pystr \<Rightarrow> pystr \<Rightarrow> device_cert \<Rightarrow> advert \<Rightarrow> (pystr, pystr) dict \<Rightarrow> node_hello" where
  "own_hello P now nonce device_key cert caps join_keys = hello_sign P device_key
     \<lparr>nh_peer_id = peer_id_from_public_key P (ap_public P device_key), nh_device_pubkey = ap_public P device_key,
      nh_cert = cert, nh_capabilities = caps, nh_nonce = nonce, nh_timestamp = now, nh_signature = [],
      nh_observed_addr = [], nh_network_ids = ad_network_ids caps, nh_join_keys = join_keys\<rparr>"

text \<open>\<open>drawn\<close> and \<open>ts\<close> are the identifier and the time of the envelope.\<close>

definition build_node_hello :: "auth_prims \<Rightarrow> pyfloat \<Rightarrow> pystr \<Rightarrow> pystr \<Rightarrow> pyfloat \<Rightarrow> pystr \<Rightarrow> device_cert \<Rightarrow> advert
    \<Rightarrow> (pystr, pystr) dict \<Rightarrow> message" where
  "build_node_hello P now nonce drawn ts device_key cert caps join_keys =
     \<lparr>en_v = 1, en_type = NODE_HELLO, en_id = drawn, en_ts = ts,
      en_from = peer_id_from_public_key P (ap_public P device_key),
      en_payload = [(''hello'', PStr (hello_to_cbor P (own_hello P now nonce device_key cert caps join_keys)))]\<rparr>"

definition build_hello_ack :: "auth_prims \<Rightarrow> pyfloat \<Rightarrow> pystr \<Rightarrow> pystr \<Rightarrow> pyfloat \<Rightarrow> pystr \<Rightarrow> device_cert \<Rightarrow> advert
    \<Rightarrow> pystr \<Rightarrow> (pystr, pystr) dict \<Rightarrow> message" where
  "build_hello_ack P now nonce drawn ts device_key cert caps request_id join_keys =
     (let e = (build_node_hello P now nonce drawn ts device_key cert caps join_keys)\<lparr>en_type := NODE_HELLO_ACK\<rparr>
      in if request_id \<noteq> [] then e\<lparr>en_id := request_id\<rparr> else e)"

text \<open>What a verified hello proves: the holder of the key the identifier is the hash of, certified by an account, signed it.\<close>

definition authentic :: "auth_prims \<Rightarrow> node_hello \<Rightarrow> bool" where
  "authentic P h \<longleftrightarrow> nh_peer_id h = peer_id_from_public_key P (nh_device_pubkey h)
     \<and> ap_verify P (nh_device_pubkey h) (nh_signature h) (signable_data P h)
     \<and> dc_device_pubkey (nh_cert h) = nh_device_pubkey h \<and> \<not> dc_revoked (nh_cert h)
     \<and> ap_verify P (dc_account_pubkey (nh_cert h)) (dc_signature (nh_cert h)) (ap_dumps P (cert_payload (nh_cert h)))"

lemma verified_iff:
  "verify_node_hello P clock h = None \<longleftrightarrow>
     authentic P h \<and> \<bar>clock 0 - nh_timestamp h\<bar> \<le> 300 \<and> (dc_expires_at (nh_cert h) = 0 \<or> clock 1 \<le> dc_expires_at (nh_cert h))"
  by (auto simp: verify_node_hello_def authentic_def verify_device_cert_def is_expired_def MAX_AGE_def)

lemma verified_message:
  "verify_hello_message P clock m = Inr h \<Longrightarrow> verify_node_hello P clock h = None \<and> en_type m = NODE_HELLO"
  by (auto simp: verify_hello_message_def split: if_splits option.splits)

lemma own_hello_verifies:
  assumes "prims_ok P" "\<bar>clock 0 - now\<bar> \<le> 300" "verify_device_cert P (clock 1) cert None" "dc_device_pubkey cert = ap_public P dk"
  shows "verify_node_hello P clock (sane_hello (own_hello P now nonce dk cert caps keys)) = None"
  using assms by (auto simp: verify_node_hello_def own_hello_def hello_sign_def sane_hello_def signable_data_def prims_ok_def MAX_AGE_def)

lemma built_hello_verifies:
  assumes "prims_ok P" "\<bar>clock 0 - now\<bar> \<le> 300" "verify_device_cert P (clock 1) cert None" "dc_device_pubkey cert = ap_public P dk"
  shows "verify_hello_message P clock (build_node_hello P now nonce drawn ts dk cert caps keys)
    = Inr (sane_hello (own_hello P now nonce dk cert caps keys))"
proof -
  have "hello_to_cbor P h \<noteq> []" for h using assms(1) by (simp add: hello_to_cbor_def prims_ok_def)
  then show ?thesis
    by (simp add: verify_hello_message_def build_node_hello_def truthy_def hello_roundtrip [OF assms(1)] own_hello_verifies [OF assms])
qed

section \<open>Primitives with the laws\<close>

instance pv :: countable by countable_datatype

text \<open>Keys are their own public halves and signatures name their key; bytes count.\<close>

definition demo_auth :: auth_prims where
  "demo_auth = \<lparr>ap_sha256_hex = (\<lambda>b. rev b), ap_public = (\<lambda>k. k), ap_sign = (\<lambda>k d. k), ap_verify = (\<lambda>pub sig d. pub = sig),
     ap_dumps = (\<lambda>d. replicate (Suc (to_nat d)) CHR ''b''), ap_loads = (\<lambda>s. if s = [] then None else Some (from_nat (length s - 1)))\<rparr>"

lemma demo_auth_ok: "prims_ok demo_auth"
  by (simp add: prims_ok_def demo_auth_def)

end
