(* ===== verification/Peer_Sessions.thy ===== *)
theory Peer_Sessions
  imports Handshake Federation Routing
begin

text \<open>
  The node's side of a connection (\<open>node.py\<close>): the inbound handlers of \<open>_handle_peer_message\<close> for
  NODE_HELLO, PING, PEER_ANNOUNCE and FLEET_COMMAND, the trust of a peer (\<open>_resolve_peer_trust\<close>), and the
  message builders of \<open>transport/messages.py\<close> they use. A handler gives the messages it sends and the
  node after it. A \<open>PeerConnection\<close> is one object, held by the connection table and by the registry entry
  of its peer; a change of it is made in both.
\<close>

section \<open>State\<close>

record session =
  se_hello :: node_hello
  se_conn :: conn

record node =
  nd_device_key :: pystr
  nd_cert :: device_cert
  nd_capabilities :: advert
  nd_federation :: "manager option"
  nd_connections :: "(pystr, session) dict"
  nd_registry :: registry

definition nd_peer_id :: "auth_prims \<Rightarrow> node \<Rightarrow> pystr" where
  "nd_peer_id P n = peer_id_from_public_key P (ap_public P (nd_device_key n))"

text \<open>The QUIC protocol object a message came on: whether it is closed, and the host it was seen from.\<close>

record link =
  li_closed :: bool
  li_host :: "pystr option"

text \<open>What a handler draws from outside: the clock, a nonce, identifiers.\<close>

record draw =
  dr_clock :: "nat \<Rightarrow> pyfloat"
  dr_nonce :: pystr
  dr_id :: pystr

definition error_value :: "error_code \<Rightarrow> pystr" where
  "error_value c = (case find (\<lambda>(v, d). d = c) error_codes of Some (v, _) \<Rightarrow> v | None \<Rightarrow> [])"

definition new_message :: "message_type \<Rightarrow> pystr \<Rightarrow> pystr \<Rightarrow> pyfloat \<Rightarrow> pdict \<Rightarrow> message" where
  "new_message ty from_peer msg_id ts payload =
     \<lparr>en_v = 1, en_type = ty, en_id = msg_id, en_ts = ts, en_from = from_peer, en_payload = payload\<rparr>"

definition ping_message :: "pystr \<Rightarrow> pystr \<Rightarrow> pyfloat \<Rightarrow> message" where
  "ping_message from_peer drawn ts = new_message PING from_peer drawn ts []"

definition pong_message :: "pystr \<Rightarrow> pystr \<Rightarrow> pyfloat \<Rightarrow> message" where
  "pong_message from_peer request_id ts = new_message PONG from_peer request_id ts []"

definition error_message :: "pystr \<Rightarrow> pystr \<Rightarrow> pyfloat \<Rightarrow> error_code \<Rightarrow> pystr \<Rightarrow> message" where
  "error_message from_peer request_id ts code text = new_message ERROR from_peer request_id ts
     [(''error_code'', PStr (error_value code)), (''error_message'', PStr (or_str text (error_value code)))]"

definition fleet_response :: "pystr \<Rightarrow> pystr \<Rightarrow> pyfloat \<Rightarrow> bool \<Rightarrow> pdict \<Rightarrow> pystr \<Rightarrow> message" where
  "fleet_response from_peer request_id ts success data err = new_message FLEET_RESPONSE from_peer request_id ts
     [(''success'', PBool success), (''data'', PDict data), (''error'', PStr err)]"

definition peer_announce :: "pystr \<Rightarrow> pystr \<Rightarrow> pyfloat \<Rightarrow> pystr list \<Rightarrow> pdict \<Rightarrow> message" where
  "peer_announce from_peer drawn ts addresses caps = new_message PEER_ANNOUNCE from_peer drawn ts
     [(''addresses'', pv_strs addresses), (''capabilities'', PDict caps)]"

section \<open>NODE_HELLO\<close>

text \<open>\<open>str(e)\<close> of the failure; \<open>detail\<close> is the text of an exception raised by a library.\<close>

fun fault_text :: "pystr \<Rightarrow> hello_fault \<Rightarrow> pystr" where
  "fault_text detail Stale = ''NodeHello timestamp too old''"
| "fault_text detail Bad_cert = ''Device certificate invalid''"
| "fault_text detail Key_mismatch = ''Device key mismatch between cert and hello''"
| "fault_text detail Id_mismatch = ''PeerId does not match device public key''"
| "fault_text detail Bad_signature = ''NodeHello signature invalid: '' @ detail"

fun auth_text :: "pystr \<Rightarrow> auth_error \<Rightarrow> pystr" where
  "auth_text detail Not_a_hello = ''[auth_failed] Expected NODE_HELLO message''"
| "auth_text detail No_hello = ''[auth_failed] Missing hello payload''"
| "auth_text detail Undecodable = detail"
| "auth_text detail (Rejected f) = ''[auth_failed] '' @ fault_text detail f"

definition accepted_network_ids :: "node \<Rightarrow> node_hello \<Rightarrow> pystr list" where
  "accepted_network_ids n h = (case nd_federation n of
     Some f \<Rightarrow> filter_claimed_network_ids f (nh_network_ids h) (nh_join_keys h) | None \<Rightarrow> nh_network_ids h)"

definition own_join_keys :: "node \<Rightarrow> (pystr, pystr) dict" where
  "own_join_keys n = (case nd_federation n of Some f \<Rightarrow> membership_join_keys f | None \<Rightarrow> [])"

definition fresh_conn :: "link \<Rightarrow> conn" where
  "fresh_conn l = \<lparr>cn_state = ROUTABLE, cn_protocol = Some (li_closed l), cn_active_requests = 0, cn_rtt_history = []\<rparr>"

text \<open>The connection table and the registry once a hello is accepted; the clock is read by \<open>register\<close>.\<close>

definition admit :: "link \<Rightarrow> pyfloat \<Rightarrow> node_hello \<Rightarrow> node \<Rightarrow> node" where
  "admit l now h n =
     (let pid = nh_peer_id h;
          r = register pid (Some (fresh_conn l)) (Some (routing_view (nh_capabilities h))) []
                (Some (accepted_network_ids n h)) now (nd_registry n);
          r' = (case li_host l of
                  Some host \<Rightarrow> touch_peer pid (\<lambda>e. if pe_addresses e = [] then e\<lparr>pe_addresses := [host @ '':8421'']\<rparr> else e) r
                | None \<Rightarrow> r)
      in n\<lparr>nd_connections := dict_set (nd_connections n) pid \<lparr>se_hello = h, se_conn = fresh_conn l\<rparr>, nd_registry := r'\<rparr>)"

text \<open>
  The clock is read by the verification (twice), for the hello of the acknowledgement and its envelope, and
  by \<open>register\<close>. \<open>ack_sent\<close> is false where sending the acknowledgement raises, which is refused like a
  failed verification.
\<close>

definition handle_hello :: "auth_prims \<Rightarrow> draw \<Rightarrow> link \<Rightarrow> bool \<Rightarrow> pystr \<Rightarrow> message \<Rightarrow> node \<Rightarrow> message list \<times> node" where
  "handle_hello P d l ack_sent detail m n =
     (case verify_hello_message P (dr_clock d) m of
        Inl e \<Rightarrow> ([error_message (nd_peer_id P n) (en_id m) (dr_clock d 2) AUTH_FAILED (auth_text detail e)], n)
      | Inr h \<Rightarrow>
          let ack = build_hello_ack P (dr_clock d 2) (dr_nonce d) (dr_id d) (dr_clock d 3) (nd_device_key n) (nd_cert n)
                (nd_capabilities n) (en_id m) (own_join_keys n)
          in if ack_sent then ([ack], admit l (dr_clock d 4) h n)
             else ([error_message (nd_peer_id P n) (en_id m) (dr_clock d 4) AUTH_FAILED detail], n))"

section \<open>PING\<close>

definition set_conn_state :: "pystr \<Rightarrow> peer_state \<Rightarrow> node \<Rightarrow> node" where
  "set_conn_state pid st n = (case map_of (nd_connections n) pid of
     None \<Rightarrow> n
   | Some s \<Rightarrow> n\<lparr>nd_connections := dict_set (nd_connections n) pid (s\<lparr>se_conn := (se_conn s)\<lparr>cn_state := st\<rparr>\<rparr>),
        nd_registry := touch_peer pid (\<lambda>e. e\<lparr>pe_connection := map_option (\<lambda>c. c\<lparr>cn_state := st\<rparr>) (pe_connection e)\<rparr>)
          (nd_registry n)\<rparr>)"

definition session_alive :: "session \<Rightarrow> bool" where
  "session_alive s = (cn_protocol (se_conn s) = Some False)"

definition handle_ping :: "auth_prims \<Rightarrow> draw \<Rightarrow> message \<Rightarrow> node \<Rightarrow> message list \<times> node" where
  "handle_ping P d m n =
     (let reply = [pong_message (nd_peer_id P n) (en_id m) (dr_clock d 0)];
          pid = en_from m
      in if pid = [] then (reply, n)
         else case map_of (nd_connections n) pid of
           None \<Rightarrow> (reply, n)
         | Some s \<Rightarrow> if \<not> session_alive s then (reply, n)
             else case get_peer pid (nd_registry n) of
               None \<Rightarrow> (reply, n)
             | Some e \<Rightarrow> if pe_state e \<noteq> DISCONNECTED then (reply, n)
                 else (reply, let n1 = set_conn_state pid ROUTABLE n in n1\<lparr>nd_registry :=
                        touch_peer pid (\<lambda>e. e\<lparr>pe_state := ROUTABLE, pe_last_seen := dr_clock d 1\<rparr>) (nd_registry n1)\<rparr>))"

section \<open>PEER_ANNOUNCE\<close>

text \<open>An advertisement or address list that cannot be read raises, after the connection was marked routable.\<close>

definition handle_announce :: "draw \<Rightarrow> message \<Rightarrow> node \<Rightarrow> node" where
  "handle_announce d m n =
     (let pid = en_from m;
          s = map_of (nd_connections n) pid;
          n1 = (case s of Some x \<Rightarrow> if session_alive x then set_conn_state pid ROUTABLE n else n | None \<Rightarrow> n)
      in case (Option.bind (dget as_dict (en_payload m) ''capabilities'' []) advert_from_dict,
               dget as_strs (en_payload m) ''addresses'' []) of
           (Some caps, Some addrs) \<Rightarrow> n1\<lparr>nd_registry := register pid (map_option se_conn (map_of (nd_connections n1) pid))
               (Some (routing_view caps)) addrs None (dr_clock d 0) (nd_registry n1)\<rparr>
         | _ \<Rightarrow> n1)"

section \<open>FLEET_COMMAND\<close>

definition FLEET_COMMANDS :: "pystr list" where
  "FLEET_COMMANDS = [''node.status'', ''node.config'', ''model.list'', ''model.load'', ''model.unload'', ''model.scope'',
     ''train.status'', ''node.groups'', ''node.targets'', ''node.plan'', ''relay.list'', ''relay.add'', ''relay.remove'',
     ''relay.refresh'']"

text \<open>
  \<open>execute\<close> is \<open>_execute_fleet_command\<close>: the data, or the text of what it raised, and its effect on the
  state \<open>'s\<close> it works on. \<open>admin_key\<close> is \<open>settings.fleet_admin_key\<close>.
\<close>

definition handle_fleet_command :: "(pystr \<Rightarrow> pdict \<Rightarrow> 's \<Rightarrow> (pystr + pdict) \<times> 's) \<Rightarrow> pystr \<Rightarrow> pystr \<Rightarrow> pyfloat \<Rightarrow> message \<Rightarrow> 's
    \<Rightarrow> message option \<times> 's" where
  "handle_fleet_command execute admin_key peer_id ts m s =
     (case (dget as_str (en_payload m) ''command'' [], dget as_dict (en_payload m) ''params'' [],
            dget as_str (en_payload m) ''fleet_admin_key'' []) of
        (Some command, Some params, Some key) \<Rightarrow>
          let refuse = \<lambda>text. (Some (fleet_response peer_id (en_id m) ts False [] text), s) in
          if admin_key = [] then refuse ''Fleet admin key not configured on this node''
          else if key \<noteq> admin_key then refuse ''Invalid fleet admin key''
          else if command \<notin> set FLEET_COMMANDS then refuse (''Command not allowed: '' @ command)
          else (case execute command params s of
                  (Inl text, s') \<Rightarrow> (Some (fleet_response peer_id (en_id m) ts False [] text), s')
                | (Inr data, s') \<Rightarrow> (Some (fleet_response peer_id (en_id m) ts True data []), s'))
      | _ \<Rightarrow> (None, s))"

lemma fleet_needs_key:
  "snd (handle_fleet_command execute key pid ts m s) \<noteq> s \<Longrightarrow>
     key \<noteq> [] \<and> dget as_str (en_payload m) ''fleet_admin_key'' [] = Some key
     \<and> (\<exists>command. dget as_str (en_payload m) ''command'' [] = Some command \<and> command \<in> set FLEET_COMMANDS)"
  by (auto simp: handle_fleet_command_def Let_def split: option.splits if_splits)

section \<open>Trust\<close>

definition trust_rank :: "pystr \<Rightarrow> nat" where
  "trust_rank s = (if s = ''full'' then 3 else if s = ''trusted'' then 2 else if s = ''untrusted'' then 1 else 0)"

definition raise_trust :: "pystr \<Rightarrow> pystr \<Rightarrow> pystr" where
  "raise_trust level best = (if trust_rank level > trust_rank best then level else best)"

definition peer_networks :: "node \<Rightarrow> manager \<Rightarrow> pystr \<Rightarrow> pystr list" where
  "peer_networks n f pid = (case get_peer pid (nd_registry n) of
     Some e \<Rightarrow> pe_network_ids e
   | None \<Rightarrow> (case map_of (nd_connections n) pid of
       Some s \<Rightarrow> filter_claimed_network_ids f (nh_network_ids (se_hello s)) (nh_join_keys (se_hello s))
     | None \<Rightarrow> filter_claimed_network_ids f [] []))"

definition resolve_peer_trust :: "node \<Rightarrow> pystr \<Rightarrow> pystr" where
  "resolve_peer_trust n pid = (case nd_federation n of
     None \<Rightarrow> ''untrusted''
   | Some f \<Rightarrow>
       let nets = peer_networks n f pid in
       if nets = [] then ''untrusted''
       else let home = (case fm_identity f of
                  Some i \<Rightarrow> if ni_network_id i \<in> set nets then raise_trust (ni_trust_level i) ''untrusted'' else ''untrusted''
                | None \<Rightarrow> ''untrusted'');
                hosted = fold (\<lambda>h best. if ni_network_id h \<in> set nets then raise_trust (ni_trust_level h) best else best)
                  (map snd (fm_hosted f)) home
            in fold (\<lambda>m best. if me_network_id m \<in> set nets then raise_trust ''trusted'' best else best)
                 (map snd (fm_memberships f)) hosted)"

section \<open>Sessions over a run\<close>

datatype inbound = Hello link bool pystr message | Ping message | Announce message | Fleet message

text \<open>Any sequence of messages from anyone, each with what it draws; a fleet command works on other state.\<close>

fun inbound_step :: "auth_prims \<Rightarrow> draw \<times> inbound \<Rightarrow> node \<Rightarrow> node" where
  "inbound_step P (d, Hello l ack_sent detail m) n = snd (handle_hello P d l ack_sent detail m n)"
| "inbound_step P (d, Ping m) n = snd (handle_ping P d m n)"
| "inbound_step P (d, Announce m) n = handle_announce d m n"
| "inbound_step P (d, Fleet m) n = n"

definition inbound_run :: "auth_prims \<Rightarrow> (draw \<times> inbound) list \<Rightarrow> node \<Rightarrow> node" where
  "inbound_run P evs n = fold (inbound_step P) evs n"

definition fresh_node :: "node \<Rightarrow> bool" where
  "fresh_node n \<longleftrightarrow> nd_connections n = [] \<and> nd_registry n = \<lparr>rg_peers = [], rg_index = []\<rparr>"

text \<open>
  Every session rests on an authentic hello of its own peer, and the networks of a registered peer are
  those its session's hello claims and the gate lets through; a peer without a session has none, and no
  connection to be routed over.
\<close>

definition hello_of :: "node \<Rightarrow> pystr \<Rightarrow> node_hello option" where
  "hello_of n pid = map_option se_hello (map_of (nd_connections n) pid)"

definition networks_of :: "node \<Rightarrow> pystr \<Rightarrow> pystr list option" where
  "networks_of n pid = map_option pe_network_ids (get_peer pid (nd_registry n))"

definition linked :: "node \<Rightarrow> pystr \<Rightarrow> bool" where
  "linked n pid = (case get_peer pid (nd_registry n) of Some e \<Rightarrow> pe_connection e \<noteq> None | None \<Rightarrow> False)"

definition session_ok :: "auth_prims \<Rightarrow> node \<Rightarrow> pystr \<Rightarrow> bool" where
  "session_ok P n pid = (case hello_of n pid of
     Some h \<Rightarrow> nh_peer_id h = pid \<and> authentic P h \<and> networks_of n pid = Some (accepted_network_ids n h)
   | None \<Rightarrow> networks_of n pid \<in> {None, Some []} \<and> \<not> linked n pid)"

definition sessions_inv :: "auth_prims \<Rightarrow> node \<Rightarrow> bool" where
  "sessions_inv P n \<longleftrightarrow> (\<forall>pid. session_ok P n pid)"

text \<open>\<open>session_ok\<close> reads a node through its federation and three views only.\<close>

lemma session_ok_cong:
  assumes "nd_federation n' = nd_federation n" "hello_of n' pid = hello_of n pid" "networks_of n' pid = networks_of n pid"
    "linked n' pid = linked n pid"
  shows "session_ok P n' pid = session_ok P n pid"
proof -
  have "accepted_network_ids n' h = accepted_network_ids n h" for h by (simp add: accepted_network_ids_def assms(1))
  then show ?thesis by (simp add: session_ok_def assms split: option.split)
qed

lemma get_peer_touch: "get_peer p (touch_peer q f r) = (if p = q then map_option f (get_peer p r) else get_peer p r)"
  by (auto simp: get_peer_def touch_peer_def split: option.split)

lemma get_peer_register:
  "map_option pe_network_ids (get_peer p (register q c k a ns now r)) =
     (if p = q then Some (case ns of Some x \<Rightarrow> x | None \<Rightarrow> (case get_peer p r of Some e \<Rightarrow> pe_network_ids e | None \<Rightarrow> []))
      else map_option pe_network_ids (get_peer p r))"
  "Option.bind (get_peer p (register q c k a ns now r)) pe_connection =
     (if p = q \<and> c \<noteq> None then c else Option.bind (get_peer p r) pe_connection)"
  by (auto simp: get_peer_def register_def Let_def dict_get_def new_entry_def split: option.splits)

lemma linked_bind: "linked n pid \<longleftrightarrow> Option.bind (get_peer pid (nd_registry n)) pe_connection \<noteq> None"
  by (auto simp: linked_def split: option.split)

lemma set_conn_state_view:
  "nd_federation (set_conn_state p st n) = nd_federation n"
  "hello_of (set_conn_state p st n) = hello_of n" "networks_of (set_conn_state p st n) = networks_of n"
  "linked (set_conn_state p st n) = linked n"
  by (auto simp: fun_eq_iff hello_of_def networks_of_def linked_def set_conn_state_def get_peer_touch option.map_comp comp_def
      split: option.split)

lemma admit_view:
  "nd_federation (admit l now h n) = nd_federation n"
  "hello_of (admit l now h n) = (hello_of n)(nh_peer_id h \<mapsto> h)"
  "networks_of (admit l now h n) = (networks_of n)(nh_peer_id h \<mapsto> accepted_network_ids n h)"
  "linked (admit l now h n) = (linked n)(nh_peer_id h := True)"
proof -
  have 1: "map_option pe_network_ids (get_peer p (touch_peer q (\<lambda>e. if pe_addresses e = [] then e\<lparr>pe_addresses := as\<rparr> else e) r))
      = map_option pe_network_ids (get_peer p r)" for p q as r
    by (auto simp: get_peer_touch option.map_comp comp_def intro!: option.map_cong)
  have 2: "Option.bind (get_peer p (touch_peer q (\<lambda>e. if pe_addresses e = [] then e\<lparr>pe_addresses := as\<rparr> else e) r)) pe_connection
      = Option.bind (get_peer p r) pe_connection" for p q as r
    by (cases "get_peer p r") (auto simp: get_peer_touch)
  show "nd_federation (admit l now h n) = nd_federation n" "hello_of (admit l now h n) = (hello_of n)(nh_peer_id h \<mapsto> h)"
    by (simp_all add: admit_def Let_def hello_of_def fun_eq_iff)
  show "networks_of (admit l now h n) = (networks_of n)(nh_peer_id h \<mapsto> accepted_network_ids n h)"
    by (rule ext) (simp add: admit_def Let_def networks_of_def get_peer_register 1 del: map_option_eq_Some split: option.split)
  show "linked (admit l now h n) = (linked n)(nh_peer_id h := True)"
    by (auto simp: admit_def Let_def linked_bind fun_eq_iff get_peer_register 2 split: option.split)
qed

lemma ping_view:
  assumes "n' = snd (handle_ping P d m n)"
  shows "nd_federation n' = nd_federation n \<and> hello_of n' = hello_of n \<and> networks_of n' = networks_of n \<and> linked n' = linked n"
proof -
  have t: "networks_of (n\<lparr>nd_registry := touch_peer p (\<lambda>e. e\<lparr>pe_state := st, pe_last_seen := t\<rparr>) (nd_registry n)\<rparr>) = networks_of n"
    "linked (n\<lparr>nd_registry := touch_peer p (\<lambda>e. e\<lparr>pe_state := st, pe_last_seen := t\<rparr>) (nd_registry n)\<rparr>) = linked n"
    "hello_of (n\<lparr>nd_registry := r\<rparr>) = hello_of n" for n p st t r
    by (auto simp: fun_eq_iff networks_of_def linked_def hello_of_def get_peer_touch option.map_comp comp_def split: option.split)
  show ?thesis unfolding assms
    by (auto simp: handle_ping_def Let_def t set_conn_state_view split: option.split)
qed

lemma reregister_view:
  assumes "n' = n\<lparr>nd_registry := register p (map_option se_conn (map_of (nd_connections n) p)) k a None t (nd_registry n)\<rparr>"
  shows "nd_federation n' = nd_federation n" "hello_of n' = hello_of n"
    "networks_of n' = (networks_of n)(p \<mapsto> (case networks_of n p of Some ns \<Rightarrow> ns | None \<Rightarrow> []))"
    "linked n' pid \<Longrightarrow> linked n pid \<or> hello_of n pid \<noteq> None"
proof -
  show "nd_federation n' = nd_federation n" "hello_of n' = hello_of n" by (simp_all add: assms hello_of_def fun_eq_iff)
  show "networks_of n' = (networks_of n)(p \<mapsto> (case networks_of n p of Some ns \<Rightarrow> ns | None \<Rightarrow> []))"
    by (rule ext) (simp add: assms networks_of_def get_peer_register del: map_option_eq_Some split: option.split)
  show "linked n' pid \<Longrightarrow> linked n pid \<or> hello_of n pid \<noteq> None"
    by (auto simp: assms hello_of_def linked_bind get_peer_register split: if_splits)
qed

lemma announce_view:
  assumes "n' = handle_announce d m n"
  shows "nd_federation n' = nd_federation n" "hello_of n' = hello_of n"
    "networks_of n' = networks_of n \<or> networks_of n' = (networks_of n)(en_from m \<mapsto> (case networks_of n (en_from m) of Some ns \<Rightarrow> ns | None \<Rightarrow> []))"
    "linked n' pid \<Longrightarrow> linked n pid \<or> hello_of n pid \<noteq> None"
proof -
  define n1 where "n1 = (case map_of (nd_connections n) (en_from m) of
      Some x \<Rightarrow> if session_alive x then set_conn_state (en_from m) ROUTABLE n else n | None \<Rightarrow> n)"
  have v: "nd_federation n1 = nd_federation n" "hello_of n1 = hello_of n" "networks_of n1 = networks_of n" "linked n1 = linked n"
    by (auto simp: n1_def set_conn_state_view split: option.split)
  have "n' = n1 \<or> (\<exists>k a t. n' = n1\<lparr>nd_registry := register (en_from m)
      (map_option se_conn (map_of (nd_connections n1) (en_from m))) k a None t (nd_registry n1)\<rparr>)"
    unfolding assms handle_announce_def Let_def n1_def [symmetric] by (simp split: option.split) blast
  then consider "n' = n1" | k a t where "n' = n1\<lparr>nd_registry := register (en_from m)
      (map_option se_conn (map_of (nd_connections n1) (en_from m))) k a None t (nd_registry n1)\<rparr>" by blast
  then have "nd_federation n' = nd_federation n \<and> hello_of n' = hello_of n
    \<and> (networks_of n' = networks_of n \<or> networks_of n' = (networks_of n)(en_from m \<mapsto> (case networks_of n (en_from m) of Some ns \<Rightarrow> ns | None \<Rightarrow> [])))
    \<and> (linked n' pid \<longrightarrow> linked n pid \<or> hello_of n pid \<noteq> None)"
  proof cases
    case 2
    show ?thesis using reregister_view [OF 2, unfolded v] by blast
  qed (simp add: v)
  then show "nd_federation n' = nd_federation n" "hello_of n' = hello_of n"
    "networks_of n' = networks_of n \<or> networks_of n' = (networks_of n)(en_from m \<mapsto> (case networks_of n (en_from m) of Some ns \<Rightarrow> ns | None \<Rightarrow> []))"
    "linked n' pid \<Longrightarrow> linked n pid \<or> hello_of n pid \<noteq> None" by blast+
qed

lemma admit_inv:
  assumes "sessions_inv P n" "authentic P h"
  shows "sessions_inv P (admit l now h n)"
  unfolding sessions_inv_def
proof
  fix pid
  have a: "accepted_network_ids (admit l now h n) h' = accepted_network_ids n h'" for h'
    by (simp add: accepted_network_ids_def admit_view)
  show "session_ok P (admit l now h n) pid"
  proof (cases "pid = nh_peer_id h")
    case True
    then show ?thesis using assms(2) by (simp add: session_ok_def admit_view a)
  next
    case False
    then have "session_ok P (admit l now h n) pid = session_ok P n pid" by (intro session_ok_cong) (simp_all add: admit_view)
    then show ?thesis using assms(1) by (simp add: sessions_inv_def)
  qed
qed

lemma announce_inv:
  assumes "sessions_inv P n"
  shows "sessions_inv P (handle_announce d m n)"
  unfolding sessions_inv_def
proof
  fix pid
  note v = announce_view [where n' = "handle_announce d m n" and d = d and m = m and n = n, OF refl]
  have ok: "session_ok P n pid" using assms by (simp add: sessions_inv_def)
  have a: "accepted_network_ids (handle_announce d m n) h = accepted_network_ids n h" for h
    by (simp add: accepted_network_ids_def v(1))
  show "session_ok P (handle_announce d m n) pid"
  proof (cases "hello_of n pid")
    case None
    then have "networks_of (handle_announce d m n) pid \<in> {None, Some []}"
      using v(3) ok by (auto simp: session_ok_def split: option.splits if_splits)
    moreover have "\<not> linked (handle_announce d m n) pid" using None v(4) [of pid] ok by (auto simp: session_ok_def)
    ultimately show ?thesis using None v(2) by (simp add: session_ok_def)
  next
    case (Some h)
    then have "networks_of (handle_announce d m n) pid = networks_of n pid"
      using v(3) ok by (auto simp: session_ok_def)
    then show ?thesis using Some v(2) ok by (simp add: session_ok_def a)
  qed
qed

lemma inbound_step_inv:
  assumes "sessions_inv P n"
  shows "sessions_inv P (inbound_step P ev n) \<and> nd_federation (inbound_step P ev n) = nd_federation n"
proof -
  obtain d x where ev: "ev = (d, x)" by (cases ev)
  show ?thesis
  proof (cases x)
    case (Hello l s t m)
    show ?thesis
    proof (cases "verify_hello_message P (dr_clock d) m")
      case (Inr h)
      have "authentic P h" using verified_message [OF Inr] by (simp add: verified_iff)
      then show ?thesis using assms Inr by (simp add: ev Hello handle_hello_def Let_def admit_inv admit_view)
    qed (simp add: ev Hello handle_hello_def assms)
  next
    case (Ping m)
    note v = ping_view [where n' = "snd (handle_ping P d m n)" and P = P and d = d and m = m and n = n, OF refl]
    have "session_ok P (snd (handle_ping P d m n)) pid = session_ok P n pid" for pid
      by (rule session_ok_cong) (simp_all add: v)
    then show ?thesis using assms v by (simp add: ev Ping sessions_inv_def)
  next
    case (Announce m)
    then show ?thesis by (simp add: ev announce_inv [OF assms] announce_view(1) [OF refl])
  qed (simp add: ev assms)
qed

lemma inbound_run_inv:
  "sessions_inv P n \<Longrightarrow> sessions_inv P (inbound_run P evs n) \<and> nd_federation (inbound_run P evs n) = nd_federation n"
proof (induction evs arbitrary: n)
  case (Cons ev evs)
  then show ?case using inbound_step_inv [OF Cons.prems, of ev] by (simp add: inbound_run_def)
qed (simp add: inbound_run_def)

lemma fresh_inv: "fresh_node n \<Longrightarrow> sessions_inv P n"
  by (simp add: fresh_node_def sessions_inv_def session_ok_def hello_of_def networks_of_def linked_def get_peer_def)

lemma fold_choose: "fold (\<lambda>x b. if p x then g x b else b) xs b0 \<noteq> b0 \<Longrightarrow> \<exists>x \<in> set xs. p x"
  by (induction xs arbitrary: b0) (auto split: if_splits)

text \<open>Trust comes from a network of the peer that is one of ours.\<close>

lemma trust_needs_network:
  assumes "resolve_peer_trust n pid \<noteq> ''untrusted''"
  obtains f x where "nd_federation n = Some f" "x \<in> set (peer_networks n f pid)"
    "(\<exists>i. fm_identity f = Some i \<and> ni_network_id i = x) \<or> (\<exists>h \<in> set (map snd (fm_hosted f)). ni_network_id h = x)
      \<or> (\<exists>m \<in> set (map snd (fm_memberships f)). me_network_id m = x)"
proof -
  obtain f m where f: "nd_federation n = Some f" using assms by (auto simp: resolve_peer_trust_def split: option.splits)
  let ?nets = "set (peer_networks n f pid)"
  have "\<exists>x \<in> ?nets. (\<exists>i. fm_identity f = Some i \<and> ni_network_id i = x) \<or> (\<exists>h \<in> set (map snd (fm_hosted f)). ni_network_id h = x)
      \<or> (\<exists>m \<in> set (map snd (fm_memberships f)). me_network_id m = x)"
  proof (rule ccontr)
    assume no: "\<not> ?thesis"
    have h: "\<forall>h \<in> set (map snd (fm_hosted f)). ni_network_id h \<notin> ?nets"
      and m: "\<forall>m \<in> set (map snd (fm_memberships f)). me_network_id m \<notin> ?nets"
      and i: "\<forall>i. fm_identity f = Some i \<longrightarrow> ni_network_id i \<notin> ?nets" using no by blast+
    have "fold (\<lambda>h best. if ni_network_id h \<in> ?nets then raise_trust (ni_trust_level h) best else best) (map snd (fm_hosted f)) b = b" for b
      using fold_choose h by fastforce
    moreover have "fold (\<lambda>m best. if me_network_id m \<in> ?nets then raise_trust ''trusted'' best else best) (map snd (fm_memberships f)) b = b" for b
      using fold_choose m by fastforce
    ultimately show False using assms i by (auto simp: resolve_peer_trust_def f Let_def split: option.splits if_splits)
  qed
  then show thesis using that f by blast
qed


text \<open>The registry entry of a peer just admitted.\<close>

lemma admit_entry:
  "\<exists>e. get_peer (nh_peer_id h) (nd_registry (admit l now h n)) = Some e \<and> pe_state e = ROUTABLE
     \<and> pe_capabilities e = routing_view (nh_capabilities h) \<and> pe_network_ids e = accepted_network_ids n h
     \<and> pe_connection e = Some (fresh_conn l) \<and> pe_last_seen e = now"
proof -
  let ?r = "register (nh_peer_id h) (Some (fresh_conn l)) (Some (routing_view (nh_capabilities h))) []
    (Some (accepted_network_ids n h)) now (nd_registry n)"
  obtain e where e: "get_peer (nh_peer_id h) ?r = Some e" "pe_state e = ROUTABLE"
    "pe_capabilities e = routing_view (nh_capabilities h)" "pe_network_ids e = accepted_network_ids n h"
    "pe_connection e = Some (fresh_conn l)" "pe_last_seen e = now"
    by (simp add: get_peer_def register_def Let_def fresh_conn_def)
  show ?thesis by (cases "li_host l") (simp_all add: admit_def Let_def get_peer_touch e)
qed

text \<open>
  An honest peer gets in, with what it announced. Of a node whose certificate is signed by an account
  and whose clock is within five minutes, the hello is accepted: the peer is registered as routable under
  the hash of its key, with the models it announced and the networks the gate lets through, and is sent an
  acknowledgement for its own request that it can verify in turn.
\<close>

theorem honest_peer_admitted:
  assumes "prims_ok P" "\<bar>dr_clock d 0 - sent_at\<bar> \<le> 300"
    and "cert = create_device_cert P issued ak dk name role ttl" "case ttl of Some t \<Rightarrow> t = 0 \<or> dr_clock d 1 \<le> issued + t | None \<Rightarrow> True"
    and "m = build_node_hello P sent_at nonce drawn ts dk cert caps keys" "drawn \<noteq> []" "peer = peer_id_from_public_key P (ap_public P dk)"
    and "dc_device_pubkey (nd_cert n) = ap_public P (nd_device_key n)" "verify_device_cert P (clock 1) (nd_cert n) None"
      "\<bar>clock 0 - dr_clock d 2\<bar> \<le> 300"
  shows "\<exists>ack n' e h. handle_hello P d l True detail m n = ([ack], n')
    \<and> get_peer peer (nd_registry n') = Some e \<and> pe_state e = ROUTABLE \<and> pe_connection e = Some (fresh_conn l)
    \<and> pe_capabilities e = routing_view (sane caps)
    \<and> pe_network_ids e = (case nd_federation n of Some f \<Rightarrow> filter_claimed_network_ids f (ad_network_ids caps) keys | None \<Rightarrow> ad_network_ids caps)
    \<and> en_type ack = NODE_HELLO_ACK \<and> en_id ack = drawn
    \<and> Option.bind (Option.bind (map_of (en_payload ack) ''hello'') as_str) (hello_from_cbor P) = Some h
    \<and> nh_peer_id h = nd_peer_id P n \<and> verify_node_hello P clock h = None"
proof -
  have dk: "dc_device_pubkey cert = ap_public P dk" by (simp add: assms(3) create_device_cert_def Let_def)
  have cert: "verify_device_cert P (dr_clock d 1) cert None"
    unfolding assms(3) by (rule created_cert_verifies [OF assms(1,4)]) simp
  let ?h = "sane_hello (own_hello P sent_at nonce dk cert caps keys)"
  let ?a = "own_hello P (dr_clock d 2) (dr_nonce d) (nd_device_key n) (nd_cert n) (nd_capabilities n) (own_join_keys n)"
  let ?ack = "build_hello_ack P (dr_clock d 2) (dr_nonce d) (dr_id d) (dr_clock d 3) (nd_device_key n) (nd_cert n)
                (nd_capabilities n) (en_id m) (own_join_keys n)"
  have v: "verify_hello_message P (dr_clock d) m = Inr ?h"
    unfolding assms(5) by (rule built_hello_verifies [OF assms(1,2) cert dk])
  have h: "nh_peer_id ?h = peer" "nh_capabilities ?h = sane caps" "nh_network_ids ?h = ad_network_ids caps" "nh_join_keys ?h = keys"
    by (simp_all add: own_hello_def hello_sign_def sane_hello_def assms(7) sane_def)
  have id: "en_id m = drawn" by (simp add: assms(5) build_node_hello_def)
  have r: "handle_hello P d l True detail m n = ([?ack], admit l (dr_clock d 4) ?h n)"
    by (simp add: handle_hello_def v)
  have "accepted_network_ids n ?h = (case nd_federation n of Some f \<Rightarrow> filter_claimed_network_ids f (ad_network_ids caps) keys
      | None \<Rightarrow> ad_network_ids caps)" by (simp add: accepted_network_ids_def h split: option.split)
  then obtain e where e: "get_peer peer (nd_registry (admit l (dr_clock d 4) ?h n)) = Some e" "pe_state e = ROUTABLE"
    "pe_connection e = Some (fresh_conn l)" "pe_capabilities e = routing_view (sane caps)"
    "pe_network_ids e = (case nd_federation n of Some f \<Rightarrow> filter_claimed_network_ids f (ad_network_ids caps) keys | None \<Rightarrow> ad_network_ids caps)"
    using admit_entry [of ?h l "dr_clock d 4" n] h by auto
  have "Option.bind (Option.bind (map_of (en_payload ?ack) ''hello'') as_str) (hello_from_cbor P) = Some (sane_hello ?a)"
    by (simp add: build_hello_ack_def build_node_hello_def Let_def hello_roundtrip [OF assms(1)])
  moreover have "verify_node_hello P clock (sane_hello ?a) = None" by (rule own_hello_verifies [OF assms(1,10,9,8)])
  moreover have "nh_peer_id (sane_hello ?a) = nd_peer_id P n" by (simp add: own_hello_def hello_sign_def sane_hello_def nd_peer_id_def)
  moreover have "en_type ?ack = NODE_HELLO_ACK" "en_id ?ack = drawn"
    by (simp_all add: build_hello_ack_def build_node_hello_def Let_def id assms(6))
  ultimately show ?thesis
    using r e by (intro exI [of _ ?ack] exI [of _ "admit l (dr_clock d 4) ?h n"] exI [of _ e] exI [of _ "sane_hello ?a"]) blast
qed

section \<open>Example\<close>

definition demo_advert :: advert where
  "demo_advert = \<lparr>ad_models = [\<lparr>ma_name = ''qwen'', ma_quant = [], ma_ctx_len = 4096, ma_backend = ''llama.cpp'', ma_tags = [],
       ma_tier = [], ma_param_count_b = 7, ma_scope = ''public'', ma_visible_networks = [], ma_features = [], ma_throughput_tok_s = 0,
       ma_loaded_bytes = 0, ma_deployment_id = [], ma_serving_group_id = [], ma_execution_roles = [], ma_parallelism = []\<rparr>],
     ad_hardware = \<lparr>hw_gpu = ''none'', hw_vram_gb = 0, hw_backend = ''cpu'', hw_ram_gb = 0, hw_available_memory_gb = 0,
       hw_architecture = [], hw_device_class = [], hw_power_constrained = False, hw_thermal_constrained = False,
       hw_network_expensive = False, hw_network_constrained = False\<rparr>,
     ad_max_concurrent = 2, ad_est_tok_s = 0, ad_role = ''seeder'', ad_version = ''0.8'', ad_network_ids = [''net-b'']\<rparr>"

definition demo_cert :: "pystr \<Rightarrow> device_cert" where
  "demo_cert dk = create_device_cert demo_auth 1 ''account'' dk ''default'' ''seeder'' None"

definition demo_node :: node where
  "demo_node = \<lparr>nd_device_key = ''me'', nd_cert = demo_cert ''me'', nd_capabilities = demo_advert,
     nd_federation = Some (blank\<lparr>fm_memberships := [(''net-b'', fst (join_network 1 ''net-b'' [] ''seeder'' [] [] [] [] [] blank))]\<rparr>),
     nd_connections = [], nd_registry = \<lparr>rg_peers = [], rg_index = []\<rparr>\<rparr>"

definition demo_draw :: draw where
  "demo_draw = \<lparr>dr_clock = (\<lambda>_. 10), dr_nonce = ''nonce'', dr_id = ''id''\<rparr>"

definition demo_link :: link where "demo_link = \<lparr>li_closed = False, li_host = Some ''192.0.2.7''\<rparr>"

definition demo_hello :: message where
  "demo_hello = build_node_hello demo_auth 5 ''n'' ''m1'' 5 ''peer'' (demo_cert ''peer'') demo_advert []"

lemma demo_verifies: "verify_device_cert demo_auth now (demo_cert dk) None" "dc_device_pubkey (demo_cert dk) = dk"
  unfolding demo_cert_def
  by (rule created_cert_verifies [OF demo_auth_ok]) (simp_all add: create_device_cert_def Let_def demo_auth_def)

theorem honest_peer_admitted_witness:
  "\<exists>ack n' e h. handle_hello demo_auth demo_draw demo_link True [] demo_hello demo_node = ([ack], n')
    \<and> get_peer ''reep'' (nd_registry n') = Some e \<and> pe_state e = ROUTABLE \<and> pe_connection e = Some (fresh_conn demo_link)
    \<and> pe_capabilities e = routing_view (sane demo_advert) \<and> pe_network_ids e = [''net-b'']
    \<and> en_type ack = NODE_HELLO_ACK \<and> en_id ack = ''m1''
    \<and> Option.bind (Option.bind (map_of (en_payload ack) ''hello'') as_str) (hello_from_cbor demo_auth) = Some h
    \<and> nh_peer_id h = nd_peer_id demo_auth demo_node \<and> verify_node_hello demo_auth (\<lambda>_. 11) h = None"
proof -
  have nets: "(case nd_federation demo_node of Some f \<Rightarrow> filter_claimed_network_ids f (ad_network_ids demo_advert) []
      | None \<Rightarrow> ad_network_ids demo_advert) = [''net-b'']"
    by (simp add: demo_node_def filter_claimed_network_ids_def required_keys_def blank_def demo_advert_def Let_def)
  have t: "\<bar>dr_clock demo_draw 0 - 5\<bar> \<le> 300" "\<bar>11 - dr_clock demo_draw 2\<bar> \<le> 300" by (simp_all add: demo_draw_def)
  have k: "dc_device_pubkey (nd_cert demo_node) = ap_public demo_auth (nd_device_key demo_node)"
    "verify_device_cert demo_auth 11 (nd_cert demo_node) None" "''reep'' = peer_id_from_public_key demo_auth (ap_public demo_auth ''peer'')"
    by (simp_all add: demo_node_def demo_verifies) (simp_all add: demo_auth_def peer_id_from_public_key_def)
  show ?thesis
    by (rule honest_peer_admitted [OF demo_auth_ok t(1) demo_cert_def [of "''peer''"] _ demo_hello_def _ k(3,1,2) t(2), unfolded nets]) simp_all
qed

definition demo_met :: node where
  "demo_met = inbound_run demo_auth [(demo_draw, Hello demo_link True [] demo_hello), (demo_draw, Ping demo_hello)] demo_node"

text \<open>
  A membership is enough for trust: a peer that merely claims a network this node joined, which nobody here
  is the authority for and no key protects, is trusted.
\<close>

lemma open_claim_trusted: "resolve_peer_trust demo_met ''reep'' = ''trusted''"
proof -
  let ?h = "sane_hello (own_hello demo_auth 5 ''n'' ''peer'' (demo_cert ''peer'') demo_advert [])"
  have "verify_hello_message demo_auth (dr_clock demo_draw) demo_hello = Inr ?h"
    unfolding demo_hello_def
    by (rule built_hello_verifies [OF demo_auth_ok]) (simp_all add: demo_draw_def demo_verifies, simp add: demo_auth_def)
  then have r: "demo_met = snd (handle_ping demo_auth demo_draw demo_hello (admit demo_link 10 ?h demo_node))"
    by (simp add: demo_met_def inbound_run_def handle_hello_def demo_draw_def)
  note v = ping_view [OF r]
  have h: "nh_peer_id ?h = ''reep''" "nh_network_ids ?h = [''net-b'']" "nh_join_keys ?h = []"
    by (simp_all add: own_hello_def hello_sign_def sane_hello_def peer_id_from_public_key_def demo_auth_def demo_advert_def)
  obtain f m where f: "nd_federation demo_node = Some f" "fm_identity f = None" "fm_hosted f = []" "fm_memberships f = [(''net-b'', m)]"
    "me_network_id m = ''net-b''"
    by (simp add: demo_node_def blank_def join_network_def Let_def)
  have "accepted_network_ids demo_node ?h = [''net-b'']"
    by (simp add: accepted_network_ids_def f h filter_claimed_network_ids_def required_keys_def)
  then have "networks_of demo_met ''reep'' = Some [''net-b'']" using v h(1) by (simp add: admit_view)
  then have "peer_networks demo_met g ''reep'' = [''net-b'']" for g by (auto simp: networks_of_def peer_networks_def)
  moreover have "nd_federation demo_met = Some f" using v f(1) by (simp add: admit_view)
  ultimately show ?thesis by (simp add: resolve_peer_trust_def Let_def f raise_trust_def trust_rank_def)
qed


text \<open>
  The other side of the message table: an announcement is taken under the name it carries. Whoever sends it,
  the entry of the named peer then lists the models of the announcement.
\<close>

lemma announce_rewrites_any_peer:
  "\<exists>e. get_peer victim (nd_registry (handle_announce d (peer_announce victim drawn ts [] (advert_to_dict caps)) n)) = Some e
     \<and> pe_capabilities e = routing_view (sane caps)"
  by (simp add: handle_announce_def peer_announce_def new_message_def dget_def advert_read_back pv_strs_def as_strs_def Let_def)
    (simp add: get_peer_def register_def Let_def split: option.split)

text \<open>
  \<open>PeerConnection.ping\<close> sends the identifier of the peer it pings as the sender. No node keeps a connection to
  itself, so the ping never restores anything.
\<close>

lemma ping_never_restores:
  "map_of (nd_connections n) (nd_peer_id P n) = None \<Longrightarrow> snd (handle_ping P d (ping_message (nd_peer_id P n) drawn ts) n) = n"
  by (simp add: handle_ping_def ping_message_def new_message_def Let_def)

end
