(* ===== verification/Peer_Manager.thy ===== *)
theory Peer_Manager
  imports Peer_Sessions
begin

text \<open>
  The outbound side: \<open>transport/peer_manager.py\<close> with the peer exchange of \<open>node.py\<close>. Each managed peer has a
  loop, a task of its own; where the loop stands is its \<open>phase\<close>, and the events are what its awaits can
  bring: the outcome of a dial, a heartbeat, the end of a wait. Events of different peers interleave freely.
  Connections are told apart by the peer only: a peer connected inbound and dialled at the same time is
  taken to have the later connection.
\<close>

section \<open>ManagedPeer\<close>

datatype link_state = Connecting | Handshaking | Routable | Disconnected

record managed_peer =
  mp_host :: pystr
  mp_port :: int
  mp_is_bootstrap :: bool
  mp_state :: link_state
  mp_connected :: bool
  mp_peer_id :: pystr
  mp_attempts :: nat
  mp_last_connect_attempt :: pyfloat
  mp_last_connected :: pyfloat
  mp_ping_failures :: nat

definition str_int :: "int \<Rightarrow> pystr" where
  "str_int i = (if i < 0 then CHR ''-'' # str_nat (nat (- i)) else str_nat (nat i))"

definition addr_of :: "pystr \<Rightarrow> int \<Rightarrow> pystr" where
  "addr_of host port = host @ '':'' @ str_int port"

definition new_managed :: "pystr \<Rightarrow> int \<Rightarrow> bool \<Rightarrow> managed_peer" where
  "new_managed host port bootstrap = \<lparr>mp_host = host, mp_port = port, mp_is_bootstrap = bootstrap, mp_state = Disconnected,
     mp_connected = False, mp_peer_id = [], mp_attempts = 0, mp_last_connect_attempt = 0, mp_last_connected = 0,
     mp_ping_failures = 0\<rparr>"

definition mp_addr :: "managed_peer \<Rightarrow> pystr" where
  "mp_addr p = addr_of (mp_host p) (mp_port p)"

definition backoff_delay :: "managed_peer \<Rightarrow> nat" where
  "backoff_delay p = min (5 * 2 ^ mp_attempts p) 60"

section \<open>PeerManager\<close>

definition MAX_MANAGED_PEERS :: nat where "MAX_MANAGED_PEERS = 20"
definition MAX_RECONNECT_ATTEMPTS :: nat where "MAX_RECONNECT_ATTEMPTS = 5"
definition MAX_PING_FAILURES :: nat where "MAX_PING_FAILURES = 3"

text \<open>Where the loop of a peer is: about to connect, in its heartbeat, waiting to reconnect, or cancelled.\<close>

datatype phase = Dialling | Beating | Waiting nat | Stopped

record peers_state =
  pm_node :: node
  pm_managed :: "(pystr, managed_peer \<times> phase) dict"
  pm_running :: bool

definition manage :: "pystr \<Rightarrow> int \<Rightarrow> bool \<Rightarrow> peers_state \<Rightarrow> peers_state" where
  "manage host port bootstrap s =
     s\<lparr>pm_managed := dict_set (pm_managed s) (addr_of host port) (new_managed host port bootstrap, Dialling)\<rparr>"

definition pm_start :: "(pystr \<times> int) list \<Rightarrow> peers_state \<Rightarrow> peers_state" where
  "pm_start bootstrap s = fold (\<lambda>(host, port) s. if map_of (pm_managed s) (addr_of host port) = None then manage host port True s else s)
     bootstrap (s\<lparr>pm_running := True\<rparr>)"

definition pm_stop :: "peers_state \<Rightarrow> peers_state" where
  "pm_stop s = s\<lparr>pm_running := False,
     pm_node := fold (\<lambda>(_, (p, _)) n. if mp_connected p then set_conn_state (mp_peer_id p) DISCONNECTED n else n)
       (pm_managed s) (pm_node s),
     pm_managed := map (\<lambda>(k, (p, _)). (k, (p\<lparr>mp_connected := False, mp_state := Disconnected\<rparr>, Stopped))) (pm_managed s)\<rparr>"

definition add_peer :: "pystr \<Rightarrow> int \<Rightarrow> pystr \<Rightarrow> peers_state \<Rightarrow> peers_state" where
  "add_peer host port peer_id s =
     (if map_of (pm_managed s) (addr_of host port) \<noteq> None \<or> \<not> pm_running s then s
      else if length (pm_managed s) \<ge> MAX_MANAGED_PEERS then s
      else if peer_id \<noteq> [] \<and> list_ex (\<lambda>(_, (p, _)). mp_peer_id p = peer_id) (pm_managed s) then s
      else manage host port False s)"

subsection \<open>Connecting\<close>

text \<open>
  What a dial comes to: no connection; no answer (a timeout or another exception while waiting); or an answer.
  \<open>shut\<close> is the protocol's closed flag when its connection is set up.
\<close>

datatype dial = Dial_failed | No_answer | Answered message

definition auto_join :: "pyfloat \<Rightarrow> pystr \<Rightarrow> pystr list \<Rightarrow> manager \<Rightarrow> manager" where
  "auto_join now addr nets f =
     (let mine = fm_network_ids f in
      fold (\<lambda>net f. if net \<in> set mine then f
        else snd (join_network now net (''bootstrap-'' @ take 8 net) ''seeder'' [addr] [] [] [] [] f)) nets f)"

text \<open>The node once an answered hello is taken: nothing of it is verified.\<close>

definition dialled :: "pyfloat \<Rightarrow> bool \<Rightarrow> managed_peer \<Rightarrow> node_hello \<Rightarrow> node \<Rightarrow> node" where
  "dialled now shut p h n =
     (let pid = nh_peer_id h;
          c = \<lparr>cn_state = ROUTABLE, cn_protocol = Some shut, cn_active_requests = 0, cn_rtt_history = []\<rparr>;
          r = touch_peer pid (\<lambda>e. (record_address_success (mp_addr p) e)\<lparr>pe_network_ids := accepted_network_ids n h\<rparr>)
                (register pid (Some c) (Some (routing_view (nh_capabilities h))) [] None now (nd_registry n))
      in n\<lparr>nd_connections := dict_set (nd_connections n) pid \<lparr>se_hello = h, se_conn = c\<rparr>, nd_registry := r,
           nd_federation := (if mp_is_bootstrap p then map_option (auto_join now (mp_addr p) (nh_network_ids h)) (nd_federation n)
                             else nd_federation n)\<rparr>)"

definition answered_hello :: "auth_prims \<Rightarrow> message \<Rightarrow> node_hello option" where
  "answered_hello P m = (if en_type m \<noteq> NODE_HELLO_ACK then None
     else case map_of (en_payload m) ''hello'' of
       None \<Rightarrow> None | Some v \<Rightarrow> if truthy v then Option.bind (as_str v) (hello_from_cbor P) else None)"

definition connect_peer :: "auth_prims \<Rightarrow> pyfloat \<Rightarrow> bool \<Rightarrow> dial \<Rightarrow> managed_peer \<Rightarrow> node \<Rightarrow> managed_peer \<times> node" where
  "connect_peer P now shut d p n =
     (let p1 = p\<lparr>mp_state := Connecting, mp_last_connect_attempt := now\<rparr>;
          failed = (p1\<lparr>mp_state := Disconnected\<rparr>, n)
      in case d of
           Answered m \<Rightarrow> (case answered_hello P m of
             None \<Rightarrow> failed
           | Some h \<Rightarrow> (p1\<lparr>mp_connected := True, mp_peer_id := nh_peer_id h, mp_state := Routable, mp_attempts := 0,
                  mp_ping_failures := 0, mp_last_connected := now\<rparr>, dialled now shut p h n))
         | _ \<Rightarrow> failed)"

subsection \<open>Heartbeat\<close>

definition disconnect_peer :: "managed_peer \<Rightarrow> node \<Rightarrow> managed_peer \<times> node" where
  "disconnect_peer p n =
     (let pid = mp_peer_id p;
          n1 = (if mp_connected p then set_conn_state pid DISCONNECTED n else n);
          n2 = (if pid = [] then n1
                else n1\<lparr>nd_connections := dict_pop (nd_connections n1) pid,
                      nd_registry := touch_peer pid (\<lambda>e. e\<lparr>pe_state := DISCONNECTED\<rparr>) (nd_registry n1)\<rparr>)
      in (p\<lparr>mp_connected := False, mp_state := Disconnected\<rparr>, n2))"

text \<open>How a heartbeat finds its connection: closed, or pinged with an answer, no answer in time, or an exception.\<close>

datatype beat = Closed | Pong | Ping_timeout | Ping_raised

definition heartbeat :: "beat \<Rightarrow> managed_peer \<Rightarrow> node \<Rightarrow> managed_peer \<times> node" where
  "heartbeat b p n =
     (if \<not> mp_connected p \<or> b = Closed then disconnect_peer p n
      else let n1 = (if b = Ping_timeout then set_conn_state (mp_peer_id p) DISCONNECTED n else n);
               p1 = (if b = Pong then p\<lparr>mp_ping_failures := 0\<rparr> else p\<lparr>mp_ping_failures := mp_ping_failures p + 1\<rparr>)
           in if mp_ping_failures p1 \<ge> MAX_PING_FAILURES then disconnect_peer p1 n1 else (p1, n1))"

subsection \<open>The loop\<close>

text \<open>The end of a turn of \<open>_manage_peer\<close>: \<open>None\<close> when it gives up, else how long it waits.\<close>

definition turn_end :: "managed_peer \<Rightarrow> phase option" where
  "turn_end p = (if \<not> mp_is_bootstrap p \<and> mp_attempts p \<ge> MAX_RECONNECT_ATTEMPTS then None else Some (Waiting (backoff_delay p)))"

definition put_peer :: "pystr \<Rightarrow> managed_peer \<Rightarrow> phase option \<Rightarrow> node \<Rightarrow> peers_state \<Rightarrow> peers_state" where
  "put_peer k p ph n s = s\<lparr>pm_node := n, pm_managed := (case ph of
     Some x \<Rightarrow> dict_set (pm_managed s) k (p, x) | None \<Rightarrow> dict_pop (pm_managed s) k)\<rparr>"

text \<open>The events of a run; an event its peer's loop is not waiting for cannot happen.\<close>

datatype event = Dialled pystr pyfloat bool dial | Beat pystr beat | Wake pystr | Add pystr int pystr

fun pm_step :: "auth_prims \<Rightarrow> event \<Rightarrow> peers_state \<Rightarrow> peers_state option" where
  "pm_step P (Dialled k now shut d) s = (case map_of (pm_managed s) k of
     Some (p, Dialling) \<Rightarrow>
       let (p1, n1) = connect_peer P now shut d p (pm_node s) in
       Some (if mp_state p1 = Routable then put_peer k (p1\<lparr>mp_attempts := 0\<rparr>) (Some Beating) n1 s
             else put_peer k p1 (turn_end p1) n1 s)
   | _ \<Rightarrow> None)"
| "pm_step P (Beat k b) s = (case map_of (pm_managed s) k of
     Some (p, Beating) \<Rightarrow>
       let (p1, n1) = heartbeat b p (pm_node s) in
       Some (if mp_state p1 = Routable then put_peer k p1 (Some Beating) n1 s else put_peer k p1 (turn_end p1) n1 s)
   | _ \<Rightarrow> None)"
| "pm_step P (Wake k) s = (case map_of (pm_managed s) k of
     Some (p, Waiting _) \<Rightarrow> Some (put_peer k (p\<lparr>mp_attempts := mp_attempts p + 1\<rparr>) (Some Dialling) (pm_node s) s)
   | _ \<Rightarrow> None)"
| "pm_step P (Add host port pid) s = Some (add_peer host port pid s)"

fun pm_run :: "auth_prims \<Rightarrow> event list \<Rightarrow> peers_state \<Rightarrow> peers_state option" where
  "pm_run P [] s = Some s"
| "pm_run P (e # es) s = Option.bind (pm_step P e s) (pm_run P es)"


section \<open>Giving up\<close>

fun about :: "pystr \<Rightarrow> event \<Rightarrow> bool" where
  "about k (Dialled j _ _ _) = (j = k)"
| "about k (Beat j _) = (j = k)"
| "about k (Wake j) = (j = k)"
| "about k (Add host port _) = (addr_of host port = k)"

text \<open>An event that does not bring the peer a connection.\<close>

fun fails :: "auth_prims \<Rightarrow> event \<Rightarrow> bool" where
  "fails P (Dialled _ _ _ d) = (case d of Answered m \<Rightarrow> answered_hello P m = None | _ \<Rightarrow> True)"
| "fails P (Add _ _ _) = False"
| "fails P _ = True"

fun is_dial :: "event \<Rightarrow> bool" where "is_dial (Dialled _ _ _ _) = True" | "is_dial _ = False"

lemma put_peer_other: "j \<noteq> k \<Longrightarrow> map_of (pm_managed (put_peer j p ph n s)) k = map_of (pm_managed s) k"
  by (auto simp: put_peer_def split: option.split)

lemma put_peer_same: "map_of (pm_managed (put_peer k p ph n s)) k = map_option (Pair p) ph"
  by (auto simp: put_peer_def split: option.split)

text \<open>A peer's entry changes by events about it only.\<close>

lemma step_other:
  assumes "pm_step P e s = Some s'" "\<not> about k e"
  shows "map_of (pm_managed s') k = map_of (pm_managed s) k"
  using assms
  by (cases e) (auto simp: put_peer_other add_peer_def manage_def Let_def split: option.splits prod.splits phase.splits if_splits)

text \<open>Where a peer stands whose dials have all failed: after \<open>n\<close> dials and waits.\<close>

definition stands :: "bool \<Rightarrow> nat \<Rightarrow> (managed_peer \<times> phase) option \<Rightarrow> bool" where
  "stands bootstrap n x \<longleftrightarrow>
     (if \<not> bootstrap \<and> n \<ge> 11 then x = None
      else (case x of None \<Rightarrow> False | Some (p, ph) \<Rightarrow> mp_is_bootstrap p = bootstrap \<and> mp_attempts p = n div 2 \<and> mp_state p = Disconnected
         \<and> ph = (if even n then Dialling else Waiting (min (5 * 2 ^ (n div 2)) 60))))"

lemma stands_step:
  assumes "stands b n (map_of (pm_managed s) k)" "pm_step P e s = Some s'" "about k e" "fails P e"
  shows "stands b (Suc n) (map_of (pm_managed s') k) \<and> (\<not> b \<longrightarrow> n < 11) \<and> is_dial e = even n"
proof -
  obtain p ph where x: "map_of (pm_managed s) k = Some (p, ph)"
    using assms(2-4) by (cases e) (auto split: option.splits)
  then have st: "\<not> (\<not> b \<and> n \<ge> 11)" "mp_is_bootstrap p = b" "mp_attempts p = n div 2" "mp_state p = Disconnected"
    "ph = (if even n then Dialling else Waiting (min (5 * 2 ^ (n div 2)) 60))"
    using assms(1) by (auto simp: stands_def split: if_splits)
  show ?thesis
  proof (cases e)
    case (Dialled j t c d)
    then have "even n" using assms x st(5) by (auto split: if_splits)
    have c: "connect_peer P t c d p (pm_node s) = (p\<lparr>mp_state := Disconnected, mp_last_connect_attempt := t\<rparr>, pm_node s)"
      using assms(4) by (auto simp: Dialled connect_peer_def Let_def split: dial.splits)
    have "map_of (pm_managed s') k = map_option (Pair (p\<lparr>mp_state := Disconnected, mp_last_connect_attempt := t\<rparr>))
        (turn_end (p\<lparr>mp_state := Disconnected, mp_last_connect_attempt := t\<rparr>))"
      using assms(2,3) x \<open>even n\<close> st(5) by (auto simp: Dialled c put_peer_same)
    then show ?thesis using st \<open>even n\<close>
      by (auto simp: stands_def turn_end_def MAX_RECONNECT_ATTEMPTS_def backoff_delay_def Dialled elim!: evenE)
  next
    case (Wake j)
    then have "odd n" using assms x st(5) by (auto split: if_splits)
    then have "map_of (pm_managed s') k = Some (p\<lparr>mp_attempts := mp_attempts p + 1\<rparr>, Dialling)"
      using assms(2,3) x st(5) by (auto simp: Wake put_peer_same)
    then show ?thesis using st \<open>odd n\<close> by (auto simp: stands_def Wake elim!: oddE)
  next
    case (Beat j b')
    then show ?thesis using assms x st(5) by (auto split: if_splits)
  qed (use assms in auto)
qed

lemma stands_run:
  "pm_run P es s = Some s' \<Longrightarrow> stands b n (map_of (pm_managed s) k) \<Longrightarrow> \<forall>e \<in> set es. about k e \<longrightarrow> fails P e
   \<Longrightarrow> stands b (n + length (filter (about k) es)) (map_of (pm_managed s') k)
     \<and> (\<not> b \<longrightarrow> n \<le> 11 \<longrightarrow> n + length (filter (about k) es) \<le> 11)
     \<and> (n + 1) div 2 + length (filter (\<lambda>e. about k e \<and> is_dial e) es) = (n + length (filter (about k) es) + 1) div 2"
proof (induction es arbitrary: s n)
  case (Cons e es)
  obtain s1 where s1: "pm_step P e s = Some s1" "pm_run P es s1 = Some s'" using Cons.prems(1) by (cases "pm_step P e s") auto
  show ?case
  proof (cases "about k e")
    case True
    have e: "stands b (Suc n) (map_of (pm_managed s1) k)" "\<not> b \<longrightarrow> n < 11" "is_dial e = even n"
      using stands_step [OF Cons.prems(2) s1(1) True] Cons.prems(3) True by auto
    have "(Suc n + 1) div 2 = (n + 1) div 2 + (if is_dial e then 1 else 0)" unfolding e(3) by (auto elim!: evenE oddE)
    then show ?thesis using Cons.IH [OF s1(2) e(1)] e(2) Cons.prems(3) True by auto
  next
    case False
    then show ?thesis using Cons.IH [OF s1(2), of n] step_other [OF s1(1) False] Cons.prems(2,3) by auto
  qed
qed simp

text \<open>
  C17: a dead address does not hold its slot. However the events of other peers interleave, a discovered peer
  none of whose dials succeeds is dialled six times, with waits of 5, 10, 20, 40 and 60 seconds between, and
  is then gone; until then its loop always has a next event to wait for. A bootstrap peer in its place is
  never given up: it is always dialled again within 60 seconds.
\<close>

theorem dead_peer_given_up:
  assumes "pm_run P es s = Some s'" "map_of (pm_managed s) k = Some (new_managed host port bootstrap, Dialling)"
    and "\<forall>e \<in> set es. about k e \<longrightarrow> fails P e"
  shows "let n = length (filter (about k) es) in
     length (filter (\<lambda>e. about k e \<and> is_dial e) es) = (n + 1) div 2
   \<and> (\<not> bootstrap \<longrightarrow> n \<le> 11 \<and> (map_of (pm_managed s') k = None \<longleftrightarrow> n = 11))
   \<and> (bootstrap \<or> n < 11 \<longrightarrow> (\<exists>p. map_of (pm_managed s') k
        = Some (p, if even n then Dialling else Waiting (min (5 * 2 ^ (n div 2)) 60))
        \<and> pm_step P (if even n then Dialled k 0 False Dial_failed else Wake k) s' \<noteq> None))"
proof -
  let ?n = "length (filter (about k) es)"
  have "stands bootstrap 0 (map_of (pm_managed s) k)" by (simp add: assms(2) stands_def new_managed_def)
  from stands_run [OF assms(1) this assms(3)]
  have r: "stands bootstrap ?n (map_of (pm_managed s') k)" "\<not> bootstrap \<longrightarrow> ?n \<le> 11"
    "length (filter (\<lambda>e. about k e \<and> is_dial e) es) = (?n + 1) div 2" by auto
  have "\<exists>p. map_of (pm_managed s') k = Some (p, if even ?n then Dialling else Waiting (min (5 * 2 ^ (?n div 2)) 60))
      \<and> pm_step P (if even ?n then Dialled k 0 False Dial_failed else Wake k) s' \<noteq> None" if lt: "bootstrap \<or> ?n < 11"
  proof -
    obtain p where "map_of (pm_managed s') k = Some (p, if even ?n then Dialling else Waiting (min (5 * 2 ^ (?n div 2)) 60))"
      using r(1) lt by (auto simp: stands_def split: option.splits if_splits)
    then show ?thesis by (auto simp: connect_peer_def Let_def)
  qed
  moreover have "map_of (pm_managed s') k = None \<longleftrightarrow> ?n = 11" if "\<not> bootstrap"
    using r that by (auto simp: stands_def split: option.splits if_splits)
  ultimately show ?thesis unfolding Let_def using r(2,3) by blast
qed

section \<open>Bounds\<close>

lemma length_dict_set: "length (dict_set d k v) = (if map_of d k = None then Suc (length d) else length d)"
  unfolding dict_set_def by (induction d) auto

lemma length_dict_pop: "length (dict_pop d k) \<le> length d"
  by (simp add: dict_pop_def AList.length_delete_le)

text \<open>\<open>m\<close> bounds the table; each entry is under its own address, its loop where its state says, within its bounds.\<close>

definition entry_ok :: "pystr \<Rightarrow> managed_peer \<times> phase \<Rightarrow> bool" where
  "entry_ok k x = (case x of (p, ph) \<Rightarrow> mp_addr p = k \<and> (ph = Beating \<longleftrightarrow> mp_state p = Routable)
     \<and> (ph = Beating \<longrightarrow> mp_connected p) \<and> (\<not> mp_is_bootstrap p \<longrightarrow> mp_attempts p \<le> 5)
     \<and> (case ph of Waiting w \<Rightarrow> w \<le> 60 \<and> (\<not> mp_is_bootstrap p \<longrightarrow> mp_attempts p < 5) | _ \<Rightarrow> True))"

definition pm_inv :: "nat \<Rightarrow> pystr set \<Rightarrow> peers_state \<Rightarrow> bool" where
  "pm_inv m lifeline s \<longleftrightarrow> dict_ok (pm_managed s) \<and> length (pm_managed s) \<le> m
     \<and> (\<forall>k x. map_of (pm_managed s) k = Some x \<longrightarrow> entry_ok k x)
     \<and> (\<forall>k \<in> lifeline. \<exists>x. map_of (pm_managed s) k = Some x \<and> mp_is_bootstrap (fst x))"

lemma put_peer_inv:
  assumes "pm_inv m B s" "map_of (pm_managed s) k = Some (p, ph)"
    and "ph' \<noteq> None \<Longrightarrow> entry_ok k (p', the ph')" "mp_is_bootstrap p' = mp_is_bootstrap p" "ph' = None \<Longrightarrow> \<not> mp_is_bootstrap p"
  shows "pm_inv m B (put_peer k p' ph' n s)"
proof (cases ph')
  case None
  have "length (dict_pop (pm_managed s) k) \<le> m" using length_dict_pop [of "pm_managed s" k] assms(1) by (simp add: pm_inv_def)
  then show ?thesis using assms None by (fastforce simp: pm_inv_def put_peer_def split: if_splits)
next
  case (Some x)
  then show ?thesis using assms by (auto simp: pm_inv_def put_peer_def length_dict_set split: if_splits)
qed

lemma turn_end_ok:
  assumes "mp_addr p = k" "mp_state p \<noteq> Routable" "\<not> mp_is_bootstrap p \<Longrightarrow> mp_attempts p \<le> 5"
  shows "(turn_end p = None \<longrightarrow> \<not> mp_is_bootstrap p) \<and> (turn_end p \<noteq> None \<longrightarrow> entry_ok k (p, the (turn_end p)))"
  using assms by (auto simp: turn_end_def entry_ok_def MAX_RECONNECT_ATTEMPTS_def backoff_delay_def)

lemma turn_inv:
  assumes "pm_inv m B s" "map_of (pm_managed s) k = Some (p, ph)" "mp_addr p1 = k" "mp_is_bootstrap p1 = mp_is_bootstrap p"
    and "\<not> mp_is_bootstrap p1 \<Longrightarrow> mp_attempts p1 \<le> 5" "mp_state p1 = Routable \<Longrightarrow> mp_connected p1"
  shows "pm_inv m B (if mp_state p1 = Routable then put_peer k p1 (Some Beating) n s else put_peer k p1 (turn_end p1) n s)"
proof (cases "mp_state p1 = Routable")
  case True
  then have "entry_ok k (p1, Beating)" using assms(3,5,6) by (simp add: entry_ok_def)
  then show ?thesis using True put_peer_inv [OF assms(1,2) _ assms(4), of "Some Beating"] by simp
next
  case False
  note te = turn_end_ok [OF assms(3) False assms(5)]
  have "pm_inv m B (put_peer k p1 (turn_end p1) n s)"
    by (rule put_peer_inv [OF assms(1,2) _ assms(4)]) (use te assms(4) in auto)
  then show ?thesis using False by simp
qed

lemma step_inv:
  assumes "pm_inv m B s" "20 \<le> m" "pm_step P e s = Some s'"
  shows "pm_inv m B s'"
proof (cases e)
  case (Dialled k t c d)
  obtain p where x: "map_of (pm_managed s) k = Some (p, Dialling)"
    using assms(3) by (auto simp: Dialled split: option.splits phase.splits)
  have p: "mp_addr p = k" "\<not> mp_is_bootstrap p \<longrightarrow> mp_attempts p \<le> 5"
    using assms(1) x by (auto simp: pm_inv_def entry_ok_def)
  obtain p1 n1 where c: "connect_peer P t c d p (pm_node s) = (p1, n1)" by fastforce
  have p1: "mp_addr p1 = k" "mp_is_bootstrap p1 = mp_is_bootstrap p" "mp_attempts p1 \<le> mp_attempts p"
    "mp_state p1 = Routable \<Longrightarrow> mp_connected p1" "mp_state p1 = Routable \<Longrightarrow> p1\<lparr>mp_attempts := 0\<rparr> = p1"
    using c p by (auto simp: connect_peer_def mp_addr_def Let_def split: dial.splits option.splits)
  have s': "s' = (if mp_state p1 = Routable then put_peer k p1 (Some Beating) n1 s else put_peer k p1 (turn_end p1) n1 s)"
    using assms(3) p1(5) by (cases "mp_state p1 = Routable") (auto simp: Dialled x c)
  have "mp_attempts p1 \<le> 5" if "\<not> mp_is_bootstrap p1" using p(2) p1(2,3) that by simp
  then show ?thesis unfolding s' by (rule turn_inv [OF assms(1) x p1(1,2) _ p1(4)])
next
  case (Beat k b)
  obtain p where x: "map_of (pm_managed s) k = Some (p, Beating)"
    using assms(3) by (auto simp: Beat split: option.splits phase.splits)
  have p: "mp_addr p = k" "mp_state p = Routable" "mp_connected p" "\<not> mp_is_bootstrap p \<longrightarrow> mp_attempts p \<le> 5"
    using assms(1) x by (auto simp: pm_inv_def entry_ok_def)
  obtain p1 n1 where c: "heartbeat b p (pm_node s) = (p1, n1)" by fastforce
  have p1: "mp_addr p1 = k" "mp_is_bootstrap p1 = mp_is_bootstrap p" "mp_attempts p1 = mp_attempts p"
    "mp_state p1 = Routable \<Longrightarrow> mp_connected p1"
    using c p by (auto simp: heartbeat_def disconnect_peer_def mp_addr_def Let_def split: if_splits)
  have s': "s' = (if mp_state p1 = Routable then put_peer k p1 (Some Beating) n1 s else put_peer k p1 (turn_end p1) n1 s)"
    using assms(3) by (simp add: Beat x c)
  have "mp_attempts p1 \<le> 5" if "\<not> mp_is_bootstrap p1" using p(4) p1(2,3) that by simp
  then show ?thesis unfolding s' by (rule turn_inv [OF assms(1) x p1(1,2) _ p1(4)])
next
  case (Wake k)
  obtain p w where x: "map_of (pm_managed s) k = Some (p, Waiting w)"
    using assms(3) by (auto simp: Wake split: option.splits phase.splits)
  then have s': "s' = put_peer k (p\<lparr>mp_attempts := mp_attempts p + 1\<rparr>) (Some Dialling) (pm_node s) s" using assms(3) by (simp add: Wake)
  have "entry_ok k (p, Waiting w)" using assms(1) x by (auto simp: pm_inv_def)
  then show ?thesis unfolding s' by (intro put_peer_inv [OF assms(1) x]) (auto simp: entry_ok_def mp_addr_def)
next
  case (Add host port pid)
  have n: "pm_inv m B (manage host port False s)" if "map_of (pm_managed s) (addr_of host port) = None" "length (pm_managed s) < 20"
    using assms(1,2) that by (auto simp: pm_inv_def manage_def length_dict_set entry_ok_def new_managed_def mp_addr_def split: if_splits)
  have "s' = s \<or> (map_of (pm_managed s) (addr_of host port) = None \<and> length (pm_managed s) < 20 \<and> s' = manage host port False s)"
    using assms(3) by (simp add: Add add_peer_def MAX_MANAGED_PEERS_def not_le del: not_None_eq split: if_splits)
  then show ?thesis using assms(1) n by blast
qed

lemma run_inv: "pm_run P es s = Some s' \<Longrightarrow> pm_inv m B s \<Longrightarrow> 20 \<le> m \<Longrightarrow> pm_inv m B s'"
proof (induction es arbitrary: s)
  case (Cons e es)
  then obtain s1 where "pm_step P e s = Some s1" "pm_run P es s1 = Some s'" by (cases "pm_step P e s") auto
  then show ?case using Cons.IH step_inv Cons.prems by blast
qed simp

lemma start_inv:
  assumes "pm_managed s = []"
  shows "pm_inv (max 20 (length bs)) ((\<lambda>(h, p). addr_of h p) ` set bs) (pm_start bs s)"
proof -
  let ?step = "\<lambda>(host, port) s. if map_of (pm_managed s) (addr_of host port) = None then manage host port True s else s"
  let ?boot = "\<lambda>s. \<forall>k x. map_of (pm_managed s) k = Some x \<longrightarrow> mp_is_bootstrap (fst x)"
  have "pm_inv (m + length bs) (B \<union> (\<lambda>(h, p). addr_of h p) ` set bs) (fold ?step bs s)" if "pm_inv m B s" "?boot s" for m B s
    using that
  proof (induction bs arbitrary: m B s)
    case (Cons b bs)
    obtain h p where b: "b = (h, p)" by (cases b)
    have 1: "pm_inv (Suc m) (insert (addr_of h p) B) (?step b s)"
      using Cons.prems by (auto simp: b pm_inv_def manage_def length_dict_set entry_ok_def new_managed_def mp_addr_def split: if_splits)
    have 2: "?boot (?step b s)" using Cons.prems(2) by (auto simp: b manage_def new_managed_def split: if_splits)
    show ?case using Cons.IH [OF 1 2] by (simp add: b)
  qed simp
  from this [of 0 "{}" "s\<lparr>pm_running := True\<rparr>"] show ?thesis
    using assms by (auto simp: pm_start_def pm_inv_def)
qed

text \<open>
  C18: the table of managed peers is bounded, and the lifelines stay in it. After any run from a start, at most
  twenty peers are managed, or as many as there are bootstrap peers; every bootstrap peer still is, and its
  loop is dialling, in its heartbeat or waiting at most a minute; a discovered peer has failed at most five
  times; and a peer is in its heartbeat exactly when it is routable, over a connection it holds.
\<close>

theorem managed_peers_bounded:
  assumes "pm_managed s0 = []" "pm_run P es (pm_start bootstrap s0) = Some s"
  shows "length (pm_managed s) \<le> max 20 (length bootstrap)
    \<and> (\<forall>(h, q) \<in> set bootstrap. \<exists>p ph. map_of (pm_managed s) (addr_of h q) = Some (p, ph) \<and> mp_is_bootstrap p)
    \<and> (map_of (pm_managed s) k = Some (p, ph) \<longrightarrow>
         mp_addr p = k \<and> (ph = Beating \<longleftrightarrow> mp_state p = Routable) \<and> (ph = Beating \<longrightarrow> mp_connected p)
         \<and> (\<forall>w. ph = Waiting w \<longrightarrow> w \<le> 60) \<and> (mp_is_bootstrap p \<or> mp_attempts p \<le> 5))"
proof -
  have inv: "pm_inv (max 20 (length bootstrap)) ((\<lambda>(h, p). addr_of h p) ` set bootstrap) s"
    by (rule run_inv [OF assms(2) start_inv [OF assms(1)]]) simp
  then have "\<forall>(h, q) \<in> set bootstrap. \<exists>p ph. map_of (pm_managed s) (addr_of h q) = Some (p, ph) \<and> mp_is_bootstrap p"
    by (fastforce simp: pm_inv_def)
  moreover have "entry_ok k (p, ph)" if "map_of (pm_managed s) k = Some (p, ph)" using inv that by (simp add: pm_inv_def)
  ultimately show ?thesis using inv unfolding entry_ok_def pm_inv_def by (cases ph) auto
qed

section \<open>Dialled connections\<close>

text \<open>
  The answer to a dial is believed: whatever hello it carries, signed or not, the connection is filed under
  the identifier the hello names, and a bootstrap peer's networks are joined.
\<close>

lemma dialled_peer_unverified:
  assumes "prims_ok P" "mp_state p = Disconnected"
    and "m = new_message NODE_HELLO_ACK x y z [(''hello'', PStr (hello_to_cbor P h))]"
  shows "\<exists>s. map_of (nd_connections (snd (connect_peer P now shut (Answered m) p n))) (nh_peer_id h) = Some s
     \<and> se_hello s = sane_hello h"
proof -
  have "hello_to_cbor P h \<noteq> []" using assms(1) by (simp add: hello_to_cbor_def prims_ok_def)
  then have "answered_hello P m = Some (sane_hello h)"
    by (simp add: answered_hello_def assms(3) new_message_def truthy_def hello_roundtrip [OF assms(1)])
  moreover have "nh_peer_id (sane_hello h) = nh_peer_id h" by (simp add: sane_hello_def)
  ultimately show ?thesis by (simp add: connect_peer_def dialled_def Let_def)
qed

section \<open>Peer exchange\<close>

text \<open>\<open>int(s)\<close>: white space around, a sign, digits with single underscores between.\<close>

fun digits :: "nat \<Rightarrow> pystr \<Rightarrow> nat option" where
  "digits n [] = Some n"
| "digits n (c # s) = (let d = (of_char c :: nat) in
     if 48 \<le> d \<and> d \<le> 57 then digits (10 * n + (d - 48)) s
     else if c = CHR ''_'' then (case s of e # _ \<Rightarrow> if e = CHR ''_'' then None else digits n s | [] \<Rightarrow> None)
     else None)"

definition py_nat :: "pystr \<Rightarrow> nat option" where
  "py_nat s = (case s of [] \<Rightarrow> None | c # _ \<Rightarrow> if c = CHR ''_'' then None else digits 0 s)"

definition py_int :: "pystr \<Rightarrow> int option" where
  "py_int s = (case py_strip s of
     CHR ''-'' # t \<Rightarrow> map_option (\<lambda>n. - int n) (py_nat t)
   | CHR ''+'' # t \<Rightarrow> map_option int (py_nat t)
   | t \<Rightarrow> map_option int (py_nat t))"

text \<open>\<open>addr.rsplit(":", 1)\<close> of an address with a colon.\<close>

definition rsplit_colon :: "pystr \<Rightarrow> pystr \<times> pystr" where
  "rsplit_colon a = (let r = rev a in (rev (drop 1 (dropWhile (\<lambda>c. c \<noteq> CHR '':'') r)), rev (takeWhile (\<lambda>c. c \<noteq> CHR '':'') r)))"

definition offer_addr :: "pystr \<Rightarrow> pystr \<Rightarrow> peers_state \<Rightarrow> peers_state" where
  "offer_addr pid a s = (if CHR '':'' \<in> set a then
     (let (host, port) = rsplit_colon a in case py_int port of Some q \<Rightarrow> add_peer host q pid s | None \<Rightarrow> s) else s)"

text \<open>One entry of the list: its identifier, its addresses and its advertisement.\<close>

definition learn_peer :: "pystr \<Rightarrow> pyfloat \<Rightarrow> pystr \<times> pystr list \<times> advert \<Rightarrow> peers_state \<Rightarrow> peers_state" where
  "learn_peer own now x s = (case x of (pid, addrs, caps) \<Rightarrow>
     if pid \<noteq> [] \<and> pid \<noteq> own \<and> map_of (nd_connections (pm_node s)) pid = None \<and> addrs \<noteq> [] then
       (let r = register pid None (Some (routing_view caps)) addrs None now (nd_registry (pm_node s));
            sorted_addrs = (case get_peer pid r of Some e \<Rightarrow> sorted_addresses e | None \<Rightarrow> addrs)
        in fold (offer_addr pid) sorted_addrs (s\<lparr>pm_node := (pm_node s)\<lparr>nd_registry := r\<rparr>\<rparr>))
     else s)"

text \<open>
  The entries are worked off in order; one that cannot be read raises and ends the handler. An entry whose
  identifier is skipped, or without addresses, is not read further.
\<close>

definition read_entry :: "pv \<Rightarrow> (pystr \<times> pystr list \<times> pdict) option" where
  "read_entry v = do { d \<leftarrow> as_dict v; pid \<leftarrow> dget as_str d ''peer_id'' []; addrs \<leftarrow> dget as_strs d ''addresses'' [];
     caps \<leftarrow> dget as_dict d ''capabilities'' []; Some (pid, addrs, caps) }"

fun learn_all :: "pystr \<Rightarrow> pyfloat \<Rightarrow> pv list \<Rightarrow> peers_state \<Rightarrow> peers_state" where
  "learn_all own now [] s = s"
| "learn_all own now (v # vs) s = (case read_entry v of
     None \<Rightarrow> s
   | Some (pid, addrs, caps) \<Rightarrow>
       if pid \<noteq> [] \<and> pid \<noteq> own \<and> map_of (nd_connections (pm_node s)) pid = None \<and> addrs \<noteq> [] then
         (case advert_from_dict caps of None \<Rightarrow> s | Some a \<Rightarrow> learn_all own now vs (learn_peer own now (pid, addrs, a) s))
       else learn_all own now vs s)"

definition handle_peer_exchange :: "auth_prims \<Rightarrow> pyfloat \<Rightarrow> message \<Rightarrow> peers_state \<Rightarrow> peers_state" where
  "handle_peer_exchange P now m s = (case dget as_list (en_payload m) ''peers'' [] of
     None \<Rightarrow> s | Some vs \<Rightarrow> learn_all (nd_peer_id P (pm_node s)) now vs s)"

text \<open>Gossip opens no session and gives no network: what the sessions rest on stays.\<close>

lemma add_peer_node [simp]: "pm_node (add_peer h q pid s) = pm_node s"
  by (simp add: add_peer_def manage_def)

lemma offer_node [simp]: "pm_node (fold (offer_addr pid) as s) = pm_node s"
  by (induction "as" arbitrary: s) (auto simp: offer_addr_def split: prod.split option.split)

lemma exchange_keeps_sessions:
  "sessions_inv P (pm_node s) \<Longrightarrow> sessions_inv P (pm_node (handle_peer_exchange P now m s))
     \<and> nd_connections (pm_node (handle_peer_exchange P now m s)) = nd_connections (pm_node s)"
proof -
  have one: "sessions_inv P (pm_node (learn_peer own now (pid, addrs, a) s)) \<and> nd_connections (pm_node (learn_peer own now (pid, addrs, a) s)) = nd_connections (pm_node s)"
    if inv: "sessions_inv P (pm_node s)" for own pid addrs a s
  proof (cases "pid \<noteq> [] \<and> pid \<noteq> own \<and> map_of (nd_connections (pm_node s)) pid = None \<and> addrs \<noteq> []")
    case True
    define n' where "n' = (pm_node s)\<lparr>nd_registry := register pid None (Some (routing_view a)) addrs None now (nd_registry (pm_node s))\<rparr>"
    have n': "n' = (pm_node s)\<lparr>nd_registry := register pid (map_option se_conn (map_of (nd_connections (pm_node s)) pid))
        (Some (routing_view a)) addrs None now (nd_registry (pm_node s))\<rparr>" using True by (simp add: n'_def)
    note v = reregister_view [OF n']
    have "session_ok P n' q" for q
    proof -
      have ok: "session_ok P (pm_node s) q" "session_ok P (pm_node s) pid" using inv by (simp_all add: sessions_inv_def)
      have none: "hello_of (pm_node s) pid = None" using True by (simp add: hello_of_def)
      have "accepted_network_ids n' h = accepted_network_ids (pm_node s) h" for h by (simp add: accepted_network_ids_def v(1))
      moreover have "linked n' q = linked (pm_node s) q \<or> hello_of (pm_node s) q \<noteq> None"
        by (auto simp: n'_def linked_bind get_peer_register)
      moreover have "networks_of n' q = networks_of (pm_node s) q \<or> q = pid \<and> networks_of n' q \<in> {None, Some []}"
        using ok(2) none by (auto simp: v(3) session_ok_def split: option.split)
      ultimately show ?thesis using ok none by (auto simp: session_ok_def v(2) split: option.splits)
    qed
    then show ?thesis using True by (simp add: learn_peer_def Let_def sessions_inv_def n'_def [symmetric]) (simp add: n'_def)
  qed (auto simp: learn_peer_def inv)
  have "sessions_inv P (pm_node (learn_all own now vs s)) \<and> nd_connections (pm_node (learn_all own now vs s)) = nd_connections (pm_node s)"
    if "sessions_inv P (pm_node s)" for own vs s
    using that
  proof (induction vs arbitrary: s)
    case (Cons v vs)
    then show ?case using one [OF Cons.prems] by (auto split: option.split)
  qed simp
  then show "sessions_inv P (pm_node s) \<Longrightarrow> sessions_inv P (pm_node (handle_peer_exchange P now m s))
     \<and> nd_connections (pm_node (handle_peer_exchange P now m s)) = nd_connections (pm_node s)"
    by (auto simp: handle_peer_exchange_def split: option.split)
qed

text \<open>
  \<open>_build_peer_exchange_list\<close>: the connected peers of the registry, then the approved nodes of the node
  registry, an entry of which is its status, its API address and its capabilities.
\<close>

definition host_part :: "pystr \<Rightarrow> pystr" where
  "host_part a = takeWhile (\<lambda>c. c \<noteq> CHR '':'') a"

definition PRIVATE_PREFIXES :: "pystr list" where
  "PRIVATE_PREFIXES = [''10.'', ''192.168.'', ''172.16.'', ''172.17.'', ''172.18.'', ''172.19.'', ''172.2'', ''172.3'', ''100.'',
     ''169.254.'', ''127.'', ''fd'', ''fe80'']"

definition is_private_addr :: "pystr \<Rightarrow> bool" where
  "is_private_addr a = list_ex (\<lambda>p. py_startswith (host_part a) p) PRIVATE_PREFIXES"

type_synonym offer = "pystr \<times> pystr list \<times> (capabilities + pdict)"

definition offer_entry :: "bool \<Rightarrow> peer_entry \<Rightarrow> pystr list \<times> offer list \<Rightarrow> pystr list \<times> offer list" where
  "offer_entry is_local e acc = (case acc of (seen, out) \<Rightarrow>
     if pe_peer_id e \<in> set seen \<or> pe_addresses e = [] then acc
     else let addrs = (if is_local then pe_addresses e else filter (\<lambda>a. \<not> is_private_addr a) (pe_addresses e))
          in if addrs = [] then acc
             else (pe_peer_id e # seen, out @ [(pe_peer_id e, addrs, Inl (pe_capabilities e))]))"

record node_info =
  nf_status :: pystr
  nf_api_addr :: pystr
  nf_capabilities :: pv

definition offer_node_info :: "bool \<Rightarrow> pystr \<times> node_info \<Rightarrow> pystr list \<times> offer list \<Rightarrow> pystr list \<times> offer list" where
  "offer_node_info is_local x acc = (case (x, acc) of ((pid, i), (seen, out)) \<Rightarrow>
     if pid \<in> set seen \<or> nf_status i \<noteq> ''approved'' \<or> nf_api_addr i = [] then acc
     else let addr = host_part (nf_api_addr i) @ '':8421'' in
       if \<not> is_local \<and> is_private_addr addr then acc
       else (pid # seen, out @ [(pid, [addr], Inr (case nf_capabilities i of PDict d \<Rightarrow> d | _ \<Rightarrow> []))]))"

definition build_peer_exchange_list :: "pystr \<Rightarrow> pystr \<Rightarrow> pystr \<Rightarrow> registry \<Rightarrow> (pystr, node_info) dict \<Rightarrow> offer list" where
  "build_peer_exchange_list own exclude recipient r nodes =
     (let seen = (if exclude \<noteq> [] then [exclude, own] else [own]);
          is_local = (recipient \<noteq> [] \<and> is_private_addr recipient)
      in snd (fold (offer_node_info is_local) nodes (fold (offer_entry is_local) (connected_peers r) (seen, []))))"

definition offers_ok :: "pystr list \<Rightarrow> bool \<Rightarrow> pystr list \<times> offer list \<Rightarrow> bool" where
  "offers_ok hidden is_local acc \<longleftrightarrow> set hidden \<subseteq> set (fst acc) \<and> distinct (map fst (snd acc)) \<and> fst ` set (snd acc) \<subseteq> set (fst acc) - set hidden
     \<and> (\<forall>(pid, addrs, c) \<in> set (snd acc). addrs \<noteq> [] \<and> (is_local \<or> (\<forall>a \<in> set addrs. \<not> is_private_addr a)))"

lemma offer_entry_ok: "offers_ok h l acc \<Longrightarrow> offers_ok h l (offer_entry l e acc)"
  by (cases acc) (auto simp: offers_ok_def offer_entry_def Let_def)

lemma offer_node_ok: "offers_ok h l acc \<Longrightarrow> offers_ok h l (offer_node_info l x acc)"
  by (cases acc, cases x) (auto simp: offers_ok_def offer_node_info_def Let_def)

text \<open>Gossip to a peer outside our network names nobody twice, neither it nor us, and no private address.\<close>

lemma gossip_hides_private:
  "distinct (map fst (build_peer_exchange_list own exclude recipient r nodes))
   \<and> own \<notin> fst ` set (build_peer_exchange_list own exclude recipient r nodes)
   \<and> (exclude \<noteq> [] \<longrightarrow> exclude \<notin> fst ` set (build_peer_exchange_list own exclude recipient r nodes))
   \<and> (\<not> is_private_addr recipient \<or> recipient = [] \<longrightarrow>
        (\<forall>(pid, addrs, c) \<in> set (build_peer_exchange_list own exclude recipient r nodes). \<forall>a \<in> set addrs. \<not> is_private_addr a))"
proof -
  let ?h = "if exclude \<noteq> [] then [exclude, own] else [own]" and ?l = "recipient \<noteq> [] \<and> is_private_addr recipient"
  have "offers_ok ?h ?l (fold (offer_entry ?l) es acc)" if "offers_ok ?h ?l acc" for es acc
    using that by (induction es arbitrary: acc) (auto simp: offer_entry_ok)
  moreover have "offers_ok ?h ?l (fold (offer_node_info ?l) es acc)" if "offers_ok ?h ?l acc" for es acc
    using that by (induction es arbitrary: acc) (auto simp: offer_node_ok)
  moreover have "offers_ok ?h ?l (?h, [])" by (auto simp: offers_ok_def)
  ultimately have "offers_ok ?h ?l (fold (offer_node_info ?l) nodes (fold (offer_entry ?l) (connected_peers r) (?h, [])))" by blast
  then show ?thesis unfolding build_peer_exchange_list_def Let_def offers_ok_def by (auto split: if_splits)
qed

text \<open>The prefixes take in public addresses.\<close>

lemma public_taken_for_private: "is_private_addr ''172.217.4.4:8421'' \<and> is_private_addr ''100.20.1.1:8421''"
  by code_simp

section \<open>Examples\<close>

definition quiet_node :: node where
  "quiet_node = \<lparr>nd_device_key = ''me'', nd_cert = \<lparr>dc_account_pubkey = ''account'', dc_device_pubkey = ''me'', dc_device_name = ''default'',
       dc_role = ''seeder'', dc_created_at = 1, dc_expires_at = 0, dc_revoked = False, dc_signature = ''account''\<rparr>,
     nd_capabilities = demo_advert, nd_federation = None, nd_connections = [], nd_registry = \<lparr>rg_peers = [], rg_index = []\<rparr>\<rparr>"

definition demo_peers :: peers_state where
  "demo_peers = \<lparr>pm_node = quiet_node, pm_managed = [], pm_running = False\<rparr>"

definition failed_rounds :: "pystr \<Rightarrow> nat \<Rightarrow> event list" where
  "failed_rounds k n = concat (replicate n [Dialled k 0 False Dial_failed, Wake k])"

definition demo_started :: peers_state where
  "demo_started = add_peer ''h'' 1 [] (pm_start [(''seed'', 8421)] demo_peers)"

lemma demo_keys: "addr_of ''h'' 1 = ''h:1''" "addr_of ''seed'' 8421 = ''seed:8421''"
  by (simp_all add: addr_of_def str_int_def str_nat.simps char_of_def bit_0)

lemma pm_run_append: "pm_run P (es @ fs) s = Option.bind (pm_run P es s) (pm_run P fs)"
  by (induction es arbitrary: s) (auto split: bind_split)

lemma failing_runs:
  "map_of (pm_managed s) k = Some (p, Dialling) \<Longrightarrow> mp_is_bootstrap p \<or> mp_attempts p + n \<le> 5 \<Longrightarrow>
   \<exists>s' p'. pm_run P (failed_rounds k n) s = Some s' \<and> map_of (pm_managed s') k = Some (p', Dialling)"
proof (induction n arbitrary: s p)
  case 0
  then show ?case by (simp add: failed_rounds_def)
next
  case (Suc n)
  let ?q = "p\<lparr>mp_last_connect_attempt := 0, mp_state := Disconnected\<rparr>"
  have "turn_end ?q = Some (Waiting (backoff_delay ?q))" using Suc.prems(2) by (auto simp: turn_end_def MAX_RECONNECT_ATTEMPTS_def)
  then have 1: "pm_step P (Dialled k 0 False Dial_failed) s = Some (put_peer k ?q (Some (Waiting (backoff_delay ?q))) (pm_node s) s)"
    using Suc.prems(1) by (simp add: connect_peer_def Let_def)
  obtain s2 where 2: "pm_run P [Dialled k 0 False Dial_failed, Wake k] s = Some s2"
    "map_of (pm_managed s2) k = Some (?q\<lparr>mp_attempts := mp_attempts p + 1\<rparr>, Dialling)"
    using 1 by (simp add: put_peer_same)
  have "failed_rounds k (Suc n) = [Dialled k 0 False Dial_failed, Wake k] @ failed_rounds k n" by (simp add: failed_rounds_def)
  then show ?case using Suc.IH [OF 2(2)] Suc.prems(2) 2(1) by (simp only: pm_run_append) auto
qed

theorem dead_peer_given_up_witness:
  "\<exists>s'. pm_run demo_auth (Dialled ''seed:8421'' 0 False No_answer # failed_rounds ''h:1'' 5 @ [Dialled ''h:1'' 9 False No_answer]) demo_started = Some s'
     \<and> map_of (pm_managed s') ''h:1'' = None"
proof -
  let ?es = "Dialled ''seed:8421'' 0 False No_answer # failed_rounds ''h:1'' 5 @ [Dialled ''h:1'' 9 False No_answer]"
  have s: "map_of (pm_managed demo_started) ''h:1'' = Some (new_managed ''h'' 1 False, Dialling)"
    "map_of (pm_managed demo_started) ''seed:8421'' = Some (new_managed ''seed'' 8421 True, Dialling)"
    by (simp_all add: demo_started_def demo_peers_def pm_start_def add_peer_def manage_def MAX_MANAGED_PEERS_def demo_keys length_dict_set)
  then obtain s1 where s1: "pm_step demo_auth (Dialled ''seed:8421'' 0 False No_answer) demo_started = Some s1"
    by (simp add: connect_peer_def Let_def)
  have "map_of (pm_managed s1) ''h:1'' = Some (new_managed ''h'' 1 False, Dialling)" using step_other [OF s1, of "''h:1''"] s by simp
  then obtain s2 p where s2: "pm_run demo_auth (failed_rounds ''h:1'' 5) s1 = Some s2" "map_of (pm_managed s2) ''h:1'' = Some (p, Dialling)"
    using failing_runs [of s1 "''h:1''" "new_managed ''h'' 1 False" 5 demo_auth] by (simp add: new_managed_def) blast
  then obtain s' where "pm_run demo_auth ?es demo_started = Some s'"
    using s1 by (simp add: pm_run_append del: pm_step.simps) (simp add: connect_peer_def Let_def)
  moreover have "\<forall>e \<in> set ?es. about ''h:1'' e \<longrightarrow> fails demo_auth e" by (simp add: failed_rounds_def numeral_eq_Suc)
  moreover have "length (filter (about ''h:1'') ?es) = 11" by (simp add: failed_rounds_def numeral_eq_Suc)
  ultimately show ?thesis using dead_peer_given_up [of demo_auth ?es demo_started s' "''h:1''" "''h''" 1 False] s(1)
    by (auto simp: Let_def)
qed

theorem managed_peers_bounded_witness:
  "\<exists>s. pm_run demo_auth (failed_rounds ''seed:8421'' 7) (pm_start [(''seed'', 8421)] demo_peers) = Some s
     \<and> length (pm_managed s) \<le> 20 \<and> (\<exists>p ph. map_of (pm_managed s) ''seed:8421'' = Some (p, ph) \<and> mp_is_bootstrap p)"
proof -
  have "map_of (pm_managed (pm_start [(''seed'', 8421)] demo_peers)) ''seed:8421'' = Some (new_managed ''seed'' 8421 True, Dialling)"
    by (simp add: demo_peers_def pm_start_def manage_def demo_keys)
  then obtain s where s: "pm_run demo_auth (failed_rounds ''seed:8421'' 7) (pm_start [(''seed'', 8421)] demo_peers) = Some s"
    using failing_runs [of "pm_start [(''seed'', 8421)] demo_peers" "''seed:8421''" "new_managed ''seed'' 8421 True" 7 demo_auth]
    by (simp add: new_managed_def) blast
  have "pm_managed demo_peers = []" by (simp add: demo_peers_def)
  from managed_peers_bounded [OF this s] show ?thesis using s by (auto simp: demo_keys)
qed

text \<open>
  The address of a peer is not known to be its own before it answers: two addresses of one peer, offered with
  its identifier, are both dialled.
\<close>

lemma pending_peer_dialled_twice:
  assumes "pm_running s" "pm_managed s = []" "addr_of h q \<noteq> addr_of h' q'"
  shows "map fst (pm_managed (add_peer h' q' pid (add_peer h q pid s))) = [addr_of h q, addr_of h' q']"
  using assms by (auto simp: add_peer_def manage_def MAX_MANAGED_PEERS_def new_managed_def dict_set_def)

end
