(* ===== verification/Serving.thy ===== *)
theory Serving
  imports Peer_Sessions Tracker Model_Resolver
begin

text \<open>
  Serving a peer: \<open>accounting/reputation.py\<close> and \<open>_handle_inference_request\<close> of \<open>node.py\<close>. Scores are real
  numbers, as they rest on \<open>math.exp\<close> and \<open>math.log1p\<close>. What the backend generates, what a relay brings back
  and whether the bookkeeping after an answer raises are parameters; sending itself does not raise.
\<close>

section \<open>Reputation\<close>

record peer_reputation =
  pr_tokens_served :: int
  pr_total :: nat
  pr_successful :: nat
  pr_response_time :: real
  pr_receipts :: nat
  pr_last :: real

definition DECAY_RATE :: real where "DECAY_RATE = ln 2 / (7 * 86400)"

definition new_reputation :: "real \<Rightarrow> peer_reputation" where
  "new_reputation now = \<lparr>pr_tokens_served = 0, pr_total = 0, pr_successful = 0, pr_response_time = 0, pr_receipts = 0, pr_last = now\<rparr>"

definition rep_success_rate :: "peer_reputation \<Rightarrow> real" where
  "rep_success_rate r = (if pr_total r = 0 then 1 / 2 else of_nat (pr_successful r) / of_nat (pr_total r))"

definition avg_response_time :: "peer_reputation \<Rightarrow> real" where
  "avg_response_time r = (if pr_successful r = 0 then 0 else pr_response_time r / of_nat (pr_successful r))"

definition rep_score :: "real \<Rightarrow> peer_reputation \<Rightarrow> real" where
  "rep_score now r =
     (let age = now - pr_last r;
          decay = exp (- DECAY_RATE * age);
          volume = min 1 (ln (1 + of_nat (pr_total r)) / ln (1 + 100));
          speed = (if avg_response_time r > 0 then max (3 / 10) (min 1 (2 / max (avg_response_time r) (1 / 10))) else 1);
          receipt_factor = min (3 / 2) (1 + of_nat (pr_receipts r) * (1 / 100))
      in rep_success_rate r * (1 / 2 + volume * (1 / 2)) * speed * receipt_factor * decay)"

definition rep_record_success :: "real \<Rightarrow> int \<Rightarrow> real \<Rightarrow> peer_reputation \<Rightarrow> peer_reputation" where
  "rep_record_success now tokens response_time r = r\<lparr>pr_total := pr_total r + 1, pr_successful := pr_successful r + 1,
     pr_tokens_served := pr_tokens_served r + tokens, pr_response_time := pr_response_time r + response_time, pr_last := now\<rparr>"

definition rep_record_failure :: "real \<Rightarrow> peer_reputation \<Rightarrow> peer_reputation" where
  "rep_record_failure now r = r\<lparr>pr_total := pr_total r + 1, pr_last := now\<rparr>"

definition rep_record_receipt :: "real \<Rightarrow> peer_reputation \<Rightarrow> peer_reputation" where
  "rep_record_receipt now r = r\<lparr>pr_receipts := pr_receipts r + 1, pr_last := now\<rparr>"

text \<open>\<open>ReputationTracker\<close>: \<open>get\<close> opens an entry for a peer it does not know.\<close>

type_synonym tracker = "(pystr, peer_reputation) dict"

definition rep_get :: "real \<Rightarrow> pystr \<Rightarrow> tracker \<Rightarrow> peer_reputation \<times> tracker" where
  "rep_get now pid t = (case map_of t pid of
     Some r \<Rightarrow> (r, t) | None \<Rightarrow> (new_reputation now, dict_set t pid (new_reputation now)))"

definition rep_touch :: "real \<Rightarrow> (peer_reputation \<Rightarrow> peer_reputation) \<Rightarrow> pystr \<Rightarrow> tracker \<Rightarrow> tracker" where
  "rep_touch now f pid t = (let (r, t1) = rep_get now pid t in dict_set t1 pid (f r))"

datatype reason = Org_trust | Grace_period | Has_receipts | Reputation_too_low | No_contribution | Admitted

definition admission_allowed :: "reason \<Rightarrow> bool" where
  "admission_allowed a = (a \<notin> {Reputation_too_low, No_contribution})"

definition check_admission :: "real \<Rightarrow> pystr \<Rightarrow> real \<Rightarrow> bool \<Rightarrow> nat \<Rightarrow> tracker \<Rightarrow> reason \<times> tracker" where
  "check_admission now pid min_score require_receipts grace_requests t =
     (let (r, t1) = rep_get now pid t; score = rep_score now r in
      (if pr_total r < grace_requests then Grace_period
       else if pr_receipts r > 0 then Has_receipts
       else if min_score > 0 \<and> score < min_score then Reputation_too_low
       else if require_receipts \<and> pr_receipts r = 0 \<and> pr_total r \<ge> grace_requests then No_contribution
       else Admitted, t1))"

lemma rep_score_nonneg: "0 \<le> rep_score now r"
  unfolding rep_score_def rep_success_rate_def Let_def by (intro mult_nonneg_nonneg) (auto simp: min_def max_def)

lemma rep_score_upper:
  assumes "pr_successful r \<le> pr_total r" "pr_last r \<le> now"
  shows "rep_score now r \<le> 3 / 2"
proof -
  have rate: "rep_success_rate r \<le> 1" using assms(1) by (simp add: rep_success_rate_def divide_le_eq_1)
  have "0 \<le> DECAY_RATE * (now - pr_last r)" using assms(2) by (simp add: DECAY_RATE_def)
  then have decay: "exp (- DECAY_RATE * (now - pr_last r)) \<le> 1" by simp
  define v where "v = min 1 (ln (1 + of_nat (pr_total r)) / ln (1 + 100 :: real))"
  define s where "s = (if avg_response_time r > 0 then max (3 / 10) (min 1 (2 / max (avg_response_time r) (1 / 10))) else 1)"
  define f where "f = min (3 / 2) (1 + of_nat (pr_receipts r) * (1 / 100) :: real)"
  have e: "rep_score now r = rep_success_rate r * (1 / 2 + v * (1 / 2)) * s * f * exp (- DECAY_RATE * (now - pr_last r))"
    by (simp add: rep_score_def v_def s_def f_def)
  have "v \<le> 1" "0 \<le> v" "s \<le> 1" "0 \<le> s" "f \<le> 3 / 2" "0 \<le> f" by (auto simp: v_def s_def f_def min_def max_def)
  moreover have "0 \<le> rep_success_rate r" by (simp add: rep_success_rate_def)
  ultimately have "rep_success_rate r * (1 / 2 + v * (1 / 2)) * s * f * exp (- DECAY_RATE * (now - pr_last r)) \<le> 1 * 1 * 1 * (3 / 2) * 1"
    using rate decay by (intro mult_mono mult_nonneg_nonneg) auto
  then show ?thesis by (simp add: e)
qed

lemma rep_score_half_life: "rep_score (now + 7 * 86400) r = rep_score now r / 2"
proof -
  have "exp (- DECAY_RATE * (now + 7 * 86400 - pr_last r)) = exp (- DECAY_RATE * (now - pr_last r)) * exp (- ln 2)"
    by (simp add: DECAY_RATE_def field_simps flip: exp_add)
  also have "exp (- ln 2) = (1 / 2 :: real)" by (simp add: exp_minus)
  finally show ?thesis unfolding rep_score_def Let_def by simp
qed

section \<open>Answering\<close>

record chunk =
  ck_text :: pystr
  ck_tools :: bool
  ck_peer :: pystr
  ck_model :: pystr

text \<open>
  What is sent back. A frame has its number and, on the first, who serves it and with which model; \<open>Chunk_msg\<close>
  and \<open>Done_msg\<close> are the streamed form of a tool request, sent as messages of their own. \<open>Receipt\<close> is the
  signed receipt.
\<close>

datatype out = Error_out error_code | Response pystr int int | Frame nat chunk "(pystr \<times> pystr) option" | Frame_done | End_stream
  | Chunk_msg pystr bool | Done_msg | Receipt pyfloat int

record peer_request =
  rq_from :: pystr
  rq_id :: pystr
  rq_model :: pystr
  rq_stream :: bool
  rq_tools :: bool

text \<open>
  A relay for a stream gives chunks and may end in an exception; one for a single answer gives nothing, a
  peer's payload, or a result generated here. A streamed generation gives chunks and may raise; any other
  gives a text, whether it has tool calls (parsed out of the text if need be), and its token counts, or raises.
\<close>

datatype relayed = Nothing | From_peer pystr int int | From_here pystr int int

datatype books = Books_ok | Credit_raises | Receipt_raises

record surroundings =
  su_now :: "nat \<Rightarrow> pyfloat"
  su_local :: pystr
  su_overloaded :: bool
  su_relay_stream :: "chunk list \<times> bool"
  su_relay :: relayed
  su_stream :: "chunk list \<times> bool"
  su_result :: "(pystr \<times> bool \<times> int \<times> int) option"
  su_books :: books

record admission_settings =
  as_min_score :: real
  as_require_receipts :: bool
  as_grace_requests :: nat

record serving =
  sv_reputation :: tracker
  sv_validator :: validator
  sv_credits :: "(pyfloat \<times> pystr) list"

definition frames :: "(chunk \<Rightarrow> pystr \<times> pystr) \<Rightarrow> chunk list \<Rightarrow> out list" where
  "frames by cs = map (\<lambda>(i, c). Frame i c (if i = 0 then Some (by c) else None)) (enumerate 0 cs)"

definition admit_request :: "real \<Rightarrow> node \<Rightarrow> admission_settings \<Rightarrow> peer_request \<Rightarrow> serving \<Rightarrow> reason \<times> serving" where
  "admit_request now n st q s =
     (let trust = resolve_peer_trust n (rq_from q) in
      if trust = ''full'' then (Org_trust, s)
      else let (a, t) = check_admission now (rq_from q) (as_min_score st)
                 (if trust = ''trusted'' then False else as_require_receipts st) (as_grace_requests st) (sv_reputation s)
           in (a, s\<lparr>sv_reputation := t\<rparr>))"

definition relay_out :: "peer_request \<Rightarrow> surroundings \<Rightarrow> out list" where
  "relay_out q u =
     (if rq_stream q then
        (let cs = filter (\<lambda>c. ck_text c \<noteq> [] \<or> ck_tools c) (fst (su_relay_stream u));
             fs = frames (\<lambda>c. (ck_peer c, ck_model c)) cs
         in if snd (su_relay_stream u) then fs @ [Error_out MODEL_UNAVAILABLE]
            else if cs \<noteq> [] then fs @ [Frame_done, End_stream]
            else [End_stream, Error_out MODEL_UNAVAILABLE])
      else case su_relay u of
        Nothing \<Rightarrow> [Error_out MODEL_UNAVAILABLE]
      | From_peer text p c \<Rightarrow> [Response text p c]
      | From_here text p c \<Rightarrow> [Response [] 0 0])"

text \<open>What is generated here: what is sent, and the completion tokens if the answer was complete.\<close>

definition generate_out :: "pystr \<Rightarrow> peer_request \<Rightarrow> surroundings \<Rightarrow> out list \<times> int option" where
  "generate_out own q u =
     (if rq_stream q \<and> \<not> rq_tools q then
        (let (cs, raised) = su_stream u; fs = frames (\<lambda>c. (own, su_local u)) cs
         in if raised then (fs @ [Error_out BACKEND_ERROR], None)
            else (fs @ [Frame_done, End_stream], Some (int (length (filter (\<lambda>c. ck_text c \<noteq> []) cs)))))
      else case su_result u of
        None \<Rightarrow> ([Error_out BACKEND_ERROR], None)
      | Some (text, tools, p, c) \<Rightarrow>
          (if rq_stream q then [Chunk_msg text tools, Done_msg] else [Response text p c], Some c))"

text \<open>The bookkeeping of a served request, skipped without a ledger; what raises in it is answered with an error.\<close>

definition keep_books :: "pystr \<Rightarrow> peer_request \<Rightarrow> surroundings \<Rightarrow> int \<Rightarrow> serving \<Rightarrow> out list \<times> serving" where
  "keep_books own q u tokens s =
     (let reward = compute_reward (max tokens 1) 7 [];
          (rate_ok, v) = check_credit_rate (su_now u 1) own (sv_validator s);
          s1 = s\<lparr>sv_validator := v\<rparr>
      in if rate_ok \<and> su_books u = Credit_raises then ([Error_out BACKEND_ERROR], s1)
         else let s2 = (if rate_ok then s1\<lparr>sv_credits := sv_credits s1 @ [(reward, rq_from q)]\<rparr> else s1)
         in if su_books u = Receipt_raises then ([Error_out BACKEND_ERROR], s2)
            else ([Receipt reward tokens],
              s2\<lparr>sv_reputation := rep_touch (real_of_rat (su_now u 2))
                   (rep_record_success (real_of_rat (su_now u 2)) (if rq_stream q then 0 else tokens) 0) (rq_from q) (sv_reputation s2)\<rparr>))"

text \<open>\<open>ledger\<close>: whether the node has one; \<open>own\<close> its peer identifier.\<close>

definition handle_inference_request :: "bool \<Rightarrow> pystr \<Rightarrow> node \<Rightarrow> admission_settings \<Rightarrow> surroundings \<Rightarrow> peer_request \<Rightarrow> serving
    \<Rightarrow> out list \<times> serving" where
  "handle_inference_request ledger own n st u q s =
     (let (a, s1) = admit_request (real_of_rat (su_now u 0)) n st q s in
      if \<not> admission_allowed a then ([Error_out INSUFFICIENT_CREDIT], s1)
      else if su_local u = [] then (relay_out q u, s1)
      else if su_overloaded u then ([Error_out OVERLOADED], s1)
      else case generate_out own q u of
             (outs, None) \<Rightarrow> (outs, s1)
           | (outs, Some tokens) \<Rightarrow>
               if ledger then (let (more, s2) = keep_books own q u tokens s1 in (outs @ more, s2)) else (outs, s1))"

section \<open>One answer to a request\<close>

fun is_final :: "out \<Rightarrow> bool" where
  "is_final (Error_out _) = True" | "is_final (Response _ _ _) = True" | "is_final Frame_done = True" | "is_final Done_msg = True"
| "is_final _ = False"

definition finals :: "out list \<Rightarrow> out list" where "finals os = filter is_final os"

fun frame_no :: "out \<Rightarrow> nat option" where "frame_no (Frame i _ _) = Some i" | "frame_no _ = None"

definition numbered :: "out list \<Rightarrow> bool" where
  "numbered os \<longleftrightarrow> List.map_filter frame_no os = [0..<length (List.map_filter frame_no os)]"

lemma finals_simps [simp]: "finals (as @ bs) = finals as @ finals bs" "finals [] = []"
  "finals (x # xs) = (if is_final x then x # finals xs else finals xs)"
  by (simp_all add: finals_def)

lemma frames_numbered: "List.map_filter frame_no (frames by cs) = [0..<length cs]" "finals (frames by cs) = []"
proof -
  have "List.map_filter frame_no (map (\<lambda>(i, c). Frame i c (if i = 0 then Some (by c) else None)) (enumerate n cs)) = [n..<n + length cs]" for n
    by (induction cs arbitrary: n) (auto simp: map_filter_simps upt_conv_Cons simp del: upt_Suc)
  then show "List.map_filter frame_no (frames by cs) = [0..<length cs]" by (simp add: frames_def)
  have "filter is_final (map (\<lambda>(i, c). Frame i c (if i = 0 then Some (by c) else None)) xs) = []" for xs
    by (induction xs) auto
  then show "finals (frames by cs) = []" by (simp add: frames_def finals_def)
qed

lemma map_filter_append: "List.map_filter f (xs @ ys) = List.map_filter f xs @ List.map_filter f ys"
  by (simp add: List.map_filter_def)

lemma relay_final: "length (finals (relay_out q u)) = 1 \<and> numbered (relay_out q u)"
  by (auto simp: relay_out_def Let_def numbered_def frames_numbered map_filter_append map_filter_simps split: relayed.split)

lemma generate_final: "length (finals (fst (generate_out own q u))) = 1 \<and> numbered (fst (generate_out own q u))"
  by (auto simp: generate_out_def Let_def numbered_def frames_numbered map_filter_append map_filter_simps split: option.split prod.split)

lemma books_final:
  "List.map_filter frame_no (fst (keep_books own q u tokens s)) = [] \<and> length (finals (fst (keep_books own q u tokens s))) \<le> (if su_books u = Books_ok then 0 else 1)
   \<and> (sv_credits (snd (keep_books own q u tokens s)) = sv_credits s
      \<or> sv_credits (snd (keep_books own q u tokens s)) = sv_credits s @ [(compute_reward (max tokens 1) 7 [], rq_from q)])"
  by (cases "su_books u") (auto simp: keep_books_def Let_def map_filter_simps split: prod.split)


section \<open>Freeloaders\<close>

definition total_of :: "tracker \<Rightarrow> pystr \<Rightarrow> nat" where
  "total_of t pid = (case map_of t pid of Some r \<Rightarrow> pr_total r | None \<Rightarrow> 0)"

definition receipts_of :: "tracker \<Rightarrow> pystr \<Rightarrow> nat" where
  "receipts_of t pid = (case map_of t pid of Some r \<Rightarrow> pr_receipts r | None \<Rightarrow> 0)"

lemma rep_get_counts:
  assumes "rep_get now p t = (r, t')"
  shows "total_of t' q = total_of t q" "receipts_of t' q = receipts_of t q" "pr_total r = total_of t p" "pr_receipts r = receipts_of t p"
  using assms by (auto simp: rep_get_def total_of_def receipts_of_def new_reputation_def split: option.splits if_splits)

lemma rep_touch_counts:
  "total_of (rep_touch now (rep_record_success a b c) p t) q = total_of t q + (if q = p then 1 else 0)"
  "receipts_of (rep_touch now (rep_record_success a b c) p t) q = receipts_of t q"
proof -
  obtain r t' where g: "rep_get now p t = (r, t')" by fastforce
  note n = rep_get_counts [OF g]
  have "total_of (dict_set t' p (rep_record_success a b c r)) q = (if q = p then pr_total r + 1 else total_of t' q)"
    "receipts_of (dict_set t' p (rep_record_success a b c r)) q = (if q = p then pr_receipts r else receipts_of t' q)"
    by (auto simp: total_of_def receipts_of_def rep_record_success_def)
  then show "total_of (rep_touch now (rep_record_success a b c) p t) q = total_of t q + (if q = p then 1 else 0)"
    "receipts_of (rep_touch now (rep_record_success a b c) p t) q = receipts_of t q"
    using n by (auto simp: rep_touch_def g)
qed

text \<open>A request served to the end has its receipt.\<close>

definition served_to :: "pystr \<Rightarrow> peer_request \<Rightarrow> out list \<Rightarrow> bool" where
  "served_to pid q outs \<longleftrightarrow> rq_from q = pid \<and> (\<exists>r t. Receipt r t \<in> set outs)"

lemma no_receipt: "Receipt r t \<notin> set (frames by cs)" "Receipt r t \<notin> set (relay_out q u)" "Receipt r t \<notin> set (fst (generate_out own q u))"
proof -
  have *: "Receipt r t \<notin> set (frames f cs)" for f cs by (auto simp: frames_def)
  show "Receipt r t \<notin> set (frames by cs)" by (rule *)
  show "Receipt r t \<notin> set (relay_out q u)" using * by (auto simp: relay_out_def Let_def split: relayed.split)
  show "Receipt r t \<notin> set (fst (generate_out own q u))" using * by (auto simp: generate_out_def Let_def split: option.split prod.split)
qed

lemma books_counts:
  assumes "keep_books own q u tokens s = (outs, s')"
  shows "(\<exists>r t. Receipt r t \<in> set outs) \<and> total_of (sv_reputation s') p = total_of (sv_reputation s) p + (if p = rq_from q then 1 else 0)
      \<or> (\<nexists>r t. Receipt r t \<in> set outs) \<and> total_of (sv_reputation s') p = total_of (sv_reputation s) p"
    "receipts_of (sv_reputation s') p = receipts_of (sv_reputation s) p"
  using assms by (auto simp: keep_books_def Let_def rep_touch_counts split: prod.splits if_splits)

text \<open>A request either stops before the books or is generated, sent and booked.\<close>

lemma request_cases:
  assumes "handle_inference_request True own n st u q s = (outs, s')"
  obtains a s1 where "admit_request (real_of_rat (su_now u 0)) n st q s = (a, s1)" "s' = s1" "\<nexists>r t. Receipt r t \<in> set outs"
  | a s1 tokens more where "admit_request (real_of_rat (su_now u 0)) n st q s = (a, s1)" "keep_books own q u tokens s1 = (more, s')"
      "outs = fst (generate_out own q u) @ more"
proof -
  obtain a s1 where a: "admit_request (real_of_rat (su_now u 0)) n st q s = (a, s1)" by fastforce
  obtain gs t where g: "generate_out own q u = (gs, t)" by fastforce
  have ng: "Receipt r t \<notin> set gs" for r t using no_receipt(3) [of r t own q u] by (simp add: g)
  show thesis
  proof (cases "admission_allowed a \<and> su_local u \<noteq> [] \<and> \<not> su_overloaded u \<and> t \<noteq> None")
    case True
    then obtain tokens where t: "t = Some tokens" by blast
    obtain more s2 where b: "keep_books own q u tokens s1 = (more, s2)" by fastforce
    have "outs = gs @ more" "s' = s2" using True assms t by (simp_all add: handle_inference_request_def a g b)
    then show thesis using that(2) [OF a] b g by simp
  next
    case False
    then have "s' = s1 \<and> (\<nexists>r t. Receipt r t \<in> set outs)"
      using assms ng no_receipt(2) by (auto simp: handle_inference_request_def a g split: option.splits if_splits)
    then show thesis using that(1) [OF a] by simp
  qed
qed

lemma admit_counts:
  assumes "admit_request now n st q s = (a, s1)"
  shows "total_of (sv_reputation s1) p = total_of (sv_reputation s) p" "receipts_of (sv_reputation s1) p = receipts_of (sv_reputation s) p"
  using assms by (auto simp: admit_request_def check_admission_def Let_def rep_get_counts split: if_splits prod.splits)

text \<open>One request of anyone: the count of a peer grows exactly when it is served to the end.\<close>

lemma request_counts:
  assumes "handle_inference_request True own n st u q s = (outs, s')"
  shows "total_of (sv_reputation s') p = total_of (sv_reputation s) p + (if served_to p q outs then 1 else 0)
    \<and> receipts_of (sv_reputation s') p = receipts_of (sv_reputation s) p"
  using assms
proof (cases rule: request_cases)
  case (1 a s1)
  then show ?thesis using admit_counts [OF 1(1)] by (simp add: served_to_def)
next
  case (2 a s1 tokens more)
  have "(\<exists>r t. Receipt r t \<in> set outs) = (\<exists>r t. Receipt r t \<in> set more)" using 2(3) no_receipt(3) by auto
  then show ?thesis using books_counts [OF 2(2), of p] admit_counts [OF 2(1), of p] by (auto simp: served_to_def)
qed

lemma freeloader_refused:
  assumes "as_require_receipts st" "resolve_peer_trust n (rq_from q) \<notin> {''full'', ''trusted''}"
    "receipts_of (sv_reputation s) (rq_from q) = 0" "as_grace_requests st \<le> total_of (sv_reputation s) (rq_from q)"
  shows "fst (handle_inference_request ledger own n st u q s) = [Error_out INSUFFICIENT_CREDIT]"
proof -
  obtain r t where g: "rep_get (real_of_rat (su_now u 0)) (rq_from q) (sv_reputation s) = (r, t)" by fastforce
  note c = rep_get_counts [OF g]
  have "\<not> admission_allowed (fst (admit_request (real_of_rat (su_now u 0)) n st q s))"
    using assms c by (auto simp: admit_request_def check_admission_def Let_def g admission_allowed_def)
  then show ?thesis by (auto simp: handle_inference_request_def Let_def split: prod.split)
qed

text \<open>Requests served one after the other, with their surroundings.\<close>

fun serve_all :: "pystr \<Rightarrow> node \<Rightarrow> admission_settings \<Rightarrow> (surroundings \<times> peer_request) list \<Rightarrow> serving \<Rightarrow> out list list \<times> serving" where
  "serve_all own n st [] s = ([], s)"
| "serve_all own n st ((u, q) # rs) s =
     (let (outs, s1) = handle_inference_request True own n st u q s; (rest, s2) = serve_all own n st rs s1 in (outs # rest, s2))"

lemma serve_all_counts:
  assumes "as_require_receipts st" "resolve_peer_trust n pid \<notin> {''full'', ''trusted''}"
  shows "serve_all own n st rs s = (os, s') \<Longrightarrow> receipts_of (sv_reputation s) pid = 0 \<Longrightarrow>
     receipts_of (sv_reputation s') pid = 0
     \<and> total_of (sv_reputation s') pid = total_of (sv_reputation s) pid + length (filter (\<lambda>((u, q), outs). served_to pid q outs) (zip rs os))
     \<and> total_of (sv_reputation s') pid \<le> max (total_of (sv_reputation s) pid) (as_grace_requests st)"
proof (induction rs arbitrary: s os)
  case (Cons r rs)
  obtain u q where r: "r = (u, q)" by (cases r)
  obtain outs s1 where h: "handle_inference_request True own n st u q s = (outs, s1)" by fastforce
  obtain rest where rest: "serve_all own n st rs s1 = (rest, s')" "os = outs # rest"
    using Cons.prems(1) by (auto simp: r h split: prod.splits)
  note c = request_counts [OF h, of pid]
  have "total_of (sv_reputation s) pid < as_grace_requests st" if "served_to pid q outs"
  proof (rule ccontr)
    assume "\<not> ?thesis"
    then have "outs = [Error_out INSUFFICIENT_CREDIT]"
      using freeloader_refused [of st n q s True own u] that assms Cons.prems(2) h by (auto simp: served_to_def)
    then show False using that by (simp add: served_to_def)
  qed
  then show ?case using Cons.IH [OF rest(1)] c Cons.prems(2) by (auto simp: rest(2) r split: if_splits)
qed simp

text \<open>
  Consuming without contributing ends. A peer that shares no trusted network with this node and has given
  no receipt is, where receipts are required, served to the end at most as many requests as the grace
  period allows, whatever it and others send and in whatever order; after those, every further request of
  it is refused.
\<close>

theorem freeloader_bounded:
  assumes "as_require_receipts st" "resolve_peer_trust n pid \<notin> {''full'', ''trusted''}"
    and "map_of (sv_reputation s) pid = None" "serve_all own n st rs s = (os, s')"
  shows "length (filter (\<lambda>((u, q), outs). served_to pid q outs) (zip rs os)) \<le> as_grace_requests st
    \<and> (length (filter (\<lambda>((u, q), outs). served_to pid q outs) (zip rs os)) = as_grace_requests st \<and> rq_from q = pid \<longrightarrow>
         fst (handle_inference_request True own n st u q s') = [Error_out INSUFFICIENT_CREDIT])"
proof -
  have "receipts_of (sv_reputation s) pid = 0" "total_of (sv_reputation s) pid = 0"
    using assms(3) by (simp_all add: receipts_of_def total_of_def)
  then show ?thesis using serve_all_counts [OF assms(1,2,4)] freeloader_refused [of st n q s' True own u] assms(1,2) by auto
qed

section \<open>Examples\<close>

definition demo_chunk :: "pystr \<Rightarrow> chunk" where
  "demo_chunk t = \<lparr>ck_text = t, ck_tools = False, ck_peer = [], ck_model = []\<rparr>"

definition demo_around :: surroundings where
  "demo_around = \<lparr>su_now = (\<lambda>_. 10), su_local = ''qwen'', su_overloaded = False, su_relay_stream = ([], False), su_relay = Nothing,
     su_stream = ([demo_chunk ''Hel'', demo_chunk ''lo''], False), su_result = Some (''Hello'', False, 3, 2), su_books = Books_ok\<rparr>"

definition demo_request :: "bool \<Rightarrow> peer_request" where
  "demo_request stream = \<lparr>rq_from = ''x'', rq_id = ''r1'', rq_model = ''qwen'', rq_stream = stream, rq_tools = False\<rparr>"

definition demo_serving :: serving where
  "demo_serving = \<lparr>sv_reputation = [], sv_validator = \<lparr>v_seen = [], v_rate = [], v_max_rate = 5\<rparr>, sv_credits = []\<rparr>"

definition demo_settings :: admission_settings where
  "demo_settings = \<lparr>as_min_score = 0, as_require_receipts = True, as_grace_requests = 1\<rparr>"

lemma demo_untrusted: "resolve_peer_trust demo_node ''x'' = ''untrusted''"
  by (simp add: resolve_peer_trust_def demo_node_def peer_networks_def get_peer_def filter_claimed_network_ids_def Let_def split: option.split)

lemma demo_first:
  "\<exists>v t. handle_inference_request True ''me'' demo_node demo_settings demo_around (demo_request True) demo_serving
     = ([Frame 0 (demo_chunk ''Hel'') (Some (''me'', ''qwen'')), Frame 1 (demo_chunk ''lo'') None, Frame_done, End_stream, Receipt (1 / 500) 2],
        \<lparr>sv_reputation = t, sv_validator = v, sv_credits = [(1 / 500, ''x'')]\<rparr>)"
  by (simp add: handle_inference_request_def admit_request_def demo_untrusted check_admission_def rep_get_def demo_serving_def
      demo_settings_def demo_request_def demo_around_def new_reputation_def admission_allowed_def generate_out_def frames_def
      demo_chunk_def keep_books_def check_credit_rate_def compute_reward_def compute_cost_def BASE_RATE_PER_TOKEN_def
      dict_get_def TIER_MULTIPLIERS_def Let_def)


theorem freeloader_bounded_witness:
  "\<exists>os s'. serve_all ''me'' demo_node demo_settings [(demo_around, demo_request True), (demo_around, demo_request False)] demo_serving = (os, s')
     \<and> length (filter (\<lambda>((u, q), outs). served_to ''x'' q outs) (zip [(demo_around, demo_request True), (demo_around, demo_request False)] os)) \<le> 1"
proof -
  let ?rs = "[(demo_around, demo_request True), (demo_around, demo_request False)]"
  obtain os s' where r: "serve_all ''me'' demo_node demo_settings ?rs demo_serving = (os, s')" by fastforce
  have "as_require_receipts demo_settings" "resolve_peer_trust demo_node ''x'' \<notin> {''full'', ''trusted''}"
    "map_of (sv_reputation demo_serving) ''x'' = None" "as_grace_requests demo_settings = 1"
    by (simp_all add: demo_settings_def demo_untrusted demo_serving_def)
  then show ?thesis using freeloader_bounded [OF _ _ _ r, of "''x''"] r by auto
qed

text \<open>
  What a relay generated on this very node, as it does for "default" or "auto" when a local model is the best
  candidate, is answered with an empty text.
\<close>

lemma local_relay_answers_empty:
  "rq_stream q = False \<Longrightarrow> su_relay u = From_here text p c \<Longrightarrow> relay_out q u = [Response [] 0 0]"
  by (simp add: relay_out_def)

text \<open>A failure of the bookkeeping reaches the peer as a second reply, after the answer.\<close>

lemma error_after_the_answer:
  "fst (handle_inference_request True ''me'' demo_node demo_settings (demo_around\<lparr>su_books := Credit_raises\<rparr>) (demo_request False) demo_serving)
     = [Response ''Hello'' 3 2, Error_out BACKEND_ERROR]"
  by (simp add: handle_inference_request_def admit_request_def demo_untrusted check_admission_def rep_get_def demo_serving_def
      demo_settings_def demo_request_def demo_around_def new_reputation_def admission_allowed_def generate_out_def
      keep_books_def check_credit_rate_def dict_get_def Let_def)

text \<open>One receipt ends every check: a peer with a single receipt is admitted at any score.\<close>

lemma one_receipt_admits:
  assumes "map_of t pid = Some r" "pr_receipts r > 0"
  shows "admission_allowed (fst (check_admission now pid min_score require grace t))"
  using assms by (auto simp: check_admission_def rep_get_def admission_allowed_def Let_def)

end
