(* ===== verification/Node_Routing.thy ===== *)
theory Node_Routing
  imports Peer_Sessions Tracker Model_Resolver
begin

text \<open>
  Where a node sends a request it does not serve itself (\<open>node.py\<close>): \<open>_candidate_models\<close>,
  \<open>_own_network_ids\<close>, \<open>route_inference\<close>, \<open>route_inference_stream\<close> and \<open>_handle_relay\<close>. What a local
  model or a peer does with the request, and whether the ledger accepts the debit, are parameters. The
  state is the registry with its failure counts, the peers asked, and the debits and credits made.
\<close>

section \<open>Candidates\<close>

definition candidate_models :: "network_view \<Rightarrow> pystr \<Rightarrow> pystr list" where
  "candidate_models v model = (if model \<notin> {'''', ''auto'', ''default''} then [model]
     else rev (remdups (rev (map rm_model_name (resolve v [] None (- 1))))))"

definition own_network_ids :: "node \<Rightarrow> pystr list" where
  "own_network_ids n = (case nd_federation n of Some f \<Rightarrow> fm_network_ids f | None \<Rightarrow> [])"

record route_state =
  rs_registry :: registry
  rs_asked :: "(pystr \<times> pystr) list"
  rs_debits :: "(pyfloat \<times> pystr) list"

definition blame :: "pystr \<Rightarrow> route_state \<Rightarrow> route_state" where
  "blame pid s = s\<lparr>rs_registry := touch_peer pid (\<lambda>e. e\<lparr>pe_failure_count := pe_failure_count e + 1\<rparr>) (rs_registry s)\<rparr>"

definition praise :: "pystr \<Rightarrow> route_state \<Rightarrow> route_state" where
  "praise pid s = s\<lparr>rs_registry := touch_peer pid (\<lambda>e. e\<lparr>pe_failure_count := pe_failure_count e - 1\<rparr>) (rs_registry s)\<rparr>"

section \<open>A single answer\<close>

text \<open>A local generation gives a result or raises; a peer an error, an exception, or a payload with its tokens.\<close>

datatype 'a peer_try = Peer_error | Peer_raises | Peer_answer 'a int

record 'a answers =
  an_local :: "pystr \<Rightarrow> 'a option"
  an_peer :: "pystr \<Rightarrow> pystr \<Rightarrow> 'a peer_try"
  an_ledger :: bool
  an_debit_ok :: "pystr \<Rightarrow> bool"

fun ask_targets :: "'a answers \<Rightarrow> pystr \<Rightarrow> peer_target list \<Rightarrow> route_state \<Rightarrow> 'a option \<times> route_state" where
  "ask_targets A model [] s = (None, s)"
| "ask_targets A model (t # ts) s =
     (if pe_connection (pt_entry t) = None then ask_targets A model ts s
      else let pid = pt_peer_id t; s1 = s\<lparr>rs_asked := rs_asked s @ [(pid, model)]\<rparr> in
        case an_peer A pid model of
          Peer_answer x tokens \<Rightarrow>
            let s2 = praise pid s1 in
            if \<not> an_ledger A then (Some x, s2)
            else if an_debit_ok A pid
              then (Some x, s2\<lparr>rs_debits := rs_debits s2 @ [(compute_cost (max tokens 1) 7 [], pid)]\<rparr>)
            else ask_targets A model ts (blame pid s2)
        | _ \<Rightarrow> ask_targets A model ts (blame pid s1))"

fun try_candidates :: "'a answers \<Rightarrow> checker option \<Rightarrow> inference \<Rightarrow> pystr list \<Rightarrow> pystr list \<Rightarrow> route_state \<Rightarrow> 'a option \<times> route_state" where
  "try_candidates A hc im nets [] s = (None, s)"
| "try_candidates A hc im nets (c # cs) s =
     (let name = resolve_model_name im c None None in
      if name \<noteq> [] then
        (case an_local A name of Some x \<Rightarrow> (Some x, s) | None \<Rightarrow> try_candidates A hc im nets cs s)
      else case ask_targets A c (route hc c nets (rs_registry s)) s of
             (Some x, s1) \<Rightarrow> (Some x, s1)
           | (None, s1) \<Rightarrow> try_candidates A hc im nets cs s1)"

definition node_route_inference :: "'a answers \<Rightarrow> checker option \<Rightarrow> inference \<Rightarrow> network_view \<Rightarrow> node \<Rightarrow> pystr \<Rightarrow> route_state
    \<Rightarrow> 'a option \<times> route_state" where
  "node_route_inference A hc im v n model s = try_candidates A hc im (own_network_ids n) (candidate_models v model) s"

section \<open>A stream\<close>

text \<open>A streamed message: its text, its finish reason, its tool calls; then whether the stream ends in an exception.\<close>

type_synonym piece = "pystr \<times> pystr option \<times> pystr list"
type_synonym streamed = "piece list \<times> bool"

definition shown :: "pystr \<Rightarrow> pystr \<Rightarrow> piece list \<Rightarrow> (pystr \<times> pystr \<times> piece) list" where
  "shown pid model cs = map (\<lambda>piece. (pid, model, piece)) (filter (\<lambda>(text, finish, tools). text \<noteq> [] \<or> tools \<noteq> []) cs)"

text \<open>\<open>None\<close>: no peer of this model was committed to.\<close>

fun stream_targets :: "(pystr \<Rightarrow> pystr \<Rightarrow> streamed) \<Rightarrow> pystr \<Rightarrow> peer_target list \<Rightarrow> route_state
    \<Rightarrow> (pystr \<times> pystr \<times> piece) list option \<times> route_state" where
  "stream_targets S model [] s = (None, s)"
| "stream_targets S model (t # ts) s =
     (if pe_connection (pt_entry t) = None then stream_targets S model ts s
      else let pid = pt_peer_id t; s1 = s\<lparr>rs_asked := rs_asked s @ [(pid, model)]\<rparr>;
               (cs, raised) = S pid model; out = shown pid model cs in
        if \<not> raised then (Some out, praise pid s1)
        else if out \<noteq> [] then (Some out, blame pid s1)
        else stream_targets S model ts (blame pid s1))"

fun stream_models :: "(pystr \<Rightarrow> pystr \<Rightarrow> streamed) \<Rightarrow> checker option \<Rightarrow> pystr list \<Rightarrow> pystr list \<Rightarrow> route_state
    \<Rightarrow> (pystr \<times> pystr \<times> piece) list \<times> route_state" where
  "stream_models S hc nets [] s = ([], s)"
| "stream_models S hc nets (c # cs) s =
     (case stream_targets S c (route hc c nets (rs_registry s)) s of
        (Some out, s1) \<Rightarrow> (out, s1)
      | (None, s1) \<Rightarrow> stream_models S hc nets cs s1)"

definition node_route_stream :: "(pystr \<Rightarrow> pystr \<Rightarrow> streamed) \<Rightarrow> checker option \<Rightarrow> network_view \<Rightarrow> node \<Rightarrow> pystr \<Rightarrow> route_state
    \<Rightarrow> (pystr \<times> pystr \<times> piece) list \<times> route_state" where
  "node_route_stream S hc v n model s = stream_models S hc (own_network_ids n) (candidate_models v model) s"

section \<open>Relays\<close>

text \<open>How a forwarded request ends: a message, of type INFERENCE_RESP or not, with its tokens; or an exception.\<close>

datatype forwarded = Forwarded bool int | Forward_raises

record relay_request =
  rl_from :: pystr
  rl_target :: pystr
  rl_via :: "pystr list"
  rl_model :: pystr

datatype relay_reply = Relay_error error_code | Relay_reply

text \<open>The peer a relay goes to: the one named, if connected, else the best of the requester's networks.\<close>

definition relay_target :: "checker option \<Rightarrow> node \<Rightarrow> relay_request \<Rightarrow> pystr option" where
  "relay_target hc n q = (case map_of (nd_connections n) (rl_target q) of
     Some _ \<Rightarrow> Some (rl_target q)
   | None \<Rightarrow>
       let nets = (case get_peer (rl_from q) (nd_registry n) of Some e \<Rightarrow> pe_network_ids e | None \<Rightarrow> []) in
       (case route hc (rl_model q) nets (nd_registry n) of
          t # _ \<Rightarrow> if pe_connection (pt_entry t) \<noteq> None then Some (pt_peer_id t) else None
        | [] \<Rightarrow> None))"

text \<open>The messages sent back, the peer asked, and the fee credited; \<open>credit_ok\<close> is false where crediting raises.\<close>

definition handle_relay :: "pystr \<Rightarrow> checker option \<Rightarrow> node \<Rightarrow> (pystr \<Rightarrow> forwarded) \<Rightarrow> bool \<Rightarrow> bool \<Rightarrow> relay_request
    \<Rightarrow> relay_reply list \<times> pystr option \<times> pyfloat option" where
  "handle_relay own hc n fwd ledger credit_ok q =
     (if own \<in> set (rl_via q) then ([Relay_error PEER_UNREACHABLE], None, None)
      else case relay_target hc n q of
        None \<Rightarrow> ([Relay_error PEER_UNREACHABLE], None, None)
      | Some pid \<Rightarrow> (case fwd pid of
          Forward_raises \<Rightarrow> ([Relay_error BACKEND_ERROR], Some pid, None)
        | Forwarded response tokens \<Rightarrow>
            if ledger \<and> response then
              (if credit_ok then ([Relay_reply], Some pid, Some (compute_cost (max tokens 1) 7 [] * (1 / 10)))
               else ([Relay_reply, Relay_error BACKEND_ERROR], Some pid, None))
            else ([Relay_reply], Some pid, None)))"

section \<open>Failover\<close>

text \<open>Asking changes nothing of the registry but failure counts.\<close>

definition sim_registry :: "registry \<Rightarrow> registry \<Rightarrow> bool" where
  "sim_registry r r' \<longleftrightarrow> rg_index r' = rg_index r
     \<and> (\<forall>p. map_option (\<lambda>e. e\<lparr>pe_failure_count := 0\<rparr>) (get_peer p r') = map_option (\<lambda>e. e\<lparr>pe_failure_count := 0\<rparr>) (get_peer p r))"

lemma sim_refl [simp]: "sim_registry r r"
  by (simp add: sim_registry_def)

lemma sim_trans: "sim_registry r r' \<Longrightarrow> sim_registry r' r'' \<Longrightarrow> sim_registry r r''"
  by (simp add: sim_registry_def)

lemma sim_touch: "sim_registry r (touch_peer p (\<lambda>e. e\<lparr>pe_failure_count := f e\<rparr>) r)"
proof -
  have "rg_index (touch_peer p (\<lambda>e. e\<lparr>pe_failure_count := f e\<rparr>) r) = rg_index r" by (simp add: touch_peer_def split: option.split)
  then show ?thesis by (auto simp: sim_registry_def get_peer_touch option.map_comp comp_def)
qed

lemma sim_marks: "sim_registry (rs_registry s) (rs_registry (blame p s))" "sim_registry (rs_registry s) (rs_registry (praise p s))"
  by (simp_all add: blame_def praise_def sim_touch)

lemma sim_peers:
  assumes "sim_registry r r'" "e' \<in> set (peers_for_model c nets r')"
  shows "\<exists>e \<in> set (peers_for_model c nets r). pe_peer_id e = pe_peer_id e' \<and> passes e c nets"
proof -
  obtain p where p: "p \<in> set (dict_get (rg_index r') c [])" "get_peer p r' = Some e'" "passes e' c nets"
    using assms(2) by (auto simp: peers_for_model_def List.map_filter_def split: option.splits if_splits)
  have "map_option (\<lambda>e. e\<lparr>pe_failure_count := 0\<rparr>) (get_peer p r) = Some (e'\<lparr>pe_failure_count := 0\<rparr>)"
    using assms(1) p(2) by (metis sim_registry_def option.simps(9))
  then obtain e where e: "get_peer p r = Some e" "e\<lparr>pe_failure_count := 0\<rparr> = e'\<lparr>pe_failure_count := 0\<rparr>" by auto
  have m: "model_visible (x\<lparr>pe_failure_count := 0\<rparr>) c nets = model_visible x c nets" "is_live (x\<lparr>pe_failure_count := 0\<rparr>) = is_live x" for x
    by (simp_all add: is_live_def model_visible_def split: option.split)
  have strip: "passes (x\<lparr>pe_failure_count := 0\<rparr>) c nets = passes x c nets" "pe_peer_id (x\<lparr>pe_failure_count := 0\<rparr>) = pe_peer_id x" for x
    unfolding passes_def m by simp_all
  have "passes e c nets" using strip(1) [of e] strip(1) [of e'] p(3) unfolding e(2) by blast
  have "pe_peer_id e = pe_peer_id e'" using arg_cong [OF e(2), of pe_peer_id] by simp
  moreover have "e \<in> set (peers_for_model c nets r)"
    using p(1) e(1) \<open>passes e c nets\<close> assms(1) by (force simp: peers_for_model_def List.map_filter_def sim_registry_def)
  ultimately show ?thesis using \<open>passes e c nets\<close> by blast
qed

text \<open>A peer that may be asked for a model: usable, and of one of our networks or of none.\<close>

definition may_ask :: "pystr list \<Rightarrow> registry \<Rightarrow> pystr \<times> pystr \<Rightarrow> bool" where
  "may_ask nets r x \<longleftrightarrow> (case x of (p, c) \<Rightarrow> \<exists>e \<in> set (peers_for_model c nets r). pe_peer_id e = p \<and> passes e c nets)"

lemma routed_may_ask:
  assumes "sim_registry r r'" "t \<in> set (route hc c nets r')"
  shows "may_ask nets r (pt_peer_id t, c)"
  using assms sim_peers [OF assms(1)] by (fastforce simp: may_ask_def route_def mk_target_def)

definition failed :: "'a answers \<Rightarrow> pystr \<times> pystr \<Rightarrow> bool" where
  "failed A x = (case an_peer A (fst x) (snd x) of Peer_answer _ _ \<Rightarrow> an_ledger A \<and> \<not> an_debit_ok A (fst x) | _ \<Rightarrow> True)"

text \<open>\<open>x\<close> was answered by the last of those asked, after the others failed, and was paid for once.\<close>

definition answered_last :: "'a answers \<Rightarrow> 'a \<Rightarrow> (pystr \<times> pystr) list \<Rightarrow> (pyfloat \<times> pystr) list \<Rightarrow> bool" where
  "answered_last A x qs paid \<longleftrightarrow> qs \<noteq> [] \<and> (\<forall>q \<in> set (butlast qs). failed A q)
     \<and> (\<exists>tokens. an_peer A (fst (last qs)) (snd (last qs)) = Peer_answer x tokens
         \<and> paid = (if an_ledger A then [(compute_cost (max tokens 1) 7 [], fst (last qs))] else []))"

lemma answered_last_Cons: "failed A q \<Longrightarrow> answered_last A x qs paid \<Longrightarrow> answered_last A x (q # qs) paid"
  by (auto simp: answered_last_def)

lemma answered_last_append: "\<forall>q \<in> set ps. failed A q \<Longrightarrow> answered_last A x qs paid \<Longrightarrow> answered_last A x (ps @ qs) paid"
  by (induction ps) (auto intro: answered_last_Cons)

lemma ask_targets_spec:
  "ask_targets A c ts s = (res, s') \<Longrightarrow> \<exists>qs. rs_asked s' = rs_asked s @ qs \<and> set qs \<subseteq> (\<lambda>t. (pt_peer_id t, c)) ` set ts
     \<and> sim_registry (rs_registry s) (rs_registry s')
     \<and> (case res of None \<Rightarrow> rs_debits s' = rs_debits s \<and> (\<forall>q \<in> set qs. failed A q)
        | Some x \<Rightarrow> \<exists>paid. rs_debits s' = rs_debits s @ paid \<and> answered_last A x qs paid)"
proof (induction ts arbitrary: s)
  case (Cons t ts)
  let ?pid = "pt_peer_id t"
  define s1 where "s1 = s\<lparr>rs_asked := rs_asked s @ [(?pid, c)]\<rparr>"
  have go_on: ?case if f: "failed A (?pid, c)" and n: "rs_asked n = rs_asked s @ [(?pid, c)]" "rs_debits n = rs_debits s"
      "sim_registry (rs_registry s) (rs_registry n)" "ask_targets A c ts n = (res, s')" for n
  proof -
    obtain qs where qs: "rs_asked s' = rs_asked n @ qs" "set qs \<subseteq> (\<lambda>t. (pt_peer_id t, c)) ` set ts" "sim_registry (rs_registry n) (rs_registry s')"
      "case res of None \<Rightarrow> rs_debits s' = rs_debits n \<and> (\<forall>q \<in> set qs. failed A q)
        | Some x \<Rightarrow> \<exists>paid. rs_debits s' = rs_debits n @ paid \<and> answered_last A x qs paid"
      using Cons.IH [OF n(4)] by blast
    then show ?thesis using f n sim_trans [OF n(3) qs(3)]
      by (intro exI [of _ "(?pid, c) # qs"]) (auto intro: answered_last_Cons split: option.splits)
  qed
  have b: "rs_asked (blame p x) = rs_asked x" "rs_debits (blame p x) = rs_debits x" "rs_asked (praise p x) = rs_asked x"
    "rs_debits (praise p x) = rs_debits x" for p x by (simp_all add: blame_def praise_def)
  have s1: "rs_asked s1 = rs_asked s @ [(?pid, c)]" "rs_debits s1 = rs_debits s" "rs_registry s1 = rs_registry s" by (simp_all add: s1_def)
  show ?case
  proof (cases "pe_connection (pt_entry t) = None")
    case True
    then show ?thesis using Cons by fastforce
  next
    case linked: False
    have plain: ?thesis if "failed A (?pid, c)" "ask_targets A c ts (blame ?pid s1) = (res, s')"
      by (rule go_on [OF that(1) _ _ _ that(2)]) (use s1 sim_marks(1) [of s1 ?pid] in \<open>simp_all add: b\<close>)
    have twice: ?thesis if "failed A (?pid, c)" "ask_targets A c ts (blame ?pid (praise ?pid s1)) = (res, s')"
    proof (rule go_on [OF that(1) _ _ _ that(2)])
      show "sim_registry (rs_registry s) (rs_registry (blame ?pid (praise ?pid s1)))"
        using sim_trans [OF sim_marks(2) [of s1 ?pid] sim_marks(1) [of "praise ?pid s1" ?pid]] by (simp add: s1)
    qed (simp_all add: b s1)
    show ?thesis
    proof (cases "an_peer A ?pid c")
      case (Peer_answer x tokens)
      show ?thesis
      proof (cases "an_ledger A \<and> \<not> an_debit_ok A ?pid")
        case True
        then have "failed A (?pid, c)" using Peer_answer by (simp add: failed_def)
        then show ?thesis
          by (rule twice) (use Cons.prems linked Peer_answer True in \<open>simp add: s1_def [symmetric] Let_def\<close>)
      next
        case False
        then show ?thesis using Cons.prems linked Peer_answer s1 sim_marks(2) [of s1 ?pid]
          by (intro exI [of _ "[(?pid, c)]"]) (auto simp: s1_def [symmetric] Let_def answered_last_def b split: if_splits)
      qed
    next
      case Peer_error
      then show ?thesis by (intro plain) (use Cons.prems linked in \<open>simp_all add: failed_def s1_def [symmetric] Let_def\<close>)
    next
      case Peer_raises
      then show ?thesis by (intro plain) (use Cons.prems linked in \<open>simp_all add: failed_def s1_def [symmetric] Let_def\<close>)
    qed
  qed
qed auto

text \<open>The outcome of a run over candidate models: who was asked (\<open>qs\<close>), and what was paid.\<close>

definition outcome_ok :: "'a answers \<Rightarrow> inference \<Rightarrow> pystr list \<Rightarrow> 'a option \<Rightarrow> (pystr \<times> pystr) list \<Rightarrow> (pyfloat \<times> pystr) list \<Rightarrow> bool" where
  "outcome_ok A im cs res qs paid = (case res of
     None \<Rightarrow> paid = [] \<and> (\<forall>q \<in> set qs. failed A q)
       \<and> (\<forall>c \<in> set cs. resolve_model_name im c None None \<noteq> [] \<longrightarrow> an_local A (resolve_model_name im c None None) = None)
   | Some x \<Rightarrow> answered_last A x qs paid
       \<or> paid = [] \<and> (\<forall>q \<in> set qs. failed A q)
         \<and> (\<exists>c \<in> set cs. resolve_model_name im c None None \<noteq> [] \<and> an_local A (resolve_model_name im c None None) = Some x))"

lemma try_candidates_spec:
  "try_candidates A hc im nets cs s = (res, s') \<Longrightarrow> sim_registry r0 (rs_registry s) \<Longrightarrow>
   \<exists>qs paid. rs_asked s' = rs_asked s @ qs \<and> (\<forall>q \<in> set qs. may_ask nets r0 q \<and> snd q \<in> set cs)
     \<and> rs_debits s' = rs_debits s @ paid \<and> outcome_ok A im cs res qs paid"
proof (induction cs arbitrary: s)
  case Nil
  then show ?case by (auto simp: outcome_ok_def)
next
  case (Cons c cs)
  let ?name = "resolve_model_name im c None None"
  have next_one: ?case if n: "try_candidates A hc im nets cs n = (res, s')" "sim_registry r0 (rs_registry n)"
      "rs_asked n = rs_asked s @ ps" "\<forall>q \<in> set ps. may_ask nets r0 q \<and> snd q = c \<and> failed A q" "rs_debits n = rs_debits s"
      "?name \<noteq> [] \<longrightarrow> an_local A ?name = None" for n ps
  proof -
    obtain qs paid where qs: "rs_asked s' = rs_asked n @ qs" "\<forall>q \<in> set qs. may_ask nets r0 q \<and> snd q \<in> set cs"
      "rs_debits s' = rs_debits n @ paid" "outcome_ok A im cs res qs paid" using Cons.IH [OF n(1,2)] by blast
    have "outcome_ok A im (c # cs) res (ps @ qs) paid"
      using qs(4) n(4,6) answered_last_append [of ps A _ qs paid] by (auto simp: outcome_ok_def split: option.splits)
    then show ?thesis using qs(1,2,3) n(3,4,5) by (intro exI [of _ "ps @ qs"] exI [of _ paid]) auto
  qed
  show ?case
  proof (cases "?name = []")
    case False
    show ?thesis
    proof (cases "an_local A ?name")
      case None
      then show ?thesis using Cons.prems False by (intro next_one [of s "[]"]) auto
    next
      case (Some x)
      then have "res = Some x" "s' = s" using Cons.prems(1) False by simp_all
      then show ?thesis using False Some by (intro exI [of _ "[]"]) (auto simp: outcome_ok_def)
    qed
  next
    case True
    obtain out s1 where a: "ask_targets A c (route hc c nets (rs_registry s)) s = (out, s1)" by fastforce
    obtain qs where qs: "rs_asked s1 = rs_asked s @ qs" "set qs \<subseteq> (\<lambda>t. (pt_peer_id t, c)) ` set (route hc c nets (rs_registry s))"
      "sim_registry (rs_registry s) (rs_registry s1)"
      "case out of None \<Rightarrow> rs_debits s1 = rs_debits s \<and> (\<forall>q \<in> set qs. failed A q)
        | Some x \<Rightarrow> \<exists>paid. rs_debits s1 = rs_debits s @ paid \<and> answered_last A x qs paid" using ask_targets_spec [OF a] by blast
    have may: "\<forall>q \<in> set qs. may_ask nets r0 q \<and> snd q = c" using qs(2) routed_may_ask [OF Cons.prems(2)] by auto
    show ?thesis
    proof (cases out)
      case None
      then show ?thesis using Cons.prems(1) True a qs may sim_trans [OF Cons.prems(2) qs(3)] by (intro next_one [of s1 qs]) auto
    next
      case (Some x)
      then obtain paid where "rs_debits s1 = rs_debits s @ paid" "answered_last A x qs paid" using qs(4) by auto
      moreover have "res = Some x" "s' = s1" using Cons.prems(1) True a Some by simp_all
      ultimately show ?thesis using qs(1) may by (intro exI [of _ qs] exI [of _ paid]) (auto simp: outcome_ok_def)
    qed
  qed
qed


text \<open>One who is asked for a stream and not the one shown ended in an exception before showing anything.\<close>

definition silent :: "(pystr \<Rightarrow> pystr \<Rightarrow> streamed) \<Rightarrow> pystr \<times> pystr \<Rightarrow> bool" where
  "silent S q = (snd (S (fst q) (snd q)) \<and> shown (fst q) (snd q) (fst (S (fst q) (snd q))) = [])"

lemma stream_targets_spec:
  "stream_targets S c ts s = (res, s') \<Longrightarrow> \<exists>qs. rs_asked s' = rs_asked s @ qs \<and> set qs \<subseteq> (\<lambda>t. (pt_peer_id t, c)) ` set ts
     \<and> sim_registry (rs_registry s) (rs_registry s')
     \<and> (case res of None \<Rightarrow> \<forall>q \<in> set qs. silent S q
        | Some out \<Rightarrow> qs \<noteq> [] \<and> (\<forall>q \<in> set (butlast qs). silent S q) \<and> out = shown (fst (last qs)) (snd (last qs)) (fst (S (fst (last qs)) (snd (last qs)))))"
proof (induction ts arbitrary: s)
  case (Cons t ts)
  let ?pid = "pt_peer_id t"
  define s1 where "s1 = s\<lparr>rs_asked := rs_asked s @ [(?pid, c)]\<rparr>"
  obtain cs raised where S: "S ?pid c = (cs, raised)" by fastforce
  have b: "rs_asked (blame p x) = rs_asked x" "rs_asked (praise p x) = rs_asked x" for p x by (simp_all add: blame_def praise_def)
  have m: "sim_registry (rs_registry s) (rs_registry (blame ?pid s1))" "sim_registry (rs_registry s) (rs_registry (praise ?pid s1))"
    using sim_marks [of s1 ?pid] by (simp_all add: s1_def)
  consider "pe_connection (pt_entry t) = None" | "pe_connection (pt_entry t) \<noteq> None" "raised \<and> shown ?pid c cs = []"
    | "pe_connection (pt_entry t) \<noteq> None" "\<not> (raised \<and> shown ?pid c cs = [])" by blast
  then show ?case
  proof cases
    case 1
    then show ?thesis using Cons by fastforce
  next
    case 2
    have go: "stream_targets S c ts (blame ?pid s1) = (res, s')" using Cons.prems 2 S by (auto simp: s1_def Let_def)
    obtain qs where qs: "rs_asked s' = rs_asked (blame ?pid s1) @ qs" "set qs \<subseteq> (\<lambda>t. (pt_peer_id t, c)) ` set ts"
      "sim_registry (rs_registry (blame ?pid s1)) (rs_registry s')"
      "case res of None \<Rightarrow> \<forall>q \<in> set qs. silent S q
        | Some out \<Rightarrow> qs \<noteq> [] \<and> (\<forall>q \<in> set (butlast qs). silent S q) \<and> out = shown (fst (last qs)) (snd (last qs)) (fst (S (fst (last qs)) (snd (last qs))))"
      using Cons.IH [OF go] by blast
    have "silent S (?pid, c)" using 2 S by (simp add: silent_def)
    then show ?thesis using qs sim_trans [OF m(1) qs(3)]
      by (intro exI [of _ "(?pid, c) # qs"]) (auto simp: b s1_def split: option.splits)
  next
    case 3
    then have "res = Some (shown ?pid c cs)" "rs_asked s' = rs_asked s @ [(?pid, c)]" "sim_registry (rs_registry s) (rs_registry s')"
      using Cons.prems S m by (auto simp: s1_def [symmetric] Let_def b split: if_splits) (auto simp: s1_def)
    then show ?thesis using S by (intro exI [of _ "[(?pid, c)]"]) auto
  qed
qed auto

lemma stream_models_spec:
  "stream_models S hc nets cs s = (out, s') \<Longrightarrow> sim_registry r0 (rs_registry s) \<Longrightarrow>
   \<exists>qs. rs_asked s' = rs_asked s @ qs \<and> (\<forall>q \<in> set qs. may_ask nets r0 q \<and> snd q \<in> set cs) \<and> (\<forall>q \<in> set (butlast qs). silent S q)
     \<and> (if qs = [] then out = [] else out = shown (fst (last qs)) (snd (last qs)) (fst (S (fst (last qs)) (snd (last qs)))))"
proof (induction cs arbitrary: s)
  case (Cons c cs)
  obtain o1 s1 where a: "stream_targets S c (route hc c nets (rs_registry s)) s = (o1, s1)" by fastforce
  obtain qs where qs: "rs_asked s1 = rs_asked s @ qs" "set qs \<subseteq> (\<lambda>t. (pt_peer_id t, c)) ` set (route hc c nets (rs_registry s))"
    "sim_registry (rs_registry s) (rs_registry s1)"
    "case o1 of None \<Rightarrow> \<forall>q \<in> set qs. silent S q
        | Some out \<Rightarrow> qs \<noteq> [] \<and> (\<forall>q \<in> set (butlast qs). silent S q) \<and> out = shown (fst (last qs)) (snd (last qs)) (fst (S (fst (last qs)) (snd (last qs))))"
    using stream_targets_spec [OF a] by blast
  have may: "\<forall>q \<in> set qs. may_ask nets r0 q \<and> snd q = c" using qs(2) routed_may_ask [OF Cons.prems(2)] by auto
  show ?case
  proof (cases o1)
    case None
    obtain ps where ps: "rs_asked s' = rs_asked s1 @ ps" "\<forall>q \<in> set ps. may_ask nets r0 q \<and> snd q \<in> set cs" "\<forall>q \<in> set (butlast ps). silent S q"
      "if ps = [] then out = [] else out = shown (fst (last ps)) (snd (last ps)) (fst (S (fst (last ps)) (snd (last ps))))"
      using Cons.IH [of s1] Cons.prems a None sim_trans [OF Cons.prems(2) qs(3)] by auto
    have sil: "\<forall>q \<in> set qs. silent S q" using qs(4) None by simp
    have "out = shown (fst (last (qs @ ps))) (snd (last (qs @ ps))) (fst (S (fst (last (qs @ ps))) (snd (last (qs @ ps)))))" if "qs @ ps \<noteq> []"
      using ps(4) that sil by (cases "ps = []") (auto simp: silent_def)
    moreover have "\<forall>q \<in> set (butlast (qs @ ps)). silent S q" using sil ps(3) by (auto simp: butlast_append dest: in_set_butlastD)
    ultimately show ?thesis using ps qs(1) may by (intro exI [of _ "qs @ ps"]) auto
  next
    case (Some x)
    then show ?thesis using Cons.prems a qs may by (intro exI [of _ qs]) auto
  qed
qed auto


section \<open>Concrete runs\<close>

definition demo_start :: route_state where
  "demo_start = \<lparr>rs_registry = demo_registry, rs_asked = [], rs_debits = []\<rparr>"

text \<open>The first peer raises; the second answers with ten tokens.\<close>

definition demo_answers :: "bool \<Rightarrow> nat answers" where
  "demo_answers ok = \<lparr>an_local = (\<lambda>_. None), an_peer = (\<lambda>p c. if p = ''p1'' then Peer_raises else Peer_answer 7 10),
     an_ledger = True, an_debit_ok = (\<lambda>_. ok)\<rparr>"

lemma demo_member_nets: "own_network_ids (demo_node\<lparr>nd_federation := None\<rparr>) = []"
  by (simp add: own_network_ids_def)


definition demo_stream :: "pystr \<Rightarrow> pystr \<Rightarrow> streamed" where
  "demo_stream p c = (if p = ''p1'' then ([([], None, [])], True) else ([(''a'', None, []), ([], Some ''stop'', [])], True))"


text \<open>A debit that fails after the answer has come counts against the peer that answered, and the next one is asked too.\<close>

lemma refused_debit_asks_again:
  "map_prod id rs_asked (ask_targets ((demo_answers False)\<lparr>an_peer := \<lambda>p c. Peer_answer 7 10\<rparr>) ''qwen''
      (route None ''qwen'' [] demo_registry) demo_start) = (None, [(''p1'', ''qwen''), (''p2'', ''qwen'')])"
  by code_simp

text \<open>A relay that names a connected peer reaches it whatever networks the two are in.\<close>

lemma named_relay_crosses_networks:
  assumes "map_of (nd_connections n) (rl_target q) = Some conn"
  shows "relay_target hc n q = Some (rl_target q)"
  by (simp add: relay_target_def assms)

end
