(* ===== verification/Memory_Estimate.thy ===== *)
theory Memory_Estimate
  imports Advert
begin

text \<open>
  Whether a model fits before it is loaded: \<open>inference/memory_estimate.py\<close> and, of \<open>inference/manager.py\<close>,
  \<open>_run_kv_preflight\<close> and \<open>_estimate_kv_bytes\<close>. A \<open>config.json\<close> is a dictionary of values, of which the
  integers, booleans excluded, and nested dictionaries are read; the files found on disk, what the system
  tools print and the calibration file are arguments. Sizes are unbounded integers, as Python's are.
\<close>

section \<open>Backends\<close>

definition LOCAL_BACKENDS :: "pystr list" where
  "LOCAL_BACKENDS = [''llama.cpp'', ''mlx'', ''mlx-batched'', ''mlx-vlm'', ''mlx-embeddings'']"

definition SELF_BATCHING_BACKENDS :: "pystr list" where
  "SELF_BATCHING_BACKENDS = [''mlx-batched'']"

section \<open>Dimensions\<close>

definition KV_DTYPE_BYTES :: int where "KV_DTYPE_BYTES = 2"
definition GB :: int where "GB = 1024 ^ 3"

text \<open>\<open>cfg.get(key)\<close> of an integer entry; a missing one, and zero, are false in every condition it is used in.\<close>

definition cfg_int :: "pdict \<Rightarrow> pystr \<Rightarrow> int" where
  "cfg_int cfg k = (case map_of cfg k of Some (PInt i) \<Rightarrow> i | _ \<Rightarrow> 0)"

definition or_int :: "int \<Rightarrow> int \<Rightarrow> int" where
  "or_int x y = (if x = 0 then y else x)"

definition overlay :: "pdict \<Rightarrow> pdict \<Rightarrow> pdict" where
  "overlay cfg d = fold (\<lambda>(k, v) c. dict_set c k v) d cfg"

definition nested :: "pdict \<Rightarrow> pystr \<Rightarrow> pdict" where
  "nested cfg key = (case map_of cfg key of Some (PDict d) \<Rightarrow> overlay cfg d | _ \<Rightarrow> cfg)"

record dims =
  dm_layers :: int
  dm_n_kv_heads :: int
  dm_head_dim :: int
  dm_n_q_heads :: int

definition read_model_dims :: "pdict option \<Rightarrow> dims option" where
  "read_model_dims config = (case config of
     None \<Rightarrow> None
   | Some [] \<Rightarrow> None
   | Some cfg0 \<Rightarrow>
       let cfg = fold (\<lambda>key c. nested c key) [''text_config'', ''language_config'', ''llm_config''] cfg0;
           n_q = cfg_int cfg ''num_attention_heads''; hidden = cfg_int cfg ''hidden_size'';
           layers = cfg_int cfg ''num_hidden_layers'';
           n_kv = or_int (cfg_int cfg ''num_key_value_heads'') n_q;
           head_dim = or_int (cfg_int cfg ''head_dim'') (if hidden \<noteq> 0 \<and> n_q \<noteq> 0 then hidden div n_q else 0)
       in if layers = 0 \<or> n_kv = 0 \<or> head_dim = 0 then None
          else Some \<lparr>dm_layers = layers, dm_n_kv_heads = n_kv, dm_head_dim = head_dim, dm_n_q_heads = or_int n_q n_kv\<rparr>)"

definition kv_bytes_per_token :: "dims \<Rightarrow> int" where
  "kv_bytes_per_token d = dm_layers d * dm_n_kv_heads d * dm_head_dim d * KV_DTYPE_BYTES * 2"

section \<open>The estimate\<close>

text \<open>\<open>int\<close> of a float cuts towards zero.\<close>

definition py_trunc :: "pyfloat \<Rightarrow> int" where
  "py_trunc x = (if 0 \<le> x then \<lfloor>x\<rfloor> else \<lceil>x\<rceil>)"

text \<open>What the ceiling is read from: the kernel limit in MB, the recommended working set, the physical memory.\<close>

record machine =
  mn_darwin :: bool
  mn_wired_limit_mb :: "int option"
  mn_working_set :: "int option"
  mn_memsize :: "int option"

definition is_pos :: "int option \<Rightarrow> bool" where
  "is_pos x = (case x of None \<Rightarrow> False | Some v \<Rightarrow> v > 0)"

definition metal_ceiling_bytes :: "machine \<Rightarrow> int" where
  "metal_ceiling_bytes mn =
     (if \<not> mn_darwin mn then 0
      else if is_pos (mn_wired_limit_mb mn) then the (mn_wired_limit_mb mn) * 1024 * 1024
      else if is_pos (mn_working_set mn) then the (mn_working_set mn)
      else if is_pos (mn_memsize mn) then py_trunc (of_int (the (mn_memsize mn)) * (75 / 100))
      else 0)"

text \<open>The factor of the calibration file: \<open>None\<close> without a file or one that cannot be read, else its \<open>kv_factor\<close>, if any.\<close>

definition load_calibration :: "pyfloat option option \<Rightarrow> pyfloat" where
  "load_calibration file = (case file of
     None \<Rightarrow> 1
   | Some entry \<Rightarrow> let factor = (case entry of None \<Rightarrow> 1 | Some f \<Rightarrow> f)
                   in if 1 / 2 \<le> factor \<and> factor \<le> 4 then factor else 1)"

record estimation =
  es_kv_factor :: pyfloat
  es_kv_bytes_per_token :: int
  es_weights_bytes :: int
  es_kv_bytes :: int
  es_overhead_bytes :: int
  es_peak_bytes :: int
  es_ceiling_bytes :: int
  es_budget_bytes :: int
  es_batch_slots :: int
  es_ctx_len :: int
  es_fits :: bool
  es_max_ctx_len :: int

text \<open>\<open>on_disk\<close> is \<open>resolve_weights_bytes\<close> of the path, consulted where the caller gives no size.\<close>

definition estimate :: "dims option \<Rightarrow> int \<Rightarrow> int \<Rightarrow> int \<Rightarrow> int \<Rightarrow> int \<Rightarrow> pyfloat \<Rightarrow> int \<Rightarrow> pyfloat \<Rightarrow> estimation option" where
  "estimate ds on_disk ctx_len batch_slots weights_bytes overhead_bytes safety_fraction limit factor = (case ds of
     None \<Rightarrow> None
   | Some d \<Rightarrow>
       if limit \<le> 0 then None
       else
         let weights = (if weights_bytes \<le> 0 then on_disk else weights_bytes);
             slots = max 1 batch_slots;
             per_tok = py_trunc (of_int (kv_bytes_per_token d) * factor);
             kv = per_tok * max 0 ctx_len * slots;
             peak = weights + kv + overhead_bytes;
             budget = py_trunc (of_int limit * safety_fraction);
             avail_for_kv = budget - weights - overhead_bytes;
             max_ctx = (if per_tok \<noteq> 0 then max 0 (avail_for_kv div (per_tok * slots)) else 0)
         in Some \<lparr>es_kv_factor = factor, es_kv_bytes_per_token = per_tok, es_weights_bytes = weights, es_kv_bytes = kv,
              es_overhead_bytes = overhead_bytes, es_peak_bytes = peak, es_ceiling_bytes = limit, es_budget_bytes = budget,
              es_batch_slots = slots, es_ctx_len = ctx_len, es_fits = (peak \<le> budget), es_max_ctx_len = max_ctx\<rparr>)"

section \<open>The preflight\<close>

text \<open>What a load is asked for: the entries of \<open>kwargs\<close> that bear on memory, \<open>None\<close> where absent.\<close>

record window =
  wi_ctx_len :: "int option"
  wi_n_ctx :: "int option"
  wi_max_kv_size :: "int option"

record preflight_settings =
  pf_default_ctx_len :: int
  pf_max_concurrent :: int
  pf_overhead_gb :: pyfloat
  pf_safety_fraction :: pyfloat
  pf_action :: pystr
  pf_min_ctx_len :: int

definition window_ctx :: "preflight_settings \<Rightarrow> window \<Rightarrow> int" where
  "window_ctx S w = (case wi_ctx_len w of Some c \<Rightarrow> c | None \<Rightarrow> (case wi_n_ctx w of Some c \<Rightarrow> c | None \<Rightarrow> pf_default_ctx_len S))"

definition window_bound :: "window \<Rightarrow> int" where
  "window_bound w = (case wi_max_kv_size w of Some k \<Rightarrow> k | None \<Rightarrow> 0)"

definition kv_window :: "preflight_settings \<Rightarrow> window \<Rightarrow> int" where
  "kv_window S w = (if window_bound w > 0 then min (window_ctx S w) (window_bound w) else window_ctx S w)"

text \<open>What the estimate of a path depends on: dimensions, sizes on disk, the ceiling and the calibration.\<close>

record model_files =
  mf_dims :: "dims option"
  mf_size_on_disk :: int
  mf_resolved_bytes :: int
  mf_ceiling :: int
  mf_factor :: pyfloat

definition preflight_slots :: "preflight_settings \<Rightarrow> pystr \<Rightarrow> int" where
  "preflight_slots S runtime = (if runtime \<in> set SELF_BATCHING_BACKENDS then pf_max_concurrent S else 1)"

definition preflight_estimate :: "preflight_settings \<Rightarrow> model_files \<Rightarrow> pystr \<Rightarrow> int \<Rightarrow> estimation option" where
  "preflight_estimate S f runtime kv_ctx = estimate (mf_dims f) (mf_resolved_bytes f) kv_ctx (preflight_slots S runtime)
     (mf_size_on_disk f) (py_trunc (pf_overhead_gb S * of_int GB)) (pf_safety_fraction S) (mf_ceiling f) (mf_factor f)"

datatype preflight = Not_handled | Handled window | Rejected

definition run_kv_preflight :: "preflight_settings \<Rightarrow> model_files \<Rightarrow> pystr \<Rightarrow> window \<Rightarrow> preflight" where
  "run_kv_preflight S f runtime w =
     (let kv_ctx = kv_window S w in
      case preflight_estimate S f runtime kv_ctx of
        None \<Rightarrow> Not_handled
      | Some est \<Rightarrow>
          if es_fits est then Handled w
          else
            let action = py_lower (or_str (pf_action S) ''warn'') in
            if action = ''reject'' then Rejected
            else if action = ''clamp'' then
              (let safe = max (pf_min_ctx_len S) (es_max_ctx_len est) in
               if safe < kv_ctx then
                 (if window_bound w > 0 then Handled (w\<lparr>wi_max_kv_size := Some safe\<rparr>)
                  else Handled (w\<lparr>wi_ctx_len := Some safe, wi_n_ctx := None\<rparr>))
               else Handled w)
            else Handled w)"

text \<open>The estimate of the older check: from the attention geometry of the configuration file, else from its size.\<close>

definition estimate_kv_bytes :: "pdict option \<Rightarrow> int \<Rightarrow> int \<Rightarrow> int" where
  "estimate_kv_bytes config ctx_len file_size = (case config of
     None \<Rightarrow> file_size div 45000 * ctx_len
   | Some cfg \<Rightarrow>
       let layers = cfg_int cfg ''num_hidden_layers''; heads = cfg_int cfg ''num_attention_heads'';
           kv_heads = or_int (cfg_int cfg ''num_key_value_heads'') heads;
           head_dim = (if cfg_int cfg ''head_dim'' = 0 \<and> heads \<noteq> 0 then cfg_int cfg ''hidden_size'' div heads else cfg_int cfg ''head_dim'')
       in if layers \<noteq> 0 \<and> kv_heads \<noteq> 0 \<and> head_dim \<noteq> 0 then 2 * layers * kv_heads * head_dim * 2 * ctx_len
          else file_size div 45000 * ctx_len)"


section \<open>What the estimate says\<close>

lemma estimate_fields:
  assumes "estimate (Some d) disk c slots w oh saf limit factor = Some e"
  shows "es_batch_slots e = max 1 slots" "es_kv_bytes_per_token e = py_trunc (of_int (kv_bytes_per_token d) * factor)"
    "es_fits e \<longleftrightarrow> es_weights_bytes e + es_kv_bytes_per_token e * max 0 c * max 1 slots + oh \<le> es_budget_bytes e"
    "es_max_ctx_len e = (if es_kv_bytes_per_token e \<noteq> 0
        then max 0 ((es_budget_bytes e - es_weights_bytes e - oh) div (es_kv_bytes_per_token e * max 1 slots)) else 0)"
    "es_budget_bytes e = py_trunc (of_int limit * saf)" "es_weights_bytes e = (if w \<le> 0 then disk else w)" "0 < limit"
  using assms by (auto simp: estimate_def Let_def split: if_splits)

lemma estimate_ctx:
  assumes "estimate ds disk c slots w oh saf limit factor = Some e"
  shows "\<exists>e'. estimate ds disk c' slots w oh saf limit factor = Some e' \<and> es_weights_bytes e' = es_weights_bytes e
    \<and> es_budget_bytes e' = es_budget_bytes e \<and> es_kv_bytes_per_token e' = es_kv_bytes_per_token e
    \<and> es_max_ctx_len e' = es_max_ctx_len e"
  using assms by (auto simp: estimate_def Let_def split: option.splits if_splits)

lemma fits_iff:
  assumes e: "estimate (Some d) disk c slots w oh saf limit factor = Some e" and pos: "0 < es_kv_bytes_per_token e" and c: "0 \<le> c"
  shows "es_fits e \<longleftrightarrow> es_weights_bytes e + oh \<le> es_budget_bytes e \<and> c \<le> es_max_ctx_len e"
proof -
  define k where "k = es_kv_bytes_per_token e * max 1 slots"
  define a where "a = es_budget_bytes e - es_weights_bytes e - oh"
  have shift: "c * k \<le> a \<longleftrightarrow> c \<le> a div k" if "0 < k"
  proof
    assume "c * k \<le> a"
    then show "c \<le> a div k" using zdiv_mono1 [of "c * k" a k] that by simp
  next
    assume "c \<le> a div k"
    then have "c * k \<le> a div k * k" using that by (simp add: mult_right_mono)
    also have "\<dots> \<le> a" using that by (simp add: minus_mod_eq_div_mult [symmetric])
    finally show "c * k \<le> a" .
  qed
  have k: "0 < k" using pos by (simp add: k_def)
  have "es_fits e \<longleftrightarrow> c * k \<le> a" using estimate_fields(3) [OF e] c by (auto simp: k_def a_def algebra_simps)
  also have "\<dots> \<longleftrightarrow> c \<le> a div k" by (rule shift [OF k])
  also have "\<dots> \<longleftrightarrow> 0 \<le> a \<and> c \<le> max 0 (a div k)"
    using k c pos_imp_zdiv_nonneg_iff [OF k, of a] by (auto simp: max_def)
  finally show ?thesis using estimate_fields(4) [OF e] pos by (auto simp: k_def a_def)
qed

text \<open>
  The largest context the estimate names is exact. Where a token of the cache takes space, the
  estimate at any context length reports the same largest one, and fits if and only if the weights and the
  reserve fit alone and the length does not exceed it.
\<close>

theorem max_context_exact:
  assumes "estimate ds disk c slots w oh saf limit factor = Some e" and "0 < es_kv_bytes_per_token e" and "0 \<le> c'"
  shows "\<exists>e'. estimate ds disk c' slots w oh saf limit factor = Some e' \<and> es_max_ctx_len e' = es_max_ctx_len e
    \<and> (es_fits e' \<longleftrightarrow> es_weights_bytes e + oh \<le> es_budget_bytes e \<and> c' \<le> es_max_ctx_len e)"
proof -
  obtain e' where e': "estimate ds disk c' slots w oh saf limit factor = Some e'" "es_weights_bytes e' = es_weights_bytes e"
    "es_budget_bytes e' = es_budget_bytes e" "es_kv_bytes_per_token e' = es_kv_bytes_per_token e" "es_max_ctx_len e' = es_max_ctx_len e"
    using estimate_ctx [OF assms(1)] by blast
  obtain d where "ds = Some d" using assms(1) by (cases ds) (auto simp: estimate_def)
  then show ?thesis using fits_iff [of d disk c' slots w oh saf limit factor e'] e' assms by auto
qed

lemma preflight_ctx:
  assumes "preflight_estimate S f runtime c = Some e" "0 < es_kv_bytes_per_token e" "0 \<le> c'"
  shows "\<exists>e'. preflight_estimate S f runtime c' = Some e' \<and> es_max_ctx_len e' = es_max_ctx_len e
    \<and> (es_fits e' \<longleftrightarrow> es_weights_bytes e + es_overhead_bytes e \<le> es_budget_bytes e \<and> c' \<le> es_max_ctx_len e)"
proof -
  obtain d where d: "mf_dims f = Some d" using assms(1) by (cases "mf_dims f") (auto simp: preflight_estimate_def estimate_def)
  have oh: "es_overhead_bytes e = py_trunc (pf_overhead_gb S * of_int GB)"
    using assms(1) by (auto simp: preflight_estimate_def estimate_def d Let_def split: if_splits)
  obtain e' where e': "preflight_estimate S f runtime c' = Some e'" "es_weights_bytes e' = es_weights_bytes e"
    "es_budget_bytes e' = es_budget_bytes e" "es_kv_bytes_per_token e' = es_kv_bytes_per_token e" "es_max_ctx_len e' = es_max_ctx_len e"
    using assms(1) estimate_ctx unfolding preflight_estimate_def by blast
  then show ?thesis using fits_iff [of d _ c' _ _ "es_overhead_bytes e" _ _ _ e'] assms(2,3) oh
    by (auto simp: preflight_estimate_def d)
qed

text \<open>
  C23: what the preflight lets through. It turns a load down exactly where the estimate does not fit and the
  action is to reject. Where it is to clamp, the cache window becomes the smaller of the one asked for and
  the larger of the configured minimum and the largest window that fits; if that largest window is at least
  the minimum and the weights fit at all, the load then fits; and a load with a bounded cache keeps its
  context length. A load whose estimate fits is left as it is.
\<close>

theorem preflight_outcome:
  assumes e: "preflight_estimate S f runtime (kv_window S w) = Some e" and pos: "0 < es_kv_bytes_per_token e"
    and c: "0 \<le> kv_window S w" and least: "0 < pf_min_ctx_len S"
  defines "action \<equiv> py_lower (or_str (pf_action S) ''warn'')"
  shows "(run_kv_preflight S f runtime w = Rejected \<longleftrightarrow> \<not> es_fits e \<and> action = ''reject'')
    \<and> (es_fits e \<longrightarrow> run_kv_preflight S f runtime w = Handled w)
    \<and> (action = ''clamp'' \<longrightarrow> (\<exists>w' e'. run_kv_preflight S f runtime w = Handled w'
         \<and> kv_window S w' = min (kv_window S w) (max (pf_min_ctx_len S) (es_max_ctx_len e))
         \<and> preflight_estimate S f runtime (kv_window S w') = Some e'
         \<and> (es_weights_bytes e + es_overhead_bytes e \<le> es_budget_bytes e \<and> pf_min_ctx_len S \<le> es_max_ctx_len e \<longrightarrow> es_fits e')
         \<and> (0 < window_bound w \<longrightarrow> wi_ctx_len w' = wi_ctx_len w \<and> wi_n_ctx w' = wi_n_ctx w)))"
proof -
  let ?m = "max (pf_min_ctx_len S) (es_max_ctx_len e)"
  have run: "run_kv_preflight S f runtime w = (if es_fits e then Handled w
      else if action = ''reject'' then Rejected
      else if action = ''clamp'' \<and> ?m < kv_window S w then
        Handled (if window_bound w > 0 then w\<lparr>wi_max_kv_size := Some ?m\<rparr> else w\<lparr>wi_ctx_len := Some ?m, wi_n_ctx := None\<rparr>)
      else Handled w)" using e by (simp add: run_kv_preflight_def action_def Let_def)
  obtain d where d: "mf_dims f = Some d" using e by (cases "mf_dims f") (auto simp: preflight_estimate_def estimate_def)
  have fit: "es_fits e \<Longrightarrow> kv_window S w \<le> es_max_ctx_len e"
    using preflight_ctx [OF e pos c] e by auto
  have windows: "0 < window_bound w \<Longrightarrow> kv_window S (w\<lparr>wi_max_kv_size := Some m\<rparr>) = (if 0 < m then min (window_ctx S w) m else window_ctx S w)"
    "\<not> 0 < window_bound w \<Longrightarrow> kv_window S (w\<lparr>wi_ctx_len := Some m, wi_n_ctx := None\<rparr>) = m"
    "kv_window S w = (if window_bound w > 0 then min (window_ctx S w) (window_bound w) else window_ctx S w)" for m
    by (simp_all add: kv_window_def window_bound_def window_ctx_def split: option.split)
  have clamp: "\<exists>w' e'. run_kv_preflight S f runtime w = Handled w' \<and> kv_window S w' = min (kv_window S w) ?m
         \<and> preflight_estimate S f runtime (kv_window S w') = Some e'
         \<and> (es_weights_bytes e + es_overhead_bytes e \<le> es_budget_bytes e \<and> pf_min_ctx_len S \<le> es_max_ctx_len e \<longrightarrow> es_fits e')
         \<and> (0 < window_bound w \<longrightarrow> wi_ctx_len w' = wi_ctx_len w \<and> wi_n_ctx w' = wi_n_ctx w)" if act: "action = ''clamp''"
  proof -
    define w' where "w' = (if \<not> es_fits e \<and> ?m < kv_window S w then
        (if window_bound w > 0 then w\<lparr>wi_max_kv_size := Some ?m\<rparr> else w\<lparr>wi_ctx_len := Some ?m, wi_n_ctx := None\<rparr>) else w)"
    have r: "run_kv_preflight S f runtime w = Handled w'" using act by (simp add: run w'_def)
    have kv: "kv_window S w' = min (kv_window S w) ?m"
      using fit least windows(1,2) [of ?m] windows(3) by (auto simp: w'_def min_def max_def)
    have kept: "0 < window_bound w \<longrightarrow> wi_ctx_len w' = wi_ctx_len w \<and> wi_n_ctx w' = wi_n_ctx w" by (simp add: w'_def)
    have "0 \<le> kv_window S w'" using kv c least by simp
    then obtain e' where "preflight_estimate S f runtime (kv_window S w') = Some e'"
      "es_fits e' \<longleftrightarrow> es_weights_bytes e + es_overhead_bytes e \<le> es_budget_bytes e \<and> kv_window S w' \<le> es_max_ctx_len e"
      using preflight_ctx [OF e pos] by blast
    then show ?thesis using kv r kept by (intro exI [of _ w'] exI [of _ e']) simp
  qed
  have "run_kv_preflight S f runtime w = Rejected \<longleftrightarrow> \<not> es_fits e \<and> action = ''reject''"
    "es_fits e \<longrightarrow> run_kv_preflight S f runtime w = Handled w" unfolding run by simp_all
  then show ?thesis using clamp by blast
qed

section \<open>Example\<close>

definition demo_window :: window where "demo_window = \<lparr>wi_ctx_len = Some 32768, wi_n_ctx = None, wi_max_kv_size = None\<rparr>"

definition demo_preflight :: preflight_settings where
  "demo_preflight = \<lparr>pf_default_ctx_len = 32768, pf_max_concurrent = 2, pf_overhead_gb = 1, pf_safety_fraction = 3 / 4,
     pf_action = ''clamp'', pf_min_ctx_len = 2048\<rparr>"

text \<open>A model of 4 GB with 28 layers, four heads and 128 dimensions, under a ceiling of 8 GB.\<close>

definition demo_files :: model_files where
  "demo_files = \<lparr>mf_dims = Some \<lparr>dm_layers = 28, dm_n_kv_heads = 4, dm_head_dim = 128, dm_n_q_heads = 28\<rparr>,
     mf_size_on_disk = 4 * GB, mf_resolved_bytes = 0, mf_ceiling = 8 * GB, mf_factor = 1\<rparr>"

lemma demo_estimate: "\<exists>e. preflight_estimate demo_preflight demo_files ''mlx-batched'' 32768 = Some e
    \<and> es_kv_bytes_per_token e = 57344 \<and> es_max_ctx_len e = 9362 \<and> \<not> es_fits e
    \<and> es_weights_bytes e + es_overhead_bytes e \<le> es_budget_bytes e \<and> es_overhead_bytes e = GB"
  by (simp add: preflight_estimate_def estimate_def demo_files_def demo_preflight_def preflight_slots_def SELF_BATCHING_BACKENDS_def kv_bytes_per_token_def
      KV_DTYPE_BYTES_def GB_def py_trunc_def Let_def)

theorem max_context_exact_witness:
  "\<exists>e. preflight_estimate demo_preflight demo_files ''mlx-batched'' 9362 = Some e \<and> es_fits e"
proof -
  obtain e where e: "preflight_estimate demo_preflight demo_files ''mlx-batched'' 32768 = Some e"
    "es_kv_bytes_per_token e = 57344" "es_max_ctx_len e = 9362" "es_weights_bytes e + es_overhead_bytes e \<le> es_budget_bytes e"
    "es_overhead_bytes e = GB"
    using demo_estimate by blast
  have "0 < es_kv_bytes_per_token e" using e(2) by simp
  from max_context_exact [OF e(1) [unfolded preflight_estimate_def] this, of 9362] e(3,4,5)
  show ?thesis by (auto simp: preflight_estimate_def demo_preflight_def py_trunc_def GB_def)
qed

theorem preflight_outcome_witness:
  "\<exists>w'. run_kv_preflight demo_preflight demo_files ''mlx-batched'' demo_window = Handled w' \<and> kv_window demo_preflight w' = 9362"
proof -
  have w: "kv_window demo_preflight demo_window = 32768" by (simp add: kv_window_def demo_window_def window_bound_def window_ctx_def)
  obtain e where e: "preflight_estimate demo_preflight demo_files ''mlx-batched'' (kv_window demo_preflight demo_window) = Some e"
    "0 < es_kv_bytes_per_token e" "es_max_ctx_len e = 9362"
    using demo_estimate unfolding w by force
  have s: "0 < pf_min_ctx_len demo_preflight" "0 \<le> kv_window demo_preflight demo_window" "pf_min_ctx_len demo_preflight = 2048"
    using w by (simp_all add: demo_preflight_def)
  have act: "py_lower (or_str (pf_action demo_preflight) ''warn'') = ''clamp''" by code_simp
  show ?thesis using preflight_outcome [OF e(1,2) s(2,1)] s(3) act e(3) w by auto
qed

text \<open>A context length given as zero, which elsewhere means the default, counts as a cache of nothing.\<close>

lemma zero_context_fits:
  assumes "preflight_estimate S f runtime 0 = Some e" "0 < es_kv_bytes_per_token e" "es_weights_bytes e + es_overhead_bytes e \<le> es_budget_bytes e"
    and "wi_ctx_len w = Some 0" "window_bound w = 0"
  shows "run_kv_preflight S f runtime w = Handled w"
proof -
  have "kv_window S w = 0" using assms(4,5) by (simp add: kv_window_def window_ctx_def)
  moreover have "es_max_ctx_len e \<ge> 0" using assms(1) by (auto simp: preflight_estimate_def estimate_def Let_def split: option.splits if_splits)
  ultimately show ?thesis using preflight_ctx [OF assms(1,2), of 0] assms(1,3) by (auto simp: run_kv_preflight_def)
qed

end
