(* ===== verification/Node_Execution.thy ===== *)
theory Node_Execution
  imports Node_Routing Memory_Estimate Job_Scheduler
begin

text \<open>
  How a node carries out work units (\<open>node.py\<close>): \<open>execution_targets\<close>, \<open>run_work_unit\<close>,
  \<open>run_work_unit_stream\<close>, and their composition with the planner and the coordinator in
  \<open>execute_job\<close> and \<open>execute_job_stream\<close>. What a backend or a peer answers and whether the ledger takes
  a debit are parameters; the state is that of routing: the registry, the peers asked and the debits.
\<close>

section \<open>Targets\<close>

definition loaded_target :: "model_advert \<Rightarrow> target" where
  "loaded_target m = \<lparr>t_model = ma_name m,
     t_kind = (if ma_backend m \<in> set LOCAL_BACKENDS then ''local'' else ''group''),
     t_peer_id = [], t_serving_group_id = ma_serving_group_id m, t_network_ids = [],
     t_tok_s = ma_throughput_tok_s m, t_roles = ma_execution_roles m,
     t_params_b = or_num (ma_param_count_b m) (estimate_param_count (ma_name m))\<rparr>"

text \<open>The registry keeps what routing reads of a peer's advertisement; the whole of it is \<open>adv\<close> of the peer.\<close>

definition peer_exec_target :: "(pystr \<Rightarrow> advert) \<Rightarrow> pystr \<Rightarrow> peer_entry \<Rightarrow> target" where
  "peer_exec_target adv name e =
     (let a = adv (pe_peer_id e); mc = find (\<lambda>m. ma_name m = name) (ad_models a)
      in \<lparr>t_model = name, t_kind = ''peer'', t_peer_id = pe_peer_id e, t_serving_group_id = [],
          t_network_ids = pe_network_ids e, t_tok_s = ad_est_tok_s a,
          t_roles = (case mc of None \<Rightarrow> [] | Some m \<Rightarrow> ma_execution_roles m),
          t_params_b = or_num (case mc of None \<Rightarrow> 0 | Some m \<Rightarrow> ma_param_count_b m) (estimate_param_count name)\<rparr>)"

definition execution_targets :: "model_advert list \<Rightarrow> (pystr \<Rightarrow> advert) \<Rightarrow> pystr list \<Rightarrow> registry \<Rightarrow> pystr \<Rightarrow> target list" where
  "execution_targets loaded adv own r model =
     map loaded_target loaded
     @ concat (map (\<lambda>name. map (peer_exec_target adv name) (peers_for_model name own r))
         (filter (\<lambda>name. name \<notin> {[], ''auto''} \<and> \<not> py_startswith name ''mycellm/'')
           (if model = [] then map fst (rg_index r) else [model])))"

section \<open>Running a unit\<close>

text \<open>
  \<open>InferenceManager.generate\<close> returns a dict or an \<open>InferenceResult\<close>, or raises; a peer sends an error
  with the text fields of its payload, or an answer, or the request raises.
\<close>

datatype generated = Gen_dict pystr int int | Gen_result pystr int int | Gen_raises pystr

datatype peer_reply = Reply_error "(pystr \<times> pystr) list" | Reply_answer pystr int int | Reply_raises pystr

record unit_env =
  ue_generate :: "pystr \<Rightarrow> work_unit \<Rightarrow> generated"
  ue_peer :: "pystr \<Rightarrow> work_unit \<Rightarrow> peer_reply"
  ue_ledger :: bool
  ue_debit :: "pystr \<Rightarrow> pystr option"

definition debit_cost :: "int \<Rightarrow> pyfloat" where
  "debit_cost tokens = compute_cost (max tokens 1) 7 []"

definition local_name :: "inference \<Rightarrow> pystr \<Rightarrow> pystr" where
  "local_name im model = or_str (resolve_model_name im model None None) model"

definition run_local_unit :: "unit_env \<Rightarrow> inference \<Rightarrow> work_unit \<Rightarrow> run_outcome" where
  "run_local_unit E im u = (case ue_generate E (local_name im (t_model (u_target u))) u of
     Gen_dict text p c \<Rightarrow> Returned (Some ((base_result u 0)\<lparr>r_text := text, r_prompt_tokens := p, r_completion_tokens := c\<rparr>))
   | Gen_result text p c \<Rightarrow> Returned (Some ((base_result u 0)\<lparr>r_text := text\<rparr>))
   | Gen_raises e \<Rightarrow> Raised e)"

definition error_field :: "(pystr \<times> pystr) list \<Rightarrow> pystr" where
  "error_field payload = (case map_of payload ''message'' of None \<Rightarrow> ''peer returned an error'' | Some s \<Rightarrow> s)"

text \<open>The debit comes last: where it raises, so does the unit, its text and its tokens with it.\<close>

definition run_work_unit :: "unit_env \<Rightarrow> inference \<Rightarrow> work_unit \<Rightarrow> route_state \<Rightarrow> run_outcome \<times> route_state" where
  "run_work_unit E im u s =
     (let t = u_target u; res = base_result u 0; pid = t_peer_id t in
      if t_kind t \<in> {''local'', ''group''} then (run_local_unit E im u, s)
      else if (case get_peer pid (rs_registry s) of None \<Rightarrow> True | Some e \<Rightarrow> pe_connection e = None)
        then (Returned (Some (res\<lparr>r_error := ''peer has no live connection''\<rparr>)), s)
      else let s1 = s\<lparr>rs_asked := rs_asked s @ [(pid, t_model t)]\<rparr> in
        case ue_peer E pid u of
          Reply_raises e \<Rightarrow> (Raised e, s1)
        | Reply_error payload \<Rightarrow> (Returned (Some (res\<lparr>r_error := error_field payload\<rparr>)), blame pid s1)
        | Reply_answer text p c \<Rightarrow>
            let s2 = praise pid s1;
                done = Returned (Some (res\<lparr>r_text := text, r_prompt_tokens := p, r_completion_tokens := c\<rparr>))
            in if \<not> ue_ledger E then (done, s2)
               else (case ue_debit E pid of
                       Some e \<Rightarrow> (Raised e, s2)
                     | None \<Rightarrow> (done, s2\<lparr>rs_debits := rs_debits s2 @ [(debit_cost c, pid)]\<rparr>)))"

text \<open>A local stream: its fragments and how it ends; of a peer stream only the pieces' texts are passed on.\<close>

definition piece_texts :: "(pystr \<times> pystr \<times> piece) list \<Rightarrow> pystr list" where
  "piece_texts out = filter (\<lambda>text. text \<noteq> []) (map (\<lambda>(p, m, text, finish, tools). text) out)"

definition run_work_unit_stream :: "(pystr \<Rightarrow> work_unit \<Rightarrow> pystr list \<times> stream_end) \<Rightarrow> (work_unit \<Rightarrow> pystr \<Rightarrow> pystr \<Rightarrow> streamed)
    \<Rightarrow> inference \<Rightarrow> checker option \<Rightarrow> network_view \<Rightarrow> node \<Rightarrow> work_unit \<Rightarrow> route_state
    \<Rightarrow> (pystr list \<times> stream_end) \<times> route_state" where
  "run_work_unit_stream G S im hc v n u s =
     (let t = u_target u in
      if t_kind t \<in> {''local'', ''group''} then
        (case G (local_name im (t_model t)) u of (texts, e) \<Rightarrow> ((filter (\<lambda>x. x \<noteq> []) texts, e), s))
      else case node_route_stream (S u) hc v n (t_model t) s of
             (out, s1) \<Rightarrow> ((piece_texts out, StreamFinished), s1))"

section \<open>Units are independent\<close>

text \<open>What a unit does to the registry \<open>r\<close>, from an empty record: its outcome, whom it asks, what it pays.\<close>

definition alone :: "unit_env \<Rightarrow> inference \<Rightarrow> registry \<Rightarrow> work_unit \<Rightarrow> run_outcome \<times> route_state" where
  "alone E im r u = run_work_unit E im u \<lparr>rs_registry = r, rs_asked = [], rs_debits = []\<rparr>"

definition unit_outcome :: "unit_env \<Rightarrow> inference \<Rightarrow> registry \<Rightarrow> work_unit \<Rightarrow> run_outcome" where
  "unit_outcome E im r u = fst (alone E im r u)"

definition unit_asks :: "unit_env \<Rightarrow> inference \<Rightarrow> registry \<Rightarrow> work_unit \<Rightarrow> (pystr \<times> pystr) list" where
  "unit_asks E im r u = rs_asked (snd (alone E im r u))"

definition unit_debits :: "unit_env \<Rightarrow> inference \<Rightarrow> registry \<Rightarrow> work_unit \<Rightarrow> (pyfloat \<times> pystr) list" where
  "unit_debits E im r u = rs_debits (snd (alone E im r u))"

text \<open>Units run one after another, on one state.\<close>

fun run_units :: "unit_env \<Rightarrow> inference \<Rightarrow> work_unit list \<Rightarrow> route_state \<Rightarrow> run_outcome list \<times> route_state" where
  "run_units E im [] s = ([], s)"
| "run_units E im (u # us) s =
     (let (x, s1) = run_work_unit E im u s; (xs, s2) = run_units E im us s1 in (x # xs, s2))"

text \<open>The node as the coordinator's runner, and whole jobs on it.\<close>

definition node_runner :: "unit_env \<Rightarrow> inference \<Rightarrow> registry \<Rightarrow> (work_unit \<Rightarrow> pyfloat) \<Rightarrow> runner" where
  "node_runner E im r clock u = (unit_outcome E im r u, clock u)"

definition node_execute_job :: "regex_engine \<Rightarrow> unit_env \<Rightarrow> inference \<Rightarrow> model_advert list \<Rightarrow> (pystr \<Rightarrow> advert) \<Rightarrow> node
    \<Rightarrow> (work_unit \<Rightarrow> pyfloat) \<Rightarrow> (execution_plan \<Rightarrow> schedule) \<Rightarrow> pyfloat \<Rightarrow> bool \<Rightarrow> target list option \<Rightarrow> job \<Rightarrow> job_result option" where
  "node_execute_job rx E im loaded adv n clock sched elapsed ov targets j =
     (let own = own_network_ids n; r = nd_registry n
      in execute_job rx own (execution_targets loaded adv own r []) (node_runner E im r clock) sched elapsed ov targets j)"

definition node_execute_job_stream :: "regex_engine \<Rightarrow> unit_env \<Rightarrow> stream_runner \<Rightarrow> inference \<Rightarrow> model_advert list
    \<Rightarrow> (pystr \<Rightarrow> advert) \<Rightarrow> node \<Rightarrow> (work_unit \<Rightarrow> pyfloat) \<Rightarrow> (execution_plan \<Rightarrow> schedule) \<Rightarrow> pyfloat \<Rightarrow> bool
    \<Rightarrow> target list option \<Rightarrow> job \<Rightarrow> (event list \<times> bool) option" where
  "node_execute_job_stream rx E srun im loaded adv n clock sched elapsed ov targets j =
     (let own = own_network_ids n; r = nd_registry n;
          j' = (case j_network_ids j of None \<Rightarrow> j\<lparr>j_network_ids := Some own\<rparr> | Some _ \<Rightarrow> j);
          ts = (case targets of None \<Rightarrow> execution_targets loaded adv own r [] | Some ts \<Rightarrow> ts)
      in map_option (\<lambda>p. execute_stream (node_runner E im r clock) (Some srun) j' p (sched p) elapsed) (plan_job rx j' ts ov))"

lemma sim_connected:
  assumes "sim_registry r r'"
  shows "(case get_peer p r' of None \<Rightarrow> True | Some e \<Rightarrow> pe_connection e = None)
    = (case get_peer p r of None \<Rightarrow> True | Some e \<Rightarrow> pe_connection e = None)"
proof -
  have "map_option pe_connection (map_option (\<lambda>e. e\<lparr>pe_failure_count := 0\<rparr>) (get_peer p r'))
      = map_option pe_connection (map_option (\<lambda>e. e\<lparr>pe_failure_count := 0\<rparr>) (get_peer p r))"
    using assms by (simp add: sim_registry_def)
  then have "map_option pe_connection (get_peer p r') = map_option pe_connection (get_peer p r)"
    by (simp add: option.map_comp comp_def)
  then show ?thesis by (auto split: option.splits)
qed

lemma marks_keep [simp]: "rs_asked (blame p s) = rs_asked s" "rs_asked (praise p s) = rs_asked s"
  "rs_debits (blame p s) = rs_debits s" "rs_debits (praise p s) = rs_debits s"
  by (simp_all add: blame_def praise_def)

lemma sim_marks_after:
  "rs_registry s = r \<Longrightarrow> sim_registry r (rs_registry (blame p s))" "rs_registry s = r \<Longrightarrow> sim_registry r (rs_registry (praise p s))"
  using sim_marks [of s p] by auto

lemma run_unit_sim: "sim_registry (rs_registry s) (rs_registry (snd (run_work_unit E im u s)))"
  using sim_marks_after [of "s\<lparr>rs_asked := rs_asked s @ [(t_peer_id (u_target u), t_model (u_target u))]\<rparr>" "rs_registry s" "t_peer_id (u_target u)"]
  by (auto simp: run_work_unit_def Let_def split: peer_reply.split option.split)

lemma run_unit_alone:
  assumes "sim_registry r (rs_registry s)"
  shows "fst (run_work_unit E im u s) = unit_outcome E im r u"
    and "rs_asked (snd (run_work_unit E im u s)) = rs_asked s @ unit_asks E im r u"
    and "rs_debits (snd (run_work_unit E im u s)) = rs_debits s @ unit_debits E im r u"
  using sim_connected [OF assms, of "t_peer_id (u_target u)"]
  by (auto simp: unit_outcome_def unit_asks_def unit_debits_def alone_def run_work_unit_def Let_def
      split: peer_reply.split option.split)

lemma run_units_spec:
  assumes "run_units E im us s = (xs, s')" "sim_registry r (rs_registry s)"
  shows "xs = map (unit_outcome E im r) us \<and> rs_asked s' = rs_asked s @ concat (map (unit_asks E im r) us)
    \<and> rs_debits s' = rs_debits s @ concat (map (unit_debits E im r) us) \<and> sim_registry r (rs_registry s')"
  using assms
proof (induction us arbitrary: s xs)
  case (Cons u us)
  obtain x n where x: "run_work_unit E im u s = (x, n)" by fastforce
  obtain ys where ys: "run_units E im us n = (ys, s')" "xs = x # ys" using Cons.prems(1) x by (auto split: prod.splits)
  have "sim_registry r (rs_registry n)" using sim_trans [OF Cons.prems(2)] run_unit_sim [of s E im u] x by simp
  then show ?case using Cons.IH [OF ys(1)] ys(2) run_unit_alone [OF Cons.prems(2), of E im u] x by simp
qed simp

text \<open>What a unit pays, in terms of what the peer said.\<close>

definition paid_answer :: "unit_env \<Rightarrow> registry \<Rightarrow> work_unit \<Rightarrow> (pystr \<times> int \<times> int) option" where
  "paid_answer E r u =
     (if t_kind (u_target u) \<in> {''local'', ''group''} \<or> \<not> ue_ledger E
       \<or> (case get_peer (t_peer_id (u_target u)) r of None \<Rightarrow> True | Some e \<Rightarrow> pe_connection e = None)
       \<or> ue_debit E (t_peer_id (u_target u)) \<noteq> None then None
      else (case ue_peer E (t_peer_id (u_target u)) u of Reply_answer text p c \<Rightarrow> Some (text, p, c) | _ \<Rightarrow> None))"

lemma unit_debits_eq:
  "unit_debits E im r u = (case paid_answer E r u of None \<Rightarrow> [] | Some (text, p, c) \<Rightarrow> [(debit_cost c, t_peer_id (u_target u))])"
  by (auto simp: unit_debits_def alone_def run_work_unit_def paid_answer_def Let_def split: peer_reply.split option.split)

lemma paid_outcome:
  "paid_answer E r u = Some (text, p, c) \<Longrightarrow> unit_outcome E im r u
     = Returned (Some ((base_result u 0)\<lparr>r_text := text, r_prompt_tokens := p, r_completion_tokens := c\<rparr>))"
  by (auto simp: unit_outcome_def alone_def run_work_unit_def paid_answer_def Let_def split: peer_reply.splits option.splits if_splits)

text \<open>
  The units of a job do not disturb one another. Whatever units a node runs, one after another, each
  has the outcome it would have had alone on the registry they started from, so running them in another
  order changes no outcome; the requests sent and the debits made are those of the single units in turn;
  and a unit is debited exactly where a connected peer answered it and the ledger took the debit, for the
  tokens its result reports.
\<close>

theorem units_are_independent:
  assumes "run_units E im us s = (xs, s')"
  shows "xs = map (unit_outcome E im (rs_registry s)) us
    \<and> rs_asked s' = rs_asked s @ concat (map (unit_asks E im (rs_registry s)) us)
    \<and> rs_debits s' = rs_debits s @ concat (map (unit_debits E im (rs_registry s)) us)
    \<and> (\<forall>u \<in> set us. case paid_answer E (rs_registry s) u of
         None \<Rightarrow> unit_debits E im (rs_registry s) u = []
       | Some (text, p, c) \<Rightarrow> unit_debits E im (rs_registry s) u = [(debit_cost c, t_peer_id (u_target u))]
           \<and> (\<exists>res. unit_outcome E im (rs_registry s) u = Returned (Some res) \<and> r_text res = text
               \<and> r_completion_tokens res = c \<and> r_error res = []))
    \<and> (\<forall>vs ys n. mset vs = mset us \<and> run_units E im vs s = (ys, n) \<longrightarrow>
         mset (zip vs ys) = mset (zip us xs) \<and> mset (rs_debits n) = mset (rs_debits s'))"
proof -
  let ?r = "rs_registry s"
  note main = run_units_spec [OF assms sim_refl]
  have each: "case paid_answer E ?r u of
         None \<Rightarrow> unit_debits E im ?r u = []
       | Some (text, p, c) \<Rightarrow> unit_debits E im ?r u = [(debit_cost c, t_peer_id (u_target u))]
           \<and> (\<exists>res. unit_outcome E im ?r u = Returned (Some res) \<and> r_text res = text
               \<and> r_completion_tokens res = c \<and> r_error res = [])" for u
    using paid_outcome [of E ?r u _ _ _ im] by (auto simp: unit_debits_eq base_result_def split: option.split)
  have zips: "zip ws (map f ws) = map (\<lambda>w. (w, f w)) ws" for f :: "work_unit \<Rightarrow> run_outcome" and ws by (induction ws) auto
  have ordered: "mset (zip vs ys) = mset (zip us xs) \<and> mset (rs_debits n) = mset (rs_debits s')"
    if "mset vs = mset us" "run_units E im vs s = (ys, n)" for vs ys n
  proof -
    note other = run_units_spec [OF that(2) sim_refl]
    have "mset (concat (map f vs)) = mset (concat (map f us))" for f :: "work_unit \<Rightarrow> (pyfloat \<times> pystr) list"
    proof -
      have "mset (map (mset \<circ> f) vs) = mset (map (mset \<circ> f) us)" using that(1) by simp
      then show ?thesis by (metis mset_concat list.map_comp sum_mset_sum_list)
    qed
    then show ?thesis using main other that(1) by (simp add: zips)
  qed
  show ?thesis using main each ordered by blast
qed

section \<open>Where the units of a job run\<close>

lemma loaded_target_kind: "t_kind (loaded_target m) = ''local'' \<longleftrightarrow> ma_backend m \<in> set LOCAL_BACKENDS"
  "t_kind (loaded_target m) = (if ma_backend m \<in> set LOCAL_BACKENDS then ''local'' else ''group'')"
  "t_model (loaded_target m) = ma_name m"
  by (simp_all add: loaded_target_def)

lemma peer_exec_target_fields [simp]: "t_kind (peer_exec_target adv c e) = ''peer''" "t_model (peer_exec_target adv c e) = c"
  "t_peer_id (peer_exec_target adv c e) = pe_peer_id e" "t_network_ids (peer_exec_target adv c e) = pe_network_ids e"
  by (simp_all add: peer_exec_target_def Let_def)

lemma passes_reach: "passes e c nets \<Longrightarrow> is_live e \<and> (nets = [] \<or> pe_network_ids e = [] \<or> shares nets (pe_network_ids e))"
  by (auto simp: passes_def split: if_splits)

lemma peers_for_model_passes: "e \<in> set (peers_for_model c nets r) \<Longrightarrow> passes e c nets"
  by (auto simp: peers_for_model_def List.map_filter_def split: option.splits if_splits)

text \<open>A target is a loaded model, local only by its backend, or a usable peer that offers the model to us.\<close>

definition placed :: "model_advert list \<Rightarrow> pystr list \<Rightarrow> registry \<Rightarrow> target \<Rightarrow> bool" where
  "placed loaded own r t \<longleftrightarrow>
     (\<exists>m \<in> set loaded. t_model t = ma_name m \<and> t_kind t = (if ma_backend m \<in> set LOCAL_BACKENDS then ''local'' else ''group''))
     \<or> t_kind t = ''peer'' \<and> (\<exists>e \<in> set (peers_for_model (t_model t) own r). pe_peer_id e = t_peer_id t
          \<and> pe_network_ids e = t_network_ids t \<and> is_live e
          \<and> (own = [] \<or> pe_network_ids e = [] \<or> shares own (pe_network_ids e)))"

lemma execution_targets_placed:
  assumes "t \<in> set (execution_targets loaded adv own r model)"
  shows "placed loaded own r t"
proof -
  consider m where "m \<in> set loaded" "t = loaded_target m"
    | c e where "e \<in> set (peers_for_model c own r)" "t = peer_exec_target adv c e"
    using assms by (auto simp: execution_targets_def)
  then show ?thesis
  proof cases
    case 1
    then show ?thesis by (auto simp: placed_def loaded_target_def)
  next
    case 2
    then show ?thesis using passes_reach [OF peers_for_model_passes [OF 2(1)]] by (auto simp: placed_def)
  qed
qed

lemma run_unit_contacts:
  "t_kind (u_target u) \<in> {''local'', ''group''} \<Longrightarrow> snd (run_work_unit E im u s) = s"
  "\<exists>qs \<in> {[], [(t_peer_id (u_target u), t_model (u_target u))]}. rs_asked (snd (run_work_unit E im u s)) = rs_asked s @ qs"
  by (auto simp: run_work_unit_def Let_def split: peer_reply.split option.split)

lemma runnable_targets:
  assumes "u \<in> runnable j p sched" "fst ` set sched \<subseteq> set (p_units p)"
  shows "u_target u \<in> u_target ` set (p_units p)"
  using assms by (auto simp: runnable_def synthesis_unit_def Let_def)


section \<open>Concrete runs\<close>

definition demo_loaded :: "pystr \<Rightarrow> pystr \<Rightarrow> model_advert" where
  "demo_loaded name backend = (hd (ad_models demo_advert))\<lparr>ma_name := name, ma_backend := backend\<rparr>"

definition demo_peer_advert :: "pystr \<Rightarrow> advert" where
  "demo_peer_advert p = demo_advert\<lparr>ad_models := [(demo_loaded ''qwen'' ''mlx'')\<lparr>ma_param_count_b := 35\<rparr>]\<rparr>"

text \<open>A busy peer of our network, and one that declares no network; two models loaded here.\<close>

definition two_peers :: registry where
  "two_peers = register ''p2'' (Some demo_conn) (Some (demo_caps ''public'')) [] None 2
     (register ''p1'' (Some (demo_conn\<lparr>cn_active_requests := 4\<rparr>)) (Some (demo_caps ''home'')) [] (Some [''net-b'']) 1
       \<lparr>rg_peers = [], rg_index = []\<rparr>)"

definition demo_exec_targets :: "target list" where
  "demo_exec_targets = execution_targets [demo_loaded ''a'' ''mlx'', demo_loaded ''b'' ''llama.cpp''] demo_peer_advert [''net-b''] two_peers []"

definition trusted_swarm :: job where
  "trusted_swarm = (demo_job SWARM_MODEL)\<lparr>j_trust := ''trusted'', j_network_ids := Some [''net-b'']\<rparr>"

definition demo_env :: unit_env where
  "demo_env = \<lparr>ue_generate = (\<lambda>name u. Gen_result ''local'' 5 9), ue_peer = (\<lambda>p u. Reply_answer ''remote'' 5 10),
     ue_ledger = True, ue_debit = (\<lambda>_. None)\<rparr>"

definition no_models :: inference where
  "no_models = \<lparr>in_backends = [], in_info = []\<rparr>"

definition demo_exec_plan :: execution_plan where
  "demo_exec_plan = the (plan_job no_match trusted_swarm demo_exec_targets False)"

lemma demo_exec_plan: "plan_job no_match trusted_swarm demo_exec_targets False = Some demo_exec_plan"
proof -
  have "plan_job no_match trusted_swarm demo_exec_targets False \<noteq> None"
    using plan_job_targets [of no_match trusted_swarm demo_exec_targets False] by auto
  then show ?thesis by (auto simp: demo_exec_plan_def)
qed

text \<open>The synthesis of the demonstration's plan is on \<open>p1\<close>.\<close>

definition demo_synthesis :: work_unit where
  "demo_synthesis = synthesis_unit (last (p_units demo_exec_plan)) trusted_swarm []"

definition demo_run_state :: route_state where
  "demo_run_state = \<lparr>rs_registry = two_peers, rs_asked = [], rs_debits = []\<rparr>"

theorem units_are_independent_witness:
  "map (\<lambda>u. unit_debits demo_env no_models two_peers u) [demo_synthesis, demo_synthesis]
     = [[(debit_cost 10, ''p1'')], [(debit_cost 10, ''p1'')]]
   \<and> rs_debits (snd (run_units demo_env no_models [demo_synthesis, demo_synthesis] demo_run_state))
     = [(debit_cost 10, ''p1''), (debit_cost 10, ''p1'')]"
proof -
  obtain xs s' where run: "run_units demo_env no_models [demo_synthesis, demo_synthesis] demo_run_state = (xs, s')" by fastforce
  have "paid_answer demo_env two_peers demo_synthesis = Some (''remote'', 5, 10) \<and> t_peer_id (u_target demo_synthesis) = ''p1''" by code_simp
  then show ?thesis using units_are_independent [OF run] run by (simp add: demo_run_state_def)
qed


section \<open>Where the code falls short of itself\<close>

text \<open>
  A streamed synthesis does not run where it was planned: the plan refused \<open>p2\<close> and chose \<open>p1\<close>, and the
  stream, routed afresh by model name, sends the question and the proposals to \<open>p2\<close>.
\<close>

lemma streamed_synthesis_escapes:
  assumes "own_network_ids n = [''net-b'']" "S demo_synthesis ''p2'' ''qwen'' = ([(''x'', None, [])], False)"
  shows "t_peer_id (u_target demo_synthesis) = ''p1''
    \<and> map fst (p_rejected demo_exec_plan) = [''peer:p2:qwen'']
    \<and> rs_asked (snd (run_work_unit_stream G S no_models None v n demo_synthesis demo_run_state)) = [(''p2'', ''qwen'')]"
proof -
  have plan: "t_model (u_target demo_synthesis) = ''qwen'' \<and> t_kind (u_target demo_synthesis) = ''peer''
    \<and> t_peer_id (u_target demo_synthesis) = ''p1'' \<and> map fst (p_rejected demo_exec_plan) = [''peer:p2:qwen'']" by code_simp
  have "map (\<lambda>t. (pt_peer_id t, pe_connection (pt_entry t) = None)) (route None ''qwen'' [''net-b''] two_peers) = [(''p2'', False)]"
    by code_simp
  then obtain t where t: "route None ''qwen'' [''net-b''] two_peers = [t]" "pt_peer_id t = ''p2''" "pe_connection (pt_entry t) \<noteq> None" by auto
  have "candidate_models v ''qwen'' = [''qwen'']" by (simp add: candidate_models_def)
  then show ?thesis using plan t assms
    by (simp add: run_work_unit_stream_def node_route_stream_def demo_run_state_def Let_def shown_def)
qed

text \<open>Answers of this process's own backends carry no tokens, so proposers here never spend a job's budget.\<close>

lemma local_tokens_uncounted:
  assumes "\<And>name u. \<exists>text p c. ue_generate E name u = Gen_result text p c"
    and "\<forall>(u, k) \<in> set sched. t_kind (u_target u) \<in> {''local'', ''group''}" and "spent < budget"
  shows "gather_loop (node_runner E im r clock) budget sched rs spent
    = (rs @ map (\<lambda>(u, k). safe_run (node_runner E im r clock) u) sched, spent, 0)"
  using assms(2)
proof (induction sched arbitrary: rs)
  case (Cons a sched)
  obtain u k where a: "a = (u, k)" by fastforce
  obtain out p c where "ue_generate E (local_name im (t_model (u_target u))) u = Gen_result out p c" using assms(1) by blast
  then have "r_completion_tokens (safe_run (node_runner E im r clock) u) = 0"
    using Cons.prems by (simp add: a safe_run_def node_runner_def unit_outcome_def alone_def run_work_unit_def run_local_unit_def base_result_def Let_def)
  then show ?case using Cons assms(3) by (simp add: a Let_def)
qed simp

text \<open>The reason a peer gives for an error is in \<open>error_message\<close>; the unit reads \<open>message\<close>.\<close>

lemma peer_reason_lost: "error_field [(''error_code'', error_value code), (''error_message'', reason)] = ''peer returned an error''"
  by (simp add: error_field_def)

text \<open>A request that raises leaves the peer's failure count as it is, where routing would count it.\<close>

lemma raising_peer_unblamed:
  assumes "ue_peer E (t_peer_id (u_target u)) u = Reply_raises e"
  shows "rs_registry (snd (run_work_unit E im u s)) = rs_registry s"
  using assms by (simp add: run_work_unit_def Let_def split: option.split)

text \<open>A debit the ledger refuses takes the answer with it: the unit is a failure, though the peer has served it.\<close>

lemma refused_debit_loses_answer:
  "fst (run_work_unit (demo_env\<lparr>ue_debit := \<lambda>_. Some ''insufficient''\<rparr>) no_models demo_synthesis demo_run_state) = Raised ''insufficient''"
proof -
  have "get_peer ''p1'' two_peers \<noteq> None \<and> (case get_peer ''p1'' two_peers of Some e \<Rightarrow> pe_connection e \<noteq> None | None \<Rightarrow> False)
    \<and> t_kind (u_target demo_synthesis) = ''peer'' \<and> t_peer_id (u_target demo_synthesis) = ''p1''" by code_simp
  then show ?thesis by (auto simp: run_work_unit_def demo_env_def demo_run_state_def Let_def split: option.splits)
qed

end
