(* ===== verification/Model_Store.thy ===== *)
theory Model_Store
  imports Memory_Estimate Model_Names Egress_Policy
begin

text \<open>
  The models a node holds (\<open>inference/manager.py\<close>): loading and unloading, eviction under memory pressure,
  the saved configurations, their restoration at start, and the counter that takes a model out of
  restoration when loading it keeps killing the process. What a backend's load ends in, the download of
  an \<open>hf:\<close> path and the files on disk are parameters. The progress figures of a load are left out.
\<close>

section \<open>State\<close>

text \<open>A backend object: what it was created as and, for a remote one, its base address, key and upstream model.\<close>

record backend =
  bk_runtime :: pystr
  bk_remote :: "(pystr \<times> pystr \<times> pystr) option"

datatype lock_kind = Mutex | Permits int

text \<open>One entry of \<open>model_configs.json\<close>; an absent key is \<open>None\<close>, or empty where the code reads it with that default.\<close>

record saved_config =
  sc_name :: pystr
  sc_backend :: pystr
  sc_ctx_len :: int
  sc_quant :: pystr
  sc_tags :: "pystr list"
  sc_tier :: pystr
  sc_params :: pyfloat
  sc_enabled :: bool
  sc_path :: pystr
  sc_max_kv :: int
  sc_draft :: "(pystr \<times> int) option"
  sc_api_base :: pystr
  sc_api_model :: pystr
  sc_api_key :: pystr
  sc_group :: pystr
  sc_deployment :: pystr

record store =
  ms_backends :: "(pystr, backend) dict"
  ms_info :: "(pystr, model_advert) dict"
  ms_locks :: "(pystr, lock_kind) dict"
  ms_queue_depth :: "(pystr, int) dict"
  ms_saved :: "(pystr, saved_config) dict"
  ms_max_kv :: "(pystr, int) dict"
  ms_last_used :: "(pystr, pyfloat) dict"
  ms_draft :: "(pystr, pystr \<times> int) dict"
  ms_quarantined :: "pystr list"
  ms_status :: "(pystr, pystr \<times> pystr) dict"
  ms_paths :: "(pystr, pystr) dict"

definition fresh_store :: store where
  "fresh_store = \<lparr>ms_backends = [], ms_info = [], ms_locks = [], ms_queue_depth = [], ms_saved = [], ms_max_kv = [],
     ms_last_used = [], ms_draft = [], ms_quarantined = [], ms_status = [], ms_paths = []\<rparr>"

text \<open>The two files: the configurations, \<open>None\<close> where missing or unreadable, and the attempt counters.\<close>

record disk =
  dk_configs :: "saved_config list option"
  dk_attempts :: "(pystr, nat) dict"

section \<open>The attempt counter\<close>

definition read_attempts :: "disk \<Rightarrow> pystr \<Rightarrow> nat" where
  "read_attempts d name = dict_get (dk_attempts d) name 0"

definition bump_attempt :: "pystr \<Rightarrow> disk \<Rightarrow> disk" where
  "bump_attempt name d = d\<lparr>dk_attempts := dict_set (dk_attempts d) name (read_attempts d name + 1)\<rparr>"

definition clear_attempt :: "pystr \<Rightarrow> disk \<Rightarrow> disk" where
  "clear_attempt name d = d\<lparr>dk_attempts := dict_pop (dk_attempts d) name\<rparr>"

section \<open>Saving\<close>

definition config_of :: "store \<Rightarrow> pystr \<Rightarrow> model_advert \<Rightarrow> saved_config" where
  "config_of s name info =
     (let remote = (case map_of (ms_backends s) name of None \<Rightarrow> None | Some b \<Rightarrow> bk_remote b)
      in \<lparr>sc_name = name, sc_backend = ma_backend info, sc_ctx_len = ma_ctx_len info, sc_quant = ma_quant info,
          sc_tags = ma_tags info, sc_tier = ma_tier info, sc_params = ma_param_count_b info, sc_enabled = True,
          sc_path = dict_get (ms_paths s) name [], sc_max_kv = dict_get (ms_max_kv s) name 0,
          sc_draft = map_of (ms_draft s) name,
          sc_api_base = (case remote of None \<Rightarrow> [] | Some (base, key, model) \<Rightarrow> base),
          sc_api_model = (case remote of None \<Rightarrow> [] | Some (base, key, model) \<Rightarrow> model),
          sc_api_key = (case remote of None \<Rightarrow> [] | Some (base, key, model) \<Rightarrow> key),
          sc_group = ma_serving_group_id info, sc_deployment = ma_deployment_id info\<rparr>)"

text \<open>\<open>writable\<close> is false where writing the file raises: what is in memory is updated all the same.\<close>

definition save_model_configs :: "bool \<Rightarrow> store \<Rightarrow> disk \<Rightarrow> store \<times> disk" where
  "save_model_configs writable s d =
     (let s' = s\<lparr>ms_saved := fold (\<lambda>(name, info) saved. dict_set saved name (config_of s name info)) (ms_info s) (ms_saved s)\<rparr>
      in (s', if writable then d\<lparr>dk_configs := Some (map snd (ms_saved s'))\<rparr> else d))"

definition remove_saved_config :: "bool \<Rightarrow> pystr \<Rightarrow> store \<Rightarrow> disk \<Rightarrow> store \<times> disk" where
  "remove_saved_config writable name s d = save_model_configs writable (s\<lparr>ms_saved := dict_pop (ms_saved s) name\<rparr>) d"

section \<open>Loading\<close>

text \<open>The keyword arguments of a load; \<open>la_num_draft\<close> and \<open>la_max_concurrent\<close> are \<open>None\<close> where absent.\<close>

record load_args =
  la_window :: window
  la_quant :: pystr
  la_draft :: pystr
  la_num_draft :: "int option"
  la_group :: pystr
  la_deployment :: pystr
  la_parallelism :: pdict
  la_max_concurrent :: "int option"
  la_api_base :: pystr
  la_api_key :: pystr
  la_api_model :: "pystr option"

datatype backend_load = Loads | Load_raises pystr | Kills

record load_env =
  le_batching :: bool
  le_is_vlm :: "pystr \<Rightarrow> bool"
  le_fetch :: "pystr \<Rightarrow> pystr + pystr"
  le_exists :: "pystr \<Rightarrow> bool"
  le_kv_aware :: bool
  le_preflight :: preflight_settings
  le_files :: "pystr \<Rightarrow> model_files"
  le_backend :: "pystr \<Rightarrow> pystr \<Rightarrow> pystr \<Rightarrow> backend_load"
  le_max_attempts :: nat
  le_writable :: bool

datatype load_end = Loaded pystr | Load_failed pystr | Killed

definition rstrip_slash :: "pystr \<Rightarrow> pystr" where
  "rstrip_slash p = rev (dropWhile (\<lambda>c. c = CHR ''/'') (rev p))"

definition path_stem :: "pystr \<Rightarrow> pystr" where
  "path_stem p =
     (let n = after_last_slash (rstrip_slash p);
          ext = takeWhile (\<lambda>c. c \<noteq> CHR ''.'') (rev n); i = length n - length ext - 1
      in if ext \<noteq> [] \<and> length ext < length n \<and> 0 < i then take i n else n)"

definition runtime_backend :: "load_env \<Rightarrow> pystr \<Rightarrow> pystr \<Rightarrow> pystr" where
  "runtime_backend E path backend_type =
     (if backend_type = ''mlx'' then
        (if path \<noteq> [] \<and> \<not> py_startswith path ''hf:'' \<and> le_is_vlm E path then ''mlx-vlm''
         else if le_batching E then ''mlx-batched'' else backend_type)
      else backend_type)"

definition REMOTE_BACKENDS :: "pystr list" where "REMOTE_BACKENDS = [''openai'', ''openai-compatible'']"

definition create_backend :: "pystr \<Rightarrow> pystr \<Rightarrow> load_args \<Rightarrow> backend option" where
  "create_backend runtime name a =
     (if runtime \<in> {''llama.cpp'', ''mlx'', ''mlx-batched'', ''mlx-vlm'', ''mlx-embeddings''}
      then Some \<lparr>bk_runtime = runtime, bk_remote = None\<rparr>
      else if runtime \<in> set REMOTE_BACKENDS
      then Some \<lparr>bk_runtime = runtime, bk_remote = Some (rstrip_slash (la_api_base a), la_api_key a,
             case la_api_model a of None \<Rightarrow> name | Some m \<Rightarrow> m)\<rparr>
      else None)"

text \<open>The window a load goes on with, or its refusal; only the newer check can change or refuse it.\<close>

definition checked_window :: "load_env \<Rightarrow> pystr \<Rightarrow> pystr \<Rightarrow> pystr \<Rightarrow> window \<Rightarrow> window option" where
  "checked_window E path backend_type runtime w =
     (if backend_type \<in> set LOCAL_BACKENDS \<and> path \<noteq> [] \<and> le_kv_aware E \<and> py_startswith runtime ''mlx'' then
        (case run_kv_preflight (le_preflight E) (le_files E path) runtime w of
           Not_handled \<Rightarrow> Some w | Handled w' \<Rightarrow> Some w' | Rejected \<Rightarrow> None)
      else Some w)"

text \<open>How the load of a path that is there ends, and the window it goes on with.\<close>

definition try_load :: "load_env \<Rightarrow> pystr \<Rightarrow> pystr \<Rightarrow> pystr \<Rightarrow> pystr \<Rightarrow> load_args \<Rightarrow> (backend \<times> window) + pystr option" where
  "try_load E path name backend_type runtime a = (case create_backend runtime name a of
     None \<Rightarrow> Inr (Some (''Unknown backend type: '' @ runtime))
   | Some b \<Rightarrow> (case checked_window E path backend_type runtime (la_window a) of
       None \<Rightarrow> Inr (Some ''Model would not fit'')
     | Some w \<Rightarrow>
         if bk_remote b \<noteq> None \<and> la_api_base a = [] then Inr (Some ''api_base is required for openai backend'')
         else (case le_backend E name runtime path of
             Kills \<Rightarrow> Inr None
           | Load_raises e \<Rightarrow> Inr (Some e)
           | Loads \<Rightarrow> Inl (b, w))))"

definition set_or_pop :: "bool \<Rightarrow> pystr \<Rightarrow> 'v \<Rightarrow> (pystr, 'v) dict \<Rightarrow> (pystr, 'v) dict" where
  "set_or_pop keep k v d = (if keep then dict_set d k v else dict_pop d k)"

definition loaded_info :: "load_env \<Rightarrow> pystr \<Rightarrow> pystr \<Rightarrow> pystr \<Rightarrow> load_args \<Rightarrow> window \<Rightarrow> model_advert" where
  "loaded_info E path name backend_type a w = \<lparr>ma_name = name, ma_quant = la_quant a,
     ma_ctx_len = window_ctx (le_preflight E) w, ma_backend = backend_type, ma_tags = [], ma_tier = [], ma_param_count_b = 0,
     ma_scope = ''home'', ma_visible_networks = [], ma_features = [], ma_throughput_tok_s = 0,
     ma_loaded_bytes = (if backend_type \<in> set LOCAL_BACKENDS \<and> path \<noteq> [] then mf_size_on_disk (le_files E path) else 0),
     ma_deployment_id = la_deployment a, ma_serving_group_id = la_group a, ma_execution_roles = [], ma_parallelism = la_parallelism a\<rparr>"

text \<open>The lock a loaded model gets; a semaphore with a negative count is refused by its constructor.\<close>

definition model_lock :: "pystr \<Rightarrow> pystr \<Rightarrow> load_args \<Rightarrow> lock_kind" where
  "model_lock backend_type runtime a =
     (if backend_type \<in> set LOCAL_BACKENDS \<and> runtime \<notin> set SELF_BATCHING_BACKENDS then Mutex
      else Permits (case la_max_concurrent a of None \<Rightarrow> 32 | Some k \<Rightarrow> k))"

fun refused_lock :: "lock_kind \<Rightarrow> bool" where
  "refused_lock Mutex = False"
| "refused_lock (Permits k) = (k < 0)"

definition add_model :: "load_env \<Rightarrow> pystr \<Rightarrow> pystr \<Rightarrow> pystr \<Rightarrow> pystr \<Rightarrow> load_args \<Rightarrow> backend \<Rightarrow> window \<Rightarrow> store \<Rightarrow> store" where
  "add_model E path name backend_type runtime a b w s =
     s\<lparr>ms_paths := (if path \<noteq> [] then dict_set (ms_paths s) name path else ms_paths s),
       ms_backends := dict_set (ms_backends s) name b,
       ms_locks := dict_set (ms_locks s) name (model_lock backend_type runtime a),
       ms_queue_depth := dict_set (ms_queue_depth s) name 0,
       ms_info := dict_set (ms_info s) name (loaded_info E path name backend_type a w),
       ms_max_kv := set_or_pop (window_bound w \<noteq> 0) name (window_bound w) (ms_max_kv s),
       ms_draft := set_or_pop (la_draft a \<noteq> []) name (la_draft a, or_int (case la_num_draft a of None \<Rightarrow> 3 | Some k \<Rightarrow> k) 3) (ms_draft s),
       ms_status := dict_set (ms_status s) name (''ready'', [])\<rparr>"

definition load_model :: "load_env \<Rightarrow> pystr \<Rightarrow> pystr option \<Rightarrow> pystr \<Rightarrow> load_args \<Rightarrow> store \<Rightarrow> disk \<Rightarrow> load_end \<times> store \<times> disk" where
  "load_model E path0 name backend_type a s d =
     (case (if py_startswith path0 ''hf:'' then le_fetch E path0 else Inr path0) of
        Inl e \<Rightarrow> (Load_failed e, s, d)
      | Inr path \<Rightarrow>
        let runtime = runtime_backend E path0 backend_type;
            model_name = (case name of Some n \<Rightarrow> or_str n (if path \<noteq> [] then path_stem path else ''remote-model'')
                          | None \<Rightarrow> if path \<noteq> [] then path_stem path else ''remote-model'')
        in if map_of (ms_backends s) model_name \<noteq> None then (Loaded model_name, s, d)
           else
             let s1 = s\<lparr>ms_status := dict_set (ms_status s) model_name (''loading'', [])\<rparr> in
             (case try_load E path model_name backend_type runtime a of
                Inr None \<Rightarrow> (Killed, s1, d)
              | Inr (Some e) \<Rightarrow> (Load_failed e, s1\<lparr>ms_status := dict_set (ms_status s1) model_name (''failed'', e)\<rparr>, d)
              | Inl (b, w) \<Rightarrow>
                  if refused_lock (model_lock backend_type runtime a) then
                    (let e = ''Semaphore initial value must be >= 0'' in
                     (Load_failed e, s1\<lparr>ms_paths := (if path \<noteq> [] then dict_set (ms_paths s1) model_name path else ms_paths s1),
                        ms_backends := dict_set (ms_backends s1) model_name b,
                        ms_status := dict_set (ms_status s1) model_name (''failed'', e)\<rparr>, d))
                  else let s2 = add_model E path model_name backend_type runtime a b w s1;
                      (s3, d3) = save_model_configs (le_writable E) s2 d
                  in if le_writable E
                     then (Loaded model_name, s3\<lparr>ms_quarantined := filter (\<lambda>n. n \<noteq> model_name) (ms_quarantined s3)\<rparr>, clear_attempt model_name d3)
                     else (Loaded model_name, s3, d3)))"

section \<open>Unloading and eviction\<close>

definition unload_model :: "bool \<Rightarrow> pystr \<Rightarrow> bool \<Rightarrow> store \<Rightarrow> disk \<Rightarrow> store \<times> disk" where
  "unload_model writable name disable s d =
     (if map_of (ms_backends s) name = None then (s, d)
      else
        let s1 = s\<lparr>ms_backends := dict_pop (ms_backends s) name, ms_info := dict_pop (ms_info s) name,
                   ms_locks := dict_pop (ms_locks s) name, ms_queue_depth := dict_pop (ms_queue_depth s) name,
                   ms_last_used := dict_pop (ms_last_used s) name\<rparr>;
            s2 = (case map_of (ms_saved s1) name of
                    Some c \<Rightarrow> if disable then s1\<lparr>ms_saved := dict_set (ms_saved s1) name (c\<lparr>sc_enabled := False\<rparr>)\<rparr> else s1
                  | None \<Rightarrow> s1)
        in save_model_configs writable s2 d)"

definition LOCAL_MEMORY_BACKENDS :: "pystr list" where
  "LOCAL_MEMORY_BACKENDS = [''llama.cpp'', ''mlx'', ''mlx-batched'', ''mlx-vlm'']"

text \<open>\<open>held\<close>: the names whose lock, of the exclusive kind, is taken. Tuples sort by time, then by name.\<close>

definition evictable :: "(pystr \<Rightarrow> bool) \<Rightarrow> pyfloat \<Rightarrow> pyfloat \<Rightarrow> store \<Rightarrow> (pyfloat \<times> pystr) list" where
  "evictable held now idle_seconds s = List.map_filter (\<lambda>(name, info).
     if ma_backend info \<notin> set LOCAL_MEMORY_BACKENDS then None
     else if dict_get (ms_queue_depth s) name 0 > 0 then None
     else if map_of (ms_locks s) name = Some Mutex \<and> held name then None
     else let last = dict_get (ms_last_used s) name 0
          in if now - last \<ge> idle_seconds then Some (last, name) else None) (ms_info s)"

fun insert_idle :: "pyfloat \<times> pystr \<Rightarrow> (pyfloat \<times> pystr) list \<Rightarrow> (pyfloat \<times> pystr) list" where
  "insert_idle x [] = [x]"
| "insert_idle x (y # ys) =
     (if fst x < fst y \<or> fst x = fst y \<and> str_less_eq (snd x) (snd y) then x # y # ys else y # insert_idle x ys)"

definition evict_idle_models :: "(pystr \<Rightarrow> bool) \<Rightarrow> bool \<Rightarrow> pyfloat \<Rightarrow> pyfloat \<Rightarrow> bool \<Rightarrow> store \<Rightarrow> disk \<Rightarrow> pystr list \<times> store \<times> disk" where
  "evict_idle_models held writable now idle_seconds keep_most_recent s d =
     (let candidates = foldr insert_idle (evictable held now idle_seconds s) [];
          victims = map snd (if keep_most_recent \<and> candidates \<noteq> [] then butlast candidates else candidates)
      in (victims, fold (\<lambda>name (s, d). unload_model writable name False s d) victims (s, d)))"

text \<open>\<open>MemoryPressureWatcher.check_once\<close>: the level seen, whether the last tick was critical, the ticks that acted.\<close>

record watcher =
  mw_evict :: bool
  mw_idle_seconds :: pyfloat
  mw_prev_critical :: bool
  mw_events :: nat

definition check_once :: "(pystr \<Rightarrow> bool) \<Rightarrow> bool \<Rightarrow> pyfloat \<Rightarrow> int \<Rightarrow> watcher \<Rightarrow> store \<Rightarrow> disk \<Rightarrow> watcher \<times> pystr list \<times> store \<times> disk" where
  "check_once held writable now level w s d =
     (if level < 2 then (w\<lparr>mw_prev_critical := False\<rparr>, [], s, d)
      else let w1 = w\<lparr>mw_events := mw_events w + 1\<rparr> in
        if level \<ge> 4 \<and> mw_evict w then
          (w1\<lparr>mw_prev_critical := True\<rparr>, evict_idle_models held writable now (mw_idle_seconds w) (\<not> mw_prev_critical w) s d)
        else (w1\<lparr>mw_prev_critical := False\<rparr>, [], s, d))"

section \<open>Restoring\<close>

text \<open>The load a configuration asks for: path, backend, arguments; \<open>None\<close> where it is passed over.\<close>

definition restore_args :: "load_env \<Rightarrow> saved_config \<Rightarrow> (pystr \<times> load_args) option" where
  "restore_args E c =
     (let w = \<lparr>wi_ctx_len = Some (sc_ctx_len c), wi_n_ctx = None, wi_max_kv_size = None\<rparr>;
          blank = \<lparr>la_window = w, la_quant = [], la_draft = [], la_num_draft = None, la_group = [], la_deployment = [],
            la_parallelism = [], la_max_concurrent = None, la_api_base = [], la_api_key = [], la_api_model = None\<rparr>
      in if sc_backend c \<in> set REMOTE_BACKENDS then
           Some ([], blank\<lparr>la_api_base := sc_api_base c, la_api_key := sc_api_key c, la_api_model := Some (sc_api_model c),
             la_group := sc_group c, la_deployment := sc_deployment c\<rparr>)
         else if sc_path c \<noteq> [] then
           (if sc_backend c \<in> {''mlx'', ''mlx-vlm'', ''mlx-embeddings''} \<or> le_exists E (sc_path c) then
              Some (sc_path c, blank\<lparr>la_window := w\<lparr>wi_max_kv_size := Some (sc_max_kv c)\<rparr>, la_quant := sc_quant c,
                la_draft := (case sc_draft c of None \<Rightarrow> [] | Some (m, k) \<Rightarrow> m),
                la_num_draft := Some (case sc_draft c of None \<Rightarrow> 3 | Some (m, k) \<Rightarrow> k)\<rparr>)
            else None)
         else None)"

datatype boot_end = Booted nat | Boot_killed

fun restore_loop :: "load_env \<Rightarrow> saved_config list \<Rightarrow> nat \<Rightarrow> store \<Rightarrow> disk \<Rightarrow> boot_end \<times> store \<times> disk" where
  "restore_loop E [] restored s d = (Booted restored, s, d)"
| "restore_loop E (c # cs) restored s d =
     (let name = sc_name c in
      if \<not> sc_enabled c then restore_loop E cs restored s d
      else if 0 < le_max_attempts E \<and> le_max_attempts E \<le> read_attempts d name then
        (let (s1, d1) = save_model_configs (le_writable E) (s\<lparr>ms_saved := dict_set (ms_saved s) name (c\<lparr>sc_enabled := False\<rparr>)\<rparr>) d
         in restore_loop E cs restored (s1\<lparr>ms_quarantined := List.insert name (ms_quarantined s1)\<rparr>) (clear_attempt name d1))
      else
        let d1 = (if 0 < le_max_attempts E then bump_attempt name d else d) in
        case restore_args E c of
          None \<Rightarrow> restore_loop E cs restored s d1
        | Some (path, a) \<Rightarrow> (case load_model E path (Some name) (sc_backend c) a s d1 of
            (Killed, s2, d2) \<Rightarrow> (Boot_killed, s2, d2)
          | (Load_failed e, s2, d2) \<Rightarrow> restore_loop E cs restored s2 d2
          | (Loaded n, s2, d2) \<Rightarrow> restore_loop E cs (restored + 1) s2 d2))"

definition restore_models :: "load_env \<Rightarrow> store \<Rightarrow> disk \<Rightarrow> boot_end \<times> store \<times> disk" where
  "restore_models E s d = (case dk_configs d of
     None \<Rightarrow> (Booted 0, s, d)
   | Some configs \<Rightarrow> restore_loop E configs 0
       (s\<lparr>ms_saved := fold (\<lambda>c saved. if sc_name c \<noteq> [] then dict_set saved (sc_name c) c else saved) configs (ms_saved s)\<rparr>) d)"


section \<open>The crash loop\<close>

lemma dict_set_keys: "k \<in> fst ` set d \<Longrightarrow> map fst (dict_set d k v) = map fst d"
  by (induction d) (auto simp: dict_set_def)

lemma fold_dict_set:
  defines "upd \<equiv> \<lambda>f L sv. fold (\<lambda>(k, i) sv. dict_set sv k (f k i)) L sv"
  shows "map_of (upd f L sv) k = map_of sv k \<and> k \<notin> fst ` set L \<or> (\<exists>i. (k, i) \<in> set L \<and> map_of (upd f L sv) k = Some (f k i))"
    and "fst ` set L \<subseteq> fst ` set sv \<Longrightarrow> map fst (upd f L sv) = map fst sv"
proof -
  show "map_of (upd f L sv) k = map_of sv k \<and> k \<notin> fst ` set L \<or> (\<exists>i. (k, i) \<in> set L \<and> map_of (upd f L sv) k = Some (f k i))"
  proof (induction L rule: rev_induct)
    case (snoc x L)
    obtain a b where x: "x = (a, b)" by fastforce
    show ?case using snoc by (cases "k = a") (auto simp: upd_def x)
  qed (simp add: upd_def)
  show "fst ` set L \<subseteq> fst ` set sv \<Longrightarrow> map fst (upd f L sv) = map fst sv"
  proof (induction L arbitrary: sv)
    case (Cons x L)
    obtain a b where x: "x = (a, b)" by fastforce
    have keys: "map fst (dict_set sv a (f a b)) = map fst sv" using Cons.prems by (intro dict_set_keys) (simp add: x)
    then have "fst ` set (dict_set sv a (f a b)) = fst ` set sv" by (metis set_map)
    then show ?case using Cons.IH [of "dict_set sv a (f a b)"] Cons.prems keys by (simp add: upd_def x)
  qed (simp add: upd_def)
qed

text \<open>What restoring a configuration comes to, whatever the store, where its model is not loaded yet.\<close>

definition attempt :: "load_env \<Rightarrow> saved_config \<Rightarrow> ((backend \<times> window) + pystr option) option" where
  "attempt E c = (case restore_args E c of
     None \<Rightarrow> None
   | Some (path, a) \<Rightarrow> Some (try_load E path (sc_name c) (sc_backend c) (runtime_backend E path (sc_backend c)) a))"

definition kills :: "load_env \<Rightarrow> saved_config \<Rightarrow> bool" where
  "kills E c \<longleftrightarrow> attempt E c = Some (Inr None)"

text \<open>A configuration whose model loads, at any context length.\<close>

definition healthy :: "load_env \<Rightarrow> saved_config \<Rightarrow> bool" where
  "healthy E c \<longleftrightarrow>
     (if sc_backend c \<in> set REMOTE_BACKENDS
      then rstrip_slash (sc_api_base c) \<noteq> [] \<and> le_backend E (sc_name c) (sc_backend c) [] = Loads
      else let runtime = runtime_backend E (sc_path c) (sc_backend c) in
        sc_path c \<noteq> [] \<and> (sc_backend c \<in> {''mlx'', ''mlx-vlm'', ''mlx-embeddings''} \<or> le_exists E (sc_path c))
        \<and> runtime \<in> {''llama.cpp'', ''mlx'', ''mlx-batched'', ''mlx-vlm'', ''mlx-embeddings''}
        \<and> (\<forall>w. checked_window E (sc_path c) (sc_backend c) runtime w \<noteq> None)
        \<and> le_backend E (sc_name c) runtime (sc_path c) = Loads)"

definition plain :: "saved_config \<Rightarrow> bool" where
  "plain c \<longleftrightarrow> sc_name c \<noteq> [] \<and> \<not> py_startswith (sc_path c) ''hf:''"

text \<open>How a saved configuration may change from one start to the next.\<close>

definition evolves :: "load_env \<Rightarrow> saved_config \<Rightarrow> saved_config \<Rightarrow> bool" where
  "evolves E c c' \<longleftrightarrow> sc_name c' = sc_name c \<and> (sc_enabled c' \<longrightarrow> sc_enabled c) \<and> (sc_enabled c' \<and> kills E c' \<longrightarrow> c' = c)
     \<and> (healthy E c \<longrightarrow> healthy E c') \<and> plain c'"

lemma runtime_kinds:
  "runtime_backend E path bt = bt \<or> bt = ''mlx'' \<and> runtime_backend E path bt \<in> {''mlx'', ''mlx-vlm'', ''mlx-batched''}"
  by (auto simp: runtime_backend_def)

lemma remote_runtime: "bt \<in> set REMOTE_BACKENDS \<Longrightarrow> runtime_backend E path bt = bt"
  by (auto simp: runtime_backend_def REMOTE_BACKENDS_def)

lemma local_runtime: "bt \<notin> set REMOTE_BACKENDS \<Longrightarrow> runtime_backend E path bt \<notin> set REMOTE_BACKENDS"
  using runtime_kinds [of E path bt] by (auto simp: REMOTE_BACKENDS_def)

lemma remote_checked: "bt \<in> set REMOTE_BACKENDS \<Longrightarrow> checked_window E path bt runtime w = Some w"
  by (auto simp: checked_window_def REMOTE_BACKENDS_def LOCAL_BACKENDS_def)

lemma healthy_attempt: "healthy E c \<Longrightarrow> \<exists>b w. attempt E c = Some (Inl (b, w))"
proof (cases "sc_backend c \<in> set REMOTE_BACKENDS")
  case True
  assume "healthy E c"
  moreover have "rstrip_slash [] = []" by (simp add: rstrip_slash_def)
  ultimately show ?thesis using True remote_runtime [OF True] remote_checked [OF True]
    by (auto simp: healthy_def attempt_def restore_args_def try_load_def create_backend_def REMOTE_BACKENDS_def Let_def)
next
  case False
  assume "healthy E c"
  then show ?thesis using False
    by (auto simp: healthy_def attempt_def restore_args_def try_load_def create_backend_def Let_def split: option.split)
qed

lemma evolves_refl: "plain c \<Longrightarrow> evolves E c c"
  by (simp add: evolves_def)

lemma attempt_enabled [simp]: "attempt E (c\<lparr>sc_enabled := x\<rparr>) = attempt E c"
  by (simp add: attempt_def restore_args_def try_load_def create_backend_def Let_def)

lemma evolves_disabled: "plain c \<Longrightarrow> sc_enabled c \<Longrightarrow> evolves E c (c\<lparr>sc_enabled := False\<rparr>)"
  by (simp add: evolves_def healthy_def plain_def Let_def)

text \<open>A loaded model is saved as a configuration that does not kill, and loads again if it was sound.\<close>

lemma loaded_evolves:
  assumes att: "attempt E c = Some (Inl (b, w))" and args: "restore_args E c = Some (path, a)" and pl: "plain c" "sc_enabled c"
    and cfg: "sc_name c' = sc_name c" "sc_backend c' = sc_backend c" "path \<noteq> [] \<longrightarrow> sc_path c' = path" 
      "path = [] \<longrightarrow> \<not> py_startswith (sc_path c') ''hf:''"
      "sc_api_base c' = (case bk_remote b of None \<Rightarrow> [] | Some (base, k, m) \<Rightarrow> base)"
  shows "evolves E c c' \<and> \<not> kills E c'"
proof (cases "sc_backend c \<in> set REMOTE_BACKENDS")
  case True
  have path: "path = []" using args True by (auto simp: restore_args_def Let_def)
  have loads: "le_backend E (sc_name c) (sc_backend c) [] = Loads"
    using att args True path remote_runtime [OF True] by (auto simp: attempt_def try_load_def split: option.splits backend_load.splits if_splits)
  then have k: "\<not> kills E c'"
    using True cfg path remote_runtime [OF True] by (auto simp: kills_def attempt_def restore_args_def try_load_def Let_def split: option.splits)
  have base: "bk_remote b = Some (rstrip_slash (la_api_base a), la_api_key a, case la_api_model a of None \<Rightarrow> sc_name c | Some m \<Rightarrow> m)"
    using att args True path remote_runtime [OF True]
    by (auto simp: attempt_def try_load_def create_backend_def REMOTE_BACKENDS_def split: option.splits backend_load.splits if_splits)
  have "la_api_base a = sc_api_base c" using args True by (auto simp: restore_args_def Let_def)
  moreover have "rstrip_slash (rstrip_slash x) = rstrip_slash x" for x by (simp add: rstrip_slash_def)
  ultimately have "healthy E c \<longrightarrow> healthy E c'" using True cfg(1,2,5) base by (simp add: healthy_def)
  then show ?thesis using k pl cfg path by (auto simp: evolves_def plain_def)
next
  case False
  have path: "path = sc_path c" "path \<noteq> []" "sc_backend c \<in> {''mlx'', ''mlx-vlm'', ''mlx-embeddings''} \<or> le_exists E path"
    using args False by (auto simp: restore_args_def Let_def split: if_splits)
  have "le_backend E (sc_name c) (runtime_backend E path (sc_backend c)) path = Loads"
    using att args by (auto simp: attempt_def try_load_def split: option.splits backend_load.splits if_splits)
  then have "\<not> kills E c'"
    using False cfg path by (auto simp: kills_def attempt_def restore_args_def try_load_def Let_def split: option.splits)
  moreover have "healthy E c \<longrightarrow> healthy E c'" using False cfg path by (simp add: healthy_def)
  ultimately show ?thesis using pl cfg path by (auto simp: evolves_def plain_def)
qed

section \<open>One start\<close>

definition saves :: "store \<Rightarrow> (pystr, saved_config) dict" where
  "saves s = fold (\<lambda>(name, info) saved. dict_set saved name (config_of s name info)) (ms_info s) (ms_saved s)"

lemma save_model_configs_eq:
  "save_model_configs True s d = (s\<lparr>ms_saved := saves s\<rparr>, d\<lparr>dk_configs := Some (map snd (saves s))\<rparr>)"
  by (simp add: save_model_configs_def saves_def Let_def)

text \<open>Restoring \<open>cs\<close> from the disk \<open>d0\<close>: the entry saved for \<open>c\<close>, before its turn has come and after.\<close>

definition row_todo :: "disk \<Rightarrow> store \<Rightarrow> disk \<Rightarrow> saved_config \<Rightarrow> saved_config \<Rightarrow> bool" where
  "row_todo d0 s d c c' \<longleftrightarrow> c' = c \<and> read_attempts d (sc_name c) = read_attempts d0 (sc_name c) \<and> map_of (ms_backends s) (sc_name c) = None"

definition row_done :: "load_env \<Rightarrow> disk \<Rightarrow> store \<Rightarrow> disk \<Rightarrow> saved_config \<Rightarrow> saved_config \<Rightarrow> bool" where
  "row_done E d0 s d c c' \<longleftrightarrow> \<not> (sc_enabled c' \<and> kills E c') \<and>
     (sc_enabled c \<and> healthy E c \<and> read_attempts d0 (sc_name c) = 0 \<longrightarrow>
        sc_enabled c' \<and> map_of (ms_backends s) (sc_name c) \<noteq> None \<and> read_attempts d (sc_name c) = 0)"

definition row_ok :: "load_env \<Rightarrow> disk \<Rightarrow> saved_config list \<Rightarrow> store \<Rightarrow> disk \<Rightarrow> saved_config \<Rightarrow> bool" where
  "row_ok E d0 todo s d c \<longleftrightarrow> (\<exists>c'. map_of (ms_saved s) (sc_name c) = Some c' \<and> evolves E c c'
     \<and> (if c \<in> set todo then row_todo d0 s d c c' else row_done E d0 s d c c'))"

definition info_ok :: "load_env \<Rightarrow> saved_config list \<Rightarrow> saved_config list \<Rightarrow> store \<Rightarrow> pystr \<times> model_advert \<Rightarrow> bool" where
  "info_ok E cs todo s x \<longleftrightarrow> (\<exists>c \<in> set cs. sc_name c = fst x \<and> c \<notin> set todo
     \<and> evolves E c (config_of s (fst x) (snd x)) \<and> \<not> kills E (config_of s (fst x) (snd x)))"

definition boot_inv :: "load_env \<Rightarrow> saved_config list \<Rightarrow> disk \<Rightarrow> saved_config list \<Rightarrow> store \<Rightarrow> disk \<Rightarrow> bool" where
  "boot_inv E cs d0 todo s d \<longleftrightarrow>
     map fst (ms_saved s) = map sc_name cs \<and> dk_configs d = Some (map snd (ms_saved s))
     \<and> (\<forall>c \<in> set cs. row_ok E d0 todo s d c) \<and> (\<forall>x \<in> set (ms_info s). info_ok E cs todo s x)
     \<and> (\<forall>c \<in> set cs. dict_get (ms_paths s) (sc_name c) [] = [] \<or> map_of (ms_backends s) (sc_name c) \<noteq> None)"

lemma load_plain:
  assumes "n \<noteq> []" "\<not> py_startswith path ''hf:''" "map_of (ms_backends s) n = None" "le_writable E" "la_max_concurrent a = None"
  shows "load_model E path (Some n) bt a s d =
    (let s1 = s\<lparr>ms_status := dict_set (ms_status s) n (''loading'', [])\<rparr>; runtime = runtime_backend E path bt in
     case try_load E path n bt runtime a of
       Inr None \<Rightarrow> (Killed, s1, d)
     | Inr (Some e) \<Rightarrow> (Load_failed e, s1\<lparr>ms_status := dict_set (ms_status s1) n (''failed'', e)\<rparr>, d)
     | Inl (b, w) \<Rightarrow> let s2 = add_model E path n bt runtime a b w s1 in
        (Loaded n, s2\<lparr>ms_saved := saves s2, ms_quarantined := filter (\<lambda>x. x \<noteq> n) (ms_quarantined s2)\<rparr>,
         clear_attempt n (d\<lparr>dk_configs := Some (map snd (saves s2))\<rparr>)))"
  using assms by (auto simp: load_model_def or_str_def Let_def save_model_configs_eq model_lock_def split: sum.split option.split)

lemma set_dict_set: "set (dict_set d k v) \<subseteq> insert (k, v) (set d)"
  unfolding dict_set_def by (induction d) auto

lemma config_of_only: 
  "ms_backends s = ms_backends t \<Longrightarrow> ms_paths s = ms_paths t \<Longrightarrow> ms_max_kv s = ms_max_kv t \<Longrightarrow> ms_draft s = ms_draft t \<Longrightarrow> config_of s n i = config_of t n i"
  by (simp add: config_of_def)

lemma config_of_add: "n' \<noteq> n \<Longrightarrow> config_of (add_model E path n bt rt a b w s) n' i = config_of s n' i"
  by (simp add: config_of_def add_model_def set_or_pop_def dict_get_def Let_def)

lemma config_of_new:
  "config_of (add_model E path n bt rt a b w s) n (loaded_info E path n bt a w) = c' \<Longrightarrow>
     sc_name c' = n \<and> sc_backend c' = bt \<and> sc_enabled c' \<and> sc_path c' = (if path \<noteq> [] then path else dict_get (ms_paths s) n [])
     \<and> sc_api_base c' = (case bk_remote b of None \<Rightarrow> [] | Some (base, k, m) \<Rightarrow> base)"
  by (auto simp: config_of_def add_model_def dict_get_def loaded_info_def Let_def)

lemma saves_rows:
  assumes "map fst (ms_saved s) = map sc_name cs" "\<forall>(n, info) \<in> set (ms_info s). \<exists>c \<in> set cs. sc_name c = n"
  shows "map fst (saves s) = map sc_name cs"
    and "map_of (saves s) n = map_of (ms_saved s) n \<or> (\<exists>info. (n, info) \<in> set (ms_info s) \<and> map_of (saves s) n = Some (config_of s n info))"
proof -
  have "fst ` set (ms_saved s) = sc_name ` set cs" using assms(1) by (metis set_map)
  then have "fst ` set (ms_info s) \<subseteq> fst ` set (ms_saved s)" using assms(2) by force
  from fold_dict_set(2) [OF this, of "config_of s"] assms(1) show "map fst (saves s) = map sc_name cs" by (simp add: saves_def)
  show "map_of (saves s) n = map_of (ms_saved s) n \<or> (\<exists>info. (n, info) \<in> set (ms_info s) \<and> map_of (saves s) n = Some (config_of s n info))"
    using fold_dict_set(1) [where f = "config_of s" and L = "ms_info s" and sv = "ms_saved s" and k = n] unfolding saves_def by blast
qed

lemma same_name: "distinct (map sc_name cs) \<Longrightarrow> c \<in> set cs \<Longrightarrow> c' \<in> set cs \<Longrightarrow> sc_name c = sc_name c' \<Longrightarrow> c = c'"
  by (auto simp: distinct_map inj_on_def)

lemma info_of:
  assumes "\<forall>x \<in> set (ms_info s). info_ok E cs todo s x" "distinct (map sc_name cs)" "(sc_name c, i) \<in> set (ms_info s)" "c \<in> set cs"
  shows "c \<notin> set todo" "evolves E c (config_of s (sc_name c) i)" "\<not> kills E (config_of s (sc_name c) i)" "sc_enabled (config_of s (sc_name c) i)"
proof -
  obtain y where y: "y \<in> set cs" "sc_name y = sc_name c" "y \<notin> set todo" "evolves E y (config_of s (sc_name c) i)"
    "\<not> kills E (config_of s (sc_name c) i)" using assms(1,3) by (auto simp: info_ok_def dest: bspec)
  have "y = c" using same_name [OF assms(2) y(1) assms(4) y(2)] .
  then show "c \<notin> set todo" "evolves E c (config_of s (sc_name c) i)" "\<not> kills E (config_of s (sc_name c) i)" using y by blast+
  show "sc_enabled (config_of s (sc_name c) i)" by (simp add: config_of_def Let_def)
qed

text \<open>The invariant moves past \<open>c\<close> where the rows of the others stay or are saved anew, and its own is as it must be.\<close>

definition saved_from :: "store \<Rightarrow> store \<Rightarrow> pystr \<Rightarrow> bool" where
  "saved_from s s' n \<longleftrightarrow> map_of (ms_saved s') n = map_of (ms_saved s) n
     \<or> (\<exists>i. (n, i) \<in> set (ms_info s) \<and> map_of (ms_saved s') n = Some (config_of s n i))"

definition untouched :: "store \<Rightarrow> disk \<Rightarrow> store \<Rightarrow> disk \<Rightarrow> pystr \<Rightarrow> bool" where
  "untouched s d s' d' n \<longleftrightarrow> read_attempts d' n = read_attempts d n \<and> map_of (ms_backends s') n = map_of (ms_backends s) n
     \<and> dict_get (ms_paths s') n [] = dict_get (ms_paths s) n []"

lemma row_other:
  assumes row: "row_ok E d0 (c # todo) s d x" and x: "x \<noteq> c" "x \<in> set cs" and src: "saved_from s s' (sc_name x)"
    and kept: "untouched s d s' d' (sc_name x)"
    and infos: "\<forall>x \<in> set (ms_info s). info_ok E cs (c # todo) s x" and names: "distinct (map sc_name cs)"
  shows "row_ok E d0 todo s' d' x"
proof -
  obtain c0 where c0: "map_of (ms_saved s) (sc_name x) = Some c0" "evolves E x c0"
    "if x \<in> set todo then row_todo d0 s d x c0 else row_done E d0 s d x c0"
    using row x(1) by (auto simp: row_ok_def)
  have same: "row_todo d0 s' d' x y = row_todo d0 s d x y" "row_done E d0 s' d' x y = row_done E d0 s d x y" for y
    using kept by (simp_all add: untouched_def row_todo_def row_done_def)
  consider "map_of (ms_saved s') (sc_name x) = map_of (ms_saved s) (sc_name x)"
    | i where "(sc_name x, i) \<in> set (ms_info s)" "map_of (ms_saved s') (sc_name x) = Some (config_of s (sc_name x) i)"
    using src by (auto simp: saved_from_def)
  then show ?thesis
  proof cases
    case 1
    then show ?thesis using c0 same unfolding row_ok_def by metis
  next
    case 2
    note i = info_of [OF infos names 2(1) x(2)]
    have "row_done E d0 s' d' x (config_of s (sc_name x) i)" using c0(3) i by (auto simp: same) (auto simp: row_done_def)
    then show ?thesis using 2(2) i(1,2) unfolding row_ok_def by auto
  qed
qed

lemma boot_step:
  assumes inv: "boot_inv E cs d0 (c # todo) s d" and names: "distinct (map sc_name cs)" and c: "c \<in> set cs" "c \<notin> set todo"
    and keys: "map fst (ms_saved s') = map sc_name cs" "dk_configs d' = Some (map snd (ms_saved s'))"
    and rows: "\<And>n. n \<noteq> sc_name c \<Longrightarrow> saved_from s s' n \<and> untouched s d s' d' n"
    and own: "map_of (ms_saved s') (sc_name c) = Some c'" "evolves E c c'" "row_done E d0 s' d' c c'"
    and infos: "\<And>n i. (n, i) \<in> set (ms_info s') \<Longrightarrow> (n, i) \<in> set (ms_info s) \<and> config_of s' n i = config_of s n i
        \<or> n = sc_name c \<and> evolves E c (config_of s' n i) \<and> \<not> kills E (config_of s' n i)"
    and path: "dict_get (ms_paths s') (sc_name c) [] = [] \<or> map_of (ms_backends s') (sc_name c) \<noteq> None"
  shows "boot_inv E cs d0 todo s' d'"
proof -
  have inf: "\<forall>x \<in> set (ms_info s). info_ok E cs (c # todo) s x" using inv by (simp add: boot_inv_def)
  have apart: "sc_name x \<noteq> sc_name c" if "x \<in> set cs" "x \<noteq> c" for x using same_name [OF names that(1) c(1)] that(2) by blast
  have "row_ok E d0 todo s' d' x" if x: "x \<in> set cs" for x
  proof (cases "x = c")
    case True
    then show ?thesis using own c(2) unfolding row_ok_def by auto
  next
    case False
    have row: "row_ok E d0 (c # todo) s d x" using inv x by (simp add: boot_inv_def)
    show ?thesis using row_other [OF row False x _ _ inf names] rows [OF apart [OF x False]] by blast
  qed
  moreover have "info_ok E cs todo s' (n, i)" if "(n, i) \<in> set (ms_info s')" for n i
    using infos [OF that] inf c by (fastforce simp: info_ok_def)
  moreover have "dict_get (ms_paths s') (sc_name x) [] = [] \<or> map_of (ms_backends s') (sc_name x) \<noteq> None" if x: "x \<in> set cs" for x
  proof (cases "x = c")
    case False
    have "dict_get (ms_paths s) (sc_name x) [] = [] \<or> map_of (ms_backends s) (sc_name x) \<noteq> None" using inv x by (simp add: boot_inv_def)
    then show ?thesis using rows [OF apart [OF x False]] by (simp add: untouched_def)
  qed (use path in simp)
  ultimately show ?thesis using keys unfolding boot_inv_def by auto
qed

lemma read_attempts_simps [simp]:
  "read_attempts (bump_attempt m d) n = (if n = m then read_attempts d n + 1 else read_attempts d n)"
  "read_attempts (clear_attempt m d) n = (if n = m then 0 else read_attempts d n)"
  "read_attempts (d\<lparr>dk_configs := x\<rparr>) n = read_attempts d n"
  "dk_configs (bump_attempt m d) = dk_configs d" "dk_configs (clear_attempt m d) = dk_configs d"
  by (simp_all add: read_attempts_def bump_attempt_def clear_attempt_def dict_get_def)

lemma boot_inv_todo:
  assumes "boot_inv E cs d0 (c # todo) s d" "c \<in> set cs"
  shows "map_of (ms_saved s) (sc_name c) = Some c" "read_attempts d (sc_name c) = read_attempts d0 (sc_name c)"
    "map_of (ms_backends s) (sc_name c) = None" "dict_get (ms_paths s) (sc_name c) [] = []"
    "map fst (ms_saved s) = map sc_name cs" "dk_configs d = Some (map snd (ms_saved s))"
    "\<forall>x \<in> set (ms_info s). info_ok E cs (c # todo) s x"
  using assms by (auto simp: boot_inv_def row_ok_def row_todo_def dest!: bspec [of _ _ c])

lemma info_names:
  assumes "\<forall>x \<in> set (ms_info s). info_ok E cs todo s x"
  shows "\<forall>(n, info) \<in> set (ms_info s). \<exists>c \<in> set cs. sc_name c = n"
proof clarify
  fix n i assume "(n, i) \<in> set (ms_info s)"
  then have "info_ok E cs todo s (n, i)" using assms by blast
  then show "\<exists>c \<in> set cs. sc_name c = n" by (auto simp: info_ok_def)
qed

text \<open>Passed over, with nothing saved: the configuration is disabled, not loadable, or its load fails.\<close>

lemma boot_pass:
  assumes inv: "boot_inv E cs d0 (c # todo) s d" and names: "distinct (map sc_name cs)" and c: "c \<in> set cs" "c \<notin> set todo" "plain c"
    and not: "\<not> sc_enabled c \<or> \<not> kills E c \<and> \<not> healthy E c"
    and d': "dk_configs d' = dk_configs d" "\<forall>n. n \<noteq> sc_name c \<longrightarrow> read_attempts d' n = read_attempts d n"
  shows "boot_inv E cs d0 todo (s\<lparr>ms_status := x\<rparr>) d'"
proof (rule boot_step [OF inv names c(1,2), where c' = c])
  note old = boot_inv_todo [OF inv c(1)]
  show "map_of (ms_saved (s\<lparr>ms_status := x\<rparr>)) (sc_name c) = Some c" using old by simp
  show "row_done E d0 (s\<lparr>ms_status := x\<rparr>) d' c c" using not by (auto simp: row_done_def)
qed (use boot_inv_todo [OF inv c(1)] d' c(3) in \<open>simp_all add: evolves_refl saved_from_def untouched_def config_of_def\<close>)

lemma boot_quarantine:
  assumes inv: "boot_inv E cs d0 (c # todo) s d" and names: "distinct (map sc_name cs)" and c: "c \<in> set cs" "c \<notin> set todo" "plain c" "sc_enabled c"
    and tried: "read_attempts d (sc_name c) \<noteq> 0"
  defines "s1 \<equiv> s\<lparr>ms_saved := dict_set (ms_saved s) (sc_name c) (c\<lparr>sc_enabled := False\<rparr>)\<rparr>"
  shows "boot_inv E cs d0 todo (s1\<lparr>ms_saved := saves s1, ms_quarantined := q\<rparr>)
    (clear_attempt (sc_name c) (d\<lparr>dk_configs := Some (map snd (saves s1))\<rparr>))"
proof -
  note old = boot_inv_todo [OF inv c(1)]
  have keys: "map fst (ms_saved s1) = map sc_name cs"
    using old(1,5) by (auto simp: s1_def intro!: dict_set_keys [THEN trans] dest: map_of_SomeD) (force dest: map_of_SomeD)
  have infos: "\<forall>(n, info) \<in> set (ms_info s1). \<exists>c \<in> set cs. sc_name c = n" using info_names [OF old(7)] by (simp add: s1_def)
  note rows = saves_rows [OF keys infos]
  have own: "map_of (saves s1) (sc_name c) = Some (c\<lparr>sc_enabled := False\<rparr>)"
    using rows(2) [of "sc_name c"] info_of(1) [OF old(7) names _ c(1)] by (auto simp: s1_def)
  show ?thesis
  proof (rule boot_step [OF inv names c(1,2), where c' = "c\<lparr>sc_enabled := False\<rparr>"])
    show "row_done E d0 (s1\<lparr>ms_saved := saves s1, ms_quarantined := q\<rparr>)
      (clear_attempt (sc_name c) (d\<lparr>dk_configs := Some (map snd (saves s1))\<rparr>)) c (c\<lparr>sc_enabled := False\<rparr>)"
      using tried old(2) by (simp add: row_done_def)
    show "saved_from s (s1\<lparr>ms_saved := saves s1, ms_quarantined := q\<rparr>) n \<and> untouched s d (s1\<lparr>ms_saved := saves s1, ms_quarantined := q\<rparr>)
      (clear_attempt (sc_name c) (d\<lparr>dk_configs := Some (map snd (saves s1))\<rparr>)) n" if "n \<noteq> sc_name c" for n
      using rows(2) [of n] that by (auto simp: saved_from_def untouched_def s1_def config_of_def)
  qed (use rows(1) own evolves_disabled [OF c(3,4)] old(4) in \<open>auto simp: s1_def config_of_def\<close>)
qed

lemma boot_loaded:
  fixes x :: "(pystr, pystr \<times> pystr) dict" and runtime :: pystr and q :: "pystr list"
  assumes inv: "boot_inv E cs d0 (c # todo) s d" and names: "distinct (map sc_name cs)" and c: "c \<in> set cs" "c \<notin> set todo" "plain c" "sc_enabled c"
    and args: "restore_args E c = Some (path, a)" and att: "attempt E c = Some (Inl (b, w))"
    and d1: "dk_configs d1 = dk_configs d" "\<forall>n. n \<noteq> sc_name c \<longrightarrow> read_attempts d1 n = read_attempts d n"
  defines "s2 \<equiv> add_model E path (sc_name c) (sc_backend c) runtime a b w (s\<lparr>ms_status := x\<rparr>)"
  shows "boot_inv E cs d0 todo (s2\<lparr>ms_saved := saves s2, ms_quarantined := q\<rparr>)
    (clear_attempt (sc_name c) (d1\<lparr>dk_configs := Some (map snd (saves s2))\<rparr>))"
proof -
  let ?n = "sc_name c" and ?i = "loaded_info E path (sc_name c) (sc_backend c) a w"
  note old = boot_inv_todo [OF inv c(1)]
  have info2: "set (ms_info s2) \<subseteq> insert (?n, ?i) (set (ms_info s))" using set_dict_set by (simp add: s2_def add_model_def)
  have keep: "config_of s2 n i = config_of s n i" if "n \<noteq> ?n" for n i
    using that by (simp add: s2_def config_of_add) (simp add: config_of_def)
  have own_info: "evolves E c (config_of s2 ?n ?i) \<and> \<not> kills E (config_of s2 ?n ?i) \<and> sc_enabled (config_of s2 ?n ?i)"
  proof -
    note f = config_of_new [where s = "s\<lparr>ms_status := x\<rparr>" and n = ?n and path = path and b = b and bt = "sc_backend c" and E = E and a = a and w = w
        and rt = runtime, OF refl, folded s2_def]
    define cc where "cc = config_of s2 ?n ?i"
    note g = f [folded cc_def]
    have "path = [] \<longrightarrow> \<not> py_startswith (sc_path cc) ''hf:''" using g old(4) by simp
    then have "evolves E c cc \<and> \<not> kills E cc" using g by (intro loaded_evolves [OF att args c(3,4)]) simp_all
    then show ?thesis using g by (simp add: cc_def)
  qed
  have fresh: "(?n, i) \<notin> set (ms_info s)" for i using info_of(1) [OF old(7) names _ c(1)] by auto
  have keys: "map fst (ms_saved s2) = map sc_name cs" using old(5) by (simp add: s2_def add_model_def)
  have "\<forall>(n, info) \<in> set (ms_info s2). \<exists>c \<in> set cs. sc_name c = n" using info_names [OF old(7)] info2 c(1) by blast
  note rows = saves_rows [OF keys this]
  have "(?n, i) \<in> set (ms_info s2) \<Longrightarrow> i = ?i" for i using info2 fresh by auto
  moreover have "(?n, ?i) \<in> set (ms_info s2)" by (rule map_of_SomeD) (simp add: s2_def add_model_def)
  moreover have "?n \<in> fst ` set (ms_info s2)" using calculation(2) by force
  ultimately have own: "map_of (saves s2) ?n = Some (config_of s2 ?n ?i)"
    using fold_dict_set(1) [where f = "config_of s2" and L = "ms_info s2" and sv = "ms_saved s2" and k = ?n]
    unfolding saves_def by blast
  show ?thesis
  proof (rule boot_step [OF inv names c(1,2), where c' = "config_of s2 ?n ?i"])
    show "saved_from s (s2\<lparr>ms_saved := saves s2, ms_quarantined := q\<rparr>) n \<and> untouched s d (s2\<lparr>ms_saved := saves s2, ms_quarantined := q\<rparr>)
      (clear_attempt ?n (d1\<lparr>dk_configs := Some (map snd (saves s2))\<rparr>)) n" if n: "n \<noteq> ?n" for n
    proof -
      have "map_of (saves s2) n = map_of (ms_saved s) n \<or> (\<exists>i. (n, i) \<in> set (ms_info s) \<and> map_of (saves s2) n = Some (config_of s n i))"
        using rows(2) [of n] info2 n keep [OF n] by (auto simp: s2_def add_model_def) 
      then show ?thesis using n d1(2) by (simp add: saved_from_def untouched_def s2_def add_model_def dict_get_def)
    qed
    show "(n, i) \<in> set (ms_info s) \<and> config_of (s2\<lparr>ms_saved := saves s2, ms_quarantined := q\<rparr>) n i = config_of s n i
        \<or> n = ?n \<and> evolves E c (config_of (s2\<lparr>ms_saved := saves s2, ms_quarantined := q\<rparr>) n i)
          \<and> \<not> kills E (config_of (s2\<lparr>ms_saved := saves s2, ms_quarantined := q\<rparr>) n i)"
      if "(n, i) \<in> set (ms_info (s2\<lparr>ms_saved := saves s2, ms_quarantined := q\<rparr>))" for n i
    proof -
      have same: "config_of (s2\<lparr>ms_saved := saves s2, ms_quarantined := q\<rparr>) m j = config_of s2 m j" for m j by (simp add: config_of_def)
      have "(n, i) = (?n, ?i) \<or> (n, i) \<in> set (ms_info s)" using that info2 by auto
      then show ?thesis using keep fresh own_info by (cases "n = ?n") (auto simp: same)
    qed
    show "row_done E d0 (s2\<lparr>ms_saved := saves s2, ms_quarantined := q\<rparr>) (clear_attempt ?n (d1\<lparr>dk_configs := Some (map snd (saves s2))\<rparr>)) c (config_of s2 ?n ?i)"
      using own_info by (simp add: row_done_def s2_def add_model_def)
  qed (use rows(1) own own_info in \<open>simp_all add: s2_def add_model_def\<close>)
qed

lemma restore_plain: "plain c \<Longrightarrow> restore_args E c = Some (path, a) \<Longrightarrow> \<not> py_startswith path ''hf:''"
  by (auto simp: plain_def restore_args_def Let_def split: if_splits)

lemma restore_unbounded: "restore_args E c = Some (path, a) \<Longrightarrow> la_max_concurrent a = None"
  by (auto simp: restore_args_def Let_def split: if_splits)

lemma restore_loop_spec:
  assumes names: "distinct (map sc_name cs)" and all_plain: "\<forall>c \<in> set cs. plain c" and E: "le_writable E" "0 < le_max_attempts E"
  shows "restore_loop E todo k s d = (r, s', d') \<Longrightarrow> boot_inv E cs d0 todo s d \<Longrightarrow> set todo \<subseteq> set cs \<Longrightarrow> distinct todo \<Longrightarrow>
    (case r of Booted _ \<Rightarrow> boot_inv E cs d0 [] s' d'
     | Boot_killed \<Rightarrow> \<exists>c rest t e. c \<in> set cs \<and> sc_enabled c \<and> kills E c \<and> read_attempts d0 (sc_name c) < le_max_attempts E
         \<and> boot_inv E cs d0 (c # rest) t e \<and> d' = bump_attempt (sc_name c) e)"
proof (induction todo arbitrary: k s d)
  case Nil
  then show ?case by auto
next
  case (Cons c todo)
  have c: "c \<in> set cs" "c \<notin> set todo" "plain c" using Cons.prems all_plain by auto
  note go = Cons.IH and old = boot_inv_todo [OF Cons.prems(2) c(1)]
  have rest: "set todo \<subseteq> set cs" "distinct todo" using Cons.prems by auto
  let ?n = "sc_name c" and ?d1 = "bump_attempt (sc_name c) d"
  have n: "?n \<noteq> []" using c(3) by (simp add: plain_def)
  have bumped: "dk_configs ?d1 = dk_configs d" "\<forall>n. n \<noteq> ?n \<longrightarrow> read_attempts ?d1 n = read_attempts d n" by simp_all
  have pass: "boot_inv E cs d0 todo (s\<lparr>ms_status := x\<rparr>) ?d1" if "\<not> kills E c \<and> \<not> healthy E c" for x
    using boot_pass [OF Cons.prems(2) names c _ bumped] that by blast
  show ?case
  proof (cases "sc_enabled c")
    case False
    have "boot_inv E cs d0 todo (s\<lparr>ms_status := ms_status s\<rparr>) d" by (rule boot_pass [OF Cons.prems(2) names c]) (use False in simp_all)
    then show ?thesis using go [of k s d] Cons.prems(1) False rest by simp
  next
    case on: True
    show ?thesis
    proof (cases "le_max_attempts E \<le> read_attempts d ?n")
      case True
      define s1 where "s1 = s\<lparr>ms_saved := dict_set (ms_saved s) ?n (c\<lparr>sc_enabled := False\<rparr>)\<rparr>"
      have tried: "read_attempts d ?n \<noteq> 0" using True E(2) by simp
      note q = boot_quarantine [OF Cons.prems(2) names c on tried, folded s1_def]
      show ?thesis using Cons.prems(1) on True E go [OF _ q rest] by (simp add: Let_def save_model_configs_eq s1_def [symmetric])
    next
      case few: False
      show ?thesis
      proof (cases "restore_args E c")
        case None
        then have "\<not> kills E c \<and> \<not> healthy E c" using healthy_attempt [of E c] by (auto simp: kills_def attempt_def)
        from pass [OF this, of "ms_status s"] show ?thesis
          using go [of k s ?d1] Cons.prems(1) on few E None rest by simp
      next
        case (Some pa)
        obtain path a where pa: "restore_args E c = Some (path, a)" using Some by (cases pa) auto
        note load = load_plain [OF n restore_plain [OF c(3) pa] old(3) E(1) restore_unbounded [OF pa], of "sc_backend c" ?d1]
        have att: "attempt E c = Some (try_load E path ?n (sc_backend c) (runtime_backend E path (sc_backend c)) a)" by (simp add: attempt_def pa)
        have run: "restore_loop E (c # todo) k s d = (case load_model E path (Some ?n) (sc_backend c) a s ?d1 of
            (Killed, s2, d2) \<Rightarrow> (Boot_killed, s2, d2)
          | (Load_failed e, s2, d2) \<Rightarrow> restore_loop E todo k s2 d2
          | (Loaded n, s2, d2) \<Rightarrow> restore_loop E todo (k + 1) s2 d2)" using on few E pa by (simp add: Let_def)
        show ?thesis
        proof (cases "try_load E path ?n (sc_backend c) (runtime_backend E path (sc_backend c)) a")
          case (Inr e)
          show ?thesis
          proof (cases e)
            case None
            then have "kills E c" using att Inr by (simp add: kills_def)
            moreover have "r = Boot_killed \<and> d' = ?d1" using Cons.prems(1) Inr None unfolding run load by (simp add: Let_def)
            moreover have "read_attempts d0 ?n < le_max_attempts E" using few old(2) by simp
            ultimately show ?thesis using c(1) on Cons.prems(2)
              by (auto intro!: exI [of _ c] exI [of _ todo] exI [of _ s] exI [of _ d])
          next
            case (Some msg)
            have "\<not> kills E c \<and> \<not> healthy E c" using healthy_attempt [of E c] att Inr Some by (auto simp: kills_def)
            note p = pass [OF this]
            show ?thesis using Cons.prems(1) Inr Some p rest unfolding run load by (auto simp: Let_def intro!: go)
          qed
        next
          case (Inl bw)
          obtain b w where bw: "bw = (b, w)" by fastforce
          have at: "attempt E c = Some (Inl (b, w))" using att Inl bw by simp
          note p = boot_loaded [OF Cons.prems(2) names c on pa at bumped]
          show ?thesis using Cons.prems(1) Inl bw p rest unfolding run load by (auto simp: Let_def intro!: go)
        qed
      qed
    qed
  qed
qed

end
