(* ===== verification/Model_Restart.thy ===== *)
theory Model_Restart
  imports Model_Store
begin

text \<open>
  Properties of \<open>Model_Store\<close> over whole starts: a sequence of starts in which loading may kill the process,
  what a restart keeps of a model, and eviction; with examples.
\<close>

section \<open>Start after start\<close>

definition boot :: "load_env \<Rightarrow> disk \<Rightarrow> boot_end \<times> store \<times> disk" where
  "boot E d = restore_models E fresh_store d"

text \<open>The disk before start \<open>i\<close>; every start runs to its end or to the death of the process.\<close>

definition disk_at :: "load_env \<Rightarrow> disk \<Rightarrow> nat \<Rightarrow> disk" where
  "disk_at E d i = ((\<lambda>d. snd (snd (boot E d))) ^^ i) d"

definition sound_disk :: "disk \<Rightarrow> bool" where
  "sound_disk d \<longleftrightarrow> (\<exists>cs. dk_configs d = Some cs \<and> distinct (map sc_name cs) \<and> (\<forall>c \<in> set cs. plain c))"

definition configs_on :: "disk \<Rightarrow> saved_config list" where
  "configs_on d = (case dk_configs d of None \<Rightarrow> [] | Some cs \<Rightarrow> cs)"

definition danger :: "load_env \<Rightarrow> disk \<Rightarrow> nat" where
  "danger E d = sum_list (map (\<lambda>c. if sc_enabled c \<and> kills E c then le_max_attempts E - read_attempts d (sc_name c) else 0) (configs_on d))"

lemma dict_set_new: "k \<notin> fst ` set d \<Longrightarrow> dict_set d k v = d @ [(k, v)]"
  unfolding dict_set_def by (induction d) auto

lemma initial_saved:
  "distinct (map sc_name cs) \<Longrightarrow> \<forall>c \<in> set cs. plain c \<Longrightarrow> fst ` set sv \<inter> sc_name ` set cs = {} \<Longrightarrow>
   fold (\<lambda>c saved. if sc_name c \<noteq> [] then dict_set saved (sc_name c) c else saved) cs sv = sv @ map (\<lambda>c. (sc_name c, c)) cs"
proof (induction cs arbitrary: sv)
  case (Cons c cs)
  have "sc_name c \<noteq> []" "sc_name c \<notin> fst ` set sv" using Cons.prems by (auto simp: plain_def)
  moreover have "fst ` set (sv @ [(sc_name c, c)]) \<inter> sc_name ` set cs = {}" using Cons.prems by auto
  ultimately show ?case using Cons.IH [of "sv @ [(sc_name c, c)]"] Cons.prems by (simp add: dict_set_new)
qed simp

lemma boot_start:
  assumes "dk_configs d = Some cs" "distinct (map sc_name cs)" "\<forall>c \<in> set cs. plain c"
  shows "boot E d = restore_loop E cs 0 (fresh_store\<lparr>ms_saved := map (\<lambda>c. (sc_name c, c)) cs\<rparr>) d"
    and "boot_inv E cs d cs (fresh_store\<lparr>ms_saved := map (\<lambda>c. (sc_name c, c)) cs\<rparr>) d"
proof -
  show "boot E d = restore_loop E cs 0 (fresh_store\<lparr>ms_saved := map (\<lambda>c. (sc_name c, c)) cs\<rparr>) d"
    using assms initial_saved [of cs "[]"] by (simp add: boot_def restore_models_def fresh_store_def)
  have "map_of (map (\<lambda>c. (sc_name c, c)) cs) (sc_name c) = Some c" if "c \<in> set cs" for c
    using that assms(2) by (intro map_of_is_SomeI) (auto simp: comp_def)
  then show "boot_inv E cs d cs (fresh_store\<lparr>ms_saved := map (\<lambda>c. (sc_name c, c)) cs\<rparr>) d"
    using assms by (auto simp: boot_inv_def row_ok_def row_todo_def fresh_store_def comp_def evolves_refl dict_get_def)
qed

lemma saved_rows_list:
  assumes "map fst sv = map sc_name cs" "distinct (map sc_name cs)"
  shows "map snd sv = map (\<lambda>c. the (map_of sv (sc_name c))) cs"
proof -
  have d: "distinct (map fst sv)" using assms by simp
  have "map snd sv = map (\<lambda>p. the (map_of sv (fst p))) sv"
    by (intro map_cong refl) (metis d map_of_is_SomeI option.sel prod.collapse)
  also have "\<dots> = map (\<lambda>k. the (map_of sv k)) (map fst sv)" by simp
  also have "\<dots> = map (\<lambda>c. the (map_of sv (sc_name c))) cs" unfolding assms(1) by simp
  finally show ?thesis .
qed

text \<open>The files a start leaves, whichever way it ends.\<close>

lemma boot_leaves:
  assumes inv: "boot_inv E cs d0 todo s d" and names: "distinct (map sc_name cs)"
  defines "row \<equiv> \<lambda>c. the (map_of (ms_saved s) (sc_name c))"
  shows "dk_configs d = Some (map row cs)" "\<And>c. c \<in> set cs \<Longrightarrow> evolves E c (row c)"
    "\<And>c. c \<in> set cs \<Longrightarrow> (if c \<in> set todo then row_todo d0 s d c (row c) else row_done E d0 s d c (row c))"
    "distinct (map sc_name (map row cs))" "\<forall>c \<in> set (map row cs). plain c" "\<And>c. c \<in> set cs \<Longrightarrow> sc_name (row c) = sc_name c"
proof -
  have rows: "evolves E c (row c) \<and> (if c \<in> set todo then row_todo d0 s d c (row c) else row_done E d0 s d c (row c))" if c: "c \<in> set cs" for c
  proof -
    have "row_ok E d0 todo s d c" using inv c by (simp add: boot_inv_def)
    then obtain c' where "map_of (ms_saved s) (sc_name c) = Some c'" "evolves E c c'"
      "if c \<in> set todo then row_todo d0 s d c c' else row_done E d0 s d c c'" unfolding row_ok_def by blast
    then show ?thesis by (simp add: row_def)
  qed
  show "dk_configs d = Some (map row cs)"
    using inv saved_rows_list [OF _ names, of "ms_saved s"] by (simp add: boot_inv_def row_def)
  show ev: "\<And>c. c \<in> set cs \<Longrightarrow> evolves E c (row c)" using rows by blast
  show "\<And>c. c \<in> set cs \<Longrightarrow> (if c \<in> set todo then row_todo d0 s d c (row c) else row_done E d0 s d c (row c))" using rows by blast
  show nm: "\<And>c. c \<in> set cs \<Longrightarrow> sc_name (row c) = sc_name c" using ev by (simp add: evolves_def)
  have "map sc_name (map row cs) = map sc_name cs" using nm by simp
  then show "distinct (map sc_name (map row cs))" by (simp only: names)
  show "\<forall>c \<in> set (map row cs). plain c" using ev by (auto simp: evolves_def)
qed

definition thrives :: "load_env \<Rightarrow> disk \<Rightarrow> pystr \<Rightarrow> bool" where
  "thrives E d n \<longleftrightarrow> read_attempts d n = 0 \<and> (\<exists>c \<in> set (configs_on d). sc_name c = n \<and> sc_enabled c \<and> healthy E c)"

lemma sum_list_strict:
  fixes f g :: "'a \<Rightarrow> nat"
  assumes "\<And>x. x \<in> set xs \<Longrightarrow> f x \<le> g x" "y \<in> set xs" "f y < g y"
  shows "sum_list (map f xs) < sum_list (map g xs)"
proof -
  obtain as bs where xs: "xs = as @ y # bs" using assms(2) by (meson split_list)
  have "sum_list (map f as) \<le> sum_list (map g as)" "sum_list (map f bs) \<le> sum_list (map g bs)"
    using assms(1) by (auto simp: xs intro!: sum_list_mono)
  then show ?thesis using assms(3) by (simp add: xs)
qed

lemma completed_start:
  assumes inv: "boot_inv E cs d [] s' d'" and cs: "dk_configs d = Some cs" "distinct (map sc_name cs)"
  shows "sound_disk d'" "danger E d' = 0" "thrives E d n \<Longrightarrow> thrives E d' n \<and> map_of (ms_backends s') n \<noteq> None"
proof -
  note l = boot_leaves [OF inv cs(2)]
  show "sound_disk d'" using l(1,4,5) unfolding sound_disk_def by blast
  have "\<not> (sc_enabled x \<and> kills E x)" if x: "x \<in> set (configs_on d')" for x
    using x l(1,3) by (auto simp: configs_on_def row_done_def)
  then show "danger E d' = 0" unfolding danger_def by (auto simp: sum_list_eq_0_iff)
  assume "thrives E d n"
  then obtain c where c: "c \<in> set cs" "sc_name c = n" "sc_enabled c" "healthy E c" "read_attempts d n = 0"
    by (auto simp: thrives_def configs_on_def cs(1))
  let ?r = "the (map_of (ms_saved s') (sc_name c))"
  have "row_done E d s' d' c ?r" using l(3) [OF c(1)] by simp
  moreover have "healthy E ?r" "sc_name ?r = n" using l(2) [OF c(1)] c(2,4) by (auto simp: evolves_def)
  moreover have "?r \<in> set (configs_on d')" using l(1) c(1) by (simp add: configs_on_def)
  ultimately show "thrives E d' n \<and> map_of (ms_backends s') n \<noteq> None"
    using c(1,3-5) unfolding row_done_def thrives_def c(2) [symmetric] by blast
qed

lemma killed_start:
  assumes inv: "boot_inv E cs d (c # rest) s e" and cs: "dk_configs d = Some cs" "distinct (map sc_name cs)"
    and c: "c \<in> set cs" "sc_enabled c" "kills E c" "read_attempts d (sc_name c) < le_max_attempts E"
  defines "d' \<equiv> bump_attempt (sc_name c) e"
  shows "sound_disk d'" "danger E d' < danger E d" "thrives E d n \<Longrightarrow> thrives E d' n"
proof -
  note l = boot_leaves [OF inv cs(2)]
  let ?row = "\<lambda>c. the (map_of (ms_saved s) (sc_name c))"
  have on: "dk_configs d' = Some (map ?row cs)" using l(1) by (simp add: d'_def)
  then show "sound_disk d'" using l(4,5) unfolding sound_disk_def by blast
  let ?g = "\<lambda>c. if sc_enabled c \<and> kills E c then le_max_attempts E - read_attempts d (sc_name c) else 0"
  let ?f = "\<lambda>c. if sc_enabled (?row c) \<and> kills E (?row c) then le_max_attempts E - read_attempts d' (sc_name (?row c)) else 0"
  have self: "?row c = c" "read_attempts e (sc_name c) = read_attempts d (sc_name c)"
    using l(3) [OF c(1)] by (simp_all add: row_todo_def)
  have le: "?f x \<le> ?g x" if x: "x \<in> set cs" for x
  proof (cases "x \<in> set (c # rest)")
    case True
    then have "?row x = x" "read_attempts e (sc_name x) = read_attempts d (sc_name x)" using l(3) [OF x] by (auto simp: row_todo_def)
    then show ?thesis by (auto simp: d'_def)
  next
    case False
    then have "\<not> (sc_enabled (?row x) \<and> kills E (?row x))" using l(3) [OF x] by (auto simp: row_done_def)
    then have "?f x = 0" by (rule if_not_P)
    then show ?thesis by (rule ord_eq_le_trans) (rule le0)
  qed
  have less: "?f c < ?g c" using c self by (simp add: d'_def)
  have "danger E d' = sum_list (map ?f cs)" by (simp add: danger_def configs_on_def on comp_def)
  also have "\<dots> < sum_list (map ?g cs)" using le c(1) less by (rule sum_list_strict)
  also have "\<dots> = danger E d" by (simp add: danger_def configs_on_def cs(1))
  finally show "danger E d' < danger E d" .
  assume "thrives E d n"
  then obtain x where x: "x \<in> set cs" "sc_name x = n" "sc_enabled x" "healthy E x" "read_attempts d n = 0"
    by (auto simp: thrives_def configs_on_def cs(1))
  have "x \<noteq> c" using x(4) c(3) healthy_attempt [of E x] by (auto simp: kills_def)
  then have n: "n \<noteq> sc_name c" using same_name [OF cs(2) x(1) c(1)] x(2) by blast
  have r: "healthy E (?row x)" "sc_name (?row x) = n" using l(2) [OF x(1)] x(2,4) by (auto simp: evolves_def)
  have "sc_enabled (?row x) \<and> read_attempts e n = 0"
    using l(3) [OF x(1)] x by (auto simp: row_todo_def row_done_def split: if_splits)
  moreover have "?row x \<in> set (configs_on d')" using x(1) by (simp add: configs_on_def on)
  ultimately show "thrives E d' n" using r n unfolding thrives_def d'_def by auto
qed

lemma boot_effect:
  assumes d: "sound_disk d" and E: "le_writable E" "0 < le_max_attempts E" and run: "boot E d = (r, s', d')"
  shows "sound_disk d' \<and> (case r of
      Boot_killed \<Rightarrow> danger E d' < danger E d \<and> (\<forall>n. thrives E d n \<longrightarrow> thrives E d' n)
    | Booted k \<Rightarrow> danger E d' = 0 \<and> (\<forall>n. thrives E d n \<longrightarrow> thrives E d' n \<and> map_of (ms_backends s') n \<noteq> None))"
proof -
  obtain cs where cs: "dk_configs d = Some cs" "distinct (map sc_name cs)" "\<forall>c \<in> set cs. plain c" using d by (auto simp: sound_disk_def)
  have "distinct cs" using cs(2) by (simp add: distinct_map)
  note spec = restore_loop_spec [OF cs(2,3) E run [unfolded boot_start(1) [OF cs]] boot_start(2) [OF cs] subset_refl this]
  show ?thesis
  proof (cases r)
    case (Booted k)
    then show ?thesis using spec completed_start [OF _ cs(1,2)] by auto
  next
    case Boot_killed
    then obtain c rest t e where "c \<in> set cs" "sc_enabled c" "kills E c" "read_attempts d (sc_name c) < le_max_attempts E"
      "boot_inv E cs d (c # rest) t e" "d' = bump_attempt (sc_name c) e" using spec by auto
    then show ?thesis using killed_start [OF _ cs(1,2)] Boot_killed by auto
  qed
qed

definition survives :: "load_env \<Rightarrow> disk \<Rightarrow> bool" where
  "survives E d \<longleftrightarrow> fst (boot E d) \<noteq> Boot_killed"

lemma crash_loop:
  assumes E: "le_writable E" "0 < le_max_attempts E"
  shows "sound_disk d \<Longrightarrow> \<exists>k \<le> danger E d. (\<forall>i < k. \<not> survives E (disk_at E d i)) \<and> survives E (disk_at E d k)
    \<and> sound_disk (disk_at E d k) \<and> (\<forall>n. thrives E d n \<longrightarrow> thrives E (disk_at E d k) n)"
proof (induction "danger E d" arbitrary: d rule: less_induct)
  case less
  obtain r s' d' where run: "boot E d = (r, s', d')" by (metis surj_pair)
  note eff = boot_effect [OF less.prems E run]
  show ?case
  proof (cases r)
    case (Booted k)
    then show ?thesis using run less.prems by (intro exI [of _ 0]) (simp add: survives_def disk_at_def)
  next
    case Boot_killed
    then have "danger E d' < danger E d" "sound_disk d'" "\<And>n. thrives E d n \<Longrightarrow> thrives E d' n" using eff by auto
    then obtain k where k: "k \<le> danger E d'" "\<forall>i < k. \<not> survives E (disk_at E d' i)" "survives E (disk_at E d' k)"
      "sound_disk (disk_at E d' k)" "\<forall>n. thrives E d n \<longrightarrow> thrives E (disk_at E d' k) n" using less.hyps by blast
    have later: "disk_at E d (Suc i) = disk_at E d' i" for i unfolding disk_at_def funpow_Suc_right by (simp add: run)
    have "\<not> survives E (disk_at E d i)" if "i < Suc k" for i
      using that k(2) later run Boot_killed by (cases i) (auto simp: survives_def disk_at_def)
    then show ?thesis using k later \<open>danger E d' < danger E d\<close> by (intro exI [of _ "Suc k"]) auto
  qed
qed

lemma survivors_survive:
  assumes E: "le_writable E" "0 < le_max_attempts E" and d: "sound_disk d" "survives E d \<or> danger E d = 0"
  shows "survives E d \<and> sound_disk (disk_at E d i) \<and> survives E (disk_at E d i)"
proof -
  have calm: "survives E x \<and> danger E (snd (snd (boot E x))) = 0 \<and> sound_disk (snd (snd (boot E x)))"
    if x: "sound_disk x" "survives E x \<or> danger E x = 0" for x
  proof -
    obtain r s' d' where run: "boot E x = (r, s', d')" by (metis surj_pair)
    then show ?thesis using boot_effect [OF x(1) E run] x(2) by (cases r) (auto simp: survives_def)
  qed
  have "sound_disk (disk_at E d i) \<and> (survives E (disk_at E d i) \<or> danger E (disk_at E d i) = 0)"
    using d calm by (induction i) (auto simp: disk_at_def)
  then show ?thesis using calm d by blast
qed

lemma danger_bound: "danger E d \<le> le_max_attempts E * length (filter (\<lambda>c. sc_enabled c \<and> kills E c) (configs_on d))"
proof -
  have "sum_list (map (\<lambda>c. if P c then m - f c else 0) cs) \<le> m * length (filter P cs)" for P and f :: "saved_config \<Rightarrow> nat" and m and cs
    by (induction cs) auto
  then show ?thesis unfolding danger_def .
qed

text \<open>
  C24: no model can keep the node from starting. Where a load ends the same way each time it is tried and
  the files can be written, at most the attempt limit times the number of enabled models whose load kills the
  process starts are lost; the next one runs to its end, and so does every one after it; and every enabled
  model that loads soundly and has no failed attempts on record is then loaded and still enabled.
\<close>

theorem crash_loop_broken:
  assumes "le_writable E" "0 < le_max_attempts E" "sound_disk d"
  shows "\<exists>k \<le> le_max_attempts E * length (filter (\<lambda>c. sc_enabled c \<and> kills E c) (configs_on d)).
      (\<forall>i < k. fst (boot E (disk_at E d i)) = Boot_killed)
    \<and> (\<forall>j \<ge> k. fst (boot E (disk_at E d j)) \<noteq> Boot_killed)
    \<and> (\<forall>n. thrives E d n \<longrightarrow> thrives E (disk_at E d (Suc k)) n \<and> map_of (ms_backends (fst (snd (boot E (disk_at E d k))))) n \<noteq> None)"
proof -
  obtain k where k: "k \<le> danger E d" "\<forall>i < k. \<not> survives E (disk_at E d i)" "survives E (disk_at E d k)"
    "sound_disk (disk_at E d k)" "\<forall>n. thrives E d n \<longrightarrow> thrives E (disk_at E d k) n" using crash_loop [OF assms] by blast
  have on: "disk_at E (disk_at E d k) i = disk_at E d (k + i)" for i
    by (simp add: disk_at_def funpow_add add.commute [of k])
  have "survives E (disk_at E d (k + i))" for i
    using survivors_survive [OF assms(1,2) k(4), of i] k(3) on by simp
  then have later: "survives E (disk_at E d j)" if "j \<ge> k" for j using that by (metis le_Suc_ex)
  obtain r s' d' where run: "boot E (disk_at E d k) = (r, s', d')" by (metis surj_pair)
  have "disk_at E d (Suc k) = d'" using run by (simp add: disk_at_def)
  then have "\<forall>n. thrives E (disk_at E d k) n \<longrightarrow> thrives E (disk_at E d (Suc k)) n \<and> map_of (ms_backends s') n \<noteq> None"
    using boot_effect [OF k(4) assms(1,2) run] k(3) run by (cases r) (auto simp: survives_def)
  moreover have "k \<le> le_max_attempts E * length (filter (\<lambda>c. sc_enabled c \<and> kills E c) (configs_on d))"
    using k(1) danger_bound [of E d] by linarith
  ultimately show ?thesis using k(2,5) later run by (intro exI [of _ k]) (auto simp: survives_def)
qed

section \<open>What a restart keeps\<close>

lemma or_int_idem: "or_int (or_int x 3) 3 = or_int x 3" "or_int x 3 \<noteq> 0"
  by (simp_all add: or_int_def)


section \<open>Eviction\<close>

lemma insert_idle_props:
  "mset (insert_idle x xs) = add_mset x (mset xs)"
  "sorted (map fst xs) \<Longrightarrow> sorted (map fst (insert_idle x xs))"
proof -
  show m: "mset (insert_idle x xs) = add_mset x (mset xs)" for xs by (induction xs) auto
  then have "set (insert_idle x xs) = insert x (set xs)" for xs by (metis set_mset_add_mset_insert set_mset_mset)
  then show "sorted (map fst xs) \<Longrightarrow> sorted (map fst (insert_idle x xs))" by (induction xs) auto
qed

lemma sorted_idle: "mset (foldr insert_idle xs []) = mset xs \<and> sorted (map fst (foldr insert_idle xs []))"
  by (induction xs) (simp_all add: insert_idle_props)

lemma unload_effect:
  assumes "unload_model writable v False s d = (s', d')"
  shows "map_of (ms_backends s') n = (if n = v then None else map_of (ms_backends s) n)"
    and "map_of (ms_saved s) n = Some c \<Longrightarrow> sc_enabled c \<Longrightarrow> \<exists>c'. map_of (ms_saved s') n = Some c' \<and> sc_enabled c'"
proof -
  show "map_of (ms_backends s') n = (if n = v then None else map_of (ms_backends s) n)"
    using assms by (auto simp: unload_model_def save_model_configs_def Let_def split: if_splits option.splits)
  assume c: "map_of (ms_saved s) n = Some c" "sc_enabled c"
  show "\<exists>c'. map_of (ms_saved s') n = Some c' \<and> sc_enabled c'"
  proof (cases "map_of (ms_backends s) v = None")
    case True
    then show ?thesis using assms c by (simp add: unload_model_def)
  next
    case False
    define s1 where "s1 = s\<lparr>ms_backends := dict_pop (ms_backends s) v, ms_info := dict_pop (ms_info s) v, ms_locks := dict_pop (ms_locks s) v,
      ms_queue_depth := dict_pop (ms_queue_depth s) v, ms_last_used := dict_pop (ms_last_used s) v\<rparr>"
    have "ms_saved s' = saves s1"
      using assms False unfolding unload_model_def s1_def
      by (auto simp: save_model_configs_def saves_def Let_def split: option.splits)
    moreover have "ms_saved s1 = ms_saved s" by (simp add: s1_def)
    moreover have "sc_enabled (config_of s1 n i)" for i by (simp add: config_of_def Let_def)
    ultimately show ?thesis
      using fold_dict_set(1) [where f = "config_of s1" and L = "ms_info s1" and sv = "ms_saved s1" and k = n] c unfolding saves_def by auto
  qed
qed

lemma unload_all:
  "fold (\<lambda>name (s, d). unload_model writable name False s d) vs (s, d) = (s', d') \<Longrightarrow>
   map_of (ms_backends s') n = (if n \<in> set vs then None else map_of (ms_backends s) n)
   \<and> (\<forall>c. map_of (ms_saved s) n = Some c \<and> sc_enabled c \<longrightarrow> (\<exists>c'. map_of (ms_saved s') n = Some c' \<and> sc_enabled c'))"
proof (induction vs arbitrary: s d)
  case (Cons v vs)
  obtain s1 d1 where u: "unload_model writable v False s d = (s1, d1)" by fastforce
  then have "fold (\<lambda>name (s, d). unload_model writable name False s d) vs (s1, d1) = (s', d')" using Cons.prems by simp
  from Cons.IH [OF this] unload_effect [OF u, of n] show ?case by auto
qed simp

lemma evictable_iff: "(l, n) \<in> set (evictable held now idle s) \<longleftrightarrow>
   (\<exists>info. (n, info) \<in> set (ms_info s) \<and> ma_backend info \<in> set LOCAL_MEMORY_BACKENDS) \<and> dict_get (ms_queue_depth s) n 0 \<le> 0
   \<and> \<not> (map_of (ms_locks s) n = Some Mutex \<and> held n) \<and> l = dict_get (ms_last_used s) n 0 \<and> idle \<le> now - l"
  by (auto simp: evictable_def List.map_filter_def Let_def split: if_splits) (force split: if_splits)+

text \<open>
  Memory pressure costs only idle models. Every model an eviction unloads holds its weights here, has
  no request waiting or running, no taken lock, and has been idle as long as asked; every other model stays
  loaded; no saved configuration is disabled by it; and, unless it is told to take all, it leaves exactly one
  of the models it could have taken, one used no earlier than any it takes.
\<close>

theorem eviction_spares_the_busy:
  assumes "evict_idle_models held writable now idle keep s d = (vs, s', d')"
  shows "(\<forall>v \<in> set vs. (\<exists>info. (v, info) \<in> set (ms_info s) \<and> ma_backend info \<in> set LOCAL_MEMORY_BACKENDS)
       \<and> dict_get (ms_queue_depth s) v 0 \<le> 0 \<and> \<not> (map_of (ms_locks s) v = Some Mutex \<and> held v) \<and> idle \<le> now - dict_get (ms_last_used s) v 0)
    \<and> (\<forall>n. map_of (ms_backends s') n = (if n \<in> set vs then None else map_of (ms_backends s) n))
    \<and> (\<forall>n c. map_of (ms_saved s) n = Some c \<and> sc_enabled c \<longrightarrow> (\<exists>c'. map_of (ms_saved s') n = Some c' \<and> sc_enabled c'))
    \<and> (keep \<and> evictable held now idle s \<noteq> [] \<longrightarrow> (\<exists>(l, n) \<in> set (evictable held now idle s).
         mset (n # vs) = mset (map snd (evictable held now idle s)) \<and> (\<forall>v \<in> set vs. dict_get (ms_last_used s) v 0 \<le> l)))
    \<and> (\<not> keep \<longrightarrow> mset vs = mset (map snd (evictable held now idle s)))"
proof -
  define cand where "cand = foldr insert_idle (evictable held now idle s) []"
  have cand: "mset cand = mset (evictable held now idle s)" "sorted (map fst cand)" using sorted_idle by (auto simp: cand_def)
  then have mem: "set cand = set (evictable held now idle s)" by (metis set_mset_mset)
  have vs: "vs = map snd (if keep \<and> cand \<noteq> [] then butlast cand else cand)"
    and all: "fold (\<lambda>name (s, d). unload_model writable name False s d) vs (s, d) = (s', d')"
    using assms by (auto simp: evict_idle_models_def cand_def Let_def)
  have from_cand: "\<exists>l. (l, v) \<in> set cand" if "v \<in> set vs" for v
    using that vs by (auto split: if_splits) (meson in_set_butlastD)+
  have one: "\<exists>(l, n) \<in> set (evictable held now idle s). mset (n # vs) = mset (map snd (evictable held now idle s))
      \<and> (\<forall>v \<in> set vs. dict_get (ms_last_used s) v 0 \<le> l)" if "keep \<and> evictable held now idle s \<noteq> []"
  proof -
    have ne: "cand \<noteq> []" using that cand(1) by auto
    obtain l n where ln: "last cand = (l, n)" by fastforce
    have split: "cand = butlast cand @ [(l, n)]" using append_butlast_last_id [OF ne] ln by simp
    have v: "vs = map snd (butlast cand)" using vs that ne by simp
    have "mset (map snd cand) = add_mset n (mset vs)" by (subst split) (simp add: v)
    then have m: "mset (n # vs) = mset (map snd (evictable held now idle s))" using cand(1) by (metis mset.simps(2) mset_map)
    have "dict_get (ms_last_used s) x 0 \<le> l" if "x \<in> set vs" for x
    proof -
      obtain k where k: "(k, x) \<in> set (butlast cand)" using \<open>x \<in> set vs\<close> v by auto
      then have "k = dict_get (ms_last_used s) x 0" using mem evictable_iff in_set_butlastD by metis
      moreover have "k \<le> l" using cand(2) k by (subst (asm) split) (force simp: sorted_append)
      ultimately show ?thesis by simp
    qed
    then show ?thesis using m mem ln last_in_set [OF ne] by (intro bexI [of _ "(l, n)"]) auto
  qed
  have busy: "(\<exists>info. (v, info) \<in> set (ms_info s) \<and> ma_backend info \<in> set LOCAL_MEMORY_BACKENDS)
       \<and> dict_get (ms_queue_depth s) v 0 \<le> 0 \<and> \<not> (map_of (ms_locks s) v = Some Mutex \<and> held v) \<and> idle \<le> now - dict_get (ms_last_used s) v 0"
    if v: "v \<in> set vs" for v
  proof -
    obtain l where "(l, v) \<in> set (evictable held now idle s)" using from_cand [OF v] mem by blast
    then show ?thesis unfolding evictable_iff by blast
  qed
  have "\<not> keep \<longrightarrow> mset vs = mset (map snd (evictable held now idle s))" using vs by (simp add: cand(1))
  moreover have "\<forall>n. map_of (ms_backends s') n = (if n \<in> set vs then None else map_of (ms_backends s) n)"
    using unload_all [OF all] by blast
  moreover have "\<forall>n c. map_of (ms_saved s) n = Some c \<and> sc_enabled c \<longrightarrow> (\<exists>c'. map_of (ms_saved s') n = Some c' \<and> sc_enabled c')"
    using unload_all [OF all] by blast
  moreover have "\<forall>v \<in> set vs. (\<exists>info. (v, info) \<in> set (ms_info s) \<and> ma_backend info \<in> set LOCAL_MEMORY_BACKENDS)
       \<and> dict_get (ms_queue_depth s) v 0 \<le> 0 \<and> \<not> (map_of (ms_locks s) v = Some Mutex \<and> held v) \<and> idle \<le> now - dict_get (ms_last_used s) v 0"
    using busy by blast
  moreover have "keep \<and> evictable held now idle s \<noteq> [] \<longrightarrow> (\<exists>(l, n) \<in> set (evictable held now idle s).
         mset (n # vs) = mset (map snd (evictable held now idle s)) \<and> (\<forall>v \<in> set vs. dict_get (ms_last_used s) v 0 \<le> l))"
    by (rule impI) (rule one)
  ultimately show ?thesis by (intro conjI)
qed

section \<open>Examples\<close>

definition demo_load_env :: load_env where
  "demo_load_env = \<lparr>le_batching = True, le_is_vlm = (\<lambda>_. False), le_fetch = Inr, le_exists = (\<lambda>p. p \<noteq> ''/gone''), le_kv_aware = False,
     le_preflight = demo_preflight, le_files = (\<lambda>_. demo_files), le_backend = (\<lambda>n rt p. if n = ''bomb'' then Kills else Loads),
     le_max_attempts = 3, le_writable = True\<rparr>"

definition demo_config :: "pystr \<Rightarrow> pystr \<Rightarrow> saved_config" where
  "demo_config name path = \<lparr>sc_name = name, sc_backend = ''llama.cpp'', sc_ctx_len = 4096, sc_quant = [], sc_tags = [], sc_tier = [],
     sc_params = 0, sc_enabled = True, sc_path = path, sc_max_kv = 0, sc_draft = None, sc_api_base = [], sc_api_model = [], sc_api_key = [],
     sc_group = [], sc_deployment = []\<rparr>"

definition demo_disk :: disk where
  "demo_disk = \<lparr>dk_configs = Some [demo_config ''bomb'' ''/b'', demo_config ''good'' ''/g''], dk_attempts = []\<rparr>"

theorem crash_loop_broken_witness:
  "\<exists>k \<le> 3. (\<forall>j \<ge> k. fst (boot demo_load_env (disk_at demo_load_env demo_disk j)) \<noteq> Boot_killed)
    \<and> map_of (ms_backends (fst (snd (boot demo_load_env (disk_at demo_load_env demo_disk k))))) ''good'' \<noteq> None"
proof -
  have E: "le_writable demo_load_env" "0 < le_max_attempts demo_load_env" "le_max_attempts demo_load_env = 3" by (simp_all add: demo_load_env_def)
  have d: "sound_disk demo_disk" by (simp add: sound_disk_def demo_disk_def demo_config_def plain_def)
  have one: "length (filter (\<lambda>c. sc_enabled c \<and> kills demo_load_env c) (configs_on demo_disk)) = 1" by code_simp
  have "healthy demo_load_env (demo_config ''good'' ''/g'')"
    by (simp add: healthy_def demo_config_def demo_load_env_def REMOTE_BACKENDS_def runtime_backend_def checked_window_def Let_def)
  then have "thrives demo_load_env demo_disk ''good''"
    by (simp add: thrives_def configs_on_def demo_disk_def read_attempts_def dict_get_def) (simp add: demo_config_def)
  then show ?thesis using crash_loop_broken [OF E(1,2) d] unfolding one E(3) by auto
qed

definition demo_args :: load_args where
  "demo_args = \<lparr>la_window = demo_window, la_quant = ''q4'', la_draft = [], la_num_draft = None, la_group = [], la_deployment = [],
     la_parallelism = [], la_max_concurrent = None, la_api_base = [], la_api_key = [], la_api_model = None\<rparr>"


definition demo_store :: store where
  "demo_store = (case boot (demo_load_env\<lparr>le_backend := \<lambda>n rt p. Loads\<rparr>) demo_disk of (r, s, d) \<Rightarrow> s\<lparr>ms_last_used := [(''good'', 5)]\<rparr>)"

theorem eviction_spares_the_busy_witness:
  "\<exists>s' d'. evict_idle_models (\<lambda>_. False) True 100 60 True demo_store demo_disk = ([''bomb''], s', d') \<and> map_of (ms_backends s') ''bomb'' = None
    \<and> map_of (ms_backends s') ''good'' \<noteq> None"
proof -
  obtain vs s' d' where run: "evict_idle_models (\<lambda>_. False) True 100 60 True demo_store demo_disk = (vs, s', d')" by (metis surj_pair)
  have "fst (evict_idle_models (\<lambda>_. False) True 100 60 True demo_store demo_disk) = [''bomb''] \<and> map_of (ms_backends demo_store) ''good'' \<noteq> None"
    by code_simp
  then show ?thesis using eviction_spares_the_busy [OF run] run by auto
qed

section \<open>Where the code falls short of itself\<close>

text \<open>A model whose file is missing, say on a drive that is not mounted, is disabled at the fourth start, though no load failed.\<close>

lemma skipped_start:
  assumes "restore_args E c = None" "sc_enabled c" "sc_name c \<noteq> []" "dk_configs d = Some [c]" "0 < le_max_attempts E" "le_writable E"
  shows "snd (snd (boot E d)) = (if read_attempts d (sc_name c) < le_max_attempts E then bump_attempt (sc_name c) d
    else clear_attempt (sc_name c) (d\<lparr>dk_configs := Some [c\<lparr>sc_enabled := False\<rparr>]\<rparr>))"
  using assms by (simp add: boot_def restore_models_def fresh_store_def save_model_configs_eq saves_def dict_set_def Let_def)

lemma missing_file_quarantined:
  assumes "sc_path c = ''/gone''" "sc_backend c = ''llama.cpp''" "sc_enabled c" "sc_name c \<noteq> []"
  shows "configs_on (disk_at demo_load_env \<lparr>dk_configs = Some [c], dk_attempts = []\<rparr> 4) = [c\<lparr>sc_enabled := False\<rparr>]"
proof -
  have "restore_args demo_load_env c = None" using assms by (simp add: restore_args_def demo_load_env_def REMOTE_BACKENDS_def)
  from skipped_start [OF this assms(3,4)] show ?thesis
    by (simp add: disk_at_def configs_on_def demo_load_env_def read_attempts_def bump_attempt_def clear_attempt_def dict_get_def eval_nat_numeral)
qed

text \<open>The key of a remote model, as resolved from its secret reference, is written out with its configuration.\<close>

lemma key_saved_in_the_clear:
  assumes "create_backend bt n a = Some b" "bt \<in> set REMOTE_BACKENDS"
  shows "sc_api_key (config_of (add_model E path n bt rt a b w s) n i) = la_api_key a"
proof -
  have "\<exists>base m. bk_remote b = Some (base, la_api_key a, m)"
    using assms by (auto simp: create_backend_def REMOTE_BACKENDS_def)
  then show ?thesis by (auto simp: config_of_def add_model_def Let_def)
qed

text \<open>Who may use a model, and what it can do beyond its tags, is not saved; what was clamped for a load is.\<close>

lemma scope_not_saved: "config_of s n (i\<lparr>ma_scope := x, ma_visible_networks := y, ma_parallelism := z\<rparr>) = config_of s n i"
  by (simp add: config_of_def Let_def)

lemma tags_not_restored: "restore_args E (c\<lparr>sc_tags := x, sc_tier := y, sc_params := z\<rparr>) = restore_args E c"
  by (simp add: restore_args_def Let_def)

lemma clamp_is_saved: "sc_ctx_len (config_of s n (loaded_info E path n bt a w)) = window_ctx (le_preflight E) w"
  by (simp add: config_of_def loaded_info_def Let_def)

end
