(* ===== verification/Store_Types.thy ===== *)
theory Store_Types
  imports Model_Restart
begin

text \<open>
  The typing of the model store (\<open>inference/manager.py\<close>): the dictionaries the manager keeps in parallel
  stay in step, and the lock of a model is the one its backend needs, through any sequence of operations.
\<close>

section \<open>Well-typed stores\<close>

definition EXCLUSIVE_RUNTIMES :: "pystr list" where
  "EXCLUSIVE_RUNTIMES = [''llama.cpp'', ''mlx'', ''mlx-vlm'', ''mlx-embeddings'']"

text \<open>One loaded model: its backend, its advertised information and its lock.\<close>

definition model_typed :: "pystr \<Rightarrow> backend \<Rightarrow> model_advert \<Rightarrow> lock_kind \<Rightarrow> bool" where
  "model_typed n b i l \<longleftrightarrow> ma_name i = n
     \<and> (bk_remote b \<noteq> None \<longleftrightarrow> bk_runtime b \<in> set REMOTE_BACKENDS)
     \<and> (ma_backend i = bk_runtime b \<or> ma_backend i = ''mlx'' \<and> bk_runtime b \<in> {''mlx-vlm'', ''mlx-batched''})
     \<and> (l = Mutex \<longleftrightarrow> bk_runtime b \<in> set EXCLUSIVE_RUNTIMES) \<and> \<not> refused_lock l"

definition store_typed :: "store \<Rightarrow> bool" where
  "store_typed s \<longleftrightarrow>
     dict_ok (ms_backends s) \<and> dict_ok (ms_info s) \<and> dict_ok (ms_locks s) \<and> dict_ok (ms_queue_depth s) \<and> dict_ok (ms_saved s)
     \<and> dom (map_of (ms_locks s)) = dom (map_of (ms_info s)) \<and> dom (map_of (ms_queue_depth s)) = dom (map_of (ms_info s))
     \<and> (\<forall>n i. map_of (ms_info s) n = Some i \<longrightarrow>
          (case (map_of (ms_backends s) n, map_of (ms_locks s) n) of (Some b, Some l) \<Rightarrow> model_typed n b i l | _ \<Rightarrow> False))
     \<and> (\<forall>n c. map_of (ms_saved s) n = Some c \<longrightarrow> sc_name c = n)"

text \<open>The operations on a store, with what the environment decides in each.\<close>

datatype store_op =
    Op_load load_env pystr "pystr option" pystr load_args
  | Op_unload bool pystr bool
  | Op_evict "pystr \<Rightarrow> bool" bool pyfloat pyfloat bool
  | Op_restore load_env
  | Op_save bool
  | Op_forget bool pystr

fun store_step :: "store_op \<Rightarrow> store \<times> disk \<Rightarrow> store \<times> disk" where
  "store_step (Op_load E path name bt a) (s, d) = snd (load_model E path name bt a s d)"
| "store_step (Op_unload w n disable) (s, d) = unload_model w n disable s d"
| "store_step (Op_evict held w now idle keep) (s, d) = snd (evict_idle_models held w now idle keep s d)"
| "store_step (Op_restore E) (s, d) = snd (restore_models E s d)"
| "store_step (Op_save w) (s, d) = save_model_configs w s d"
| "store_step (Op_forget w n) (s, d) = remove_saved_config w n s d"

section \<open>Every operation keeps the types\<close>

lemma typed_saves: "store_typed s \<Longrightarrow> store_typed (s\<lparr>ms_saved := saves s\<rparr>)"
proof -
  assume t: "store_typed s"
  have ok: "dict_ok (fold (\<lambda>(n, i) sv. dict_set sv n (config_of s n i)) L sv)" if "dict_ok sv" for L sv
    using that by (induction L arbitrary: sv) auto
  have "sc_name c = n" if "map_of (saves s) n = Some c" for n c
    using fold_dict_set(1) [where f = "config_of s" and L = "ms_info s" and sv = "ms_saved s" and k = n] that t
    by (auto simp: saves_def store_typed_def config_of_def Let_def)
  then show ?thesis using t ok [of "ms_saved s" "ms_info s"] by (simp add: store_typed_def saves_def)
qed

lemma typed_save: "store_typed s \<Longrightarrow> store_typed (fst (save_model_configs w s d))"
  using typed_saves [of s] by (simp add: save_model_configs_def saves_def Let_def)

lemma typed_other [simp]:
  "store_typed (s\<lparr>ms_status := a\<rparr>) = store_typed s" "store_typed (s\<lparr>ms_quarantined := b\<rparr>) = store_typed s"
  "store_typed (s\<lparr>ms_paths := c\<rparr>) = store_typed s"
  by (simp_all add: store_typed_def)

lemma typed_saved_row: "store_typed s \<Longrightarrow> sc_name c = n \<Longrightarrow> store_typed (s\<lparr>ms_saved := dict_set (ms_saved s) n c\<rparr>)"
  by (auto simp: store_typed_def split: if_splits)

lemma remote_created: "bt \<in> set REMOTE_BACKENDS \<Longrightarrow> bt \<notin> set LOCAL_BACKENDS \<and> bt \<notin> set EXCLUSIVE_RUNTIMES"
  by (auto simp: REMOTE_BACKENDS_def LOCAL_BACKENDS_def EXCLUSIVE_RUNTIMES_def)

lemma local_created:
  assumes "rt \<in> set LOCAL_BACKENDS" "rt = bt \<or> bt = ''mlx'' \<and> rt \<in> {''mlx'', ''mlx-vlm'', ''mlx-batched''}"
  shows "bt \<in> set LOCAL_BACKENDS \<and> rt \<notin> set REMOTE_BACKENDS \<and> (rt \<notin> set SELF_BATCHING_BACKENDS \<longleftrightarrow> rt \<in> set EXCLUSIVE_RUNTIMES)
    \<and> (bt = rt \<or> bt = ''mlx'' \<and> rt \<in> {''mlx-vlm'', ''mlx-batched''})"
  using assms by (auto simp: REMOTE_BACKENDS_def LOCAL_BACKENDS_def EXCLUSIVE_RUNTIMES_def SELF_BATCHING_BACKENDS_def)

lemma created_typed:
  assumes b: "create_backend (runtime_backend E path bt) n a = Some b" and l: "\<not> refused_lock (model_lock bt (runtime_backend E path bt) a)"
  shows "model_typed n b (loaded_info E p n bt a w) (model_lock bt (runtime_backend E path bt) a)"
proof -
  define rt where "rt = runtime_backend E path bt"
  have i: "ma_name (loaded_info E p n bt a w) = n" "ma_backend (loaded_info E p n bt a w) = bt" by (simp_all add: loaded_info_def)
  have kinds: "rt = bt \<or> bt = ''mlx'' \<and> rt \<in> {''mlx'', ''mlx-vlm'', ''mlx-batched''}" using runtime_kinds [of E path bt] by (simp add: rt_def)
  have bk: "bk_runtime b = rt" "bk_remote b = None \<and> rt \<in> set LOCAL_BACKENDS \<or> bk_remote b \<noteq> None \<and> rt \<in> set REMOTE_BACKENDS"
    using b by (auto simp: create_backend_def LOCAL_BACKENDS_def rt_def split: if_splits)
  show ?thesis
  proof (cases "rt \<in> set REMOTE_BACKENDS")
    case True
    then have "bt = rt" using kinds by (auto simp: REMOTE_BACKENDS_def)
    then show ?thesis using True remote_created [OF True] bk l i by (auto simp: model_typed_def model_lock_def rt_def [symmetric])
  next
    case False
    then have "rt \<in> set LOCAL_BACKENDS" "bk_remote b = None" using bk by auto
    then show ?thesis using False local_created [OF _ kinds] bk l i by (simp add: model_typed_def model_lock_def rt_def [symmetric])
  qed
qed

lemma typed_add:
  assumes "store_typed s" "model_typed n b (loaded_info E p n bt a w) (model_lock bt rt a)"
  shows "store_typed (add_model E p n bt rt a b w s)"
  using assms by (auto simp: store_typed_def add_model_def split: option.splits)

lemma typed_half: "store_typed s \<Longrightarrow> map_of (ms_backends s) n = None \<Longrightarrow> store_typed (s\<lparr>ms_backends := dict_set (ms_backends s) n b\<rparr>)"
  by (fastforce simp: store_typed_def split: option.splits)

lemma typed_load: "store_typed s \<Longrightarrow> store_typed (fst (snd (load_model E path name bt a s d)))"
proof -
  assume t: "store_typed s"
  let ?rt = "runtime_backend E path bt"
  have saved: "store_typed (fst (save_model_configs w (add_model E p n bt ?rt a b v (s\<lparr>ms_status := x\<rparr>)) d))"
    if "try_load E p n bt ?rt a = Inl (b, v)" "\<not> refused_lock (model_lock bt ?rt a)" for p n b v w x
  proof -
    have "create_backend ?rt n a = Some b" using that(1) by (auto simp: try_load_def split: option.splits backend_load.splits if_splits)
    then show ?thesis using typed_save typed_add created_typed that(2) t by simp
  qed
  have half: "store_typed (s\<lparr>ms_paths := q, ms_backends := dict_set (ms_backends s) n b\<rparr>)" if "map_of (ms_backends s) n = None" for q n b
    using typed_half [of "s\<lparr>ms_paths := q\<rparr>" n b] t that by simp
  show ?thesis
  proof (cases "if py_startswith path ''hf:'' then le_fetch E path else Inr path")
    case (Inl e)
    then show ?thesis using t by (simp add: load_model_def)
  next
    case (Inr p)
    define n where "n = (case name of Some n \<Rightarrow> or_str n (if p \<noteq> [] then path_stem p else ''remote-model'')
      | None \<Rightarrow> if p \<noteq> [] then path_stem p else ''remote-model'')"
    note load = load_model_def [of E path name bt a s d, unfolded Inr sum.case Let_def, folded n_def]
    consider (old) "map_of (ms_backends s) n \<noteq> None" | (killed) "try_load E p n bt ?rt a = Inr None"
      | (failed) e where "try_load E p n bt ?rt a = Inr (Some e)"
      | (ok) b v where "map_of (ms_backends s) n = None" "try_load E p n bt ?rt a = Inl (b, v)"
      by (metis surj_pair sum.exhaust option.exhaust)
    then show ?thesis
    proof cases
      case (ok b v)
      obtain s3 d3 where r: "save_model_configs (le_writable E) (add_model E p n bt ?rt a b v (s\<lparr>ms_status := dict_set (ms_status s) n (''loading'', [])\<rparr>)) d = (s3, d3)"
        by fastforce
      show ?thesis
      proof (cases "refused_lock (model_lock bt ?rt a)")
        case True
        then show ?thesis using half [OF ok(1)] ok by (simp add: load)
      next
        case False
        have "store_typed s3" using saved [OF ok(2) False, where w = "le_writable E"] r by (metis fst_conv)
        then show ?thesis using ok r False by (simp add: load)
      qed
    qed (use t in \<open>simp_all add: load\<close>)
  qed
qed

lemma typed_unload: "store_typed s \<Longrightarrow> store_typed (fst (unload_model w n disable s d))"
proof -
  assume t: "store_typed s"
  define s1 where "s1 = s\<lparr>ms_backends := dict_pop (ms_backends s) n, ms_info := dict_pop (ms_info s) n,
    ms_locks := dict_pop (ms_locks s) n, ms_queue_depth := dict_pop (ms_queue_depth s) n, ms_last_used := dict_pop (ms_last_used s) n\<rparr>"
  have t1: "store_typed s1" using t by (simp add: store_typed_def s1_def)
  have off: "store_typed (s1\<lparr>ms_saved := dict_set (ms_saved s1) n (c\<lparr>sc_enabled := False\<rparr>)\<rparr>)" if "map_of (ms_saved s1) n = Some c" for c
    using t1 that by (intro typed_saved_row) (auto simp: store_typed_def)
  show ?thesis unfolding unload_model_def s1_def [symmetric]
    using t t1 off by (auto simp: Let_def split: option.split intro!: typed_save)
qed

lemma typed_unloads: "store_typed s \<Longrightarrow> store_typed (fst (fold (\<lambda>n (s, d). unload_model w n disable s d) vs (s, d)))"
proof (induction vs arbitrary: s d)
  case (Cons v vs)
  obtain s1 d1 where u: "unload_model w v disable s d = (s1, d1)" by fastforce
  then have "store_typed s1" using typed_unload [OF Cons.prems, of w v disable d] by simp
  then show ?case using Cons.IH u by simp
qed simp

lemma typed_restore_loop: "store_typed s \<Longrightarrow> store_typed (fst (snd (restore_loop E cs k s d)))"
proof (induction cs arbitrary: k s d)
  case (Cons c cs)
  have off: "store_typed (fst (save_model_configs w (s\<lparr>ms_saved := dict_set (ms_saved s) (sc_name c) (c\<lparr>sc_enabled := False\<rparr>)\<rparr>) d))" for w
    using Cons.prems by (intro typed_save typed_saved_row) simp_all
  have loaded: "store_typed s2" if "load_model E path (Some (sc_name c)) (sc_backend c) a s e = (r, s2, d2)" for path a e r s2 d2
    using typed_load [OF Cons.prems, of E path "Some (sc_name c)" "sc_backend c" a e] that by simp
  show ?case using Cons off [of "le_writable E"]
    by (auto simp: Let_def split: option.split prod.split load_end.split dest: loaded)
qed simp

lemma typed_restore: "store_typed s \<Longrightarrow> store_typed (fst (snd (restore_models E s d)))"
proof -
  have rows: "store_typed s \<Longrightarrow> store_typed (s\<lparr>ms_saved := fold (\<lambda>c saved. if sc_name c \<noteq> [] then dict_set saved (sc_name c) c else saved) cs (ms_saved s)\<rparr>)" for cs
  proof (induction cs arbitrary: s)
    case (Cons c cs)
    have "store_typed (s\<lparr>ms_saved := if sc_name c \<noteq> [] then dict_set (ms_saved s) (sc_name c) c else ms_saved s\<rparr>)"
      using Cons.prems by (simp add: typed_saved_row)
    from Cons.IH [OF this] show ?case by simp
  qed simp
  assume "store_typed s"
  then show ?thesis using rows by (auto simp: restore_models_def intro!: typed_restore_loop split: option.split)
qed

lemma typed_step: "store_typed (fst x) \<Longrightarrow> store_typed (fst (store_step op x))"
proof (induction op x rule: store_step.induct)
  case (6 w n s d)
  have "store_typed (s\<lparr>ms_saved := dict_pop (ms_saved s) n\<rparr>)" using 6 by (auto simp: store_typed_def split: if_splits)
  then show ?case by (simp add: remove_saved_config_def typed_save)
qed (simp_all add: typed_load typed_unload typed_unloads typed_restore typed_save evict_idle_models_def Let_def)


text \<open>
  A remote model with a negative \<open>max_concurrent\<close>, which the load endpoint takes as it comes: the load is
  reported failed, but its backend object stays, without lock, depth or information.
\<close>

lemma half_loaded:
  assumes "try_load E [] n ''openai'' ''openai'' a = Inl (b, w)" "la_max_concurrent a = Some k" "k < 0" "n \<noteq> []"
    and "map_of (ms_backends s) n = None"
  shows "\<exists>e s'. load_model E [] (Some n) ''openai'' a s d = (Load_failed e, s', d)
    \<and> map_of (ms_backends s') n = Some b \<and> ms_locks s' = ms_locks s \<and> ms_info s' = ms_info s"
proof -
  have "runtime_backend E [] ''openai'' = ''openai''" by (simp add: runtime_backend_def)
  then show ?thesis using assms
    by (simp add: load_model_def or_str_def model_lock_def LOCAL_BACKENDS_def Let_def)
qed

end
