(* ===== verification/Inference_Gate.thy ===== *)
theory Inference_Gate
  imports Store_Types
begin

text \<open>
  Requests at the models of a node (\<open>InferenceManager\<close> in \<open>inference/manager.py\<close>): the queue in front of
  each model, the locks, the request groups and the count of active requests, while models are loaded,
  unloaded and evicted. A request is a task of the event loop; a step is what runs between two awaits.
  The locks are objects: a task waits on the one it found, and releases the one its model has by then.
\<close>

section \<open>State\<close>

datatype call_kind = Generate | Embed | Stream

record call =
  cl_kind :: call_kind
  cl_speculative :: bool
  cl_group :: pystr

text \<open>How a task ends: with the backend's answer or error, timed out in the queue, cancelled in the queue by
  its caller, cancelled with its group, or with the error its lock raised when it was released.\<close>

datatype call_end = Answered | Backend_raised | Busy | Abandoned | Group_cancelled | Release_raised

datatype call_phase = Waiting | Running | Ended call_end

record task =
  tk_call :: call
  tk_model :: pystr
  tk_lock :: "nat option"
  tk_orig :: pyfloat
  tk_timeout :: pyfloat
  tk_event :: bool
  tk_phase :: call_phase

text \<open>An \<open>asyncio\<close> lock or semaphore: permits left (a lock has one) and waiters in their order.\<close>

record lock_object =
  lo_kind :: lock_kind
  lo_value :: int
  lo_waiters :: "nat list"

fun permits :: "lock_kind \<Rightarrow> int" where
  "permits Mutex = 1"
| "permits (Permits k) = k"

definition new_lock :: "lock_kind \<Rightarrow> lock_object" where
  "new_lock k = \<lparr>lo_kind = k, lo_value = permits k, lo_waiters = []\<rparr>"

text \<open>Releasing a lock that is not locked raises; a semaphore is never checked.\<close>

definition release_object :: "lock_object \<Rightarrow> lock_object option" where
  "release_object l = (if lo_kind l = Mutex \<and> lo_value l \<noteq> 0 then None else Some (l\<lparr>lo_value := lo_value l + 1\<rparr>))"

text \<open>
  \<open>ga_refs\<close> is \<open>_model_locks\<close> with the identity of each object, \<open>ga_objects\<close> the objects made so far,
  \<open>ga_tasks\<close> all tasks, by number, and \<open>ga_victims\<close> what an eviction in progress has yet to unload.
\<close>

record gate =
  ga_store :: store
  ga_disk :: disk
  ga_refs :: "(pystr, nat) dict"
  ga_objects :: "lock_object list"
  ga_tasks :: "task list"
  ga_active :: int
  ga_timeout :: pyfloat
  ga_groups :: "(pystr, nat list) dict"
  ga_victims :: "pystr list"

definition new_gate :: "pyfloat \<Rightarrow> disk \<Rightarrow> gate" where
  "new_gate queue_timeout d = \<lparr>ga_store = fresh_store, ga_disk = d, ga_refs = [], ga_objects = [], ga_tasks = [],
     ga_active = 0, ga_timeout = queue_timeout, ga_groups = [], ga_victims = []\<rparr>"

definition set_depth :: "pystr \<Rightarrow> int \<Rightarrow> gate \<Rightarrow> gate" where
  "set_depth m k g = g\<lparr>ga_store := (ga_store g)\<lparr>ms_queue_depth := dict_set (ms_queue_depth (ga_store g)) m k\<rparr>\<rparr>"

definition depth_down :: "pystr \<Rightarrow> gate \<Rightarrow> gate" where
  "depth_down m g = set_depth m (max 0 (dict_get (ms_queue_depth (ga_store g)) m 1 - 1)) g"

definition set_phase :: "nat \<Rightarrow> call_phase \<Rightarrow> gate \<Rightarrow> gate" where
  "set_phase i p g = g\<lparr>ga_tasks := (ga_tasks g)[i := (ga_tasks g ! i)\<lparr>tk_phase := p\<rparr>]\<rparr>"

section \<open>A request\<close>

text \<open>\<open>_acquire_model\<close>, up to the wait.\<close>

definition acquire_model :: "nat \<Rightarrow> pystr \<Rightarrow> gate \<Rightarrow> gate" where
  "acquire_model i m g = (case map_of (ga_refs g) m of
     None \<Rightarrow> g
   | Some l \<Rightarrow> (set_depth m (dict_get (ms_queue_depth (ga_store g)) m 0 + 1) g)
       \<lparr>ga_objects := (ga_objects g)[l := (ga_objects g ! l)\<lparr>lo_waiters := lo_waiters (ga_objects g ! l) @ [i]\<rparr>]\<rparr>)"

text \<open>The flag is false where the release raises, before anything else is done.\<close>

definition release_model :: "pystr \<Rightarrow> pyfloat \<Rightarrow> gate \<Rightarrow> gate \<times> bool" where
  "release_model m now g =
     (let booked = (\<lambda>g. (depth_down m g)\<lparr>ga_store := (ga_store (depth_down m g))
            \<lparr>ms_last_used := dict_set (ms_last_used (ga_store g)) m now\<rparr>\<rparr>)
      in case map_of (ga_refs g) m of
           None \<Rightarrow> (booked g, True)
         | Some l \<Rightarrow> (case release_object (ga_objects g ! l) of
             None \<Rightarrow> (g, False)
           | Some x \<Rightarrow> (booked (g\<lparr>ga_objects := (ga_objects g)[l := x]\<rparr>), True)))"

definition register_group :: "nat \<Rightarrow> call \<Rightarrow> gate \<Rightarrow> gate" where
  "register_group i c g = (if cl_group c = [] then g
     else g\<lparr>ga_groups := dict_set (ga_groups g) (cl_group c) (dict_get (ga_groups g) (cl_group c) [] @ [i])\<rparr>)"

definition unregister_group :: "nat \<Rightarrow> call \<Rightarrow> gate \<Rightarrow> gate" where
  "unregister_group i c g =
     (if cl_group c = [] then g
      else case map_of (ga_groups g) (cl_group c) of
        None \<Rightarrow> g
      | Some is \<Rightarrow> let rest = removeAll i is in
          g\<lparr>ga_groups := (if rest = [] then dict_pop (ga_groups g) (cl_group c) else dict_set (ga_groups g) (cl_group c) rest)\<rparr>)"

text \<open>\<open>cancel_group\<close>: the events of the group are set, and the group forgotten.\<close>

definition cancel_group :: "pystr \<Rightarrow> gate \<Rightarrow> gate \<times> nat" where
  "cancel_group name g =
     (let is = dict_get (ga_groups g) name []
      in (g\<lparr>ga_groups := dict_pop (ga_groups g) name,
            ga_tasks := fold (\<lambda>i ts. ts[i := (ts ! i)\<lparr>tk_event := True\<rparr>]) is (ga_tasks g)\<rparr>, length is))"

text \<open>What the \<open>finally\<close> blocks of the three methods do once the backend is done.\<close>

definition finish_call :: "nat \<Rightarrow> call_end \<Rightarrow> pyfloat \<Rightarrow> gate \<Rightarrow> gate" where
  "finish_call i out now g =
     (let t = ga_tasks g ! i in
      case release_model (tk_model t) now (g\<lparr>ga_active := ga_active g - 1\<rparr>) of
        (g1, False) \<Rightarrow> set_phase i (Ended Release_raised) g1
      | (g1, True) \<Rightarrow> set_phase i (Ended out) (if cl_kind (tk_call t) = Generate then unregister_group i (tk_call t) g1 else g1))"

definition restore_timeout :: "nat \<Rightarrow> gate \<Rightarrow> gate" where
  "restore_timeout i g = (if cl_kind (tk_call (ga_tasks g ! i)) = Generate then g\<lparr>ga_timeout := tk_orig (ga_tasks g ! i)\<rparr> else g)"

text \<open>Once the model is acquired; only \<open>generate\<close> looks whether its group was cancelled meanwhile.\<close>

definition start :: "nat \<Rightarrow> pyfloat \<Rightarrow> gate \<Rightarrow> gate" where
  "start i now g =
     (let t = ga_tasks g ! i; g1 = set_phase i Running ((restore_timeout i g)\<lparr>ga_active := ga_active g + 1\<rparr>)
      in if cl_kind (tk_call t) = Generate \<and> tk_event t then finish_call i Group_cancelled now g1 else g1)"

text \<open>\<open>generate\<close>, \<open>embed\<close> and \<open>generate_stream\<close> for a model that is loaded, up to the wait for it.\<close>

definition enter :: "call \<Rightarrow> pystr \<Rightarrow> pyfloat \<Rightarrow> gate \<Rightarrow> gate" where
  "enter c m now g =
     (let i = length (ga_tasks g); orig = ga_timeout g;
          timeout = (if cl_kind c = Generate \<and> cl_speculative c then min 10 orig else orig);
          t = \<lparr>tk_call = c, tk_model = m, tk_lock = map_of (ga_refs g) m, tk_orig = orig, tk_timeout = timeout,
               tk_event = False, tk_phase = Waiting\<rparr>;
          g1 = (if cl_kind c = Generate then register_group i c g else g);
          g2 = acquire_model i m (g1\<lparr>ga_tasks := ga_tasks g @ [t], ga_timeout := timeout\<rparr>)
      in if map_of (ga_refs g) m = None then start i now g2 else g2)"

text \<open>The first waiter of a lock with a permit left takes it.\<close>

definition grant :: "nat \<Rightarrow> pyfloat \<Rightarrow> gate \<Rightarrow> gate option" where
  "grant l now g =
     (if l < length (ga_objects g) then
        (case lo_waiters (ga_objects g ! l) of
           [] \<Rightarrow> None
         | i # rest \<Rightarrow> if lo_value (ga_objects g ! l) > 0
             then Some (start i now (g\<lparr>ga_objects := (ga_objects g)[l := (ga_objects g ! l)
                    \<lparr>lo_value := lo_value (ga_objects g ! l) - 1, lo_waiters := rest\<rparr>]\<rparr>))
             else None)
      else None)"

definition leave_queue :: "nat \<Rightarrow> gate \<Rightarrow> gate" where
  "leave_queue i g = (case tk_lock (ga_tasks g ! i) of
     None \<Rightarrow> g
   | Some l \<Rightarrow> g\<lparr>ga_objects := (ga_objects g)[l := (ga_objects g ! l)\<lparr>lo_waiters := removeAll i (lo_waiters (ga_objects g ! l))\<rparr>]\<rparr>)"

text \<open>The wait ends with a timeout: the queue depth goes down, the group is left, and the call raises.\<close>

definition time_out :: "nat \<Rightarrow> gate \<Rightarrow> gate" where
  "time_out i g =
     (let t = ga_tasks g ! i; g1 = depth_down (tk_model t) (leave_queue i g);
          g2 = (if cl_kind (tk_call t) = Generate then unregister_group i (tk_call t) g1 else g1)
      in set_phase i (Ended Busy) (restore_timeout i g2))"

text \<open>The wait is cancelled, with its caller: neither handler catches that, so only the \<open>finally\<close> runs.\<close>

definition abandon :: "nat \<Rightarrow> gate \<Rightarrow> gate" where
  "abandon i g = set_phase i (Ended Abandoned) (restore_timeout i (leave_queue i g))"

section \<open>Models\<close>

definition gate_load :: "load_env \<Rightarrow> pystr \<Rightarrow> pystr option \<Rightarrow> pystr \<Rightarrow> load_args \<Rightarrow> gate \<Rightarrow> gate option" where
  "gate_load E path name bt a g = (case load_model E path name bt a (ga_store g) (ga_disk g) of
     (Killed, s, d) \<Rightarrow> None
   | (Load_failed e, s, d) \<Rightarrow> Some (g\<lparr>ga_store := s, ga_disk := d\<rparr>)
   | (Loaded n, s, d) \<Rightarrow>
       if map_of (ms_backends (ga_store g)) n \<noteq> None then Some (g\<lparr>ga_store := s, ga_disk := d\<rparr>)
       else Some (g\<lparr>ga_store := s, ga_disk := d, ga_refs := dict_set (ga_refs g) n (length (ga_objects g)),
                    ga_objects := ga_objects g @ [new_lock (the (map_of (ms_locks s) n))]\<rparr>))"

definition gate_unload :: "bool \<Rightarrow> pystr \<Rightarrow> bool \<Rightarrow> gate \<Rightarrow> gate" where
  "gate_unload writable n disable g = (case unload_model writable n disable (ga_store g) (ga_disk g) of
     (s, d) \<Rightarrow> g\<lparr>ga_store := s, ga_disk := d, ga_refs := (if map_of (ms_backends (ga_store g)) n = None then ga_refs g else dict_pop (ga_refs g) n)\<rparr>)"

definition held :: "gate \<Rightarrow> pystr \<Rightarrow> bool" where
  "held g n = (case map_of (ga_refs g) n of None \<Rightarrow> False | Some l \<Rightarrow> lo_value (ga_objects g ! l) = 0)"

text \<open>\<open>evict_idle_models\<close> up to its first unload: what it will unload, one after the other.\<close>

definition pick_victims :: "pyfloat \<Rightarrow> pyfloat \<Rightarrow> bool \<Rightarrow> gate \<Rightarrow> pystr list" where
  "pick_victims now idle_seconds keep_most_recent g =
     fst (evict_idle_models (held g) True now idle_seconds keep_most_recent (ga_store g) (ga_disk g))"

section \<open>Steps\<close>

datatype gate_event =
    Enter call pystr pyfloat
  | Grant nat pyfloat
  | Finish nat bool pyfloat
  | Time_out nat
  | Abandon nat
  | Cancel_group pystr
  | Load load_env pystr "pystr option" pystr load_args
  | Unload bool pystr bool
  | Pick pyfloat pyfloat bool
  | Evict_next bool

definition is_in :: "call_phase \<Rightarrow> nat \<Rightarrow> gate \<Rightarrow> bool" where
  "is_in p i g \<longleftrightarrow> i < length (ga_tasks g) \<and> tk_phase (ga_tasks g ! i) = p"

fun gate_step :: "gate_event \<Rightarrow> gate \<Rightarrow> gate option" where
  "gate_step (Enter c m now) g = (if map_of (ms_backends (ga_store g)) m = None then None else Some (enter c m now g))"
| "gate_step (Grant l now) g = grant l now g"
| "gate_step (Finish i good now) g =
     (if is_in Running i g then Some (finish_call i (if good then Answered else Backend_raised) now g) else None)"
| "gate_step (Time_out i) g = (if is_in Waiting i g then Some (time_out i g) else None)"
| "gate_step (Abandon i) g = (if is_in Waiting i g then Some (abandon i g) else None)"
| "gate_step (Cancel_group name) g = Some (fst (cancel_group name g))"
| "gate_step (Load E path name bt a) g = gate_load E path name bt a g"
| "gate_step (Unload w n disable) g = Some (gate_unload w n disable g)"
| "gate_step (Pick now idle keep) g = (if ga_victims g = [] then Some (g\<lparr>ga_victims := pick_victims now idle keep g\<rparr>) else None)"
| "gate_step (Evict_next w) g = (case ga_victims g of [] \<Rightarrow> None | v # vs \<Rightarrow> Some (gate_unload w v False (g\<lparr>ga_victims := vs\<rparr>)))"

fun gate_run :: "gate_event list \<Rightarrow> gate \<Rightarrow> gate option" where
  "gate_run [] g = Some g"
| "gate_run (e # es) g = (case gate_step e g of None \<Rightarrow> None | Some g' \<Rightarrow> gate_run es g')"

text \<open>A run in which no model is unloaded while a request waits for it or runs on it.\<close>

definition idle :: "pystr \<Rightarrow> gate \<Rightarrow> bool" where
  "idle n g \<longleftrightarrow> (\<forall>t \<in> set (ga_tasks g). tk_model t = n \<longrightarrow> tk_phase t \<noteq> Waiting \<and> tk_phase t \<noteq> Running)"

fun calm :: "gate_event \<Rightarrow> gate \<Rightarrow> bool" where
  "calm (Unload w n disable) g = idle n g"
| "calm (Evict_next w) g = (case ga_victims g of [] \<Rightarrow> True | v # vs \<Rightarrow> idle v g)"
| "calm _ g = True"

inductive calm_run :: "gate \<Rightarrow> bool" where
  Begin: "calm_run (new_gate timeout d)"
| Step: "calm_run g \<Longrightarrow> calm e g \<Longrightarrow> gate_step e g = Some g' \<Longrightarrow> calm_run g'"

section \<open>The invariant of calm runs\<close>

definition on_lock :: "call_phase \<Rightarrow> nat \<Rightarrow> task \<Rightarrow> bool" where
  "on_lock p l t \<longleftrightarrow> tk_phase t = p \<and> tk_lock t = Some l"

definition live :: "task \<Rightarrow> bool" where
  "live t \<longleftrightarrow> tk_phase t = Waiting \<or> tk_phase t = Running"

definition tally :: "(task \<Rightarrow> bool) \<Rightarrow> gate \<Rightarrow> int" where
  "tally P g = int (length (filter P (ga_tasks g)))"

definition refs_ok :: "gate \<Rightarrow> bool" where
  "refs_ok g \<longleftrightarrow>
     (\<forall>n. map_of (ms_locks (ga_store g)) n = map_option (\<lambda>l. lo_kind (ga_objects g ! l)) (map_of (ga_refs g) n))
     \<and> (\<forall>n l. map_of (ga_refs g) n = Some l \<longrightarrow> l < length (ga_objects g) \<and> map_of (ms_backends (ga_store g)) n \<noteq> None)
     \<and> (\<forall>n. map_of (ms_info (ga_store g)) n \<noteq> None \<longrightarrow> map_of (ga_refs g) n \<noteq> None)
     \<and> (\<forall>n n' l. map_of (ga_refs g) n = Some l \<and> map_of (ga_refs g) n' = Some l \<longrightarrow> n = n')"

definition tasks_ok :: "gate \<Rightarrow> bool" where
  "tasks_ok g \<longleftrightarrow> (\<forall>t \<in> set (ga_tasks g). tk_phase t \<noteq> Ended Release_raised \<and> (\<forall>l. tk_lock t = Some l \<longrightarrow> l < length (ga_objects g))
     \<and> (live t \<longrightarrow> tk_lock t = map_of (ga_refs g) (tk_model t) \<and> map_of (ms_backends (ga_store g)) (tk_model t) \<noteq> None))"

definition object_ok :: "gate \<Rightarrow> nat \<Rightarrow> bool" where
  "object_ok g l \<longleftrightarrow> 0 \<le> lo_value (ga_objects g ! l)
     \<and> lo_value (ga_objects g ! l) + tally (on_lock Running l) g = permits (lo_kind (ga_objects g ! l))
     \<and> lo_waiters (ga_objects g ! l) = filter (\<lambda>i. on_lock Waiting l (ga_tasks g ! i)) [0..<length (ga_tasks g)]"

definition load_on :: "nat \<Rightarrow> gate \<Rightarrow> int" where
  "load_on l g = tally (on_lock Waiting l) g + tally (on_lock Running l) g + tally (on_lock (Ended Abandoned) l) g"

definition gate_inv :: "gate \<Rightarrow> bool" where
  "gate_inv g \<longleftrightarrow> refs_ok g \<and> tasks_ok g \<and> (\<forall>l < length (ga_objects g). object_ok g l)
     \<and> (\<forall>n l. map_of (ga_refs g) n = Some l \<longrightarrow> map_of (ms_queue_depth (ga_store g)) n = Some (load_on l g))
     \<and> ga_active g = tally (\<lambda>t. tk_phase t = Running) g"

lemma refs_keep:
  assumes "refs_ok g" "ga_refs g' = ga_refs g" "ms_locks (ga_store g') = ms_locks (ga_store g)" "length (ga_objects g') = length (ga_objects g)"
      "ms_info (ga_store g') = ms_info (ga_store g)"
    and "\<And>n. map_of (ms_backends (ga_store g)) n \<noteq> None \<Longrightarrow> map_of (ms_backends (ga_store g')) n \<noteq> None"
    and "\<And>l. l < length (ga_objects g) \<Longrightarrow> lo_kind (ga_objects g' ! l) = lo_kind (ga_objects g ! l)"
  shows "refs_ok g'"
proof -
  have "map_option (\<lambda>l. lo_kind (ga_objects g' ! l)) (map_of (ga_refs g) n) = map_option (\<lambda>l. lo_kind (ga_objects g ! l)) (map_of (ga_refs g) n)" for n
    using assms(1,7) by (cases "map_of (ga_refs g) n") (auto simp: refs_ok_def)
  then show ?thesis using assms(1-6) unfolding refs_ok_def by metis
qed

lemma tally_update:
  assumes "i < length (ga_tasks g)" "ga_tasks g' = (ga_tasks g)[i := t]"
  shows "tally P g' = tally P g - of_bool (P (ga_tasks g ! i)) + of_bool (P t)"
proof -
  have split: "ga_tasks g = take i (ga_tasks g) @ ga_tasks g ! i # drop (Suc i) (ga_tasks g)" using assms(1) by (rule id_take_nth_drop)
  then have "length (filter P (ga_tasks g)) = length (filter P (take i (ga_tasks g) @ ga_tasks g ! i # drop (Suc i) (ga_tasks g)))" by simp
  then show ?thesis using assms by (simp add: tally_def upd_conv_take_nth_drop)
qed

lemma tally_pos: "i < length (ga_tasks g) \<Longrightarrow> P (ga_tasks g ! i) \<Longrightarrow> 0 < tally P g"
  by (auto simp: tally_def filter_empty_conv)

lemma queue_update:
  assumes "ga_tasks g' = (ga_tasks g)[i := t]" "\<not> P t" "i < length (ga_tasks g)"
  shows "filter (\<lambda>j. P (ga_tasks g' ! j)) [0..<length (ga_tasks g')] = removeAll i (filter (\<lambda>j. P (ga_tasks g ! j)) [0..<length (ga_tasks g)])"
  using assms by (auto simp: removeAll_filter_not_eq nth_list_update intro!: filter_cong split: if_splits)

text \<open>A live task moves to another phase, its lock and the count of its model with it.\<close>

lemma inv_move:
  assumes inv: "gate_inv g" and i: "i < length (ga_tasks g)" "live (ga_tasks g ! i)" "tk_lock (ga_tasks g ! i) = Some l"
    and p: "p \<noteq> Waiting" "p \<noteq> Ended Release_raised"
    and tasks: "ga_tasks g' = (ga_tasks g)[i := t]" "tk_phase t = p" "tk_lock t = Some l" "tk_model t = tk_model (ga_tasks g ! i)"
    and env: "ga_refs g' = ga_refs g" "ms_locks (ga_store g') = ms_locks (ga_store g)" "ms_backends (ga_store g') = ms_backends (ga_store g)"
      "ms_info (ga_store g') = ms_info (ga_store g)"
    and object: "ga_objects g' = (ga_objects g)[l := x]" "lo_kind x = lo_kind (ga_objects g ! l)" "0 \<le> lo_value x"
      "lo_value x = lo_value (ga_objects g ! l) + of_bool (tk_phase (ga_tasks g ! i) = Running) - of_bool (p = Running)"
      "lo_waiters x = removeAll i (lo_waiters (ga_objects g ! l))"
    and depth: "\<And>d. map_of (ms_queue_depth (ga_store g)) (tk_model t) = Some d \<Longrightarrow> 0 < d \<Longrightarrow>
      map_of (ms_queue_depth (ga_store g')) = (map_of (ms_queue_depth (ga_store g)))(tk_model t \<mapsto> d - of_bool (p \<noteq> Running \<and> p \<noteq> Ended Abandoned))"
    and active: "ga_active g' = ga_active g - of_bool (tk_phase (ga_tasks g ! i) = Running) + of_bool (p = Running)"
  shows "gate_inv g'"
proof -
  let ?t = "ga_tasks g ! i"
  have mem: "?t \<in> set (ga_tasks g)" using i(1) by simp
  have ref: "map_of (ga_refs g) (tk_model t) = Some l" and bk: "map_of (ms_backends (ga_store g)) (tk_model t) \<noteq> None" and l: "l < length (ga_objects g)"
    using inv mem i tasks(4) by (auto simp: gate_inv_def tasks_ok_def)
  have old: "tk_phase ?t = Waiting \<or> tk_phase ?t = Running" using i(2) by (simp add: live_def)
  have len: "length (ga_tasks g') = length (ga_tasks g)" "length (ga_objects g') = length (ga_objects g)" using tasks object by simp_all
  note tally = tally_update [OF i(1) tasks(1)]
  have "refs_ok g'" using inv object l env by (intro refs_keep [of g g']) (auto simp: gate_inv_def nth_list_update)
  moreover have "tasks_ok g'"
    using inv p tasks ref bk l i by (auto simp: gate_inv_def tasks_ok_def env len live_def dest!: set_update_subset_insert [THEN subsetD])
  moreover have "object_ok g' k" if k: "k < length (ga_objects g')" for k
  proof (cases "k = l")
    case True
    have ok: "object_ok g l" using inv l by (simp add: gate_inv_def)
    have "filter (\<lambda>j. on_lock Waiting l (ga_tasks g' ! j)) [0..<length (ga_tasks g')] = lo_waiters x"
      using queue_update [OF tasks(1) _ i(1), of "on_lock Waiting l"] tasks(2) p(1) ok object(5) by (simp add: on_lock_def object_ok_def)
    then show ?thesis using ok True l object tally [of "on_lock Running l"] i(3) tasks(2,3) old
      by (auto simp: object_ok_def on_lock_def)
  next
    case False
    then have ok: "object_ok g k" "ga_objects g' ! k = ga_objects g ! k" using inv k len object by (simp_all add: gate_inv_def)
    have "filter (\<lambda>j. on_lock Waiting k (ga_tasks g' ! j)) [0..<length (ga_tasks g')] = filter (\<lambda>j. on_lock Waiting k (ga_tasks g ! j)) [0..<length (ga_tasks g)]"
      using False i tasks by (auto simp: on_lock_def nth_list_update intro!: filter_cong split: if_splits)
    then show ?thesis using ok False tally [of "on_lock Running k"] i(3) tasks(3) by (simp add: object_ok_def on_lock_def)
  qed
  moreover have "map_of (ms_queue_depth (ga_store g')) n = Some (load_on k g')" if n: "map_of (ga_refs g') n = Some k" for n k
  proof -
    have d: "map_of (ms_queue_depth (ga_store g)) (tk_model t) = Some (load_on l g)" using inv ref by (simp add: gate_inv_def)
    have "0 < tally (on_lock (tk_phase ?t) l) g" using i by (intro tally_pos) (simp_all add: on_lock_def)
    moreover have "0 \<le> tally P g" for P by (simp add: tally_def)
    ultimately have "0 < load_on l g" using old by (auto simp: load_on_def add_pos_nonneg add_nonneg_pos)
    note d' = depth [OF d this]
    show ?thesis
    proof (cases "n = tk_model t")
      case True
      then have "k = l" using ref n env(1) by simp
      then show ?thesis using d' True old p i(3) tasks(2,3)
        by (auto simp: load_on_def tally on_lock_def)
    next
      case False
      have uniq: "map_of (ga_refs g) a = Some c \<Longrightarrow> map_of (ga_refs g) b = Some c \<Longrightarrow> a = b" for a b c
        using inv by (auto simp: gate_inv_def refs_ok_def)
      have "k \<noteq> l" using uniq [OF _ ref, of n] n env(1) False by auto
      then have "load_on k g' = load_on k g" using i(3) tasks(3) by (simp add: load_on_def tally on_lock_def)
      then show ?thesis using d' False inv n env(1) by (simp add: gate_inv_def)
    qed
  qed
  moreover have "ga_active g' = tally (\<lambda>t. tk_phase t = Running) g'" using inv active tasks(2) by (simp add: gate_inv_def tally)
  ultimately show ?thesis by (simp add: gate_inv_def)
qed

text \<open>A task without a lock changes its phase: only the depth of a model without a lock may change with it.\<close>

lemma inv_move_free:
  assumes inv: "gate_inv g" and i: "i < length (ga_tasks g)" "live (ga_tasks g ! i)" "tk_lock (ga_tasks g ! i) = None"
    and tasks: "ga_tasks g' = (ga_tasks g)[i := t]" "tk_phase t \<noteq> Ended Release_raised" "tk_lock t = None" "tk_model t = tk_model (ga_tasks g ! i)"
    and env: "ga_refs g' = ga_refs g" "ms_locks (ga_store g') = ms_locks (ga_store g)" "ms_backends (ga_store g') = ms_backends (ga_store g)"
      "ms_info (ga_store g') = ms_info (ga_store g)" "ga_objects g' = ga_objects g"
    and depth: "\<And>n. n \<noteq> tk_model t \<Longrightarrow> map_of (ms_queue_depth (ga_store g')) n = map_of (ms_queue_depth (ga_store g)) n"
    and active: "ga_active g' = ga_active g - of_bool (tk_phase (ga_tasks g ! i) = Running) + of_bool (tk_phase t = Running)"
  shows "gate_inv g'"
proof -
  let ?t = "ga_tasks g ! i"
  have mem: "?t \<in> set (ga_tasks g)" using i(1) by simp
  have ref: "map_of (ga_refs g) (tk_model t) = None" and bk: "map_of (ms_backends (ga_store g)) (tk_model t) \<noteq> None"
    using inv mem i tasks(4) by (auto simp: gate_inv_def tasks_ok_def)
  note tally = tally_update [OF i(1) tasks(1)]
  have same: "tally (on_lock p l) g' = tally (on_lock p l) g" for p l using i(3) tasks(3) by (simp add: tally on_lock_def)
  have queue: "filter (\<lambda>j. on_lock p l (ga_tasks g' ! j)) [0..<length (ga_tasks g')] = filter (\<lambda>j. on_lock p l (ga_tasks g ! j)) [0..<length (ga_tasks g)]" for p l
    using i tasks by (auto simp: on_lock_def nth_list_update intro!: filter_cong split: if_splits)
  have "tasks_ok g'" using inv tasks ref bk i by (auto simp: gate_inv_def tasks_ok_def env live_def dest!: set_update_subset_insert [THEN subsetD])
  moreover have "refs_ok g'" using inv env by (intro refs_keep [of g g']) (simp_all add: gate_inv_def)
  moreover have "\<forall>l < length (ga_objects g'). object_ok g' l" using inv by (simp add: gate_inv_def object_ok_def env same queue)
  moreover have "map_of (ms_queue_depth (ga_store g')) n = Some (load_on l g')" if "map_of (ga_refs g') n = Some l" for n l
    using that inv ref depth [of n] by (cases "n = tk_model t") (simp_all add: gate_inv_def env load_on_def same)
  moreover have "ga_active g' = tally (\<lambda>t. tk_phase t = Running) g'" using inv active by (simp add: gate_inv_def tally)
  ultimately show ?thesis by (simp add: gate_inv_def)
qed

lemma unregister_simps [simp]:
  "ga_store (unregister_group i c g) = ga_store g" "ga_refs (unregister_group i c g) = ga_refs g" "ga_objects (unregister_group i c g) = ga_objects g"
  "ga_tasks (unregister_group i c g) = ga_tasks g" "ga_active (unregister_group i c g) = ga_active g" "ga_timeout (unregister_group i c g) = ga_timeout g"
  by (simp_all add: unregister_group_def Let_def split: option.split)

lemma restore_simps [simp]:
  "ga_store (restore_timeout i g) = ga_store g" "ga_refs (restore_timeout i g) = ga_refs g" "ga_objects (restore_timeout i g) = ga_objects g"
  "ga_tasks (restore_timeout i g) = ga_tasks g" "ga_active (restore_timeout i g) = ga_active g" "ga_groups (restore_timeout i g) = ga_groups g"
  by (simp_all add: restore_timeout_def)

lemma depth_simps [simp]:
  "ga_refs (depth_down m g) = ga_refs g" "ga_objects (depth_down m g) = ga_objects g" "ga_tasks (depth_down m g) = ga_tasks g"
  "ga_active (depth_down m g) = ga_active g" "ms_locks (ga_store (depth_down m g)) = ms_locks (ga_store g)"
  "ms_backends (ga_store (depth_down m g)) = ms_backends (ga_store g)" "ms_info (ga_store (depth_down m g)) = ms_info (ga_store g)"
  "map_of (ms_queue_depth (ga_store (depth_down m g))) = (map_of (ms_queue_depth (ga_store g)))(m \<mapsto> max 0 (dict_get (ms_queue_depth (ga_store g)) m 1 - 1))"
  by (simp_all add: depth_down_def set_depth_def)

lemma phase_simps [simp]:
  "ga_store (set_phase i p g) = ga_store g" "ga_refs (set_phase i p g) = ga_refs g" "ga_objects (set_phase i p g) = ga_objects g"
  "ga_tasks (set_phase i p g) = (ga_tasks g)[i := (ga_tasks g ! i)\<lparr>tk_phase := p\<rparr>]" "ga_active (set_phase i p g) = ga_active g"
  by (simp_all add: set_phase_def)

lemma leave_simps [simp]:
  "ga_store (leave_queue i g) = ga_store g" "ga_refs (leave_queue i g) = ga_refs g" "ga_tasks (leave_queue i g) = ga_tasks g"
  "ga_active (leave_queue i g) = ga_active g"
  by (simp_all add: leave_queue_def split: option.split)

lemma live_facts:
  assumes "gate_inv g" "i < length (ga_tasks g)" "live (ga_tasks g ! i)"
  shows "map_of (ga_refs g) (tk_model (ga_tasks g ! i)) = tk_lock (ga_tasks g ! i)"
    and "tk_lock (ga_tasks g ! i) = Some l \<Longrightarrow> l < length (ga_objects g) \<and> object_ok g l"
proof -
  have "ga_tasks g ! i \<in> set (ga_tasks g)" using assms(2) by simp
  then show "map_of (ga_refs g) (tk_model (ga_tasks g ! i)) = tk_lock (ga_tasks g ! i)"
    and "tk_lock (ga_tasks g ! i) = Some l \<Longrightarrow> l < length (ga_objects g) \<and> object_ok g l"
    using assms(1,3) by (auto simp: gate_inv_def tasks_ok_def)
qed

text \<open>A running task of a calm run finds its lock taken: releasing it does not raise.\<close>

lemma release_ok:
  assumes inv: "gate_inv g" and i: "is_in Running i g" "tk_lock (ga_tasks g ! i) = Some l"
  shows "release_object (ga_objects g ! l) = Some ((ga_objects g ! l)\<lparr>lo_value := lo_value (ga_objects g ! l) + 1\<rparr>)"
proof -
  have i': "i < length (ga_tasks g)" "tk_phase (ga_tasks g ! i) = Running" using i(1) by (simp_all add: is_in_def)
  then have "object_ok g l" using live_facts(2) [OF inv _ _ i(2)] by (simp add: live_def)
  moreover have "0 < tally (on_lock Running l) g" using i' i(2) by (intro tally_pos) (simp_all add: on_lock_def)
  ultimately show ?thesis by (auto simp: release_object_def object_ok_def)
qed

lemma finish_inv:
  assumes inv: "gate_inv g" and i: "is_in Running i g" and out: "out \<noteq> Release_raised" "out \<noteq> Abandoned"
  shows "gate_inv (finish_call i out now g)"
proof -
  let ?t = "ga_tasks g ! i"
  have i': "i < length (ga_tasks g)" "tk_phase ?t = Running" "live ?t" using i by (simp_all add: is_in_def live_def)
  note facts = live_facts [OF inv i'(1,3)]
  show ?thesis
  proof (cases "tk_lock ?t")
    case None
    then show ?thesis using facts(1) i' out
      by (intro inv_move_free [OF inv i'(1,3) None, where t = "?t\<lparr>tk_phase := Ended out\<rparr>"]) (auto simp: finish_call_def release_model_def Let_def)
  next
    case (Some l)
    note rel = release_ok [OF inv i Some]
    have ok: "object_ok g l" using facts(2) [OF Some] by simp
    then have "removeAll i (lo_waiters (ga_objects g ! l)) = lo_waiters (ga_objects g ! l)"
      using i'(2) by (auto simp: object_ok_def on_lock_def intro!: removeAll_id)
    then show ?thesis using facts(1) Some rel i' out ok
      by (intro inv_move [OF inv i'(1,3) Some, where p = "Ended out" and t = "?t\<lparr>tk_phase := Ended out\<rparr>"
            and x = "(ga_objects g ! l)\<lparr>lo_value := lo_value (ga_objects g ! l) + 1\<rparr>"])
        (auto simp: finish_call_def release_model_def dict_get_def object_ok_def Let_def)
  qed
qed

lemma leave_inv:
  assumes inv: "gate_inv g" and i: "is_in Waiting i g"
  shows "gate_inv (time_out i g)" and "gate_inv (abandon i g)"
proof -
  let ?t = "ga_tasks g ! i"
  have i': "i < length (ga_tasks g)" "tk_phase ?t = Waiting" "live ?t" using i by (simp_all add: is_in_def live_def)
  note facts = live_facts [OF inv i'(1,3)]
  show "gate_inv (time_out i g)"
  proof (cases "tk_lock ?t")
    case None
    then show ?thesis using facts(1) i'
      by (intro inv_move_free [OF inv i'(1,3) None, where t = "?t\<lparr>tk_phase := Ended Busy\<rparr>"]) (auto simp: time_out_def leave_queue_def Let_def)
  next
    case (Some l)
    then show ?thesis using facts(1) i' facts(2) [OF Some]
      by (intro inv_move [OF inv i'(1,3) Some, where p = "Ended Busy" and t = "?t\<lparr>tk_phase := Ended Busy\<rparr>"
            and x = "(ga_objects g ! l)\<lparr>lo_waiters := removeAll i (lo_waiters (ga_objects g ! l))\<rparr>"])
        (auto simp: time_out_def leave_queue_def dict_get_def object_ok_def Let_def)
  qed
  show "gate_inv (abandon i g)"
  proof (cases "tk_lock ?t")
    case None
    then show ?thesis using facts(1) i'
      by (intro inv_move_free [OF inv i'(1,3) None, where t = "?t\<lparr>tk_phase := Ended Abandoned\<rparr>"]) (auto simp: abandon_def leave_queue_def Let_def)
  next
    case (Some l)
    then show ?thesis using facts(1) i' facts(2) [OF Some]
      by (intro inv_move [OF inv i'(1,3) Some, where p = "Ended Abandoned" and t = "?t\<lparr>tk_phase := Ended Abandoned\<rparr>"
            and x = "(ga_objects g ! l)\<lparr>lo_waiters := removeAll i (lo_waiters (ga_objects g ! l))\<rparr>"])
        (auto simp: abandon_def leave_queue_def dict_get_def object_ok_def Let_def)
  qed
qed

lemma started_inv:
  assumes "gate_inv (set_phase i Running ((restore_timeout i g)\<lparr>ga_active := ga_active g + 1\<rparr>))" "i < length (ga_tasks g)"
  shows "gate_inv (start i now g)"
  using assms finish_inv [OF assms(1), of i Group_cancelled now] by (simp add: start_def is_in_def Let_def)

lemma start_free_inv:
  assumes inv: "gate_inv g" and i: "is_in Waiting i g" "tk_lock (ga_tasks g ! i) = None"
  shows "gate_inv (start i now g)"
proof (rule started_inv)
  show "i < length (ga_tasks g)" using i(1) by (simp add: is_in_def)
  show "gate_inv (set_phase i Running ((restore_timeout i g)\<lparr>ga_active := ga_active g + 1\<rparr>))"
    using i by (intro inv_move_free [OF inv _ _ i(2), where t = "(ga_tasks g ! i)\<lparr>tk_phase := Running\<rparr>"]) (auto simp: is_in_def live_def)
qed

lemma granted:
  assumes inv: "gate_inv g" and g: "grant l now g = Some g'"
  obtains i rest where "lo_waiters (ga_objects g ! l) = i # rest" "is_in Waiting i g" "tk_lock (ga_tasks g ! i) = Some l" "l < length (ga_objects g)"
    "0 < lo_value (ga_objects g ! l)" "rest = removeAll i (i # rest)" "\<forall>j. is_in Waiting j g \<and> tk_lock (ga_tasks g ! j) = Some l \<longrightarrow> i \<le> j"
    "g' = start i now (g\<lparr>ga_objects := (ga_objects g)[l := (ga_objects g ! l)\<lparr>lo_value := lo_value (ga_objects g ! l) - 1, lo_waiters := rest\<rparr>]\<rparr>)"
proof -
  obtain i rest where i: "lo_waiters (ga_objects g ! l) = i # rest" "l < length (ga_objects g)" "0 < lo_value (ga_objects g ! l)"
    "g' = start i now (g\<lparr>ga_objects := (ga_objects g)[l := (ga_objects g ! l)\<lparr>lo_value := lo_value (ga_objects g ! l) - 1, lo_waiters := rest\<rparr>]\<rparr>)"
    using g by (auto simp: grant_def split: if_splits list.splits)
  then have q: "filter (\<lambda>i. on_lock Waiting l (ga_tasks g ! i)) [0..<length (ga_tasks g)] = i # rest"
    using inv by (simp add: gate_inv_def object_ok_def)
  have "i \<in> set (filter (\<lambda>i. on_lock Waiting l (ga_tasks g ! i)) [0..<length (ga_tasks g)])" unfolding q by simp
  then have mine: "is_in Waiting i g" "tk_lock (ga_tasks g ! i) = Some l" by (auto simp: is_in_def on_lock_def)
  have "distinct (i # rest)" "sorted (i # rest)" unfolding q [symmetric] by (simp_all add: sorted_wrt_filter)
  then have "rest = removeAll i (i # rest)" "\<forall>j \<in> set (i # rest). i \<le> j" by simp_all
  moreover have "set (i # rest) = {j. is_in Waiting j g \<and> tk_lock (ga_tasks g ! j) = Some l}"
    unfolding q [symmetric] by (auto simp: is_in_def on_lock_def)
  ultimately have "rest = removeAll i (i # rest)" "\<forall>j. is_in Waiting j g \<and> tk_lock (ga_tasks g ! j) = Some l \<longrightarrow> i \<le> j" by blast+
  then show thesis using that i mine by blast
qed

lemma grant_inv: "gate_inv g \<Longrightarrow> grant l now g = Some g' \<Longrightarrow> gate_inv g'"
proof -
  assume inv: "gate_inv g" and g: "grant l now g = Some g'"
  obtain i rest where i: "lo_waiters (ga_objects g ! l) = i # rest" "is_in Waiting i g" "tk_lock (ga_tasks g ! i) = Some l" "l < length (ga_objects g)"
      "0 < lo_value (ga_objects g ! l)" "rest = removeAll i (i # rest)"
      "g' = start i now (g\<lparr>ga_objects := (ga_objects g)[l := (ga_objects g ! l)\<lparr>lo_value := lo_value (ga_objects g ! l) - 1, lo_waiters := rest\<rparr>]\<rparr>)"
    by (rule granted [OF inv g])
  let ?x = "(ga_objects g ! l)\<lparr>lo_value := lo_value (ga_objects g ! l) - 1, lo_waiters := rest\<rparr>"
  show "gate_inv g'" unfolding i(7)
  proof (rule started_inv)
    show "gate_inv (set_phase i Running ((restore_timeout i (g\<lparr>ga_objects := (ga_objects g)[l := ?x]\<rparr>))
        \<lparr>ga_active := ga_active (g\<lparr>ga_objects := (ga_objects g)[l := ?x]\<rparr>) + 1\<rparr>))"
      using i(1-6) by (intro inv_move [OF inv _ _ i(3), where p = Running and t = "(ga_tasks g ! i)\<lparr>tk_phase := Running\<rparr>" and x = ?x])
        (auto simp: is_in_def live_def fun_upd_idem)
    show "i < length (ga_tasks (g\<lparr>ga_objects := (ga_objects g)[l := ?x]\<rparr>))" using i(2) by (simp add: is_in_def)
  qed
qed

lemma append_inv:
  assumes inv: "gate_inv g" and t: "tk_phase t = Waiting" "tk_lock t = map_of (ga_refs g) m" "tk_model t = m" "map_of (ms_backends (ga_store g)) m \<noteq> None"
    and reg: "ga_store g1 = ga_store g" "ga_refs g1 = ga_refs g" "ga_objects g1 = ga_objects g" "ga_tasks g1 = ga_tasks g @ [t]" "ga_active g1 = ga_active g"
  shows "gate_inv (acquire_model (length (ga_tasks g)) m g1)"
proof -
  let ?g = "acquire_model (length (ga_tasks g)) m g1"
  have env: "ga_refs ?g = ga_refs g" "ms_locks (ga_store ?g) = ms_locks (ga_store g)" "ms_backends (ga_store ?g) = ms_backends (ga_store g)"
    "ga_tasks ?g = ga_tasks g @ [t]" "ga_active ?g = ga_active g" "length (ga_objects ?g) = length (ga_objects g)"
    "ms_info (ga_store ?g) = ms_info (ga_store g)"
    using reg by (simp_all add: acquire_model_def set_depth_def split: option.split)
  have bound: "map_of (ga_refs g) m = Some k \<Longrightarrow> k < length (ga_objects g)" for k
    using inv by (auto simp: gate_inv_def refs_ok_def split: option.splits)
  have obj: "lo_kind (ga_objects ?g ! l) = lo_kind (ga_objects g ! l)" "lo_value (ga_objects ?g ! l) = lo_value (ga_objects g ! l)"
    "lo_waiters (ga_objects ?g ! l) = lo_waiters (ga_objects g ! l) @ (if map_of (ga_refs g) m = Some l then [length (ga_tasks g)] else [])"
    if "l < length (ga_objects g)" for l
    using that reg bound by (auto simp: acquire_model_def set_depth_def nth_list_update split: option.split)
  have tally: "tally P ?g = tally P g + of_bool (P t)" for P using env(4) by (simp add: tally_def)
  have queue: "filter (\<lambda>i. P (ga_tasks ?g ! i)) [0..<length (ga_tasks ?g)] = filter (\<lambda>i. P (ga_tasks g ! i)) [0..<length (ga_tasks g)] @ (if P t then [length (ga_tasks g)] else [])" for P
    using env(4) by (auto simp: nth_append intro!: filter_cong)
  have depth: "map_of (ms_queue_depth (ga_store ?g)) n = (case map_of (ga_refs g) m of
      None \<Rightarrow> map_of (ms_queue_depth (ga_store g)) n
    | Some l \<Rightarrow> if n = m then Some (dict_get (ms_queue_depth (ga_store g)) m 0 + 1) else map_of (ms_queue_depth (ga_store g)) n)" for n
    using reg by (simp add: acquire_model_def set_depth_def split: option.split)
  have mine: "on_lock Waiting l t \<longleftrightarrow> map_of (ga_refs g) m = Some l" "\<not> on_lock Running l t" "\<not> on_lock (Ended x) l t" for l x
    using t(1,2) by (simp_all add: on_lock_def)
  have "refs_ok ?g" using inv obj env by (intro refs_keep [of g ?g]) (simp_all add: gate_inv_def)
  moreover have "tasks_ok ?g" using inv t by (auto simp: gate_inv_def tasks_ok_def env refs_ok_def split: option.splits)
  moreover have "object_ok ?g l" if "l < length (ga_objects ?g)" for l
    using that inv obj [of l] env(6) queue [of "on_lock Waiting l"] tally [of "on_lock Running l"]
    by (auto simp: gate_inv_def object_ok_def mine)
  moreover have "map_of (ms_queue_depth (ga_store ?g)) n = Some (load_on l ?g)" if n: "map_of (ga_refs ?g) n = Some l" for n l
  proof (cases "n = m")
    case True
    then show ?thesis using n inv env(1) by (simp add: depth gate_inv_def load_on_def tally mine dict_get_def)
  next
    case False
    have "map_of (ga_refs g) a = Some c \<Longrightarrow> map_of (ga_refs g) b = Some c \<Longrightarrow> a = b" for a b c
      using inv by (auto simp: gate_inv_def refs_ok_def)
    then have "map_of (ga_refs g) m \<noteq> Some l" using n env(1) False by auto
    then show ?thesis using False n inv env(1) by (simp add: depth gate_inv_def load_on_def tally mine split: option.split)
  qed
  moreover have "ga_active ?g = tally (\<lambda>t. tk_phase t = Running) ?g" using inv t(1) env(5) by (simp add: gate_inv_def tally)
  ultimately show ?thesis by (simp add: gate_inv_def)
qed

lemma enter_inv:
  assumes inv: "gate_inv g" and m: "map_of (ms_backends (ga_store g)) m \<noteq> None"
  shows "gate_inv (enter c m now g)"
proof -
  let ?i = "length (ga_tasks g)"
  define timeout where "timeout = (if cl_kind c = Generate \<and> cl_speculative c then min 10 (ga_timeout g) else ga_timeout g)"
  define t where "t = \<lparr>tk_call = c, tk_model = m, tk_lock = map_of (ga_refs g) m, tk_orig = ga_timeout g, tk_timeout = timeout,
    tk_event = False, tk_phase = Waiting\<rparr>"
  define g1 where "g1 = (if cl_kind c = Generate then register_group ?i c g else g)\<lparr>ga_tasks := ga_tasks g @ [t], ga_timeout := timeout\<rparr>"
  have reg: "ga_store g1 = ga_store g" "ga_refs g1 = ga_refs g" "ga_objects g1 = ga_objects g" "ga_tasks g1 = ga_tasks g @ [t]" "ga_active g1 = ga_active g"
    by (simp_all add: g1_def register_group_def)
  have ok: "gate_inv (acquire_model ?i m g1)" by (rule append_inv [OF inv _ _ _ m reg]) (simp_all add: t_def)
  have "enter c m now g = (if map_of (ga_refs g) m = None then start ?i now (acquire_model ?i m g1) else acquire_model ?i m g1)"
    by (simp add: enter_def g1_def t_def timeout_def Let_def)
  moreover have "gate_inv (start ?i now (acquire_model ?i m g1))" if "map_of (ga_refs g) m = None"
    using that ok reg by (intro start_free_inv) (simp_all add: acquire_model_def is_in_def t_def)
  ultimately show ?thesis using ok by simp
qed

lemma inv_cong:
  assumes "ga_refs g' = ga_refs g" "ga_objects g' = ga_objects g" "ga_tasks g' = ga_tasks g" "ga_active g' = ga_active g"
    "ms_locks (ga_store g') = ms_locks (ga_store g)" "ms_backends (ga_store g') = ms_backends (ga_store g)"
    "ms_info (ga_store g') = ms_info (ga_store g)" "ms_queue_depth (ga_store g') = ms_queue_depth (ga_store g)"
  shows "gate_inv g' = gate_inv g"
  unfolding gate_inv_def refs_ok_def tasks_ok_def object_ok_def load_on_def tally_def assms ..

lemma event_inv: "gate_inv g \<Longrightarrow> gate_inv (g\<lparr>ga_tasks := (ga_tasks g)[i := (ga_tasks g ! i)\<lparr>tk_event := True\<rparr>]\<rparr>)"
proof (cases "i < length (ga_tasks g)")
  case True
  assume inv: "gate_inv g"
  let ?t = "(ga_tasks g ! i)\<lparr>tk_event := True\<rparr>" and ?g = "g\<lparr>ga_tasks := (ga_tasks g)[i := (ga_tasks g ! i)\<lparr>tk_event := True\<rparr>]\<rparr>"
  have tally: "tally P ?g = tally P g" if "P ?t = P (ga_tasks g ! i)" for P using tally_update [OF True, of ?g ?t P] that by simp
  have phases: "tally (\<lambda>t. tk_phase t = Running) ?g = tally (\<lambda>t. tk_phase t = Running) g" by (rule tally) simp
  have on: "on_lock p l ?t = on_lock p l (ga_tasks g ! i)" for p l by (simp add: on_lock_def)
  have queue: "filter (\<lambda>j. on_lock p l (ga_tasks ?g ! j)) [0..<length (ga_tasks ?g)] = filter (\<lambda>j. on_lock p l (ga_tasks g ! j)) [0..<length (ga_tasks g)]" for p l
    using True on by (auto simp: nth_list_update intro!: filter_cong split: if_splits)
  have "tasks_ok ?g" using inv True by (auto simp: gate_inv_def tasks_ok_def live_def dest!: set_update_subset_insert [THEN subsetD] nth_mem)
  moreover have "refs_ok ?g" using inv by (intro refs_keep [of g ?g]) (simp_all add: gate_inv_def)
  moreover have "object_ok ?g l = object_ok g l" for l using queue [of Waiting l] by (simp add: object_ok_def tally [OF on])
  ultimately show ?thesis using inv phases by (simp add: gate_inv_def load_on_def tally [OF on])
next
  case False
  assume inv: "gate_inv g"
  have "gate_inv (g\<lparr>ga_tasks := (ga_tasks g)[i := (ga_tasks g ! i)\<lparr>tk_event := True\<rparr>]\<rparr>) = gate_inv g"
    using False by (intro inv_cong) (simp_all add: list_update_beyond)
  then show ?thesis using inv by simp
qed

lemma cancel_inv: "gate_inv g \<Longrightarrow> gate_inv (fst (cancel_group name g))"
proof -
  have "gate_inv g \<Longrightarrow> gate_inv (g\<lparr>ga_tasks := fold (\<lambda>i ts. ts[i := (ts ! i)\<lparr>tk_event := True\<rparr>]) is (ga_tasks g)\<rparr>)" for "is"
  proof (induction "is" arbitrary: g)
    case (Cons i "is")
    from Cons.IH [OF event_inv [OF Cons.prems, of i]] show ?case by simp
  qed simp
  moreover have "gate_inv (g\<lparr>ga_groups := x, ga_tasks := y\<rparr>) = gate_inv (g\<lparr>ga_tasks := y\<rparr>)" for x y by (rule inv_cong) simp_all
  ultimately show "gate_inv g \<Longrightarrow> gate_inv (fst (cancel_group name g))" by (simp add: cancel_group_def Let_def)
qed

section \<open>Loading and unloading\<close>

lemma gate_load_effect:
  assumes "load_model E path name bt a s d = (r, s', d')"
  shows "case r of
      Loaded n \<Rightarrow> if map_of (ms_backends s) n \<noteq> None then s' = s
        else \<exists>b k i. ms_info s' = dict_set (ms_info s) n i \<and> ms_backends s' = dict_set (ms_backends s) n b \<and> ms_locks s' = dict_set (ms_locks s) n k \<and> \<not> refused_lock k
          \<and> ms_queue_depth s' = dict_set (ms_queue_depth s) n 0
    | Load_failed e \<Rightarrow> ms_info s' = ms_info s \<and> ms_locks s' = ms_locks s \<and> ms_queue_depth s' = ms_queue_depth s
        \<and> (\<forall>n. map_of (ms_backends s) n \<noteq> None \<longrightarrow> map_of (ms_backends s') n \<noteq> None)
    | Killed \<Rightarrow> True"
proof (cases "if py_startswith path ''hf:'' then le_fetch E path else Inr path")
  case (Inl e)
  then show ?thesis using assms by (auto simp: load_model_def)
next
  case (Inr p)
  let ?rt = "runtime_backend E path bt"
  define n where "n = (case name of Some n \<Rightarrow> or_str n (if p \<noteq> [] then path_stem p else ''remote-model'')
    | None \<Rightarrow> if p \<noteq> [] then path_stem p else ''remote-model'')"
  note load = assms [unfolded load_model_def Inr sum.case Let_def, folded n_def]
  consider (old) "map_of (ms_backends s) n \<noteq> None" | (killed) "map_of (ms_backends s) n = None" "try_load E p n bt ?rt a = Inr None"
    | (failed) e where "map_of (ms_backends s) n = None" "try_load E p n bt ?rt a = Inr (Some e)"
    | (ok) b v where "map_of (ms_backends s) n = None" "try_load E p n bt ?rt a = Inl (b, v)"
    by (metis surj_pair sum.exhaust option.exhaust)
  then show ?thesis
  proof cases
    case (ok b v)
    show ?thesis
    proof (cases "refused_lock (model_lock bt ?rt a)")
      case True
      then show ?thesis using load ok by auto
    next
      case False
      obtain s3 d3 where r: "save_model_configs (le_writable E) (add_model E p n bt ?rt a b v (s\<lparr>ms_status := dict_set (ms_status s) n (''loading'', [])\<rparr>)) d = (s3, d3)"
        by fastforce
      have "ms_info s3 = dict_set (ms_info s) n (loaded_info E p n bt a v) \<and> ms_backends s3 = dict_set (ms_backends s) n b \<and> ms_locks s3 = dict_set (ms_locks s) n (model_lock bt ?rt a)
          \<and> ms_queue_depth s3 = dict_set (ms_queue_depth s) n 0"
        using r by (auto simp: save_model_configs_def add_model_def Let_def)
      then show ?thesis using load ok r False by (auto split: if_splits)
    qed
  qed (use load in \<open>auto split: if_splits\<close>)
qed

lemma gate_unload_effect:
  assumes "unload_model w n disable s d = (s', d')"
  shows "if map_of (ms_backends s) n = None then s' = s
    else ms_backends s' = dict_pop (ms_backends s) n \<and> ms_info s' = dict_pop (ms_info s) n \<and> ms_locks s' = dict_pop (ms_locks s) n \<and> ms_queue_depth s' = dict_pop (ms_queue_depth s) n"
  using assms by (auto simp: unload_model_def save_model_configs_def Let_def split: if_splits option.splits)

lemma unload_inv: "gate_inv g \<Longrightarrow> idle n g \<Longrightarrow> gate_inv (gate_unload w n disable g)"
proof -
  assume inv: "gate_inv g" and quiet: "idle n g"
  obtain s d where u: "unload_model w n disable (ga_store g) (ga_disk g) = (s, d)" by fastforce
  note eff = gate_unload_effect [OF u]
  show ?thesis
  proof (cases "map_of (ms_backends (ga_store g)) n")
    case None
    then have "gate_inv (gate_unload w n disable g) = gate_inv g" using u eff by (intro inv_cong) (simp_all add: gate_unload_def)
    then show ?thesis using inv by simp
  next
    case (Some b)
    let ?g = "gate_unload w n disable g"
    have g: "ga_refs ?g = dict_pop (ga_refs g) n" "ga_objects ?g = ga_objects g" "ga_tasks ?g = ga_tasks g" "ga_active ?g = ga_active g"
      "ms_locks (ga_store ?g) = dict_pop (ms_locks (ga_store g)) n" "ms_backends (ga_store ?g) = dict_pop (ms_backends (ga_store g)) n"
      "ms_queue_depth (ga_store ?g) = dict_pop (ms_queue_depth (ga_store g)) n" "ms_info (ga_store ?g) = dict_pop (ms_info (ga_store g)) n"
      using u eff Some by (simp_all add: gate_unload_def)
    have "refs_ok ?g" using inv unfolding gate_inv_def refs_ok_def g by (auto split: option.splits)
    moreover have "tasks_ok ?g" using inv quiet by (auto simp: gate_inv_def tasks_ok_def idle_def g live_def)
    ultimately show ?thesis using inv unfolding gate_inv_def object_ok_def load_on_def tally_def g by auto
  qed
qed

lemma load_inv: "gate_inv g \<Longrightarrow> gate_load E path name bt a g = Some g' \<Longrightarrow> gate_inv g'"
proof -
  assume inv: "gate_inv g" and g': "gate_load E path name bt a g = Some g'"
  obtain r s d where l: "load_model E path name bt a (ga_store g) (ga_disk g) = (r, s, d)" by (metis surj_pair)
  note eff = gate_load_effect [OF l]
  show "gate_inv g'"
  proof (cases r)
    case Killed
    then show ?thesis using g' l by (simp add: gate_load_def)
  next
    case (Load_failed e)
    then have g: "g' = g\<lparr>ga_store := s, ga_disk := d\<rparr>" using g' l by (simp add: gate_load_def)
    have "refs_ok g'" using inv eff Load_failed g by (intro refs_keep [of g g']) (simp_all add: gate_inv_def)
    moreover have "tasks_ok g'" using inv eff Load_failed unfolding gate_inv_def tasks_ok_def g by simp
    ultimately show ?thesis using inv eff Load_failed unfolding gate_inv_def object_ok_def load_on_def tally_def g by simp
  next
    case (Loaded n)
    show ?thesis
    proof (cases "map_of (ms_backends (ga_store g)) n")
      case (Some b)
      then have "gate_inv g' = gate_inv g" using g' l eff Loaded by (intro inv_cong) (auto simp: gate_load_def)
      then show ?thesis using inv by simp
    next
      case None
      then obtain b k i where new: "ms_info s = dict_set (ms_info (ga_store g)) n i" "ms_backends s = dict_set (ms_backends (ga_store g)) n b" "ms_locks s = dict_set (ms_locks (ga_store g)) n k"
        "\<not> refused_lock k" "ms_queue_depth s = dict_set (ms_queue_depth (ga_store g)) n 0" using eff Loaded by auto
      have g: "g' = g\<lparr>ga_store := s, ga_disk := d, ga_refs := dict_set (ga_refs g) n (length (ga_objects g)), ga_objects := ga_objects g @ [new_lock k]\<rparr>"
        using g' l Loaded None new by (simp add: gate_load_def)
      have below: "map_of (ga_refs g) m = Some j \<Longrightarrow> j < length (ga_objects g)" for m j
        using inv by (auto simp: gate_inv_def refs_ok_def split: option.splits)
      have "map_option (\<lambda>l. lo_kind ((ga_objects g @ [new_lock k]) ! l)) (map_of (ga_refs g) m) = map_option (\<lambda>l. lo_kind (ga_objects g ! l)) (map_of (ga_refs g) m)" for m
        using below by (cases "map_of (ga_refs g) m") (auto simp: nth_append)
      then have "refs_ok g'" using inv below new unfolding gate_inv_def refs_ok_def g
        by (auto simp: new_lock_def dest: below)
      moreover have "tasks_ok g'" using inv None new unfolding gate_inv_def tasks_ok_def g by (auto dest: less_SucI)
      moreover have unused: "\<not> on_lock p (length (ga_objects g)) t" if "t \<in> set (ga_tasks g)" for p t
        using inv that by (auto simp: gate_inv_def tasks_ok_def on_lock_def)
      have none: "tally (on_lock p (length (ga_objects g))) g = 0" for p using unused by (simp add: tally_def)
      have same: "tally P g' = tally P g" for P by (simp add: tally_def g)
      have "object_ok g' j" if "j < length (ga_objects g')" for j
      proof (cases "j = length (ga_objects g)")
        case True
        have "0 \<le> permits k" using new(4) by (cases k) auto
        moreover have "filter (\<lambda>i. on_lock Waiting j (ga_tasks g ! i)) [0..<length (ga_tasks g)] = []"
          using unused [of _ Waiting] True by (auto simp: filter_empty_conv)
        ultimately show ?thesis using True none by (simp add: object_ok_def same) (simp add: g nth_append new_lock_def)
      next
        case False
        then have "object_ok g j" "ga_objects g' ! j = ga_objects g ! j" using that inv by (auto simp: gate_inv_def g nth_append)
        then show ?thesis by (simp add: object_ok_def same) (simp add: g)
      qed
      moreover have "map_of (ms_queue_depth (ga_store g')) m = Some (load_on j g')" if "map_of (ga_refs g') m = Some j" for m j
        using that inv new none by (auto simp: gate_inv_def load_on_def same) (auto simp: g split: if_splits)
      moreover have "ga_active g' = tally (\<lambda>t. tk_phase t = Running) g'" using inv by (simp add: gate_inv_def same) (simp add: g)
      ultimately show ?thesis by (simp add: gate_inv_def)
    qed
  qed
qed

lemma calm_run_inv: "calm_run g \<Longrightarrow> gate_inv g"
proof (induction rule: calm_run.induct)
  case (Begin timeout d)
  show ?case by (simp add: gate_inv_def new_gate_def refs_ok_def tasks_ok_def fresh_store_def tally_def)
next
  case (Step g e g')
  then show ?case
  proof (cases e)
    case (Evict_next w)
    then obtain v vs where "ga_victims g = v # vs" "idle v g" "g' = gate_unload w v False (g\<lparr>ga_victims := vs\<rparr>)" using Step by (auto split: list.splits)
    moreover have "gate_inv (g\<lparr>ga_victims := vs\<rparr>)" using Step.IH inv_cong [of "g\<lparr>ga_victims := vs\<rparr>" g] by simp
    ultimately show ?thesis using unload_inv [of "g\<lparr>ga_victims := vs\<rparr>"] by (simp add: idle_def)
  next
    case (Pick now idle keep)
    then show ?thesis using Step inv_cong [of g' g] by (auto split: if_splits)
  qed (auto split: if_splits intro: enter_inv grant_inv finish_inv leave_inv cancel_inv load_inv unload_inv)
qed

section \<open>Who runs, and who is next\<close>

lemma tally_model:
  assumes "gate_inv g" "map_of (ga_refs g) n = Some l" "p = Waiting \<or> p = Running"
  shows "tally (on_lock p l) g = int (length (filter (\<lambda>t. tk_phase t = p \<and> tk_model t = n) (ga_tasks g)))"
proof -
  have "on_lock p l t \<longleftrightarrow> tk_phase t = p \<and> tk_model t = n" if "t \<in> set (ga_tasks g)" for t
    using assms that by (auto simp: gate_inv_def tasks_ok_def refs_ok_def on_lock_def live_def)
  then show ?thesis unfolding tally_def by (auto cong: filter_cong)
qed

lemma tally_nonneg [simp]: "0 \<le> tally P g"
  by (simp add: tally_def)

lemma picked_idle: "gate_inv g \<Longrightarrow> v \<in> set (pick_victims now idle_seconds keep g) \<Longrightarrow> idle v g"
proof -
  assume inv: "gate_inv g" and v: "v \<in> set (pick_victims now idle_seconds keep g)"
  have "mset (foldr insert_idle xs []) = mset xs" for xs by (induction xs) (simp_all add: insert_idle_props)
  then have "set (foldr insert_idle xs []) = set xs" for xs by (metis set_mset_mset)
  then obtain last where "(last, v) \<in> set (evictable (held g) now idle_seconds (ga_store g))"
    using v by (auto simp: pick_victims_def evict_idle_models_def Let_def dest: in_set_butlastD split: if_splits)
  then obtain info where "(v, info) \<in> set (ms_info (ga_store g))" "\<not> dict_get (ms_queue_depth (ga_store g)) v 0 > 0"
    by (auto simp: evictable_def map_filter_def Let_def split: if_splits)
  moreover from this have "map_of (ms_info (ga_store g)) v \<noteq> None" by (metis weak_map_of_SomeI option.distinct(1))
  then obtain l where l: "map_of (ga_refs g) v = Some l" using inv by (auto simp: gate_inv_def refs_ok_def)
  ultimately have "load_on l g \<le> 0" using inv by (simp add: gate_inv_def dict_get_def)
  moreover have "0 \<le> tally (on_lock p l) g" for p by simp
  ultimately have "tally (on_lock Waiting l) g = 0" "tally (on_lock Running l) g = 0" unfolding load_on_def
    by (smt (verit))+
  then show "idle v g" using tally_model [OF inv l] by (auto simp: idle_def filter_empty_conv)
qed


lemma finish_effect:
  assumes "gate_inv g" "is_in Running i g" "tk_lock (ga_tasks g ! i) = Some l"
  shows "ga_tasks (finish_call i out now g) = (ga_tasks g)[i := (ga_tasks g ! i)\<lparr>tk_phase := Ended out\<rparr>]"
    and "ga_objects (finish_call i out now g) = (ga_objects g)[l := (ga_objects g ! l)\<lparr>lo_value := lo_value (ga_objects g ! l) + 1\<rparr>]"
proof -
  have "map_of (ga_refs g) (tk_model (ga_tasks g ! i)) = Some l"
    using live_facts(1) [OF assms(1), of i] assms(2,3) by (simp add: is_in_def live_def)
  then show "ga_tasks (finish_call i out now g) = (ga_tasks g)[i := (ga_tasks g ! i)\<lparr>tk_phase := Ended out\<rparr>]"
    and "ga_objects (finish_call i out now g) = (ga_objects g)[l := (ga_objects g ! l)\<lparr>lo_value := lo_value (ga_objects g ! l) + 1\<rparr>]"
    using release_ok [OF assms] by (simp_all add: finish_call_def release_model_def Let_def)
qed

lemma grant_effect:
  assumes inv: "gate_inv g" and head: "lo_waiters (ga_objects g ! l) = i # rest" "l < length (ga_objects g)" "0 < lo_value (ga_objects g ! l)"
  obtains g' where "grant l now g = Some g'" "gate_inv g'" "lo_waiters (ga_objects g' ! l) = rest" "lo_kind (ga_objects g' ! l) = lo_kind (ga_objects g ! l)"
    "l < length (ga_objects g')" "i < length (ga_tasks g')" "tk_phase (ga_tasks g' ! i) \<in> {Running, Ended Group_cancelled}"
    "\<forall>j. j \<noteq> i \<longrightarrow> is_in Waiting j g' = is_in Waiting j g"
proof -
  let ?x = "(ga_objects g ! l)\<lparr>lo_value := lo_value (ga_objects g ! l) - 1, lo_waiters := rest\<rparr>"
  let ?g = "g\<lparr>ga_objects := (ga_objects g)[l := ?x]\<rparr>" and ?t = "(ga_tasks g ! i)\<lparr>tk_phase := Running\<rparr>"
  obtain g' where g': "grant l now g = Some g'" using head by (simp add: grant_def)
  have ok: "gate_inv g'" by (rule grant_inv [OF inv g'])
  have run: "g' = start i now ?g" and i: "is_in Waiting i g" "tk_lock (ga_tasks g ! i) = Some l" "rest = removeAll i (i # rest)"
    by (rule granted [OF inv g'], use head in simp)+
  let ?s = "set_phase i Running ((restore_timeout i ?g)\<lparr>ga_active := ga_active ?g + 1\<rparr>)"
  have s: "gate_inv ?s"
    using i head by (intro inv_move [OF inv _ _ i(2), where p = Running and t = ?t and x = ?x]) (auto simp: is_in_def live_def fun_upd_idem)
  have st: "ga_tasks ?s = (ga_tasks g)[i := ?t]" "ga_objects ?s = (ga_objects g)[l := ?x]" by simp_all
  have len: "i < length (ga_tasks g)" using i(1) by (simp add: is_in_def)
  have "is_in Running i ?s" "tk_lock (ga_tasks ?s ! i) = Some l" using len i(2) by (simp_all add: is_in_def)
  note fin = finish_effect [OF s this, of Group_cancelled now]
  have "g' = ?s \<or> g' = finish_call i Group_cancelled now ?s" using run by (simp add: start_def Let_def)
  then show thesis
  proof
    assume "g' = ?s"
    then show thesis using that [OF g' ok] st head(2) len by (auto simp: is_in_def nth_list_update)
  next
    assume "g' = finish_call i Group_cancelled now ?s"
    then show thesis using that [OF g' ok] fin st head(2) len by (auto simp: is_in_def nth_list_update)
  qed
qed

text \<open>Finishing what runs on a lock and granting it, the waiters before one and then the one are served.\<close>

fun serves :: "nat \<Rightarrow> gate_event \<Rightarrow> bool" where
  "serves l (Finish i good now) = True"
| "serves l (Grant k now) = (k = l)"
| "serves l _ = False"

lemma gate_run_append: "gate_run (es @ fs) g = (case gate_run es g of None \<Rightarrow> None | Some g' \<Rightarrow> gate_run fs g')"
  by (induction es arbitrary: g) (auto split: option.split)

lemma unlocked:
  assumes inv: "gate_inv g" and l: "l < length (ga_objects g)" "0 < permits (lo_kind (ga_objects g ! l))"
  obtains es g' where "length es \<le> 1" "list_all (serves l) es" "gate_run es g = Some g'" "gate_inv g'" "l < length (ga_objects g')"
    "lo_waiters (ga_objects g' ! l) = lo_waiters (ga_objects g ! l)" "lo_kind (ga_objects g' ! l) = lo_kind (ga_objects g ! l)" "0 < lo_value (ga_objects g' ! l)"
proof (cases "0 < lo_value (ga_objects g ! l)")
  case True
  then show thesis using that [of "[]" g] inv l by simp
next
  case False
  have "object_ok g l" using inv l(1) by (simp add: gate_inv_def)
  then have v: "lo_value (ga_objects g ! l) = 0" "0 < tally (on_lock Running l) g" using False l(2) by (auto simp: object_ok_def)
  then obtain j where j: "j < length (ga_tasks g)" "on_lock Running l (ga_tasks g ! j)"
    by (auto simp: tally_def filter_empty_conv in_set_conv_nth)
  then have r: "is_in Running j g" "tk_lock (ga_tasks g ! j) = Some l" by (simp_all add: is_in_def on_lock_def)
  let ?g = "finish_call j Answered 0 g"
  have "gate_inv ?g" using r by (intro finish_inv [OF inv]) simp_all
  moreover have "gate_run [Finish j True 0] g = Some ?g" using r by simp
  ultimately show thesis using that [of "[Finish j True 0]" ?g] finish_effect [OF inv r, of Answered 0] l v(1) by simp
qed

lemma served:
  "gate_inv g \<Longrightarrow> l < length (ga_objects g) \<Longrightarrow> lo_waiters (ga_objects g ! l) = pre @ i # suf \<Longrightarrow> 0 < permits (lo_kind (ga_objects g ! l)) \<Longrightarrow>
    \<exists>es g'. length es \<le> 2 * (length pre + 1) \<and> list_all (serves l) es \<and> gate_run es g = Some g'
      \<and> i < length (ga_tasks g') \<and> tk_phase (ga_tasks g' ! i) \<in> {Running, Ended Group_cancelled}"
proof (induction pre arbitrary: g)
  case Nil
  obtain es g1 where u: "length es \<le> 1" "list_all (serves l) es" "gate_run es g = Some g1" "gate_inv g1" "l < length (ga_objects g1)"
    "lo_waiters (ga_objects g1 ! l) = lo_waiters (ga_objects g ! l)" "0 < lo_value (ga_objects g1 ! l)"
    by (rule unlocked [OF Nil(1,2,4)])
  have "lo_waiters (ga_objects g1 ! l) = i # suf" using u(6) Nil(3) by simp
  then obtain g2 where "grant l 0 g1 = Some g2" "i < length (ga_tasks g2)" "tk_phase (ga_tasks g2 ! i) \<in> {Running, Ended Group_cancelled}"
    by (rule grant_effect [OF u(4) _ u(5,7), where now = 0])
  then show ?case using u(1-3) by (intro exI [of _ "es @ [Grant l 0]"] exI [of _ g2]) (simp add: gate_run_append)
next
  case (Cons h pre)
  obtain es g1 where u: "length es \<le> 1" "list_all (serves l) es" "gate_run es g = Some g1" "gate_inv g1" "l < length (ga_objects g1)"
    "lo_waiters (ga_objects g1 ! l) = lo_waiters (ga_objects g ! l)" "lo_kind (ga_objects g1 ! l) = lo_kind (ga_objects g ! l)" "0 < lo_value (ga_objects g1 ! l)"
    by (rule unlocked [OF Cons.prems(1,2,4)])
  have "lo_waiters (ga_objects g1 ! l) = h # pre @ i # suf" using u(6) Cons.prems(3) by simp
  then obtain g2 where g2: "grant l 0 g1 = Some g2" "gate_inv g2" "lo_waiters (ga_objects g2 ! l) = pre @ i # suf"
    "lo_kind (ga_objects g2 ! l) = lo_kind (ga_objects g1 ! l)" "l < length (ga_objects g2)"
    by (rule grant_effect [OF u(4) _ u(5,8), where now = 0])
  obtain fs g' where "length fs \<le> 2 * (length pre + 1)" "list_all (serves l) fs" "gate_run fs g2 = Some g'"
      "i < length (ga_tasks g')" "tk_phase (ga_tasks g' ! i) \<in> {Running, Ended Group_cancelled}"
    using Cons.IH [OF g2(2,5,3)] Cons.prems(4) g2(4) u(7) by auto
  then show ?case using u(1-3) g2(1) by (intro exI [of _ "es @ Grant l 0 # fs"] exI [of _ g']) (simp add: gate_run_append)
qed


section \<open>Examples\<close>

fun calm_all :: "gate_event list \<Rightarrow> gate \<Rightarrow> bool" where
  "calm_all [] g = True"
| "calm_all (e # es) g = (calm e g \<and> (case gate_step e g of None \<Rightarrow> False | Some g' \<Rightarrow> calm_all es g'))"

lemma calm_events: "calm_run g \<Longrightarrow> calm_all es g \<Longrightarrow> \<exists>g'. gate_run es g = Some g' \<and> calm_run g'"
proof (induction es arbitrary: g)
  case (Cons e es)
  then obtain g1 where "gate_step e g = Some g1" "calm_all es g1" "calm_run g1"
    using calm_run.Step by (auto split: option.splits)
  then show ?case using Cons.IH by simp
qed auto

definition demo_gate :: gate where
  "demo_gate = new_gate 120 \<lparr>dk_configs = None, dk_attempts = []\<rparr>"

definition demo_load :: gate_event where
  "demo_load = Load demo_load_env ''/g'' (Some ''good'') ''llama.cpp'' demo_args"

definition demo_enter :: "bool \<Rightarrow> gate_event" where
  "demo_enter speculative = Enter \<lparr>cl_kind = Generate, cl_speculative = speculative, cl_group = ''g''\<rparr> ''good'' 1"



section \<open>Where the code falls short of itself\<close>

text \<open>
  A model unloaded and loaded again while a request runs on it has a new lock, and the old request releases
  that one: two requests run at once on an engine that cannot take two.
\<close>

lemma reload_lets_two_in:
  "case gate_run [demo_load, demo_enter False, Grant 0 1, Unload True ''good'' True, demo_load, demo_enter False, Grant 1 1,
      Finish 0 True 1, demo_enter False, Grant 1 1] demo_gate of None \<Rightarrow> False
   | Some g \<Rightarrow> map_of (ms_locks (ga_store g)) ''good'' = Some Mutex \<and> map tk_phase (ga_tasks g) = [Ended Answered, Running, Running]"
  by code_simp

text \<open>If nobody holds the new lock, releasing it raises, and the answer of the old request is lost.\<close>

lemma reload_loses_answer:
  "case gate_run [demo_load, demo_enter False, Grant 0 1, Unload True ''good'' True, demo_load, Finish 0 True 1] demo_gate of None \<Rightarrow> False
   | Some g \<Rightarrow> map tk_phase (ga_tasks g) = [Ended Release_raised] \<and> map_of (ga_groups g) ''g'' = Some [0]"
  by code_simp

text \<open>The timeout of one speculative request stays with the manager, once another call was waiting beside it.\<close>

lemma short_timeout_stays:
  "case gate_run [demo_load, demo_enter False, Grant 0 1, demo_enter True, demo_enter False, Finish 0 True 1, Grant 0 1,
      Finish 1 True 1, Grant 0 1, Finish 2 True 1] demo_gate of None \<Rightarrow> False
   | Some g \<Rightarrow> map tk_phase (ga_tasks g) = [Ended Answered, Ended Answered, Ended Answered] \<and> ga_timeout g = 10"
  by code_simp

text \<open>
  A caller that goes away in the queue leaves the depth up and its group behind, for as long as the model is
  loaded; such a model is never idle enough to be evicted.
\<close>

lemma abandoned_stays_queued:
  "case gate_run [demo_load, demo_enter False, Grant 0 1, demo_enter False, Abandon 1, Finish 0 True 1] demo_gate of None \<Rightarrow> False
   | Some g \<Rightarrow> ga_active g = 0 \<and> idle ''good'' g \<and> map_of (ms_queue_depth (ga_store g)) ''good'' = Some 1
       \<and> map_of (ga_groups g) ''g'' = Some [1] \<and> pick_victims 1000 60 False g = []"
  by code_simp

text \<open>What eviction picked may be in use by the time its turn comes.\<close>

lemma eviction_hits_running:
  "case gate_run [demo_load, Pick 1000 60 False, demo_enter False, Grant 0 1, Evict_next True] demo_gate of None \<Rightarrow> False
   | Some g \<Rightarrow> map tk_phase (ga_tasks g) = [Running] \<and> map_of (ms_backends (ga_store g)) ''good'' = None"
  by code_simp

text \<open>Cancelling a group does not touch a request that waits or runs; one that waits holds its place until it is let in.\<close>

lemma cancel_waits_its_turn:
  "map tk_phase (ga_tasks (fst (cancel_group name g))) = map tk_phase (ga_tasks g) \<and> ga_objects (fst (cancel_group name g)) = ga_objects g"
proof -
  have "map tk_phase (fold (\<lambda>i ts. ts[i := (ts ! i)\<lparr>tk_event := True\<rparr>]) is ts) = map tk_phase ts" for "is" ts
  proof (induction "is" arbitrary: ts)
    case (Cons i "is")
    have "map tk_phase (ts[i := (ts ! i)\<lparr>tk_event := True\<rparr>]) = map tk_phase ts"
      by (cases "i < length ts") (simp_all add: map_update list_update_same_conv list_update_beyond)
    then show ?case using Cons.IH by simp
  qed simp
  then show ?thesis by (simp add: cancel_group_def Let_def)
qed

end
