(* ===== verification/Reasoning.thy ===== *)
theory Reasoning
  imports Prelude
begin

text \<open>
  Separating a model's reasoning from its answer (\<open>inference/reasoning_dialects.py\<close>): the dialect of a
  model family, the split of a whole text by a regular expression, and the splitter of a stream, which
  buffers what may be the beginning of a tag. The two are proved to agree, however the stream is cut.
\<close>

section \<open>Dialects\<close>

record dialect =
  di_supports :: bool
  di_suppress :: "(pystr \<times> bool) option"
  di_tags :: "(pystr \<times> pystr) option"
  di_always :: bool

definition NON_THINKING :: dialect where
  "NON_THINKING = \<lparr>di_supports = False, di_suppress = None, di_tags = None, di_always = False\<rparr>"

definition THINK_TAGS :: "pystr \<times> pystr" where
  "THINK_TAGS = (''<think>'', ''</think>'')"

definition tagged :: dialect where
  "tagged = \<lparr>di_supports = True, di_suppress = None, di_tags = Some THINK_TAGS, di_always = False\<rparr>"

definition hidden :: dialect where
  "hidden = \<lparr>di_supports = True, di_suppress = None, di_tags = None, di_always = False\<rparr>"

definition DIALECTS :: "(pystr \<times> dialect) list" where
  "DIALECTS =
     [(''qwen3-coder'', NON_THINKING), (''qwen3-instruct-2507'', NON_THINKING), (''qwen3-vl-instruct'', NON_THINKING),
      (''qwen3'', tagged\<lparr>di_suppress := Some (''enable_thinking'', False)\<rparr>),
      (''deepseek-r1'', tagged\<lparr>di_always := True\<rparr>),
      (''glm-4-thinking'', tagged), (''glm-4.6-thinking'', tagged), (''gemini-2.0-flash-thinking'', tagged),
      (''gpt-o1'', hidden), (''gpt-o3'', hidden), (''gpt-o4'', hidden)]"

definition dialect_for :: "pystr \<Rightarrow> dialect" where
  "dialect_for model_name =
     (if model_name = [] then NON_THINKING
      else case find (\<lambda>(p, d). py_contains (py_lower model_name) p) DIALECTS of
             Some (p, d) \<Rightarrow> d | None \<Rightarrow> NON_THINKING)"

definition supports_thinking :: "pystr \<Rightarrow> bool" where
  "supports_thinking model_name = di_supports (dialect_for model_name)"

definition chat_template_suppress_kwargs :: "pystr \<Rightarrow> (pystr \<times> bool) list" where
  "chat_template_suppress_kwargs model_name = (case di_suppress (dialect_for model_name) of None \<Rightarrow> [] | Some kv \<Rightarrow> [kv])"

section \<open>A whole text\<close>

text \<open>\<open>str.find\<close>.\<close>

fun py_find :: "pystr \<Rightarrow> pystr \<Rightarrow> nat option" where
  "py_find s needle = (if py_startswith s needle then Some 0
     else case s of [] \<Rightarrow> None | c # t \<Rightarrow> map_option Suc (py_find t needle))"

declare py_find.simps [simp del]

lemma startswith_length: "py_startswith s n \<Longrightarrow> length n \<le> length s"
  by (auto simp: py_startswith_iff)

lemma startswith_append: "length n \<le> length s \<Longrightarrow> py_startswith (s @ t) n = py_startswith s n"
  by (auto simp: py_startswith_iff append_eq_append_conv2)

lemma py_find_Some: "py_find s n = Some i \<longleftrightarrow> i + length n \<le> length s \<and> py_startswith (drop i s) n \<and> (\<forall>j < i. \<not> py_startswith (drop j s) n)"
proof (induction s arbitrary: i)
  case Nil
  then show ?case by (auto simp: py_find.simps [of "[]"] dest: startswith_length)
next
  case (Cons c s)
  show ?case
  proof (cases "py_startswith (c # s) n")
    case True
    then show ?thesis using startswith_length [OF True] by (cases i) (auto simp: py_find.simps [of "c # s"])
  next
    case False
    then show ?thesis
      using Cons.IH [of "i - 1"] by (cases i) (auto simp: py_find.simps [of "c # s"] less_Suc_eq_0_disj)
  qed
qed

lemma py_find_None: "py_find s n = None \<longleftrightarrow> (\<forall>j \<le> length s. \<not> py_startswith (drop j s) n)"
proof (induction s)
  case Nil
  then show ?case by (simp add: py_find.simps [of "[]"])
next
  case (Cons c s)
  have "(\<forall>j \<le> Suc n. P j) \<longleftrightarrow> P 0 \<and> (\<forall>j \<le> n. P (Suc j))" for P :: "nat \<Rightarrow> bool" and n
    by (metis Suc_le_mono le0 not0_implies_Suc)
  then show ?case using Cons.IH by (simp add: py_find.simps [of "c # s"])
qed

definition newline :: char where "newline = CHR 0x0A"

text \<open>
  After an opening tag, \<open>(.*?)(?:close|$)\<close> takes up to the first closing tag, else to the end of the text or
  to the newline it ends with: the group, and where the match ends.
\<close>

definition think_match :: "pystr \<Rightarrow> pystr \<Rightarrow> pystr \<times> pystr" where
  "think_match cl s = (case py_find s cl of
     Some i \<Rightarrow> (take i s, drop (i + length cl) s)
   | None \<Rightarrow> if s \<noteq> [] \<and> last s = newline then (butlast s, [newline]) else (s, []))"

text \<open>\<open>pattern.sub\<close>: the text left, and the groups in their order. An empty tag is never configured.\<close>

function think_sub :: "pystr \<Rightarrow> pystr \<Rightarrow> pystr \<Rightarrow> pystr \<times> pystr list" where
  "think_sub op cl s =
     (if op = [] then (s, [])
      else case py_find s op of
        None \<Rightarrow> (s, [])
      | Some i \<Rightarrow> let (g, rest) = think_match cl (drop (i + length op) s); (kept, gs) = think_sub op cl rest
                  in (take i s @ kept, g # gs))"
  by pat_completeness auto
termination
proof (relation "measure (\<lambda>(op, cl, s). length s)")
  fix op cl s i x g rest
  assume "op \<noteq> []" "py_find s op = Some i" "x = think_match cl (drop (i + length op) s)" "(g, rest) = x"
  moreover from this have "length rest \<le> length (drop (i + length op) s)"
    by (auto simp: think_match_def split: option.splits if_splits)
  ultimately show "((op, cl, rest), op, cl, s) \<in> measure (\<lambda>(op, cl, s). length s)" by (cases op) (auto simp: py_find_Some)
qed simp

definition split_reasoning :: "pystr \<Rightarrow> pystr \<Rightarrow> pystr \<times> pystr" where
  "split_reasoning s model_name = (case di_tags (dialect_for model_name) of
     None \<Rightarrow> (s, [])
   | Some (op, cl) \<Rightarrow>
       if \<not> py_contains s op then (s, [])
       else let (kept, groups) = think_sub op cl s
            in (py_strip kept, py_join [newline, newline] (filter (\<lambda>p. p \<noteq> []) (map py_strip groups))))"

section \<open>A stream\<close>

datatype kind = Content | Thought

record splitter =
  sp_open :: "pystr option"
  sp_close :: "pystr option"
  sp_buf :: pystr
  sp_in_think :: bool

definition new_splitter :: "(pystr \<times> pystr) option \<Rightarrow> splitter" where
  "new_splitter tags = \<lparr>sp_open = map_option fst tags, sp_close = map_option snd tags, sp_buf = [], sp_in_think = False\<rparr>"

definition sp_enabled :: "splitter \<Rightarrow> bool" where
  "sp_enabled sp = (sp_open sp \<notin> {None, Some []} \<and> sp_close sp \<notin> {None, Some []})"

text \<open>The loop of \<open>feed\<close>; its two branches differ in the tag looked for and the kind emitted. No tag is empty in it.\<close>

function feed_loop :: "pystr \<Rightarrow> pystr \<Rightarrow> bool \<Rightarrow> pystr \<Rightarrow> (kind \<times> pystr) list \<times> pystr \<times> bool" where
  "feed_loop op cl think buf =
     (if buf = [] \<or> op = [] \<or> cl = [] then ([], buf, think)
      else
        let tag = (if think then cl else op); k = (if think then Thought else Content) in
        case py_find buf tag of
          Some i \<Rightarrow> let (out, b, t) = feed_loop op cl (\<not> think) (drop (i + length tag) buf)
                    in ((if i > 0 then [(k, take i buf)] else []) @ out, b, t)
        | None \<Rightarrow> let safe = length buf - (length tag - 1) in
            if safe > 0 then ([(k, take safe buf)], drop safe buf, think) else ([], buf, think))"
  by pat_completeness auto
termination
  by (relation "measure (\<lambda>(op, cl, think, buf). length buf)") (auto simp: py_find_Some)

definition feed :: "pystr \<Rightarrow> splitter \<Rightarrow> (kind \<times> pystr) list \<times> splitter" where
  "feed token sp =
     (if \<not> sp_enabled sp \<or> token = [] then ((if token = [] then [] else [(Content, token)]), sp)
      else case feed_loop (the (sp_open sp)) (the (sp_close sp)) (sp_in_think sp) (sp_buf sp @ token) of
             (out, b, t) \<Rightarrow> (out, sp\<lparr>sp_buf := b, sp_in_think := t\<rparr>))"

definition flush :: "splitter \<Rightarrow> (kind \<times> pystr) list \<times> splitter" where
  "flush sp = (if sp_buf sp = [] then ([], sp)
     else ([(if sp_in_think sp then Thought else Content, sp_buf sp)], sp\<lparr>sp_buf := []\<rparr>))"

definition make_splitter :: "pystr \<Rightarrow> splitter" where
  "make_splitter model_name = new_splitter (di_tags (dialect_for model_name))"

text \<open>A stream through the splitter, to its end.\<close>

fun feed_all :: "pystr list \<Rightarrow> splitter \<Rightarrow> (kind \<times> pystr) list" where
  "feed_all [] sp = fst (flush sp)"
| "feed_all (t # ts) sp = (case feed t sp of (out, sp') \<Rightarrow> out @ feed_all ts sp')"

section \<open>The stream agrees with the whole text\<close>

text \<open>The reference: a text cut at its tags, in alternation.\<close>

function cut :: "pystr \<Rightarrow> pystr \<Rightarrow> bool \<Rightarrow> pystr \<Rightarrow> (kind \<times> pystr) list" where
  "cut op cl think s =
     (let tag = (if think then cl else op); k = (if think then Thought else Content) in
      if op = [] \<or> cl = [] then [(k, s)]
      else case py_find s tag of
        None \<Rightarrow> [(k, s)]
      | Some i \<Rightarrow> (k, take i s) # cut op cl (\<not> think) (drop (i + length tag) s))"
  by pat_completeness auto
termination
  by (relation "measure (\<lambda>(op, cl, think, s). length s)") (auto simp: py_find_Some neq_Nil_conv)

declare cut.simps [simp del] feed_loop.simps [simp del] think_sub.simps [simp del]

text \<open>The characters emitted, each with its kind: what a reader of the stream sees, however it is cut into pieces.\<close>

definition seen :: "(kind \<times> pystr) list \<Rightarrow> (kind \<times> char) list" where
  "seen evs = concat (map (\<lambda>(k, s). map (Pair k) s) evs)"

lemma seen_simps [simp]: "seen [] = []" "seen ((k, s) # evs) = map (Pair k) s @ seen evs" "seen (xs @ ys) = seen xs @ seen ys"
  by (simp_all add: seen_def)

lemma find_extends: "py_find s n = Some i \<Longrightarrow> py_find (s @ t) n = Some i"
proof -
  assume f: "py_find s n = Some i"
  then have b: "i + length n \<le> length s" "py_startswith (drop i s) n" "\<forall>j < i. \<not> py_startswith (drop j s) n" by (auto simp: py_find_Some)
  have "py_startswith (drop j s @ t) n = py_startswith (drop j s) n" if "j \<le> i" for j
    using that b(1) by (intro startswith_append) simp
  then show ?thesis using b by (auto simp: py_find_Some)
qed

text \<open>Nothing found in a text: no tag begins in it but within the last \<open>length n - 1\<close> characters, whatever follows.\<close>

lemma find_beyond:
  assumes "py_find s n = None" "n \<noteq> []"
  shows "\<forall>j < length s - (length n - 1). \<not> py_startswith (drop j (s @ t)) n"
proof clarify
  fix j assume j: "j < length s - (length n - 1)" "py_startswith (drop j (s @ t)) n"
  then have "length n \<le> length (drop j s)" "j \<le> length s" using assms(2) by (cases n; simp)+
  then have "py_startswith (drop j s) n" using j(2) startswith_append [of n "drop j s" t] by simp
  then show False using assms(1) \<open>j \<le> length s\<close> by (simp add: py_find_None)
qed

lemma find_skip:
  "\<forall>j < m. \<not> py_startswith (drop j s) n \<Longrightarrow> m \<le> length s \<Longrightarrow> py_find s n = map_option ((+) m) (py_find (drop m s) n)"
proof (induction m arbitrary: s)
  case (Suc m)
  then obtain c s' where s: "s = c # s'" by (cases s) auto
  have "\<forall>j < m. \<not> py_startswith (drop j s') n" using Suc.prems(1) by (auto simp: s dest: spec [of _ "Suc _"])
  moreover have "\<not> py_startswith s n" using Suc.prems(1) by (auto dest: spec [of _ 0])
  ultimately show ?case using Suc.IH [of s'] Suc.prems(2) by (simp add: s py_find.simps [of "c # s'"] option.map_comp comp_def)
next
  case 0
  then show ?case by (cases "py_find s n") simp_all
qed

lemma cut_skip:
  assumes "\<forall>j < m. \<not> py_startswith (drop j s) (if think then cl else op)" "m \<le> length s" "op \<noteq> []" "cl \<noteq> []"
  shows "seen (cut op cl think s) = map (Pair (if think then Thought else Content)) (take m s) @ seen (cut op cl think (drop m s))"
proof -
  let ?tag = "if think then cl else op" and ?k = "if think then Thought else Content"
  show ?thesis
  proof (cases "py_find (drop m s) ?tag")
    case None
    then have "py_find s ?tag = None" using find_skip [OF assms(1,2)] by simp
    then show ?thesis using None assms(3,4) by (simp add: cut.simps [of op cl think s] cut.simps [of op cl think "drop m s"] Let_def flip: map_append)
  next
    case (Some i)
    then have f: "py_find s ?tag = Some (m + i)" using find_skip [OF assms(1,2)] by simp
    have "take (m + i) s = take m s @ take i (drop m s)" by (simp add: take_add)
    then show ?thesis using Some f assms(3,4)
      by (simp add: cut.simps [of op cl think s] cut.simps [of op cl think "drop m s"] Let_def add.commute add.left_commute)
  qed
qed

lemma feed_loop_cut:
  assumes tags: "op \<noteq> []" "cl \<noteq> []"
  shows "feed_loop op cl think buf = (out, buf', think') \<Longrightarrow>
    seen (cut op cl think (buf @ t)) = seen out @ seen (cut op cl think' (buf' @ t)) \<and> py_find buf' (if think' then cl else op) = None"
proof (induction "length buf" arbitrary: think buf out rule: less_induct)
  case less
  define tag where "tag = (if think then cl else op)"
  define k where "k = (if think then Thought else Content)"
  have tag: "tag \<noteq> []" using tags by (simp add: tag_def)
  have empty: "py_find [] n = None" if "n \<noteq> []" for n using that by (cases n) (simp_all add: py_find.simps)
  show ?case
  proof (cases "buf = []")
    case True
    then show ?thesis using less.prems empty tags by (auto simp: feed_loop.simps [of op cl think "[]"])
  next
    case ne: False
    show ?thesis
    proof (cases "py_find buf tag")
      case (Some i)
      let ?rest = "drop (i + length tag) buf"
      obtain o2 where o2: "feed_loop op cl (\<not> think) ?rest = (o2, buf', think')" "out = (if i > 0 then [(k, take i buf)] else []) @ o2"
        using less.prems ne tags Some unfolding feed_loop.simps [of op cl think buf]
        by (auto simp: tag_def [symmetric] k_def [symmetric] Let_def split: prod.splits)
      have fits: "i + length tag \<le> length buf" using Some by (simp add: py_find_Some)
      then have shorter: "length ?rest < length buf" using tag ne by (cases tag) auto
      have "seen (cut op cl think (buf @ t)) = map (Pair k) (take i buf) @ seen (cut op cl (\<not> think) (?rest @ t))"
        using find_extends [OF Some, of t] fits tags
        by (simp add: cut.simps [of op cl think "buf @ t"] tag_def [symmetric] k_def [symmetric] Let_def)
      then show ?thesis using less.hyps [OF shorter o2(1)] o2(2) by (cases "i = 0") auto
    next
      case None
      define safe where "safe = length buf - (length tag - 1)"
      have out: "out = (if safe > 0 then [(k, take safe buf)] else [])" "buf' = drop safe buf" "think' = think"
        using less.prems ne tags None unfolding feed_loop.simps [of op cl think buf]
        by (auto simp: tag_def [symmetric] k_def [symmetric] safe_def Let_def split: if_splits)
      have far: "\<forall>j < safe. \<not> py_startswith (drop j (buf @ t)) tag" using find_beyond [OF None tag] by (simp add: safe_def)
      have len: "safe \<le> length (buf @ t)" by (simp add: safe_def)
      have skipped: "seen (cut op cl think (buf @ t)) = map (Pair k) (take safe buf) @ seen (cut op cl think (drop safe buf @ t))"
        using cut_skip [OF far [unfolded tag_def] len tags] by (simp add: k_def safe_def)
      have "py_find buf tag = map_option ((+) safe) (py_find (drop safe buf) tag)"
        using find_skip [of safe buf tag] find_beyond [OF None tag, of "[]"] by (simp add: safe_def)
      then have "py_find (drop safe buf) tag = None" using None by simp
      then show ?thesis using skipped out by (auto simp: tag_def)
    qed
  qed
qed

definition ready :: "pystr \<Rightarrow> pystr \<Rightarrow> splitter \<Rightarrow> bool" where
  "ready op cl sp \<longleftrightarrow> sp_open sp = Some op \<and> sp_close sp = Some cl \<and> py_find (sp_buf sp) (if sp_in_think sp then cl else op) = None"

lemma feed_all_cut:
  assumes tags: "op \<noteq> []" "cl \<noteq> []"
  shows "ready op cl sp \<Longrightarrow> seen (feed_all ts sp) = seen (cut op cl (sp_in_think sp) (sp_buf sp @ concat ts))"
proof (induction ts arbitrary: sp)
  case Nil
  then show ?case using tags by (auto simp: ready_def flush_def cut.simps [of op cl _ "sp_buf sp"] Let_def)
next
  case (Cons x ts)
  show ?case
  proof (cases "x = []")
    case True
    then show ?thesis using Cons by (simp add: feed_def)
  next
    case False
    obtain out b th where l: "feed_loop op cl (sp_in_think sp) (sp_buf sp @ x) = (out, b, th)" by (metis surj_pair)
    have f: "feed x sp = (out, sp\<lparr>sp_buf := b, sp_in_think := th\<rparr>)"
      using Cons.prems False tags l by (simp add: feed_def sp_enabled_def ready_def)
    note cut = feed_loop_cut [OF tags l, of "concat ts"]
    have "ready op cl (sp\<lparr>sp_buf := b, sp_in_think := th\<rparr>)" using cut Cons.prems by (simp add: ready_def)
    from Cons.IH [OF this] show ?thesis using f cut by simp
  qed
qed

lemma feed_all_plain: "\<not> sp_enabled sp \<Longrightarrow> sp_buf sp = [] \<Longrightarrow> seen (feed_all ts sp) = map (Pair Content) (concat ts)"
  by (induction ts) (auto simp: feed_def flush_def)

text \<open>The whole text, cut: its substitution keeps what is content and collects what is thought.\<close>

definition of_kind :: "kind \<Rightarrow> (kind \<times> pystr) list \<Rightarrow> pystr list" where
  "of_kind k evs = map snd (filter (\<lambda>e. fst e = k) evs)"

lemma of_kind_simps [simp]: "of_kind k [] = []" "of_kind k (e # evs) = (if fst e = k then [snd e] else []) @ of_kind k evs"
  by (simp_all add: of_kind_def)

lemma strip_newline: "last s = newline \<Longrightarrow> s \<noteq> [] \<Longrightarrow> py_strip (butlast s) = py_strip s"
proof -
  assume s: "last s = newline" "s \<noteq> []"
  then obtain x where x: "s = x @ [newline]" by (metis append_butlast_last_id)
  have "is_space newline" by (simp add: is_space_def newline_def)
  then show ?thesis by (simp add: x py_strip_def dropWhile_append) (auto dest: set_dropWhileD)
qed

lemma strip_snoc: "py_strip (s @ [newline]) = py_strip s"
  using strip_newline [of "s @ [newline]"] by simp

lemma find_newline: "op \<noteq> [] \<Longrightarrow> op \<noteq> [newline] \<Longrightarrow> py_find [newline] op = None"
  by (cases op) (auto simp: py_find.simps [of "[newline]"] py_find.simps [of "[]"] py_startswith_iff)

lemma sub_is_cut:
  assumes tags: "op \<noteq> []" "cl \<noteq> []" "op \<noteq> [newline]"
  shows "think_sub op cl s = (kept, gs) \<Longrightarrow>
    (kept = concat (of_kind Content (cut op cl False s)) \<or> kept = concat (of_kind Content (cut op cl False s)) @ [newline])
    \<and> map py_strip gs = map py_strip (of_kind Thought (cut op cl False s))"
proof (induction "length s" arbitrary: s kept gs rule: less_induct)
  case less
  show ?case
  proof (cases "py_find s op")
    case None
    then have "think_sub op cl s = (s, [])" "cut op cl False s = [(Content, s)]"
      using tags by (simp_all add: think_sub.simps [of op cl s] cut.simps [of op cl False s])
    then show ?thesis using less.prems by simp
  next
    case (Some i)
    let ?after = "drop (i + length op) s"
    obtain g rest where m: "think_match cl ?after = (g, rest)" by fastforce
    obtain k2 g2 where r: "think_sub op cl rest = (k2, g2)" by fastforce
    have out: "kept = take i s @ k2" "gs = g # g2"
      using less.prems tags Some m r unfolding think_sub.simps [of op cl s] by (auto simp: Let_def)
    have c: "cut op cl False s = (Content, take i s) # cut op cl True ?after"
      using tags Some by (simp add: cut.simps [of op cl False s])
    show ?thesis
    proof (cases "py_find ?after cl")
      case (Some j)
      then have mr: "g = take j ?after" "rest = drop (j + length cl) ?after" using m by (auto simp: think_match_def)
      have "i + length op \<le> length s" using \<open>py_find s op = Some i\<close> by (simp add: py_find_Some)
      then have "length rest < length s" using tags(1) mr by (cases op) auto
      from less.hyps [OF this r] show ?thesis using out c mr Some tags by (auto simp: cut.simps [of op cl True ?after])
    next
      case None
      then have ct: "cut op cl True ?after = [(Thought, ?after)]" using tags by (simp add: cut.simps [of op cl True ?after])
      show ?thesis
      proof (cases "?after \<noteq> [] \<and> last ?after = newline")
        case True
        then have mr: "g = butlast ?after" "rest = [newline]" using m None by (auto simp: think_match_def)
        then have "k2 = [newline] \<and> g2 = []"
          using r find_newline [OF tags(1,3)] tags by (simp add: think_sub.simps [of op cl "[newline]"])
        then show ?thesis using out c ct mr True strip_newline [of ?after] by simp
      next
        case False
        then have mr: "g = ?after" "rest = []" using m None by (auto simp: think_match_def split: if_splits)
        have "py_find [] op = None" using tags by (cases op) (simp_all add: py_find.simps)
        then have "k2 = [] \<and> g2 = []" using r mr tags by (simp add: think_sub.simps [of op cl "[]"])
        then show ?thesis using out c ct mr by simp
      qed
    qed
  qed
qed

lemma contains_find: "py_contains s n \<longleftrightarrow> py_find s n \<noteq> None"
proof (induction s)
  case Nil
  then show ?case by (cases n) (simp_all add: py_find.simps)
next
  case (Cons c s)
  then show ?case by (simp add: py_find.simps [of "c # s"])
qed

lemma seen_of_kind: "concat (of_kind k evs) = map snd (filter (\<lambda>e. fst e = k) (seen evs))"
proof (induction evs)
  case (Cons e evs)
  obtain l s where "e = (l, s)" by fastforce
  moreover have "filter (\<lambda>e. fst e = k) (map (Pair l) s) = (if l = k then map (Pair l) s else [])" by (induction s) auto
  ultimately show ?case using Cons by (simp add: comp_def)
qed simp

lemma dialect_tags: "di_tags (dialect_for m) = None \<or> di_tags (dialect_for m) = Some THINK_TAGS"
proof -
  have "\<forall>(p, d) \<in> set DIALECTS. di_tags d = None \<or> di_tags d = Some THINK_TAGS"
    by (simp add: DIALECTS_def NON_THINKING_def tagged_def hidden_def)
  then show ?thesis
    by (auto simp: dialect_for_def NON_THINKING_def find_Some_iff split: option.split dest!: nth_mem)
qed

text \<open>
  C29: splitting a stream gives what splitting its text gives, however the stream is cut. A model
  without tags is passed through. For any other, the characters shown, each as answer or as thought, are
  those of the text cut at its tags, whatever the pieces it arrived in and wherever they cut a tag in two;
  the answer the whole-text split returns is the answer streamed, without outer white space where the text
  had an opening tag, and its reasoning is the thoughts of the cut text, stripped, without the empty ones.
\<close>

theorem stream_split_exact:
  fixes ts :: "pystr list" and m :: pystr
  defines "evs \<equiv> feed_all ts (make_splitter m)" and "s \<equiv> concat ts"
  shows "case di_tags (dialect_for m) of
      None \<Rightarrow> seen evs = map (Pair Content) s \<and> split_reasoning s m = (s, [])
    | Some (op, cl) \<Rightarrow> seen evs = seen (cut op cl False s)
        \<and> fst (split_reasoning s m) = (if py_contains s op then py_strip (concat (of_kind Content evs)) else concat (of_kind Content evs))
        \<and> snd (split_reasoning s m) = py_join [newline, newline] (filter (\<lambda>p. p \<noteq> []) (map py_strip (of_kind Thought (cut op cl False s))))"
proof (cases "di_tags (dialect_for m)")
  case None
  then show ?thesis using feed_all_plain [of "make_splitter m" ts]
    by (simp add: evs_def s_def make_splitter_def new_splitter_def sp_enabled_def split_reasoning_def)
next
  case (Some tags)
  define op where "op = fst THINK_TAGS"
  define cl where "cl = snd THINK_TAGS"
  have tags: "op \<noteq> []" "cl \<noteq> []" "op \<noteq> [newline]" by (simp_all add: op_def cl_def THINK_TAGS_def newline_def)
  have d: "di_tags (dialect_for m) = Some (op, cl)" using dialect_tags [of m] Some by (simp add: op_def cl_def)
  have "py_find [] op = None" using tags by (cases op) (simp_all add: py_find.simps)
  then have "ready op cl (make_splitter m)" by (simp add: ready_def make_splitter_def new_splitter_def d)
  then have same: "seen evs = seen (cut op cl False s)"
    using feed_all_cut [OF tags(1,2)] by (simp add: evs_def s_def make_splitter_def new_splitter_def)
  then have content: "concat (of_kind Content evs) = concat (of_kind Content (cut op cl False s))" by (simp add: seen_of_kind)
  obtain kept gs where sub: "think_sub op cl s = (kept, gs)" by fastforce
  note c = sub_is_cut [OF tags sub]
  have "fst (split_reasoning s m) = (if py_contains s op then py_strip (concat (of_kind Content evs)) else concat (of_kind Content evs))"
  proof (cases "py_contains s op")
    case True
    then show ?thesis using c content sub strip_snoc by (auto simp: split_reasoning_def d)
  next
    case False
    then have "cut op cl False s = [(Content, s)]" using tags by (simp add: contains_find cut.simps [of op cl False s])
    then show ?thesis using False content by (simp add: split_reasoning_def d)
  qed
  moreover have "snd (split_reasoning s m) = py_join [newline, newline] (filter (\<lambda>p. p \<noteq> []) (map py_strip (of_kind Thought (cut op cl False s))))"
  proof (cases "py_contains s op")
    case True
    then show ?thesis using c sub by (simp add: split_reasoning_def d)
  next
    case False
    then have "cut op cl False s = [(Content, s)]" using tags by (simp add: contains_find cut.simps [of op cl False s])
    then show ?thesis using False by (simp add: split_reasoning_def d)
  qed
  ultimately show ?thesis using same d by simp
qed

end
