(* ===== verification/Public_Gateway.thy ===== *)
theory Public_Gateway
  imports Advert Model_Resolver Egress_Policy Reasoning
begin

text \<open>
  The public gateway (\<open>api/gateway.py\<close>): who is calling (\<open>api/client_ip.py\<close>), the limits of an address,
  the candidates for an anonymous request, and the request itself, from its checks over the failover from
  candidate to candidate to the pieces of a streamed answer. What a candidate answers, the regular expression
  engine and the textual syntax of addresses are parameters.
\<close>

section \<open>Who is calling\<close>

text \<open>An address: whether it is of version 6, and its bits; a network: the same, with a prefix length.\<close>

type_synonym ip = "bool \<times> nat"

record ip_syntax =
  is_address :: "pystr \<Rightarrow> ip option"
  is_network :: "pystr \<Rightarrow> (ip \<times> nat) option"

definition ip_in :: "ip \<Rightarrow> ip \<times> nat \<Rightarrow> bool" where
  "ip_in a = (\<lambda>(b, prefix). let host = (if fst b then 128 else 32) - prefix in
     fst a = fst b \<and> snd a div 2 ^ host = snd b div 2 ^ host)"

fun split_on :: "char \<Rightarrow> pystr \<Rightarrow> pystr list" where
  "split_on c [] = [[]]"
| "split_on c (x # xs) = (case split_on c xs of
     [] \<Rightarrow> [] | w # ws \<Rightarrow> if x = c then [] # w # ws else (x # w) # ws)"

definition entries :: "pystr \<Rightarrow> pystr list" where
  "entries s = filter (\<lambda>p. p \<noteq> []) (map py_strip (split_on (CHR '','') s))"

definition parse_trusted :: "ip_syntax \<Rightarrow> pystr \<Rightarrow> (ip \<times> nat) list" where
  "parse_trusted X spec = List.map_filter (is_network X) (entries spec)"

definition is_trusted :: "ip_syntax \<Rightarrow> pystr \<Rightarrow> (ip \<times> nat) list \<Rightarrow> bool" where
  "is_trusted X addr trusted = (case is_address X addr of None \<Rightarrow> False | Some a \<Rightarrow> list_ex (ip_in a) trusted)"

text \<open>\<open>peer\<close> is the other end of the connection, \<open>None\<close> where the server does not know it.\<close>

definition client_address :: "ip_syntax \<Rightarrow> pystr option \<Rightarrow> pystr \<Rightarrow> pystr \<Rightarrow> pystr" where
  "client_address X peer forwarded spec =
     (let p = (case peer of None \<Rightarrow> ''unknown'' | Some a \<Rightarrow> a); trusted = parse_trusted X spec
      in if \<not> is_trusted X p trusted then p
         else case find (\<lambda>c. \<not> is_trusted X c trusted \<and> is_address X c \<noteq> None) (rev (entries forwarded)) of
           Some c \<Rightarrow> c | None \<Rightarrow> p)"

section \<open>The limits of an address\<close>

definition DAILY_TOKEN_BUDGET :: int where "DAILY_TOKEN_BUDGET = 5000"
definition MAX_REQUEST_TOKENS :: int where "MAX_REQUEST_TOKENS = 1024"
definition MAX_REQUESTS_PER_MINUTE :: nat where "MAX_REQUESTS_PER_MINUTE = 10"
definition MAX_MESSAGE_LENGTH :: nat where "MAX_MESSAGE_LENGTH = 2000"

record rate_state =
  rt_tokens :: int
  rt_requests_minute :: nat
  rt_minute :: int
  rt_reset :: pyfloat

type_synonym rates = "(pystr, rate_state) dict"

text \<open>The default of \<open>_rate_state\<close>, made at the time of its first use.\<close>

definition fresh_rate :: "pyfloat \<Rightarrow> rate_state" where
  "fresh_rate now = \<lparr>rt_tokens = 0, rt_requests_minute = 0, rt_minute = 0, rt_reset = now + 86400\<rparr>"

text \<open>\<open>int(now / 60)\<close> for a time that is not negative.\<close>

definition minute_of :: "pyfloat \<Rightarrow> int" where
  "minute_of now = \<lfloor>now / 60\<rfloor>"

definition rate_turned :: "pyfloat \<Rightarrow> rate_state \<Rightarrow> rate_state" where
  "rate_turned now r =
     (let r1 = (if now > rt_reset r then r\<lparr>rt_tokens := 0, rt_reset := now + 86400\<rparr> else r)
      in if minute_of now \<noteq> rt_minute r1 then r1\<lparr>rt_requests_minute := 0, rt_minute := minute_of now\<rparr> else r1)"

definition check_rate :: "pyfloat \<Rightarrow> pystr \<Rightarrow> int \<Rightarrow> rates \<Rightarrow> bool \<times> rates" where
  "check_rate now ip est_tokens st =
     (let r = rate_turned now (dict_get st ip (fresh_rate now))
      in (rt_requests_minute r < MAX_REQUESTS_PER_MINUTE \<and> rt_tokens r + est_tokens \<le> DAILY_TOKEN_BUDGET, dict_set st ip r))"

definition record_usage :: "pyfloat \<Rightarrow> pystr \<Rightarrow> int \<Rightarrow> rates \<Rightarrow> rates" where
  "record_usage now ip tokens st =
     (let r = dict_get st ip (fresh_rate now)
      in dict_set st ip (r\<lparr>rt_tokens := rt_tokens r + tokens, rt_requests_minute := rt_requests_minute r + 1\<rparr>))"

section \<open>Candidates\<close>

text \<open>A candidate's address is \<open>None\<close> for a local model, \<open>quic:\<close> and a peer, or the address of a fleet node.\<close>

record gw_candidate =
  gc_name :: pystr
  gc_addr :: "pystr option"
  gc_tier :: nat
  gc_backend :: pystr
  gc_params :: pyfloat

datatype gw_model = Gw_dict pystr pystr pyfloat | Gw_name pystr

record gw_node =
  gn_status :: pystr
  gn_last_seen :: "pyfloat option"
  gn_api_addr :: pystr
  gn_models :: "gw_model list"

record gw_view =
  gv_now :: pyfloat
  gv_local :: "model_cap list"
  gv_registry :: registry
  gv_fleet :: "(pystr, gw_node) dict"

definition VISION_MARKS :: "pystr list" where
  "VISION_MARKS = [''-vl-'', ''-vl'', ''vl-'', ''vision'', ''llava'', ''pixtral'', ''smolvlm'', ''-vlm'']"

definition is_vision_model :: "pystr \<Rightarrow> pystr \<Rightarrow> bool" where
  "is_vision_model name backend =
     (py_lower backend = ''mlx-vlm'' \<or> list_ex (py_contains (py_lower name)) VISION_MARKS)"

definition model_candidate :: "pystr option \<Rightarrow> model_cap \<Rightarrow> gw_candidate" where
  "model_candidate addr m = \<lparr>gc_name = mc_name m, gc_addr = addr, gc_tier = classify_tier (mc_param_count_b m),
     gc_backend = mc_backend m, gc_params = mc_param_count_b m\<rparr>"

fun fleet_candidate_of :: "pystr \<Rightarrow> gw_model \<Rightarrow> gw_candidate" where
  "fleet_candidate_of addr (Gw_dict name backend params) =
     \<lparr>gc_name = name, gc_addr = Some addr, gc_tier = classify_tier params, gc_backend = backend, gc_params = params\<rparr>"
| "fleet_candidate_of addr (Gw_name name) = \<lparr>gc_name = name, gc_addr = Some addr, gc_tier = 1, gc_backend = [], gc_params = 0\<rparr>"

definition gw_fleet_up :: "pyfloat \<Rightarrow> gw_node \<Rightarrow> bool" where
  "gw_fleet_up now n \<longleftrightarrow> gn_status n = ''approved'' \<and> \<not> now - (case gn_last_seen n of None \<Rightarrow> 0 | Some t \<Rightarrow> t) > 120"

definition served_models :: "gw_view \<Rightarrow> gw_candidate list" where
  "served_models v = map (model_candidate None) (gv_local v)
     @ concat (map (\<lambda>e. map (model_candidate (Some (''quic:'' @ pe_peer_id e))) (cap_models (pe_capabilities e))) (connected_peers (gv_registry v)))
     @ concat (map (\<lambda>(k, n). if gw_fleet_up (gv_now v) n then map (fleet_candidate_of (gn_api_addr n)) (gn_models n) else []) (gv_fleet v))"

text \<open>The rank of a candidate for a floor: its advertised size, else the size in its name, else none.\<close>

definition floor_rank :: "gw_candidate \<Rightarrow> nat" where
  "floor_rank c = (let p = (if gc_params c \<noteq> 0 then gc_params c else (case parse_param_count (gc_name c) of None \<Rightarrow> 0 | Some p \<Rightarrow> p))
     in if p \<noteq> 0 then dict_get TIER_RANK (derive_tier p) 0 else 0)"

definition hop_cost :: "pystr option \<Rightarrow> nat" where
  "hop_cost addr = (case addr of None \<Rightarrow> 0 | Some a \<Rightarrow> if py_startswith a ''quic:'' then 1 else 2)"

definition place_key :: "gw_candidate \<Rightarrow> nat \<times> nat" where
  "place_key c = (gc_tier c, hop_cost (gc_addr c))"

definition wanted :: "bool \<Rightarrow> pystr \<Rightarrow> pystr \<Rightarrow> gw_candidate \<Rightarrow> bool" where
  "wanted vision min_tier want_model c \<longleftrightarrow>
     (vision \<longrightarrow> is_vision_model (gc_name c) (gc_backend c))
     \<and> (want_model \<noteq> [] \<longrightarrow> normalize_model_name (gc_name c) = normalize_model_name want_model)
     \<and> (dict_get TIER_RANK min_tier 0 \<noteq> 0 \<longrightarrow> dict_get TIER_RANK min_tier 0 \<le> floor_rank c)"

text \<open>\<open>groupby\<close>: the runs of equal keys.\<close>

function group_runs :: "('a \<Rightarrow> 'k) \<Rightarrow> 'a list \<Rightarrow> 'a list list" where
  "group_runs f [] = []"
| "group_runs f (x # xs) = (x # takeWhile (\<lambda>y. f y = f x) xs) # group_runs f (dropWhile (\<lambda>y. f y = f x) xs)"
  by pat_completeness auto
termination
  by (relation "measure (\<lambda>(f, xs). length xs)") (auto simp: length_dropWhile_le less_Suc_eq_le)

definition rotated :: "nat \<Rightarrow> 'a list \<Rightarrow> 'a list" where
  "rotated counter xs = (if length xs > 1 then (let k = counter mod length xs in drop k xs @ take k xs) else xs)"

text \<open>The candidates, and the counter of the round robin, which goes up first.\<close>

definition get_candidates :: "nat \<Rightarrow> gw_view \<Rightarrow> bool \<Rightarrow> pystr \<Rightarrow> pystr \<Rightarrow> gw_candidate list" where
  "get_candidates counter v vision min_tier want_model =
     concat (map (rotated counter) (group_runs place_key (sort_key place_key (filter (wanted vision min_tier want_model) (served_models v)))))"

section \<open>The models on offer\<close>

record offered =
  of_id :: pystr
  of_tier :: pystr
  of_vision :: bool

definition offer :: "pystr \<Rightarrow> offered" where
  "offer name = \<lparr>of_id = name, of_tier = (case parse_param_count name of None \<Rightarrow> [] | Some p \<Rightarrow> if p = 0 then [] else derive_tier p),
     of_vision = is_vision_model name []\<rparr>"

definition offered_models :: "nat \<Rightarrow> gw_view \<Rightarrow> offered list" where
  "offered_models counter v = map offer (rev (remdups (rev (filter (\<lambda>n. n \<noteq> []) (map gc_name (get_candidates counter v False [] []))))))"

text \<open>\<open>sorted\<close> by tier, best first, then by name.\<close>

definition offer_before :: "offered \<Rightarrow> offered \<Rightarrow> bool" where
  "offer_before a b = (let ra = dict_get TIER_RANK (of_tier a) 0; rb = dict_get TIER_RANK (of_tier b) 0
     in ra > rb \<or> ra = rb \<and> str_less_eq (of_id a) (of_id b))"

fun insert_offer :: "offered \<Rightarrow> offered list \<Rightarrow> offered list" where
  "insert_offer x [] = [x]"
| "insert_offer x (y # ys) = (if offer_before x y then x # y # ys else y # insert_offer x ys)"

definition tier_counts :: "offered list \<Rightarrow> (pystr, nat) dict" where
  "tier_counts os = map (\<lambda>(t, r). (t, length (filter (\<lambda>m. dict_get TIER_RANK (of_tier m) 0 \<ge> r) os))) TIER_RANK"

definition public_models :: "nat \<Rightarrow> gw_view \<Rightarrow> offered list \<times> (pystr, nat) dict" where
  "public_models counter v = (foldr insert_offer (offered_models counter v) [], tier_counts (offered_models counter v))"

section \<open>Messages\<close>

datatype part = Text_part pystr | Image_part | Other_part

datatype msg_content = Plain pystr | Parts "part list" | Absent | Other_value pystr

text \<open>\<open>content_to_text\<close>; \<open>Other_value\<close> carries what \<open>str\<close> makes of it.\<close>

fun content_to_text :: "msg_content \<Rightarrow> pystr" where
  "content_to_text (Plain s) = s"
| "content_to_text (Parts ps) = concat (map (\<lambda>p. case p of Text_part s \<Rightarrow> s | _ \<Rightarrow> []) ps)"
| "content_to_text Absent = []"
| "content_to_text (Other_value s) = s"

definition flatten_content :: "msg_content \<Rightarrow> msg_content" where
  "flatten_content c = (case c of Parts ps \<Rightarrow> Plain (content_to_text c) | _ \<Rightarrow> c)"

definition has_image :: "(pystr \<times> msg_content) list \<Rightarrow> bool" where
  "has_image ms = list_ex (\<lambda>(role, c). case c of Parts ps \<Rightarrow> Image_part \<in> set ps | _ \<Rightarrow> False) ms"

section \<open>A request\<close>

record gw_request =
  gr_messages :: "(pystr \<times> msg_content) list"
  gr_override :: bool
  gr_model :: pystr
  gr_min_tier :: pystr
  gr_max_tokens :: "int option"
  gr_max_completion :: "int option"
  gr_stream :: bool
  gr_hide_reasoning :: bool

text \<open>Where a candidate is asked; a fleet node without an address is asked at this node.\<close>

datatype gw_place = At_local pystr | At_peer pystr pystr | At_fleet pystr pystr

definition place_of :: "gw_candidate \<Rightarrow> gw_place" where
  "place_of c = (case gc_addr c of
     None \<Rightarrow> At_local (gc_name c)
   | Some a \<Rightarrow> if a = [] then At_local (gc_name c)
       else if py_startswith a ''quic:'' then At_peer (drop 5 a) (gc_name c) else At_fleet a (gc_name c))"

text \<open>What the \<open>k\<close>-th candidate asked does: an answer is a text, prompt and completion tokens, a finish
  reason and, of a fleet node, the total it claims; nothing is a failure. A stream is its texts and its end.\<close>

datatype stream_end = Ends | Breaks | Client_gone

record gw_env =
  ge_regex :: regex_engine
  ge_peer :: "nat \<Rightarrow> (pystr \<times> int \<times> int) option"
  ge_fleet :: "nat \<Rightarrow> (pystr \<times> int \<times> int \<times> pystr \<times> int) option"
  ge_local :: "nat \<Rightarrow> (pystr \<times> int \<times> int \<times> pystr) option"
  ge_open :: "nat \<Rightarrow> bool"
  ge_stream :: "nat \<Rightarrow> pystr list \<times> stream_end"
  ge_hash :: "pystr \<Rightarrow> pystr"

text \<open>The module's state, and what was asked of whom and charged to whom so far.\<close>

record gw_state =
  gs_rates :: rates
  gs_counter :: nat
  gs_asked :: "(gw_place \<times> (pystr \<times> msg_content) list \<times> int) list"
  gs_charges :: "(pyfloat \<times> pystr \<times> int) list"

definition new_gateway :: gw_state where
  "new_gateway = \<lparr>gs_rates = [], gs_counter = 0, gs_asked = [], gs_charges = []\<rparr>"

definition asking :: "gw_place \<Rightarrow> gw_request \<Rightarrow> int \<Rightarrow> gw_state \<Rightarrow> gw_state" where
  "asking p req max_tokens st = st\<lparr>gs_asked := gs_asked st @ [(p, gr_messages req, max_tokens)]\<rparr>"

definition charge :: "pyfloat \<Rightarrow> pystr \<Rightarrow> int \<Rightarrow> gw_state \<Rightarrow> gw_state" where
  "charge now ip tokens st = st\<lparr>gs_rates := record_usage now ip tokens (gs_rates st), gs_charges := gs_charges st @ [(now, ip, tokens)]\<rparr>"

record clean_response =
  cr_model :: pystr
  cr_content :: pystr
  cr_reasoning :: "pystr option"
  cr_finish :: pystr
  cr_prompt_tokens :: int
  cr_completion_tokens :: int
  cr_node :: pystr

definition make_response :: "pystr \<Rightarrow> pystr \<Rightarrow> pystr \<Rightarrow> int \<Rightarrow> int \<Rightarrow> pystr \<Rightarrow> bool \<Rightarrow> clean_response" where
  "make_response name s finish pt ct node_id hide_reasoning =
     (let (content, reasoning) = split_reasoning s name
      in \<lparr>cr_model = name, cr_content = content, cr_reasoning = (if reasoning \<noteq> [] \<and> \<not> hide_reasoning then Some reasoning else None),
          cr_finish = or_str finish ''stop'', cr_prompt_tokens = pt, cr_completion_tokens = ct, cr_node = or_str node_id ''local''\<rparr>)"

text \<open>One candidate, asked for a whole answer: the response and what is charged for it.\<close>

definition ask_once :: "gw_env \<Rightarrow> nat \<Rightarrow> bool \<Rightarrow> gw_place \<Rightarrow> (clean_response \<times> int) option" where
  "ask_once E k hide p = (case p of
     At_peer peer name \<Rightarrow> map_option (\<lambda>(s, pt, ct). (make_response name s ''stop'' pt ct (ge_hash E peer) hide, pt + ct)) (ge_peer E k)
   | At_fleet addr name \<Rightarrow> map_option (\<lambda>(s, pt, ct, finish, total). (make_response name s finish pt ct (ge_hash E addr) True, total)) (ge_fleet E k)
   | At_local name \<Rightarrow> map_option (\<lambda>(s, pt, ct, finish). (make_response name s finish pt ct [] hide, pt + ct)) (ge_local E k))"

fun try_plain :: "gw_env \<Rightarrow> gw_request \<Rightarrow> pyfloat \<Rightarrow> pystr \<Rightarrow> int \<Rightarrow> nat \<Rightarrow> gw_candidate list \<Rightarrow> gw_state \<Rightarrow> clean_response option \<times> gw_state" where
  "try_plain E req now ip mt k [] st = (None, st)"
| "try_plain E req now ip mt k (c # cs) st =
     (let st1 = asking (place_of c) req mt st in
      case ask_once E k (gr_hide_reasoning req) (place_of c) of
        None \<Rightarrow> try_plain E req now ip mt (k + 1) cs st1
      | Some (r, tokens) \<Rightarrow> (Some r, charge now ip tokens st1))"

section \<open>A streamed answer\<close>

datatype frame = Content_frame pystr | Reasoning_frame pystr | Empty_frame | Meta_frame | Error_frame | Done_frame

text \<open>\<open>len(s.split())\<close>.\<close>

fun count_words :: "pystr \<Rightarrow> int" where
  "count_words [] = 0"
| "count_words (c # s) = (if is_space c then count_words s
     else if s = [] \<or> is_space (hd s) then 1 + count_words s else count_words s)"

definition shown_pieces :: "bool \<Rightarrow> (kind \<times> pystr) list \<Rightarrow> frame list" where
  "shown_pieces hide evs = List.map_filter (\<lambda>(k, s). case k of Content \<Rightarrow> Some (Content_frame s)
     | Thought \<Rightarrow> if hide then None else Some (Reasoning_frame s)) evs"

fun feed_frames :: "bool \<Rightarrow> pystr list \<Rightarrow> splitter \<Rightarrow> frame list \<times> splitter" where
  "feed_frames hide [] sp = ([], sp)"
| "feed_frames hide (t # ts) sp =
     (let (evs, sp1) = (if t = [] then ([], sp) else feed t sp); (fs, sp2) = feed_frames hide ts sp1
      in (shown_pieces hide evs @ fs, sp2))"

text \<open>The stream of a peer, through the splitter; it is charged before its last frame, if it comes to it.\<close>

definition peer_stream :: "bool \<Rightarrow> pystr \<Rightarrow> pystr list \<Rightarrow> stream_end \<Rightarrow> frame list \<times> int option" where
  "peer_stream hide name ts e =
     (let (fs, sp) = feed_frames hide ts (make_splitter name)
      in if e = Ends then (fs @ shown_pieces hide (fst (flush sp)) @ [Done_frame], Some (int (length ts))) else (fs, None))"

text \<open>The stream of this node or of a fleet node: no splitter; a break is shown as an error.\<close>

definition plain_stream :: "pystr list \<Rightarrow> stream_end \<Rightarrow> frame list \<times> int option" where
  "plain_stream ts e =
     (let fs = map (\<lambda>t. if t = [] then Empty_frame else Content_frame t) ts
      in case e of
           Ends \<Rightarrow> (fs @ [Meta_frame, Done_frame], Some (sum_list (map count_words ts)))
         | Breaks \<Rightarrow> (fs @ [Error_frame, Done_frame], None)
         | Client_gone \<Rightarrow> (fs, None))"

definition open_stream :: "gw_env \<Rightarrow> nat \<Rightarrow> bool \<Rightarrow> gw_place \<Rightarrow> (frame list \<times> int option) option" where
  "open_stream E k hide p = (let (ts, e) = ge_stream E k in case p of
     At_peer peer name \<Rightarrow> Some (peer_stream hide name ts e)
   | At_fleet addr name \<Rightarrow> if ge_open E k then Some (plain_stream ts e) else None
   | At_local name \<Rightarrow> Some (plain_stream ts e))"

fun try_stream :: "gw_env \<Rightarrow> gw_request \<Rightarrow> pyfloat \<Rightarrow> pystr \<Rightarrow> int \<Rightarrow> nat \<Rightarrow> gw_candidate list \<Rightarrow> gw_state \<Rightarrow> frame list option \<times> gw_state" where
  "try_stream E req now ip mt k [] st = (None, st)"
| "try_stream E req now ip mt k (c # cs) st =
     (let st1 = asking (place_of c) req mt st in
      case open_stream E k (gr_hide_reasoning req) (place_of c) of
        None \<Rightarrow> try_stream E req now ip mt (k + 1) cs st1
      | Some (fs, tokens) \<Rightarrow> (Some fs, case tokens of None \<Rightarrow> st1 | Some n \<Rightarrow> charge now ip n st1))"

section \<open>The handler\<close>

datatype gw_reply = Refused nat pystr | Responded clean_response | Streamed "frame list"

definition request_text :: "gw_request \<Rightarrow> pystr" where
  "request_text req = py_join '' '' (map (content_to_text \<circ> snd) (gr_messages req))"

definition wanted_model :: "gw_request \<Rightarrow> pystr" where
  "wanted_model req = (let m = py_strip (gr_model req) in if py_lower m \<in> {''auto'', ''default''} then [] else m)"

definition wanted_tier :: "gw_request \<Rightarrow> pystr" where
  "wanted_tier req = py_lower (py_strip (gr_min_tier req))"

definition token_cap :: "gw_request \<Rightarrow> int" where
  "token_cap req = min (case gr_max_tokens req of Some n \<Rightarrow> n
     | None \<Rightarrow> (case gr_max_completion req of Some n \<Rightarrow> n | None \<Rightarrow> MAX_REQUEST_TOKENS)) MAX_REQUEST_TOKENS"

definition request_candidates :: "gw_request \<Rightarrow> gw_view \<Rightarrow> gw_state \<Rightarrow> gw_candidate list" where
  "request_candidates req v st = get_candidates (gs_counter st + 1) v (has_image (gr_messages req)) (wanted_tier req) (wanted_model req)"

definition public_chat :: "gw_env \<Rightarrow> pyfloat \<Rightarrow> pystr \<Rightarrow> gw_request \<Rightarrow> gw_view \<Rightarrow> gw_state \<Rightarrow> gw_reply \<times> gw_state" where
  "public_chat E now ip req v st =
     (if gr_messages req = [] then (Refused 400 ''messages required'', st)
      else if list_ex (\<lambda>m. length (content_to_text (snd m)) > MAX_MESSAGE_LENGTH) (gr_messages req) then (Refused 400 ''Message too long'', st)
      else if \<not> gr_override req \<and> sr_action (scan_with_policy (ge_regex E) (request_text req) ''untrusted'') = ''block''
        then (Refused 422 ''Sensitive data detected'', st)
      else
        let (allowed, rates) = check_rate now ip 0 (gs_rates st); st1 = st\<lparr>gs_rates := rates\<rparr> in
        if \<not> allowed then (Refused 429 ''Rate limit'', st1)
        else if wanted_tier req \<noteq> [] \<and> map_of TIER_RANK (wanted_tier req) = None then (Refused 400 ''Unknown tier'', st1)
        else
          let candidates = request_candidates req v st1; st2 = st1\<lparr>gs_counter := gs_counter st1 + 1\<rparr> in
          if candidates = [] then
            (Refused 503 ''no_candidate'', if wanted_model req = [] \<and> wanted_tier req \<noteq> [] then st2\<lparr>gs_counter := gs_counter st2 + 1\<rparr> else st2)
          else if gr_stream req then (case try_stream E req now ip (token_cap req) 0 candidates st2 of
              (Some fs, st3) \<Rightarrow> (Streamed fs, st3)
            | (None, st3) \<Rightarrow> (Refused 503 ''All models are busy'', st3))
          else (case try_plain E req now ip (token_cap req) 0 candidates st2 of
              (Some r, st3) \<Rightarrow> (Responded r, st3)
            | (None, st3) \<Rightarrow> (Refused 503 ''All models are busy'', st3)))"

section \<open>Callers\<close>

lemma find_past: "\<forall>x \<in> set xs. \<not> P x \<Longrightarrow> find P (xs @ ys) = find P ys"
  by (induction xs) auto

lemma split_on_append: "split_on c (a @ c # b) = split_on c a @ split_on c b"
proof (induction a)
  case Nil
  have "split_on c b \<noteq> []" for b by (induction b) (auto split: list.split)
  then show ?case by (cases "split_on c b") auto
next
  case (Cons x a)
  have "split_on c b \<noteq> []" for b by (induction b) (auto split: list.split)
  then show ?case using Cons by (cases "split_on c a") auto
qed

lemma entries_append: "entries (a @ CHR '','' # b) = entries a @ entries b"
  by (simp add: entries_def split_on_append)

lemma split_on_none: "c \<notin> set s \<Longrightarrow> split_on c s = [s]"
  by (induction s) auto

lemma entries_one: "CHR '','' \<notin> set s \<Longrightarrow> entries s = (if py_strip s = [] then [] else [py_strip s])"
  by (simp add: entries_def split_on_none)

lemma entries_hops:
  "\<forall>t \<in> set ts. CHR '','' \<notin> set t \<Longrightarrow> entries (a @ concat (map (\<lambda>t. CHR '','' # t) ts)) = entries a @ concat (map entries ts)"
  by (induction ts arbitrary: a rule: rev_induct) (auto simp: entries_append simp flip: append_assoc)

text \<open>
  C30: the caller's address cannot be forged. A connection that does not come from a trusted proxy is known by
  its own address, whatever its headers say. Behind trusted proxies, where the first of them appended the
  address it saw and every later one that of the proxy before it, the answer is that first address, whatever
  the client itself had written into the header.
\<close>

theorem caller_not_forged:
  assumes "is_trusted X p (parse_trusted X spec)" "\<not> is_trusted X q (parse_trusted X spec)"
    and "CHR '','' \<notin> set c" "py_strip c \<noteq> []" "is_address X (py_strip c) \<noteq> None" "\<not> is_trusted X (py_strip c) (parse_trusted X spec)"
    and "\<forall>t \<in> set hops. CHR '','' \<notin> set t \<and> is_trusted X (py_strip t) (parse_trusted X spec)"
  shows "client_address X (Some q) header spec = q
    \<and> client_address X (Some p) (forged @ CHR '','' # c @ concat (map (\<lambda>t. CHR '','' # t) hops)) spec = py_strip c"
proof -
  let ?T = "parse_trusted X spec" and ?h = "forged @ CHR '','' # c @ concat (map (\<lambda>t. CHR '','' # t) hops)"
  have "entries ?h = entries forged @ [py_strip c] @ concat (map entries hops)"
    using assms(3,4,7) by (simp add: entries_append entries_hops entries_one)
  then have "rev (entries ?h) = rev (concat (map entries hops)) @ py_strip c # rev (entries forged)" by simp
  moreover have "\<forall>e \<in> set (rev (concat (map entries hops))). is_trusted X e ?T"
    using assms(7) by (auto simp: entries_one split: if_splits)
  then have "find (\<lambda>c. \<not> is_trusted X c ?T \<and> is_address X c \<noteq> None) (rev (concat (map entries hops)) @ ws)
      = find (\<lambda>c. \<not> is_trusted X c ?T \<and> is_address X c \<noteq> None) ws" for ws
    by (intro find_past) auto
  ultimately show ?thesis using assms by (simp add: client_address_def Let_def)
qed

section \<open>What the gateway offers\<close>

lemma group_runs_concat [simp]: "concat (group_runs f xs) = xs"
  by (induction f xs rule: group_runs.induct) auto

lemma rotated_facts [simp]: "set (rotated k xs) = set xs" "mset (rotated k xs) = mset xs"
proof -
  show m: "mset (rotated k xs) = mset xs" by (simp add: rotated_def Let_def flip: mset_append) (metis add.commute append_take_drop_id mset_append)
  then show "set (rotated k xs) = set xs" by (rule mset_eq_setD)
qed

lemma rotated_const: "\<forall>x \<in> set xs. f x = c \<Longrightarrow> map f (rotated k xs) = map f xs"
proof -
  assume c: "\<forall>x \<in> set xs. f x = c"
  have "map f ys = replicate (length ys) c" if "set ys \<subseteq> set xs" for ys using that c by (induction ys) auto
  moreover have "length (rotated k xs) = length xs" by (metis mset_eq_length rotated_facts(2))
  ultimately show ?thesis by (metis order_refl rotated_facts(1))
qed

lemma rotated_groups:
  "mset (concat (map (rotated k) (group_runs f xs))) = mset xs" "map f (concat (map (rotated k) (group_runs f xs))) = map f xs"
proof -
  show "mset (concat (map (rotated k) (group_runs f xs))) = mset xs"
  proof -
    have "mset (concat (map (rotated k) gs)) = mset (concat gs)" for gs :: "'a list list" by (induction gs) simp_all
    then show ?thesis by simp
  qed
  show "map f (concat (map (rotated k) (group_runs f xs))) = map f xs"
  proof (induction f xs rule: group_runs.induct)
    case (2 f x xs)
    have "map f (rotated k (x # takeWhile (\<lambda>y. f y = f x) xs)) = map f (x # takeWhile (\<lambda>y. f y = f x) xs)"
      by (rule rotated_const [where c = "f x"]) (auto dest: set_takeWhileD)
    moreover have "map f (x # xs) = map f (x # takeWhile (\<lambda>y. f y = f x) xs) @ map f (dropWhile (\<lambda>y. f y = f x) xs)" by (simp flip: map_append)
    ultimately show ?case using 2 by simp
  qed simp
qed

lemma rotated_within:
  fixes f :: "'a \<Rightarrow> 'k::linorder"
  shows "sorted (map f xs) \<Longrightarrow> filter (\<lambda>x. f x = c) (concat (map (rotated k) (group_runs f xs))) = rotated k (filter (\<lambda>x. f x = c) xs)"
proof (induction f xs rule: group_runs.induct)
  case (2 f x xs)
  let ?g = "x # takeWhile (\<lambda>y. f y = f x) xs" and ?r = "dropWhile (\<lambda>y. f y = f x) xs"
  have from_x: "\<forall>y \<in> set xs. f x \<le> f y" "sorted (map f xs)" using 2(2) by simp_all
  then have rest: "sorted (map f ?r)" by (simp add: sorted_map)
  have other: "f y \<noteq> f x" if y: "y \<in> set ?r" for y
  proof -
    obtain h t where r: "?r = h # t" using y by (cases ?r) auto
    then have "f h \<noteq> f x" using hd_dropWhile [of "\<lambda>y. f y = f x" xs] by simp
    moreover have "h \<in> set xs" using r by (metis list.set_intros(1) set_dropWhileD)
    ultimately have "f x < f h" using from_x(1) by (metis order_le_imp_less_or_eq)
    moreover have "f h \<le> f y" using rest y r by auto
    ultimately show ?thesis by simp
  qed
  have same: "\<forall>y \<in> set ?g. f y = f x" by (auto dest: set_takeWhileD)
  then have turned: "\<forall>y \<in> set (rotated k ?g). f y = f x" by (metis rotated_facts(1))
  have "x # xs = ?g @ ?r" by simp
  then have split: "filter (\<lambda>y. f y = c) (x # xs) = filter (\<lambda>y. f y = c) ?g @ filter (\<lambda>y. f y = c) ?r"
    by (metis filter_append)
  show ?case
  proof (cases "f x = c")
    case True
    have "filter (\<lambda>y. f y = c) (rotated k ?g) = rotated k ?g" by (rule filter_True) (use turned True in simp)
    moreover have "filter (\<lambda>y. f y = c) ?g = ?g" by (rule filter_True) (use same True in simp)
    moreover have none: "filter (\<lambda>y. f y = c) ?r = []" unfolding True [symmetric] by (rule filter_False, rule ballI) (rule other)
    moreover have "rotated k [] = []" by (simp add: rotated_def)
    ultimately show ?thesis using 2(1) [OF rest] unfolding split by simp
  next
    case False
    have none: "filter (\<lambda>y. f y = c) ys = []" if all: "\<forall>y \<in> set ys. f y = f x" for ys
    proof (rule filter_False, rule ballI)
      fix y assume "y \<in> set ys"
      from bspec [OF all this] show "f y \<noteq> c" using False by simp
    qed
    note none [OF turned] moreover note none [OF same]
    ultimately show ?thesis using 2(1) [OF rest] unfolding split by simp
  qed
qed (simp add: rotated_def)

text \<open>
  C31: the gateway offers a request exactly what can serve it. The candidates are the models of this node, of
  its connected peers and of the approved fleet nodes seen in the last two minutes that meet the request, each
  as often as it is served: for an image only vision models, for a named model only that name, for a quality
  floor only models known to reach it. They come by size class and, within it, by distance; among equals the
  round robin turns the order in which they are served.
\<close>

theorem gateway_candidates_exact:
  fixes vision :: bool and min_tier want_model :: pystr
  defines "wants \<equiv> wanted vision min_tier want_model"
  shows "mset (get_candidates counter v vision min_tier want_model) = mset (filter wants (served_models v))
    \<and> sorted (map place_key (get_candidates counter v vision min_tier want_model))
    \<and> filter (\<lambda>c. place_key c = key) (get_candidates counter v vision min_tier want_model)
        = rotated counter (filter (\<lambda>c. wants c \<and> place_key c = key) (served_models v))"
proof -
  let ?s = "sort_key place_key (filter wants (served_models v))"
  have sorted: "sorted (map place_key ?s)" by simp
  have g: "get_candidates counter v vision min_tier want_model = concat (map (rotated counter) (group_runs place_key ?s))"
    by (simp add: get_candidates_def wants_def)
  have "filter (\<lambda>c. place_key c = key) (get_candidates counter v vision min_tier want_model)
      = rotated counter (filter (\<lambda>c. wants c \<and> place_key c = key) (served_models v))"
    unfolding g rotated_within [OF sorted] sort_key_stable by (simp add: conj_commute)
  then show ?thesis using sorted by (simp add: g rotated_groups)
qed

section \<open>A request, answered\<close>

definition asked_for :: "gw_request \<Rightarrow> gw_candidate list \<Rightarrow> (gw_place \<times> (pystr \<times> msg_content) list \<times> int) list" where
  "asked_for req cs = map (\<lambda>c. (place_of c, gr_messages req, token_cap req)) cs"

lemma try_plain_spec:
  "try_plain E req now ip (token_cap req) k cs st = (r, st') \<Longrightarrow> (case r of
      None \<Rightarrow> st' = st\<lparr>gs_asked := gs_asked st @ asked_for req cs\<rparr> \<and> (\<forall>j < length cs. ask_once E (k + j) (gr_hide_reasoning req) (place_of (cs ! j)) = None)
    | Some x \<Rightarrow> \<exists>n < length cs. \<exists>tokens. st' = charge now ip tokens (st\<lparr>gs_asked := gs_asked st @ asked_for req (take (n + 1) cs)\<rparr>)
        \<and> (\<forall>j < n. ask_once E (k + j) (gr_hide_reasoning req) (place_of (cs ! j)) = None)
        \<and> ask_once E (k + n) (gr_hide_reasoning req) (place_of (cs ! n)) = Some (x, tokens))"
proof (induction cs arbitrary: k st)
  case (Cons c cs)
  let ?st = "asking (place_of c) req (token_cap req) st"
  show ?case
  proof (cases "ask_once E k (gr_hide_reasoning req) (place_of c)")
    case None
    then have step: "try_plain E req now ip (token_cap req) (k + 1) cs ?st = (r, st')" using Cons.prems by (simp add: Let_def)
    note ih = Cons.IH [OF step]
    show ?thesis
    proof (cases r)
      case None': None
      then show ?thesis using ih None by (auto simp: asked_for_def asking_def less_Suc_eq_0_disj)
    next
      case (Some x)
      then obtain n tokens where n: "n < length cs" "st' = charge now ip tokens (?st\<lparr>gs_asked := gs_asked ?st @ asked_for req (take (n + 1) cs)\<rparr>)"
        "\<forall>j < n. ask_once E (k + 1 + j) (gr_hide_reasoning req) (place_of (cs ! j)) = None"
        "ask_once E (k + 1 + n) (gr_hide_reasoning req) (place_of (cs ! n)) = Some (x, tokens)" using ih by auto
      have "ask_once E (k + j) (gr_hide_reasoning req) (place_of ((c # cs) ! j)) = None" if "j < Suc n" for j
        using that n(3) None by (cases j) auto
      then show ?thesis unfolding Some option.case using n
        by (intro exI [of _ "Suc n"] conjI exI [of _ tokens]) (auto simp: asked_for_def asking_def)
    qed
  next
    case (Some x)
    then show ?thesis using Cons.prems by (cases x) (auto simp: Let_def asked_for_def asking_def intro!: exI [of _ "0::nat"])
  qed
qed (simp add: asked_for_def)

lemma try_stream_spec:
  "try_stream E req now ip (token_cap req) k cs st = (r, st') \<Longrightarrow> (case r of
      None \<Rightarrow> st' = st\<lparr>gs_asked := gs_asked st @ asked_for req cs\<rparr> \<and> (\<forall>j < length cs. open_stream E (k + j) (gr_hide_reasoning req) (place_of (cs ! j)) = None)
    | Some fs \<Rightarrow> \<exists>n < length cs. \<exists>tokens. st' = (let st1 = st\<lparr>gs_asked := gs_asked st @ asked_for req (take (n + 1) cs)\<rparr>
            in case tokens of None \<Rightarrow> st1 | Some t \<Rightarrow> charge now ip t st1)
        \<and> (\<forall>j < n. open_stream E (k + j) (gr_hide_reasoning req) (place_of (cs ! j)) = None)
        \<and> open_stream E (k + n) (gr_hide_reasoning req) (place_of (cs ! n)) = Some (fs, tokens))"
proof (induction cs arbitrary: k st)
  case (Cons c cs)
  let ?st = "asking (place_of c) req (token_cap req) st"
  show ?case
  proof (cases "open_stream E k (gr_hide_reasoning req) (place_of c)")
    case None
    then have step: "try_stream E req now ip (token_cap req) (k + 1) cs ?st = (r, st')" using Cons.prems by (simp add: Let_def)
    note ih = Cons.IH [OF step]
    show ?thesis
    proof (cases r)
      case None': None
      then show ?thesis using ih None by (auto simp: asked_for_def asking_def less_Suc_eq_0_disj)
    next
      case (Some x)
      then obtain n tokens where n: "n < length cs" "st' = (let st1 = ?st\<lparr>gs_asked := gs_asked ?st @ asked_for req (take (n + 1) cs)\<rparr>
          in case tokens of None \<Rightarrow> st1 | Some t \<Rightarrow> charge now ip t st1)"
        "\<forall>j < n. open_stream E (k + 1 + j) (gr_hide_reasoning req) (place_of (cs ! j)) = None"
        "open_stream E (k + 1 + n) (gr_hide_reasoning req) (place_of (cs ! n)) = Some (x, tokens)" using ih by auto
      have "open_stream E (k + j) (gr_hide_reasoning req) (place_of ((c # cs) ! j)) = None" if "j < Suc n" for j
        using that n(3) None by (cases j) auto
      then show ?thesis unfolding Some option.case using n
        by (intro exI [of _ "Suc n"] conjI exI [of _ tokens]) (auto simp: asked_for_def asking_def Let_def)
    qed
  next
    case (Some x)
    then show ?thesis using Cons.prems by (cases x) (auto simp: Let_def asked_for_def asking_def intro!: exI [of _ "0::nat"] split: option.splits)
  qed
qed (simp add: asked_for_def)

lemma charge_fields [simp]: "gs_asked (charge now ip n st) = gs_asked st" "gs_charges (charge now ip n st) = gs_charges st @ [(now, ip, n)]"
  "gs_rates (charge now ip n st) = record_usage now ip n (gs_rates st)"
  by (simp_all add: charge_def)

text \<open>When a request passes the checks made before any candidate is looked for.\<close>

definition admitted_request :: "gw_env \<Rightarrow> pyfloat \<Rightarrow> pystr \<Rightarrow> gw_request \<Rightarrow> gw_state \<Rightarrow> bool" where
  "admitted_request E now ip req st \<longleftrightarrow> gr_messages req \<noteq> []
     \<and> (\<forall>m \<in> set (gr_messages req). length (content_to_text (snd m)) \<le> 2000)
     \<and> (gr_override req \<or> \<not> scan_blocks (ge_regex E) (request_text req) ''untrusted'')
     \<and> (let r = rate_turned now (dict_get (gs_rates st) ip (fresh_rate now)) in rt_requests_minute r < 10 \<and> rt_tokens r \<le> 5000)"

text \<open>The three ways through the handler: refused before anyone is asked, asked in vain, or served.\<close>

lemma public_chat_cases:
  assumes run: "public_chat E now ip req v st = (reply, st')"
  defines "cs \<equiv> request_candidates req v st" and "st1 \<equiv> st\<lparr>gs_rates := snd (check_rate now ip 0 (gs_rates st)), gs_counter := gs_counter st + 1\<rparr>"
  obtains (refused) code msg where "reply = Refused code msg" "gs_asked st' = gs_asked st" "gs_charges st' = gs_charges st"
      "gs_rates st' = gs_rates st \<or> gs_rates st' = snd (check_rate now ip 0 (gs_rates st))"
    | (plain) "admitted_request E now ip req st" "\<not> gr_stream req" "cs \<noteq> []"
      "(case try_plain E req now ip (token_cap req) 0 cs st1 of
          (Some r, s) \<Rightarrow> (Responded r, s) | (None, s) \<Rightarrow> (Refused 503 ''All models are busy'', s)) = (reply, st')"
    | (stream) "admitted_request E now ip req st" "gr_stream req" "cs \<noteq> []"
      "(case try_stream E req now ip (token_cap req) 0 cs st1 of
          (Some fs, s) \<Rightarrow> (Streamed fs, s) | (None, s) \<Rightarrow> (Refused 503 ''All models are busy'', s)) = (reply, st')"
proof -
  obtain ok rates where c: "check_rate now ip 0 (gs_rates st) = (ok, rates)" by fastforce
  let ?early = "gr_messages req = [] \<or> list_ex (\<lambda>m. length (content_to_text (snd m)) > MAX_MESSAGE_LENGTH) (gr_messages req)
    \<or> \<not> gr_override req \<and> sr_action (scan_with_policy (ge_regex E) (request_text req) ''untrusted'') = ''block''"
  let ?late = "\<not> ok \<or> wanted_tier req \<noteq> [] \<and> map_of TIER_RANK (wanted_tier req) = None \<or> cs = []"
  have same: "request_candidates req v (st\<lparr>gs_rates := rates\<rparr>) = cs" by (simp add: request_candidates_def cs_def)
  show thesis
  proof (cases ?early)
    case True
    then have "st' = st \<and> (\<exists>code msg. reply = Refused code msg)" using run by (auto simp: public_chat_def split: if_splits)
    then show thesis using refused by auto
  next
    case e: False
    show thesis
    proof (cases ?late)
      case True
      then have "gs_asked st' = gs_asked st \<and> gs_charges st' = gs_charges st \<and> gs_rates st' = rates \<and> (\<exists>code msg. reply = Refused code msg)"
        using run e unfolding public_chat_def c Let_def same by (auto simp: same split: if_splits)
      then show thesis using refused c by auto
    next
      case False
      have adm: "admitted_request E now ip req st"
        using e False c by (auto simp: admitted_request_def check_rate_def MAX_MESSAGE_LENGTH_def MAX_REQUESTS_PER_MINUTE_def
            DAILY_TOKEN_BUDGET_def scan_blocks_def list_ex_iff Let_def not_less)
      have s1: "st\<lparr>gs_rates := rates, gs_counter := gs_counter (st\<lparr>gs_rates := rates\<rparr>) + 1\<rparr> = st1" by (simp add: st1_def c)
      have go: "(if gr_stream req then (case try_stream E req now ip (token_cap req) 0 cs st1 of
          (Some fs, s) \<Rightarrow> (Streamed fs, s) | (None, s) \<Rightarrow> (Refused 503 ''All models are busy'', s))
        else (case try_plain E req now ip (token_cap req) 0 cs st1 of
          (Some r, s) \<Rightarrow> (Responded r, s) | (None, s) \<Rightarrow> (Refused 503 ''All models are busy'', s))) = (reply, st')"
      proof -
        have no: "(gr_messages req = []) = False" "list_ex (\<lambda>m. length (content_to_text (snd m)) > MAX_MESSAGE_LENGTH) (gr_messages req) = False"
          "(\<not> gr_override req \<and> sr_action (scan_with_policy (ge_regex E) (request_text req) ''untrusted'') = ''block'') = False"
          "(\<not> ok) = False" "(wanted_tier req \<noteq> [] \<and> map_of TIER_RANK (wanted_tier req) = None) = False" "(cs = []) = False"
          using e False by blast+
        show ?thesis using run unfolding public_chat_def c Let_def prod.case same no if_False s1 .
      qed
      show thesis
      proof (cases "gr_stream req")
        case True
        then show thesis using stream [OF adm True] go False by simp
      next
        case s: False
        then show thesis using plain [OF adm s] go False by simp
      qed
    qed
  qed
qed

lemma asked_take: "x \<in> set (asked_for req (take n cs)) \<Longrightarrow> x \<in> set (asked_for req cs)"
  by (auto simp: asked_for_def dest: in_set_takeD)

text \<open>Whom a call asks, in order: the candidates, up to the first that answers or, for a stream, opens.\<close>

lemma public_chat_asks:
  assumes run: "public_chat E now ip req v st = (reply, st')"
  shows "gs_asked st' = gs_asked st \<or> admitted_request E now ip req st \<and> (\<exists>n. gs_asked st' = gs_asked st @ asked_for req (take n (request_candidates req v st)))"
proof (rule public_chat_cases [OF run], goal_cases refused plain stream)
  case plain
  then obtain r s where t: "try_plain E req now ip (token_cap req) 0 (request_candidates req v st)
      (st\<lparr>gs_rates := snd (check_rate now ip 0 (gs_rates st)), gs_counter := gs_counter st + 1\<rparr>) = (r, s)" "s = st'" by (auto split: prod.splits option.splits)
  show ?thesis using try_plain_spec [OF t(1)] t(2) plain(1) by (cases r) (auto intro: exI [of _ "length (request_candidates req v st)"])
next
  case stream
  then obtain r s where t: "try_stream E req now ip (token_cap req) 0 (request_candidates req v st)
      (st\<lparr>gs_rates := snd (check_rate now ip 0 (gs_rates st)), gs_counter := gs_counter st + 1\<rparr>) = (r, s)" "s = st'" by (auto split: prod.splits option.splits)
  show ?thesis using try_stream_spec [OF t(1)] t(2) stream(1)
    by (cases r) (auto simp: Let_def intro: exI [of _ "length (request_candidates req v st)"] split: option.splits)
qed blast



section \<open>The limits hold\<close>

text \<open>The calls of a time, one after the other.\<close>

record gw_call =
  ca_env :: gw_env
  ca_now :: pyfloat
  ca_ip :: pystr
  ca_request :: gw_request
  ca_view :: gw_view

definition handle_call :: "gw_call \<Rightarrow> gw_state \<Rightarrow> gw_state" where
  "handle_call c st = snd (public_chat (ca_env c) (ca_now c) (ca_ip c) (ca_request c) (ca_view c) st)"

definition charged_to :: "pystr \<Rightarrow> gw_state \<Rightarrow> (pyfloat \<times> int) list" where
  "charged_to ip st = map (\<lambda>(t, a, n). (t, n)) (filter (\<lambda>(t, a, n). a = ip) (gs_charges st))"

definition in_minute :: "int \<Rightarrow> (pyfloat \<times> int) list \<Rightarrow> nat" where
  "in_minute m cs = length (filter (\<lambda>(t, n). minute_of t = m) cs)"

definition tokens_since :: "pyfloat \<Rightarrow> (pyfloat \<times> int) list \<Rightarrow> int" where
  "tokens_since t0 cs = sum_list (map snd (filter (\<lambda>(t, n). t0 \<le> t) cs))"

text \<open>The state of an address at a time not before its last call, against what it was charged.\<close>

definition rate_ok :: "pyfloat \<Rightarrow> int \<Rightarrow> rate_state \<Rightarrow> (pyfloat \<times> int) list \<Rightarrow> bool" where
  "rate_ok now cap r cs \<longleftrightarrow> rt_minute r \<le> minute_of now \<and> rt_reset r - 86400 \<le> now
     \<and> (\<forall>(t, n) \<in> set cs. t \<le> rt_reset r \<and> t \<le> now \<and> minute_of t \<le> rt_minute r)
     \<and> in_minute (rt_minute r) cs \<le> rt_requests_minute r \<and> rt_requests_minute r \<le> 10
     \<and> rt_tokens r = tokens_since (rt_reset r - 86400) cs \<and> rt_tokens r \<le> 5000 + cap \<and> (\<forall>m. in_minute m cs \<le> 10)"

lemma minute_mono: "s \<le> t \<Longrightarrow> minute_of s \<le> minute_of t"
  by (simp add: minute_of_def floor_mono divide_right_mono)

lemma in_minute_none: "\<forall>(t, n) \<in> set cs. minute_of t \<noteq> m \<Longrightarrow> in_minute m cs = 0"
  by (auto simp: in_minute_def filter_empty_conv)

lemma tokens_none: "\<forall>(t, n) \<in> set cs. t < t0 \<Longrightarrow> tokens_since t0 cs = 0"
proof -
  assume "\<forall>(t, n) \<in> set cs. t < t0"
  then have "filter (\<lambda>(t, n). t0 \<le> t) cs = []" by (auto simp: filter_empty_conv not_le)
  then show ?thesis by (simp add: tokens_since_def)
qed

lemma rate_fresh: "0 \<le> now \<Longrightarrow> 0 \<le> cap \<Longrightarrow> rate_ok now cap (fresh_rate now) []"
  by (simp add: rate_ok_def fresh_rate_def in_minute_def tokens_since_def minute_of_def)

lemma rate_later: "rate_ok t cap r cs \<Longrightarrow> t \<le> now \<Longrightarrow> rate_ok now cap r cs"
  using minute_mono [of t now] by (fastforce simp: rate_ok_def)

lemma rate_turn:
  assumes ok: "rate_ok now cap r cs" and cap: "0 \<le> cap"
  shows "rate_ok now cap (rate_turned now r) cs" and "now \<le> rt_reset (rate_turned now r)" and "rt_minute (rate_turned now r) = minute_of now"
proof -
  have day: "tokens_since (rt_reset (rate_turned now r) - 86400) cs = rt_tokens (rate_turned now r)"
  proof (cases "now > rt_reset r")
    case True
    then have "\<forall>(t, n) \<in> set cs. t < now" using ok by (fastforce simp: rate_ok_def)
    then show ?thesis using tokens_none True by (simp add: rate_turned_def Let_def)
  qed (use ok in \<open>simp add: rate_turned_def rate_ok_def Let_def\<close>)
  have minute: "in_minute (rt_minute (rate_turned now r)) cs \<le> rt_requests_minute (rate_turned now r)"
  proof (cases "minute_of now = rt_minute r")
    case False
    then have "\<forall>(t, n) \<in> set cs. minute_of t \<noteq> minute_of now" using ok by (fastforce simp: rate_ok_def)
    from in_minute_none [OF this] show ?thesis using False by (simp add: rate_turned_def Let_def)
  qed (use ok in \<open>simp add: rate_turned_def rate_ok_def Let_def\<close>)
  have rest: "\<forall>(t, n) \<in> set cs. t \<le> rt_reset (rate_turned now r) \<and> t \<le> now \<and> minute_of t \<le> rt_minute (rate_turned now r)"
    using ok by (fastforce simp: rate_ok_def rate_turned_def Let_def)
  show "rate_ok now cap (rate_turned now r) cs"
    using ok cap day minute rest by (auto simp: rate_ok_def rate_turned_def Let_def)
  show "now \<le> rt_reset (rate_turned now r)" "rt_minute (rate_turned now r) = minute_of now" by (simp_all add: rate_turned_def Let_def)
qed

lemma rate_record:
  assumes ok: "rate_ok now cap r cs" and cur: "now \<le> rt_reset r" "rt_minute r = minute_of now"
    and room: "rt_requests_minute r < 10" "rt_tokens r \<le> 5000" "n \<le> cap"
  shows "rate_ok now cap (r\<lparr>rt_tokens := rt_tokens r + n, rt_requests_minute := rt_requests_minute r + 1\<rparr>) (cs @ [(now, n)])"
proof -
  have more: "in_minute m (cs @ [(now, n)]) = in_minute m cs + (if m = minute_of now then 1 else 0)" for m by (simp add: in_minute_def)
  have "in_minute m (cs @ [(now, n)]) \<le> 10" for m using ok cur(2) room(1) unfolding more by (auto simp: rate_ok_def)
  moreover have "tokens_since (rt_reset r - 86400) (cs @ [(now, n)]) = tokens_since (rt_reset r - 86400) cs + n"
    using ok by (simp add: tokens_since_def rate_ok_def)
  ultimately show ?thesis using ok cur room more [of "minute_of now"] by (auto simp: rate_ok_def)
qed

text \<open>What a call does to the limits: nothing, a check, or a check that passed and a charge.\<close>

lemma call_rates:
  assumes "public_chat E now ip req v st = (reply, st')"
  defines "R \<equiv> dict_set (gs_rates st) ip (rate_turned now (dict_get (gs_rates st) ip (fresh_rate now)))"
  shows "gs_charges st' = gs_charges st \<and> (gs_rates st' = gs_rates st \<or> gs_rates st' = R)
    \<or> admitted_request E now ip req st \<and> (\<exists>n. gs_charges st' = gs_charges st @ [(now, ip, n)] \<and> gs_rates st' = record_usage now ip n R)"
proof (rule public_chat_cases [OF assms(1)], goal_cases refused plain stream)
  case refused
  then show ?case by (auto simp: R_def check_rate_def Let_def)
next
  case plain
  then obtain r s where t: "try_plain E req now ip (token_cap req) 0 (request_candidates req v st)
      (st\<lparr>gs_rates := snd (check_rate now ip 0 (gs_rates st)), gs_counter := gs_counter st + 1\<rparr>) = (r, s)" "s = st'" by (auto split: prod.splits option.splits)
  show ?case using try_plain_spec [OF t(1)] t(2) plain(1) by (cases r) (auto simp: R_def check_rate_def Let_def)
next
  case stream
  then obtain r s where t: "try_stream E req now ip (token_cap req) 0 (request_candidates req v st)
      (st\<lparr>gs_rates := snd (check_rate now ip 0 (gs_rates st)), gs_counter := gs_counter st + 1\<rparr>) = (r, s)" "s = st'" by (auto split: prod.splits option.splits)
  show ?case using try_stream_spec [OF t(1)] t(2) stream(1) by (cases r) (auto simp: R_def check_rate_def Let_def split: option.splits)
qed

definition limits_ok :: "pyfloat \<Rightarrow> int \<Rightarrow> gw_state \<Rightarrow> bool" where
  "limits_ok now cap st \<longleftrightarrow> (\<forall>ip. case map_of (gs_rates st) ip of
     None \<Rightarrow> charged_to ip st = [] | Some r \<Rightarrow> rate_ok now cap r (charged_to ip st))"

lemma charged_other: "gs_charges st' = gs_charges st @ [(now, ip, n)] \<Longrightarrow> charged_to a st' = charged_to a st @ (if a = ip then [(now, n)] else [])"
  by (simp add: charged_to_def)

lemma call_limits:
  assumes inv: "limits_ok t cap st" and time: "t \<le> now" "0 \<le> t" and cap: "0 \<le> cap"
    and run: "public_chat E now ip req v st = (reply, st')" and small: "\<forall>(u, a, n) \<in> set (gs_charges st'). n \<le> cap"
  shows "limits_ok now cap st'"
proof -
  define r0 where "r0 = dict_get (gs_rates st) ip (fresh_rate now)"
  have old: "case map_of (gs_rates st) a of None \<Rightarrow> charged_to a st = [] | Some r \<Rightarrow> rate_ok now cap r (charged_to a st)" for a
    using spec [OF inv [unfolded limits_ok_def], of a] rate_later [OF _ time(1)] by (cases "map_of (gs_rates st) a") auto
  then have "rate_ok now cap r0 (charged_to ip st)"
    using rate_fresh [of now cap] time cap old [of ip] by (cases "map_of (gs_rates st) ip") (simp_all add: r0_def dict_get_def)
  note turned = rate_turn [OF this cap]
  consider (quiet) "gs_charges st' = gs_charges st" "gs_rates st' = gs_rates st"
    | (checked) "gs_charges st' = gs_charges st" "gs_rates st' = dict_set (gs_rates st) ip (rate_turned now r0)"
    | (charged) n where "admitted_request E now ip req st" "gs_charges st' = gs_charges st @ [(now, ip, n)]"
        "gs_rates st' = record_usage now ip n (dict_set (gs_rates st) ip (rate_turned now r0))"
    using call_rates [OF run] r0_def by blast
  then show ?thesis
  proof cases
    case quiet
    then show ?thesis using old by (simp add: limits_ok_def charged_to_def cong: option.case_cong)
  next
    case checked
    then have "charged_to a st' = charged_to a st" for a by (simp add: charged_to_def)
    then show ?thesis using checked(2) old turned(1) by (simp add: limits_ok_def cong: option.case_cong)
  next
    case (charged n)
    have "rt_requests_minute (rate_turned now r0) < 10" "rt_tokens (rate_turned now r0) \<le> 5000" "n \<le> cap"
      using charged(1,2) small by (auto simp: admitted_request_def r0_def Let_def)
    note new = rate_record [OF turned this]
    have "map_of (gs_rates st') = (map_of (gs_rates st))(ip \<mapsto> (rate_turned now r0)
        \<lparr>rt_tokens := rt_tokens (rate_turned now r0) + n, rt_requests_minute := rt_requests_minute (rate_turned now r0) + 1\<rparr>)"
      using charged(3) by (simp add: record_usage_def dict_get_def Let_def)
    then show ?thesis using old new charged_other [OF charged(2)] by (simp add: limits_ok_def cong: option.case_cong)
  qed
qed

lemma charges_grow: "\<exists>new. gs_charges (fold handle_call cs st) = gs_charges st @ new"
proof (induction cs arbitrary: st)
  case (Cons c cs)
  obtain reply st' where run: "public_chat (ca_env c) (ca_now c) (ca_ip c) (ca_request c) (ca_view c) st = (reply, st')" by fastforce
  have "\<exists>new. gs_charges st' = gs_charges st @ new" using call_rates [OF run] by auto
  then show ?case using Cons.IH [of st'] run by (auto simp: handle_call_def)
qed simp

lemma calls_limits:
  "limits_ok t cap st \<Longrightarrow> 0 \<le> t \<Longrightarrow> 0 \<le> cap \<Longrightarrow> sorted (t # map ca_now cs) \<Longrightarrow> \<forall>(u, a, n) \<in> set (gs_charges (fold handle_call cs st)). n \<le> cap \<Longrightarrow>
    \<exists>u. limits_ok u cap (fold handle_call cs st)"
proof (induction cs arbitrary: t st)
  case (Cons c cs)
  obtain reply st' where run: "public_chat (ca_env c) (ca_now c) (ca_ip c) (ca_request c) (ca_view c) st = (reply, st')" by fastforce
  have fold: "fold handle_call (c # cs) st = fold handle_call cs st'" using run by (simp add: handle_call_def)
  obtain new where "gs_charges (fold handle_call cs st') = gs_charges st' @ new" using charges_grow by blast
  then have "\<forall>(u, a, n) \<in> set (gs_charges st'). n \<le> cap" using Cons.prems(5) unfolding fold by (auto simp: Ball_def)
  then have "limits_ok (ca_now c) cap st'" using call_limits [OF Cons.prems(1) _ Cons.prems(2,3) run] Cons.prems(4) by simp
  then show ?case using Cons.IH [of "ca_now c" st'] Cons.prems unfolding fold by fastforce
qed auto

text \<open>
  C34: the limits of an address hold for calls that come one after the other. However many addresses call and
  whatever becomes of the calls: no address is charged for more than ten requests in a minute; and what it was
  charged since its day began is at most 5,000 tokens and one more request.
\<close>

theorem visitor_limited:
  assumes "sorted (map ca_now calls)" "\<forall>c \<in> set calls. 0 \<le> ca_now c" "0 \<le> cap"
    and "\<forall>(t, ip, n) \<in> set (gs_charges (fold handle_call calls new_gateway)). n \<le> cap"
  defines "st \<equiv> fold handle_call calls new_gateway"
  shows "in_minute m (charged_to ip st) \<le> 10
    \<and> (case map_of (gs_rates st) ip of None \<Rightarrow> charged_to ip st = []
       | Some r \<Rightarrow> tokens_since (rt_reset r - 86400) (charged_to ip st) \<le> 5000 + cap)"
proof -
  have "limits_ok 0 cap new_gateway" by (simp add: limits_ok_def new_gateway_def charged_to_def)
  then obtain u where "limits_ok u cap st" using calls_limits [of 0 cap new_gateway calls] assms by auto
  then have "case map_of (gs_rates st) ip of None \<Rightarrow> charged_to ip st = [] | Some r \<Rightarrow> rate_ok u cap r (charged_to ip st)"
    by (simp add: limits_ok_def)
  then show ?thesis by (auto simp: rate_ok_def in_minute_def split: option.splits)
qed

section \<open>Examples\<close>

text \<open>A syntax that knows four addresses, and the loopback network.\<close>

definition demo_syntax :: ip_syntax where
  "demo_syntax = \<lparr>is_address = (\<lambda>s. map_option (Pair False) (map_of
       [(''127.0.0.1'', 2130706433), (''8.8.8.8'', 134744072), (''9.9.9.9'', 151587081), (''127.0.0.2'', 2130706434)] s)),
     is_network = (\<lambda>s. if s = ''127.0.0.0/8'' then Some ((False, 2130706432), 8) else None)\<rparr>"

theorem caller_not_forged_witness:
  "client_address demo_syntax (Some ''127.0.0.1'') ''9.9.9.9, 8.8.8.8, 127.0.0.2'' ''127.0.0.0/8,::1'' = ''8.8.8.8''"
proof -
  have "entries ''127.0.0.0/8,::1'' = [''127.0.0.0/8'', ''::1'']" by code_simp
  then have T: "parse_trusted demo_syntax ''127.0.0.0/8,::1'' = [((False, 2130706432), 8)]"
    by (simp add: parse_trusted_def demo_syntax_def map_filter_simps)
  have in_net: "is_trusted demo_syntax ''127.0.0.1'' [((False, 2130706432), 8)] \<and> is_trusted demo_syntax ''127.0.0.2'' [((False, 2130706432), 8)]
    \<and> \<not> is_trusted demo_syntax ''8.8.8.8'' [((False, 2130706432), 8)] \<and> is_address demo_syntax ''8.8.8.8'' \<noteq> None"
    by (simp add: is_trusted_def demo_syntax_def ip_in_def)
  have strips: "py_strip '' 8.8.8.8'' = ''8.8.8.8'' \<and> py_strip '' 127.0.0.2'' = ''127.0.0.2''" by code_simp
  show ?thesis using caller_not_forged [of demo_syntax "''127.0.0.1''" "''127.0.0.0/8,::1''" "''8.8.8.8''" "'' 8.8.8.8''" "['' 127.0.0.2'']" _ "''9.9.9.9''"]
      T in_net strips by simp
qed

definition demo_offer :: gw_view where
  "demo_offer = \<lparr>gv_now = 1000, gv_local = [], gv_registry = \<lparr>rg_peers = [], rg_index = []\<rparr>,
     gv_fleet = [(''a'', \<lparr>gn_status = ''approved'', gn_last_seen = Some 990, gn_api_addr = ''10.0.0.1:8420'', gn_models = [Gw_dict ''m-3b'' ''mlx'' 3]\<rparr>),
       (''b'', \<lparr>gn_status = ''approved'', gn_last_seen = Some 999, gn_api_addr = ''10.0.0.2:8420'', gn_models = [Gw_name ''n-3b'']\<rparr>)]\<rparr>"

definition demo_request :: gw_request where
  "demo_request = \<lparr>gr_messages = [(''user'', Plain ''hello'')], gr_override = False, gr_model = ''auto'', gr_min_tier = [],
     gr_max_tokens = None, gr_max_completion = None, gr_stream = False, gr_hide_reasoning = True\<rparr>"

text \<open>The first candidate is down, the second answers.\<close>

definition demo_gw_env :: gw_env where
  "demo_gw_env = \<lparr>ge_regex = (\<lambda>label s. []), ge_peer = (\<lambda>k. None), ge_fleet = (\<lambda>k. if k = 0 then None else Some (''hi'', 5, 7, [], 12)),
     ge_local = (\<lambda>k. None), ge_open = (\<lambda>k. True), ge_stream = (\<lambda>k. ([], Ends)), ge_hash = id\<rparr>"

definition demo_call :: "pyfloat \<Rightarrow> gw_call" where
  "demo_call now = \<lparr>ca_env = demo_gw_env, ca_now = now, ca_ip = ''8.8.8.8'', ca_request = demo_request, ca_view = demo_offer\<rparr>"

lemma demo_served:
  "case public_chat demo_gw_env 1000 ''8.8.8.8'' demo_request demo_offer new_gateway of (reply, st) \<Rightarrow>
     (\<exists>r. reply = Responded r) \<and> map fst (gs_asked st) = [At_fleet ''10.0.0.2:8420'' ''n-3b'', At_fleet ''10.0.0.1:8420'' ''m-3b'']
     \<and> gs_charges st = [(1000, ''8.8.8.8'', 12)]"
proof -
  have "case public_chat demo_gw_env 1000 ''8.8.8.8'' demo_request demo_offer new_gateway of (reply, st) \<Rightarrow>
     (case reply of Responded r \<Rightarrow> True | _ \<Rightarrow> False) \<and> map fst (gs_asked st) = [At_fleet ''10.0.0.2:8420'' ''n-3b'', At_fleet ''10.0.0.1:8420'' ''m-3b'']
     \<and> gs_charges st = [(1000, ''8.8.8.8'', 12)]" by code_simp
  then show ?thesis by (auto split: prod.splits gw_reply.splits)
qed



theorem visitor_limited_witness:
  "in_minute 16 (charged_to ''8.8.8.8'' (fold handle_call [demo_call 1000, demo_call 1001] new_gateway)) \<le> 10
    \<and> charged_to ''8.8.8.8'' (fold handle_call [demo_call 1000, demo_call 1001] new_gateway) = [(1000, 12), (1001, 12)]"
proof -
  have c: "gs_charges (fold handle_call [demo_call 1000, demo_call 1001] new_gateway) = [(1000, ''8.8.8.8'', 12), (1001, ''8.8.8.8'', 12)]" by code_simp
  have "sorted (map ca_now [demo_call 1000, demo_call 1001])" "\<forall>c \<in> set [demo_call 1000, demo_call 1001]. 0 \<le> ca_now c" by (simp_all add: demo_call_def)
  from visitor_limited [OF this, of 12 16 "''8.8.8.8''"] c show ?thesis by (simp add: charged_to_def del: fold.simps)
qed

section \<open>What a visitor sees of a stream\<close>

definition content_of :: "frame list \<Rightarrow> pystr list" where
  "content_of fs = List.map_filter (\<lambda>f. case f of Content_frame s \<Rightarrow> Some s | _ \<Rightarrow> None) fs"

lemma content_append: "content_of (a @ b) = content_of a @ content_of b"
  by (simp add: content_of_def map_filter_def)

lemma content_shown: "content_of (shown_pieces hide evs) = of_kind Content evs"
  by (induction evs) (auto simp: shown_pieces_def content_of_def map_filter_simps of_kind_def split: kind.splits)

lemma feed_frames_content:
  "content_of (fst (feed_frames hide ts sp)) @ of_kind Content (fst (flush (snd (feed_frames hide ts sp)))) = of_kind Content (feed_all ts sp)"
proof (induction ts arbitrary: sp)
  case Nil
  then show ?case by (simp add: content_of_def map_filter_simps)
next
  case (Cons t ts)
  have "feed [] sp = ([], sp)" by (simp add: feed_def)
  then have step: "(if t = [] then ([], sp) else feed t sp) = feed t sp" by simp
  obtain evs sp1 where f: "feed t sp = (evs, sp1)" by fastforce
  obtain fs sp2 where r: "feed_frames hide ts sp1 = (fs, sp2)" by fastforce
  have "of_kind Content (evs @ xs) = of_kind Content evs @ of_kind Content xs" for xs by (simp add: of_kind_def)
  then show ?case using Cons.IH [of sp1] f r by (simp add: step content_append content_shown)
qed

text \<open>A peer's stream that comes to its end shows, as content, the content of the text cut at its tags.\<close>

lemma peer_stream_content: "content_of (fst (peer_stream hide name ts Ends)) = of_kind Content (feed_all ts (make_splitter name))"
proof -
  obtain fs sp where f: "feed_frames hide ts (make_splitter name) = (fs, sp)" by fastforce
  have "content_of [Done_frame] = []" by (simp add: content_of_def map_filter_simps)
  then show ?thesis using feed_frames_content [of hide ts "make_splitter name"] f by (simp add: peer_stream_def content_append content_shown)
qed

section \<open>Where the code falls short of itself\<close>

text \<open>An entry that is no address is passed over, to what the client itself may have written left of it.\<close>

lemma garbage_skipped:
  assumes "CHR '','' \<notin> set c" "is_address X (py_strip c) = None"
  shows "client_address X p (forged @ CHR '','' # c) spec = client_address X p forged spec"
  using assms by (auto simp: client_address_def entries_append entries_one is_trusted_def Let_def)

text \<open>A check counts nothing: calls that are checked before the first of them ends are all let in.\<close>

lemma checks_not_counted: "check_rate now ip e (snd (check_rate now ip e st)) = check_rate now ip e st"
proof -
  have "rate_turned now (rate_turned now r) = rate_turned now r" for r by (simp add: rate_turned_def Let_def)
  moreover have "dict_set (dict_set st ip a) ip b = dict_set st ip b" for a b by (simp add: dict_set_def)
  ultimately show ?thesis by (simp add: check_rate_def dict_get_def Let_def)
qed

text \<open>A stream is charged only if it comes to its end: one that breaks, or that the client leaves, is free.\<close>

lemma unfinished_stream_free: "e \<noteq> Ends \<Longrightarrow> snd (peer_stream hide name ts e) = None \<and> snd (plain_stream ts e) = None"
  by (cases e) (simp_all add: peer_stream_def plain_stream_def Let_def split: prod.split)

text \<open>The cap on the answer bounds from above only.\<close>

lemma negative_cap_passes: "gr_max_tokens req = Some (- 1) \<Longrightarrow> token_cap req = - 1"
  by (simp add: token_cap_def MAX_REQUEST_TOKENS_def)

text \<open>Streams of this node and of fleet nodes show the reasoning that is hidden in everything else.\<close>

lemma plain_stream_shows_thoughts: "content_of (fst (plain_stream [''<think>a</think>b''] Ends)) = [''<think>a</think>b'']"
  by (simp add: plain_stream_def content_of_def map_filter_simps)

text \<open>No size class is kept out: without a floor every model is a candidate.\<close>

lemma every_tier_served: "wanted False [] [] c"
  by (simp add: wanted_def TIER_RANK_def dict_get_def)

text \<open>A model that advertises 70 billion parameters under a plain name meets every floor and is counted for none.\<close>

lemma tier_counts_drift:
  "floor_rank \<lparr>gc_name = ''big'', gc_addr = None, gc_tier = 2, gc_backend = [], gc_params = 70\<rparr> = 4
    \<and> tier_counts [offer ''big''] = [(''frontier'', 0), (''capable'', 0), (''fast'', 0), (''tiny'', 0)]"
  by code_simp

text \<open>A fleet node that announced no address is asked at this node.\<close>

lemma no_address_is_local: "place_of (fleet_candidate_of [] (Gw_name n)) = At_local n"
  by (simp add: place_of_def)

end
