(* ===== verification/Api_Access.thy ===== *)
theory Api_Access
  imports Public_Gateway
begin

text \<open>
  Who may call the HTTP interface: the key and the lockouts of \<open>ApiKeyMiddleware\<close>, the limit of
  \<open>AnonRateLimitMiddleware\<close> and their order (\<open>api/app.py\<close>), the fallback to the files of the dashboard, and the
  list of nodes that announced themselves, with the operator's decisions on it (\<open>api/admin.py\<close>), its table in
  the database (\<open>storage/repositories.py\<close>) and its sweep (\<open>node.py\<close>). The locale \<open>sliding_window\<close> states what the
  two limits share: how often something may happen within a time. Times are given to the operations; the
  syntax of addresses and the files on disk are parameters.
\<close>

section \<open>Sliding windows\<close>

text \<open>\<open>[t for t in ts if now - t < width]\<close>.\<close>

definition recent :: "pyfloat \<Rightarrow> pyfloat \<Rightarrow> pyfloat list \<Rightarrow> pyfloat list" where
  "recent width now ts = filter (\<lambda>t. now - t < width) ts"

lemma recent_recent: "s \<le> t \<Longrightarrow> recent w t (recent w s ts) = recent w t ts"
  by (induction ts) (auto simp: recent_def)

lemma recent_Nil [simp]: "recent w t [] = []"
  by (simp add: recent_def)

lemma recent_append [simp]: "recent w t (a @ b) = recent w t a @ recent w t b"
  by (simp add: recent_def)

text \<open>The times of the events of a run that count for \<open>a\<close>.\<close>

fun counted_times :: "('e \<Rightarrow> 's \<Rightarrow> pystr option) \<Rightarrow> ('e \<Rightarrow> pyfloat) \<Rightarrow> ('e \<Rightarrow> 's \<Rightarrow> 's) \<Rightarrow> pystr \<Rightarrow> 'e list \<Rightarrow> 's \<Rightarrow> pyfloat list" where
  "counted_times counts time_of step a [] s = []"
| "counted_times counts time_of step a (e # es) s =
     (if counts e s = Some a then [time_of e] else []) @ counted_times counts time_of step a es (step e s)"

definition in_window :: "pyfloat \<Rightarrow> pyfloat \<Rightarrow> pyfloat list \<Rightarrow> nat" where
  "in_window width t ts = length (filter (\<lambda>u. t - width < u \<and> u \<le> t) ts)"

text \<open>
  An event counts for somebody only below the limit, and what the state remembers of it changes by exactly
  the events that count, as far as it is recent.
\<close>

locale sliding_window =
  fixes width :: pyfloat and limit :: nat
    and counts :: "'e \<Rightarrow> 's \<Rightarrow> pystr option" and time_of :: "'e \<Rightarrow> pyfloat" and step :: "'e \<Rightarrow> 's \<Rightarrow> 's"
    and remembered :: "'s \<Rightarrow> pystr \<Rightarrow> pyfloat list" and inv :: "'s \<Rightarrow> bool"
  assumes kept: "inv s \<Longrightarrow> inv (step e s)"
    and below: "inv s \<Longrightarrow> counts e s = Some a \<Longrightarrow> length (recent width (time_of e) (remembered s a)) < limit"
    and keeps: "inv s \<Longrightarrow> time_of e \<le> now \<Longrightarrow> recent width now (remembered (step e s) a)
      = recent width now (remembered s a @ (if counts e s = Some a then [time_of e] else []))"
begin

lemma window_step:
  assumes "length (recent width t past) < limit" "\<forall>u \<in> set past. u \<le> t" "\<forall>u. in_window width u past \<le> limit"
  shows "in_window width u (past @ [t]) \<le> limit"
proof (cases "t \<le> u \<and> u - width < t")
  case True
  then have "length (filter (\<lambda>v. u - width < v \<and> v \<le> u) past) \<le> length (recent width t past)"
    unfolding recent_def by (induction past) auto
  then show ?thesis using True assms(1) by (simp add: in_window_def)
qed (use assms(3) in \<open>auto simp: in_window_def\<close>)

lemma run_bounded:
  assumes "inv s" "sorted (t # map time_of es)"
    and "\<And>now. t \<le> now \<Longrightarrow> recent width now (remembered s a) = recent width now past"
    and "\<forall>u \<in> set past. u \<le> t" "\<forall>u. in_window width u past \<le> limit"
  shows "in_window width u (past @ counted_times counts time_of step a es s) \<le> limit"
  using assms
proof (induction es arbitrary: t s past)
  case (Cons e es)
  let ?new = "if counts e s = Some a then [time_of e] else []"
  have later: "t \<le> time_of e" "sorted (time_of e # map time_of es)" using Cons.prems(2) by auto
  have "recent width now (remembered (step e s) a) = recent width now (past @ ?new)" if "time_of e \<le> now" for now
    using keeps [OF Cons.prems(1) that, of a] Cons.prems(3) [of now] that later(1) by simp
  moreover have "\<forall>u \<in> set (past @ ?new). u \<le> time_of e" using Cons.prems(4) later(1) by fastforce
  moreover have "\<forall>u. in_window width u (past @ ?new) \<le> limit"
  proof (cases "counts e s = Some a")
    case True
    have "\<forall>u \<in> set past. u \<le> time_of e" using Cons.prems(4) later(1) by fastforce
    then show ?thesis using window_step [OF _ _ Cons.prems(5)] below [OF Cons.prems(1) True] Cons.prems(3) [OF later(1)] True by simp
  qed (use Cons.prems(5) in simp)
  ultimately show ?case using Cons.IH [OF kept [OF Cons.prems(1), of e] later(2), of "past @ ?new"] by simp
qed simp

theorem window_bounded:
  "inv s \<Longrightarrow> sorted (map time_of es) \<Longrightarrow> remembered s a = [] \<Longrightarrow> in_window width u (counted_times counts time_of step a es s) \<le> limit"
proof (cases es)
  case (Cons e es')
  assume "inv s" "sorted (map time_of es)" "remembered s a = []"
  then show ?thesis using run_bounded [of s "time_of e" es a "[]" u] Cons by (simp add: in_window_def)
qed (simp add: in_window_def)

end

section \<open>The key\<close>

definition PUBLIC_PATHS :: "pystr list" where
  "PUBLIC_PATHS = [''/health'', ''/metrics'', ''/docs'', ''/openapi.json'']"

definition PUBLIC_MODE_INFERENCE_PATHS :: "pystr list" where
  "PUBLIC_MODE_INFERENCE_PATHS = [''/v1/models'', ''/v1/chat/completions'', ''/v1/completions'', ''/v1/embeddings'']"

definition PUBLIC_MODE_INFERENCE_PREFIXES :: "pystr list" where
  "PUBLIC_MODE_INFERENCE_PREFIXES = [''/v1/models/'', ''/api/'']"

definition is_public_inference_path :: "pystr \<Rightarrow> bool" where
  "is_public_inference_path path \<longleftrightarrow>
     path \<in> set PUBLIC_MODE_INFERENCE_PATHS \<or> list_ex (py_startswith path) PUBLIC_MODE_INFERENCE_PREFIXES"

record web_request =
  wr_method :: pystr
  wr_path :: pystr
  wr_authorization :: pystr
  wr_x_api_key :: "pystr option"
  wr_query_key :: "pystr option"
  wr_client :: "pystr option"
  wr_forwarded :: pystr

record app_settings =
  se_api_key :: pystr
  se_public :: bool
  se_trusted :: pystr
  se_anon_rate :: int

record auth_entry =
  au_failures :: nat
  au_locked_until :: pyfloat

record guard_state =
  gd_auth :: "(pystr, auth_entry) dict"
  gd_fails :: "(pystr, pyfloat list) dict"
  gd_buckets :: "(pystr, pyfloat list) dict"

definition new_guard :: guard_state where
  "new_guard = \<lparr>gd_auth = [], gd_fails = [], gd_buckets = []\<rparr>"

text \<open>What becomes of a request: its handler is called, or it is refused, or the check itself raises.\<close>

datatype admission = To_handler | Unauthorized | Locked int | Slow_down | Rate_limited int | Server_error

definition MAX_ATTEMPTS :: "nat list" where "MAX_ATTEMPTS = [5, 10, 20]"
definition LOCKOUT_SECS :: "nat list" where "LOCKOUT_SECS = [60, 900, 3600]"
definition PUBLIC_WINDOW_SECS :: pyfloat where "PUBLIC_WINDOW_SECS = 300"
definition PUBLIC_WINDOW_MAX_FAILS :: nat where "PUBLIC_WINDOW_MAX_FAILS = 30"

definition get_lockout :: "nat \<Rightarrow> nat" where
  "get_lockout failures = (case find (\<lambda>(threshold, secs). failures \<ge> threshold) (zip (rev MAX_ATTEMPTS) (rev LOCKOUT_SECS)) of
     None \<Rightarrow> 0 | Some (threshold, secs) \<Rightarrow> secs)"

text \<open>\<open>hmac.compare_digest\<close> of two strings, which raises (\<open>None\<close>) unless both are ASCII.\<close>

definition compare_digest :: "pystr \<Rightarrow> pystr \<Rightarrow> bool option" where
  "compare_digest a b = (if list_all (\<lambda>c. of_char c < (128 :: nat)) (a @ b) then Some (a = b) else None)"

definition key_candidates :: "web_request \<Rightarrow> pystr list" where
  "key_candidates req =
     [if py_startswith (wr_authorization req) ''Bearer '' then drop 7 (wr_authorization req) else [],
      case wr_x_api_key req of None \<Rightarrow> [] | Some k \<Rightarrow> k, case wr_query_key req of None \<Rightarrow> [] | Some k \<Rightarrow> k]"

fun any_key :: "pystr \<Rightarrow> pystr list \<Rightarrow> bool option" where
  "any_key key [] = Some False"
| "any_key key (c # cs) = (if c = [] then any_key key cs
     else case compare_digest c key of None \<Rightarrow> None | Some True \<Rightarrow> Some True | Some False \<Rightarrow> any_key key cs)"

definition request_address :: "ip_syntax \<Rightarrow> app_settings \<Rightarrow> web_request \<Rightarrow> pystr" where
  "request_address X S req = client_address X (wr_client req) (wr_forwarded req) (se_trusted S)"

text \<open>The paths that need no key.\<close>

definition exempt :: "bool \<Rightarrow> pystr \<Rightarrow> bool" where
  "exempt public path \<longleftrightarrow>
     (path \<in> set PUBLIC_PATHS \<or> \<not> (py_startswith path ''/v1'' \<or> py_startswith path ''/api''))
     \<or> (py_contains path ''/public/'' \<or> path = ''/v1/admin/nodes/announce'')
     \<or> public \<and> is_public_inference_path path"

text \<open>Addresses with nothing recent are dropped from a table that has grown large.\<close>

definition prune_dict :: "pyfloat \<Rightarrow> pyfloat \<Rightarrow> (pystr, pyfloat list) dict \<Rightarrow> (pystr, pyfloat list) dict" where
  "prune_dict w now d = filter (\<lambda>(k, v). v \<noteq> []) (map (\<lambda>(k, v). (k, recent w now v)) d)"

definition public_failure :: "pyfloat \<Rightarrow> pystr \<Rightarrow> guard_state \<Rightarrow> admission \<times> guard_state" where
  "public_failure now ip st =
     (let fails = recent PUBLIC_WINDOW_SECS now (dict_get (gd_fails st) ip []) @ [now];
          d = dict_set (gd_fails st) ip fails;
          d1 = (if length d > 2000 then prune_dict PUBLIC_WINDOW_SECS now d else d)
      in (if length fails > PUBLIC_WINDOW_MAX_FAILS then Slow_down else Unauthorized, st\<lparr>gd_fails := d1\<rparr>))"

definition private_failure :: "pyfloat \<Rightarrow> pystr \<Rightarrow> guard_state \<Rightarrow> admission \<times> guard_state" where
  "private_failure now ip st =
     (let state = dict_get (gd_auth st) ip \<lparr>au_failures = 0, au_locked_until = 0\<rparr>
      in if au_locked_until state > now then (Locked \<lfloor>au_locked_until state - now\<rfloor>, st)
         else
           let failures = au_failures state + 1; lockout = get_lockout failures;
               state1 = \<lparr>au_failures = failures, au_locked_until = (if lockout \<noteq> 0 then now + of_nat lockout else au_locked_until state)\<rparr>;
               d = dict_set (gd_auth st) ip state1;
               d1 = (if length d > 1000 then filter (\<lambda>(k, v). au_locked_until v > now - 7200 \<or> au_failures v > 0) d else d)
           in (if lockout \<noteq> 0 then Locked (int lockout) else Unauthorized, st\<lparr>gd_auth := d1\<rparr>))"

definition key_dispatch :: "ip_syntax \<Rightarrow> app_settings \<Rightarrow> pyfloat \<Rightarrow> web_request \<Rightarrow> guard_state \<Rightarrow> admission \<times> guard_state" where
  "key_dispatch X S now req st =
     (if exempt (se_public S) (wr_path req) then (To_handler, st)
      else
        let ip = request_address X S req in
        case any_key (se_api_key S) (key_candidates req) of
          None \<Rightarrow> (Server_error, st)
        | Some True \<Rightarrow> (To_handler, st\<lparr>gd_auth := dict_pop (gd_auth st) ip, gd_fails := dict_pop (gd_fails st) ip\<rparr>)
        | Some False \<Rightarrow> if se_public S then public_failure now ip st else private_failure now ip st)"

section \<open>The limit of anonymous callers\<close>

definition is_authenticated :: "app_settings \<Rightarrow> web_request \<Rightarrow> bool" where
  "is_authenticated S req \<longleftrightarrow> se_api_key S \<noteq> []
     \<and> (wr_authorization req = ''Bearer '' @ se_api_key S \<or> wr_x_api_key req = Some (se_api_key S) \<or> wr_query_key req = Some (se_api_key S))"

definition limited :: "app_settings \<Rightarrow> web_request \<Rightarrow> bool" where
  "limited S req \<longleftrightarrow> is_public_inference_path (wr_path req) \<and> \<not> is_authenticated S req"

text \<open>\<open>None\<close> where the next check is called.\<close>

definition anon_dispatch :: "ip_syntax \<Rightarrow> app_settings \<Rightarrow> pyfloat \<Rightarrow> web_request \<Rightarrow> guard_state \<Rightarrow> admission option \<times> guard_state" where
  "anon_dispatch X S now req st =
     (if \<not> limited S req then (None, st)
      else
        let ip = request_address X S req; bucket = recent 60 now (dict_get (gd_buckets st) ip []) in
        if int (length bucket) \<ge> se_anon_rate S then
          (case bucket of [] \<Rightarrow> (Some Server_error, st) | t # ts \<Rightarrow> (Some (Rate_limited (max 1 \<lfloor>60 - (now - t)\<rfloor>)), st))
        else
          let d = dict_set (gd_buckets st) ip (bucket @ [now]);
              d1 = (if length d > 5000 then prune_dict 60 now d else d)
          in (None, st\<lparr>gd_buckets := d1\<rparr>))"

text \<open>\<open>create_app\<close>: the middleware added last is called first, and each is there only where it is needed.\<close>

definition app_request :: "ip_syntax \<Rightarrow> app_settings \<Rightarrow> pyfloat \<Rightarrow> web_request \<Rightarrow> guard_state \<Rightarrow> admission \<times> guard_state" where
  "app_request X S now req st =
     (let (refused, st1) = (if se_public S then anon_dispatch X S now req st else (None, st))
      in case refused of
           Some a \<Rightarrow> (a, st1)
         | None \<Rightarrow> if se_api_key S \<noteq> [] then key_dispatch X S now req st1 else (To_handler, st1))"

section \<open>The dashboard\<close>

definition os_path_join :: "pystr \<Rightarrow> pystr \<Rightarrow> pystr" where
  "os_path_join a b = (if py_startswith b ''/'' then b else if a = [] \<or> last a = CHR ''/'' then a @ b else a @ ''/'' @ b)"

datatype web_file = File_sent pystr | Nothing_found

text \<open>The answer where no route matches; \<open>is_file\<close> is what the operating system says of a path.\<close>

definition spa_fallback :: "(pystr \<Rightarrow> bool) \<Rightarrow> pystr \<Rightarrow> web_request \<Rightarrow> web_file" where
  "spa_fallback is_file web_path req =
     (let path = dropWhile (\<lambda>c. c = CHR ''/'') (wr_path req)
      in if wr_method req = ''GET'' \<and> \<not> py_startswith path ''v1/''
         then (if path \<noteq> [] \<and> is_file (os_path_join web_path path) then File_sent (os_path_join web_path path)
               else File_sent (os_path_join web_path ''index.html''))
         else Nothing_found)"

section \<open>Admission\<close>

definition ascii :: "pystr \<Rightarrow> bool" where
  "ascii s \<longleftrightarrow> list_all (\<lambda>c. of_char c < (128 :: nat)) s"

lemma any_key_found: "any_key key cs = Some True \<Longrightarrow> key \<in> set cs"
  by (induction cs) (auto simp: compare_digest_def split: if_splits option.splits bool.splits)

lemma any_key_ascii: "key \<noteq> [] \<Longrightarrow> ascii key \<Longrightarrow> \<forall>c \<in> set cs. ascii c \<Longrightarrow> any_key key cs = Some (key \<in> set cs)"
  by (induction cs) (auto simp: compare_digest_def ascii_def split: bool.splits)

lemma not_exempt_free: "\<not> exempt (se_public S) (wr_path req) \<Longrightarrow> se_public S \<Longrightarrow> anon_dispatch X S now req st = (None, st)"
  by (simp add: anon_dispatch_def limited_def exempt_def)

lemma failure_refused: "fst (public_failure now ip st) \<noteq> To_handler" "fst (private_failure now ip st) \<noteq> To_handler"
  by (simp_all add: public_failure_def private_failure_def Let_def)

text \<open>
  C35: the key guards the interface. With a key configured, a request to any path but the exempt ones reaches
  its handler only if it carries the key; and one that carries it, with all its keys in ASCII, always does,
  whatever happened before: no failed attempts of others at its address can lock it out. A request to an
  exempt path is never asked for a key, and in private mode always reaches its handler.
\<close>

theorem key_guards_api:
  assumes "se_api_key S \<noteq> []"
  shows "if exempt (se_public S) (wr_path req)
    then fst (app_request X S now req st) \<notin> {Unauthorized, Slow_down} \<union> range Locked
      \<and> (\<not> se_public S \<longrightarrow> app_request X S now req st = (To_handler, st))
    else (fst (app_request X S now req st) = To_handler \<longrightarrow> se_api_key S \<in> set (key_candidates req))
      \<and> (se_api_key S \<in> set (key_candidates req) \<and> (\<forall>k \<in> set (key_candidates req). ascii k)
          \<longrightarrow> fst (app_request X S now req st) = To_handler)"
proof (cases "exempt (se_public S) (wr_path req)")
  case True
  then show ?thesis using assms
    by (auto simp: app_request_def key_dispatch_def anon_dispatch_def Let_def split: list.splits)
next
  case False
  then have "app_request X S now req st = key_dispatch X S now req st"
    using assms not_exempt_free [OF False] by (simp add: app_request_def)
  moreover have "fst (key_dispatch X S now req st) = To_handler \<longleftrightarrow> any_key (se_api_key S) (key_candidates req) = Some True"
    using False failure_refused by (auto simp: key_dispatch_def Let_def split: option.splits bool.splits if_splits)
  ultimately show ?thesis using False assms any_key_found any_key_ascii by (metis (full_types))
qed

text \<open>The requests that the limit of anonymous callers concerns and that reach their handlers.\<close>

definition app_step :: "ip_syntax \<Rightarrow> app_settings \<Rightarrow> pyfloat \<times> web_request \<Rightarrow> guard_state \<Rightarrow> guard_state" where
  "app_step X S = (\<lambda>(now, req) st. snd (app_request X S now req st))"

definition anonymous_served :: "ip_syntax \<Rightarrow> app_settings \<Rightarrow> pyfloat \<times> web_request \<Rightarrow> guard_state \<Rightarrow> pystr option" where
  "anonymous_served X S = (\<lambda>(now, req) st.
     if se_public S \<and> limited S req \<and> fst (app_request X S now req st) = To_handler then Some (request_address X S req) else None)"

lemma dict_ok_prune: "dict_ok d \<Longrightarrow> dict_ok (prune_dict w now d)"
  unfolding prune_dict_def by (intro dict_ok_filter) (simp add: dict_ok_def comp_def case_prod_beta)

lemma dict_get_prune: "dict_ok d \<Longrightarrow> dict_get (prune_dict w now d) k [] = recent w now (dict_get d k [])"
proof -
  assume ok: "dict_ok d"
  have "map_of (map (\<lambda>(k, v). (k, recent w now v)) d) k = map_option (recent w now) (map_of d k)" by (simp add: map_of_map)
  moreover have "dict_ok (map (\<lambda>(k, v). (k, recent w now v)) d)" using ok by (simp add: dict_ok_def comp_def case_prod_beta)
  ultimately show ?thesis by (auto simp: prune_dict_def dict_get_def map_of_filter_ok recent_def split: option.splits)
qed

lemma failure_buckets [simp]:
  "gd_buckets (snd (public_failure now ip st)) = gd_buckets st" "gd_buckets (snd (private_failure now ip st)) = gd_buckets st"
  by (simp_all add: public_failure_def private_failure_def Let_def)

lemma key_dispatch_buckets [simp]: "gd_buckets (snd (key_dispatch X S now req st)) = gd_buckets st"
  by (simp add: key_dispatch_def Let_def split: option.splits bool.splits)

lemma app_buckets:
  fixes X :: ip_syntax and S :: app_settings
  defines "ip req \<equiv> request_address X S req"
  shows "(anonymous_served X S (now, req) st = None \<and> gd_buckets (app_step X S (now, req) st) = gd_buckets st)
    \<or> (anonymous_served X S (now, req) st = Some (ip req) \<and> length (recent 60 now (dict_get (gd_buckets st) (ip req) [])) < nat (se_anon_rate S)
      \<and> (\<exists>d. d = dict_set (gd_buckets st) (ip req) (recent 60 now (dict_get (gd_buckets st) (ip req) []) @ [now])
          \<and> gd_buckets (app_step X S (now, req) st) \<in> {d, prune_dict 60 now d}))"
proof (cases "se_public S \<and> limited S req")
  case False
  then have "app_request X S now req st = (if se_api_key S \<noteq> [] then key_dispatch X S now req st else (To_handler, st))"
    by (auto simp: app_request_def anon_dispatch_def)
  then show ?thesis using False by (auto simp: anonymous_served_def app_step_def)
next
  case True
  then have "key_dispatch X S now req s = (To_handler, s)" for s by (simp add: key_dispatch_def exempt_def limited_def)
  then have "app_request X S now req st = (case anon_dispatch X S now req st of (r, s) \<Rightarrow> (case r of None \<Rightarrow> To_handler | Some a \<Rightarrow> a, s))"
    using True by (auto simp: app_request_def split: prod.splits option.splits)
  then show ?thesis using True
    by (auto simp: anonymous_served_def app_step_def anon_dispatch_def ip_def Let_def zless_nat_eq_int_zless not_le split: list.splits)
qed

interpretation anon: sliding_window 60 "nat (se_anon_rate S)" "anonymous_served X S" fst "app_step X S"
  "\<lambda>st a. dict_get (gd_buckets st) a []" "\<lambda>st. dict_ok (gd_buckets st)" for X S
proof (unfold_locales, goal_cases kept below keeps)
  case (kept st e)
  then show ?case using app_buckets [of X S "fst e" "snd e" st] dict_ok_prune by auto
next
  case (below st e a)
  then show ?case using app_buckets [of X S "fst e" "snd e" st] by auto
next
  case (keeps st e now a)
  have past: "recent 60 now (recent 60 (fst e) ts) = recent 60 now ts" for ts using keeps(2) by (rule recent_recent)
  show ?case using app_buckets [of X S "fst e" "snd e" st]
  proof (elim disjE conjE exE, goal_cases quiet served)
    case (served d)
    then have "recent 60 now (dict_get (gd_buckets (app_step X S e st)) a []) = recent 60 now (dict_get d a [])"
      using dict_get_prune [of d 60 "fst e" a] keeps(1) past by auto
    then show ?thesis using served(1,3) past by (cases "a = request_address X S (snd e)") (simp_all add: dict_get_def)
  qed simp
qed

text \<open>
  C36: anonymous callers of a public node are limited. However many requests come from wherever, in the order
  of their times: of those to the open inference paths without the key, no address has more than the configured
  number served within any minute.
\<close>

theorem anonymous_limited:
  assumes "sorted (map fst requests)"
  shows "in_window 60 t (counted_times (anonymous_served X S) fst (app_step X S) address requests new_guard) \<le> nat (se_anon_rate S)"
  by (rule anon.window_bounded [OF _ assms]) (simp_all add: new_guard_def dict_get_def)

section \<open>Examples\<close>

definition demo_settings :: app_settings where
  "demo_settings = \<lparr>se_api_key = ''k'', se_public = True, se_trusted = [], se_anon_rate = 1\<rparr>"

definition demo_web :: "pystr \<Rightarrow> pystr \<Rightarrow> web_request" where
  "demo_web path key = \<lparr>wr_method = ''GET'', wr_path = path, wr_authorization = [], wr_x_api_key = Some key, wr_query_key = None,
     wr_client = Some ''8.8.8.8'', wr_forwarded = []\<rparr>"

theorem key_guards_api_witness:
  "fst (app_request demo_syntax demo_settings 7 (demo_web ''/v1/node'' ''k'') new_guard) = To_handler
   \<and> fst (app_request demo_syntax demo_settings 7 (demo_web ''/v1/node'' ''x'') new_guard) \<noteq> To_handler"
proof -
  have key: "se_api_key demo_settings \<noteq> []" by (simp add: demo_settings_def)
  have closed: "\<not> exempt (se_public demo_settings) (wr_path (demo_web ''/v1/node'' x))" for x
  proof -
    have "\<not> exempt True ''/v1/node''" by code_simp
    then show ?thesis by (simp add: demo_settings_def demo_web_def)
  qed
  have cands: "key_candidates (demo_web p x) = [[], x, []]" for p x by (simp add: key_candidates_def demo_web_def)
  have "ascii [] \<and> ascii ''k''" by code_simp
  then show ?thesis
    using key_guards_api [OF key, of "demo_web ''/v1/node'' ''k''" demo_syntax 7 new_guard] key_guards_api [OF key, of "demo_web ''/v1/node'' ''x''" demo_syntax 7 new_guard]
    by (simp add: closed cands) (simp add: demo_settings_def)
qed

definition demo_visits :: "(pyfloat \<times> web_request) list" where
  "demo_visits = [(0, demo_web ''/v1/models'' []), (1, demo_web ''/v1/models'' [])]"

theorem anonymous_limited_witness:
  "in_window 60 1 (counted_times (anonymous_served demo_syntax demo_settings) fst (app_step demo_syntax demo_settings) ''8.8.8.8'' demo_visits new_guard) \<le> 1
   \<and> counted_times (anonymous_served demo_syntax demo_settings) fst (app_step demo_syntax demo_settings) ''8.8.8.8'' demo_visits new_guard = [0]"
proof -
  have "sorted (map fst demo_visits)" by (simp add: demo_visits_def)
  moreover have "counted_times (anonymous_served demo_syntax demo_settings) fst (app_step demo_syntax demo_settings) ''8.8.8.8'' demo_visits new_guard = [0]"
  proof -
    have "is_public_inference_path ''/v1/models''" by code_simp
    then have open_path: "limited demo_settings (demo_web ''/v1/models'' [])" "exempt True ''/v1/models''"
      by (simp_all add: limited_def is_authenticated_def exempt_def demo_web_def demo_settings_def)
    have "parse_trusted demo_syntax [] = []" by (simp add: parse_trusted_def entries_def py_strip_def map_filter_simps)
    then have "request_address demo_syntax demo_settings (demo_web p k) = ''8.8.8.8''" for p k
      by (simp add: request_address_def client_address_def is_trusted_def demo_web_def demo_settings_def Let_def split: option.split)
    note facts = open_path this
    let ?s = "new_guard\<lparr>gd_buckets := [(''8.8.8.8'', [0])]\<rparr>" and ?r = "demo_web ''/v1/models'' []"
    have key: "key_dispatch demo_syntax demo_settings t ?r st = (To_handler, st)" for t st
      using facts(2) by (simp add: key_dispatch_def demo_web_def demo_settings_def)
    have "anon_dispatch demo_syntax demo_settings 0 ?r new_guard = (None, ?s)"
      using facts(1,3) by (simp add: anon_dispatch_def new_guard_def recent_def dict_get_def dict_set_def Let_def demo_settings_def)
    moreover have "anon_dispatch demo_syntax demo_settings 1 ?r ?s = (Some (Rate_limited 59), ?s)"
      using facts(1,3) by (simp add: anon_dispatch_def new_guard_def recent_def dict_get_def Let_def demo_settings_def)
    ultimately have "app_request demo_syntax demo_settings 0 ?r new_guard = (To_handler, ?s)"
      "app_request demo_syntax demo_settings 1 ?r ?s = (Rate_limited 59, ?s)"
      using key by (simp_all add: app_request_def) (simp_all add: demo_settings_def)
    then show ?thesis using facts by (simp add: demo_visits_def anonymous_served_def app_step_def) (simp add: demo_settings_def)
  qed
  ultimately show ?thesis using anonymous_limited [of demo_visits 1 demo_syntax demo_settings "''8.8.8.8''"] by (simp add: demo_settings_def)
qed

section \<open>What the comments do not say\<close>

text \<open>A caller with the key is let in before the lockout is looked at: it stops no guess.\<close>

lemma lockout_stops_no_guess: "any_key (se_api_key S) (key_candidates req) = Some True \<Longrightarrow> fst (key_dispatch X S now req st) = To_handler"
  by (simp add: key_dispatch_def Let_def)

text \<open>Entries of addresses that failed are never pruned, and there are no others.\<close>

lemma lockouts_never_pruned:
  assumes "\<forall>(k, v) \<in> set (gd_auth st). au_failures v > 0" and "au_failures e > 0"
  shows "filter (\<lambda>(k, v). au_locked_until v > now - 7200 \<or> au_failures v > 0) (dict_set (gd_auth st) ip e) = dict_set (gd_auth st) ip e"
proof -
  have "set (dict_set d k v) \<subseteq> insert (k, v) (set d)" for d k and v :: auth_entry
    unfolding dict_set_def by (induction d) auto
  then have "\<forall>(k, v) \<in> set (dict_set (gd_auth st) ip e). au_failures v > 0" using assms by fast
  then show ?thesis by (fastforce simp: filter_id_conv)
qed

text \<open>The marker of public paths counts anywhere in a path.\<close>

lemma marker_anywhere: "exempt public (a @ ''/public/'' @ b)"
  by (auto simp: exempt_def py_contains_iff)

text \<open>A public node without a key protects nothing.\<close>

lemma public_without_key_open:
  "se_api_key S = [] \<Longrightarrow> \<not> is_public_inference_path (wr_path req) \<Longrightarrow> app_request X S now req st = (To_handler, st)"
  by (simp add: app_request_def anon_dispatch_def limited_def)

text \<open>A rate of zero does not refuse anonymous callers, it raises.\<close>

lemma zero_rate_raises:
  "se_public S \<Longrightarrow> limited S req \<Longrightarrow> se_anon_rate S \<le> 0 \<Longrightarrow> gd_buckets st = [] \<Longrightarrow> fst (app_request X S now req st) = Server_error"
  by (simp add: app_request_def anon_dispatch_def recent_def dict_get_def Let_def)

text \<open>A key that is not ASCII raises and is not counted.\<close>

lemma odd_key_raises:
  "\<not> exempt (se_public S) (wr_path req) \<Longrightarrow> key_candidates req = c # cs \<Longrightarrow> \<not> ascii c \<Longrightarrow> key_dispatch X S now req st = (Server_error, st)"
  by (auto simp: key_dispatch_def compare_digest_def ascii_def Let_def)

text \<open>The fallback serves any file on the machine, to anybody.\<close>

lemma fallback_leaves_directory:
  assumes "wr_method req = ''GET''" "wr_path req = ''/../'' @ rest" "is_file (web @ ''/../'' @ rest)" "web \<noteq> []" "last web \<noteq> CHR ''/''"
  shows "fst (app_request X S now req st) = To_handler \<and> spa_fallback is_file web req = File_sent (web @ ''/../'' @ rest)"
proof -
  have "\<not> is_public_inference_path (wr_path req)" "exempt (se_public S) (wr_path req)"
    using assms(2) by (simp_all add: is_public_inference_path_def PUBLIC_MODE_INFERENCE_PATHS_def PUBLIC_MODE_INFERENCE_PREFIXES_def exempt_def)
  then show ?thesis using assms
    by (simp add: app_request_def anon_dispatch_def limited_def key_dispatch_def spa_fallback_def os_path_join_def Let_def)
qed

end
