(* ===== verification/Node_Registry.thy ===== *)
theory Node_Registry
  imports Api_Access Federation
begin

text \<open>
  The nodes that announced themselves over HTTP: the announcement, the operator's decisions and the limit of
  new nodes (\<open>api/admin.py\<close>), their table in the database (\<open>NodeRegistryRepository\<close> in \<open>storage/repositories.py\<close>,
  \<open>NodeRegistryEntry\<close> in \<open>storage/models.py\<close>), the sweep of old entries and the load at start (\<open>node.py\<close>). Of the
  capabilities it keeps the models, which is what the gateway reads; other documents are kept as they came.
  A write to the database fails where the given flag says so, and its failure is ignored, as in the code.
\<close>

section \<open>Entries and their table\<close>

record node_entry =
  ne_node_name :: pystr
  ne_api_addr :: pystr
  ne_role :: pystr
  ne_models :: "gw_model list"
  ne_system :: pystr
  ne_status :: pystr
  ne_last_seen :: pyfloat
  ne_first_seen :: pyfloat
  ne_ip :: pystr
  ne_telemetry :: "pystr option"
  ne_online :: "bool option"

text \<open>A row has the fields of an entry but the telemetry, and always says whether the node was online.\<close>

definition table_upsert :: "pystr \<Rightarrow> node_entry \<Rightarrow> (pystr, node_entry) dict \<Rightarrow> (pystr, node_entry) dict" where
  "table_upsert pid e t = (case map_of t pid of
     Some r \<Rightarrow> dict_set t pid (r\<lparr>ne_node_name := ne_node_name e, ne_api_addr := ne_api_addr e, ne_role := ne_role e,
       ne_models := ne_models e, ne_system := ne_system e, ne_status := ne_status e, ne_last_seen := ne_last_seen e, ne_ip := ne_ip e,
       ne_online := (case ne_online e of None \<Rightarrow> ne_online r | Some b \<Rightarrow> Some b)\<rparr>)
   | None \<Rightarrow> dict_set t pid (e\<lparr>ne_telemetry := None, ne_online := Some (case ne_online e of None \<Rightarrow> False | Some b \<Rightarrow> b)\<rparr>))"

definition table_remove :: "pystr \<Rightarrow> (pystr, node_entry) dict \<Rightarrow> bool \<times> (pystr, node_entry) dict" where
  "table_remove pid t = (if map_of t pid = None then (False, t) else (True, dict_pop t pid))"

definition list_all_rows :: "pyfloat \<Rightarrow> (pystr, node_entry) dict \<Rightarrow> (pystr, node_entry) dict" where
  "list_all_rows now t = map (\<lambda>(pid, r). (pid, r\<lparr>ne_online := Some (now - ne_last_seen r < 120)\<rparr>)) t"

definition count_by_status :: "pystr \<Rightarrow> (pystr, node_entry) dict \<Rightarrow> nat" where
  "count_by_status status t = length (filter (\<lambda>(pid, r). ne_status r = status) t)"

definition load_as_dict :: "pyfloat \<Rightarrow> (pystr, node_entry) dict \<Rightarrow> (pystr, node_entry) dict" where
  "load_as_dict now t = fold (\<lambda>(pid, e) d. dict_set d pid e) (list_all_rows now t) []"

section \<open>The operations\<close>

record announcement =
  an_peer_id :: pystr
  an_capabilities :: "gw_model list option"
  an_api_addr :: pystr
  an_external_host :: pystr
  an_node_name :: pystr
  an_role :: pystr
  an_system :: pystr
  an_telemetry :: "pystr option"

record admin_state =
  ad_registry :: "(pystr, node_entry) dict"
  ad_table :: "(pystr, node_entry) dict"
  ad_stamps :: "(pystr, pyfloat list) dict"

datatype admin_reply = Ok_status pystr | Error_reply pystr | Nodes_listed "(pystr \<times> node_entry) list"

definition RATE_LIMIT_WINDOW :: pyfloat where "RATE_LIMIT_WINDOW = 60"
definition RATE_LIMIT_MAX :: nat where "RATE_LIMIT_MAX = 10"

definition save_to_db :: "bool \<Rightarrow> pystr \<Rightarrow> node_entry \<Rightarrow> admin_state \<Rightarrow> admin_state" where
  "save_to_db works pid e st = (if works then st\<lparr>ad_table := table_upsert pid e (ad_table st)\<rparr> else st)"

definition remove_from_db :: "bool \<Rightarrow> pystr \<Rightarrow> admin_state \<Rightarrow> admin_state" where
  "remove_from_db works pid st = (if works then st\<lparr>ad_table := snd (table_remove pid (ad_table st))\<rparr> else st)"

definition is_public_network :: "network_identity option \<Rightarrow> bool" where
  "is_public_network identity = (case identity of None \<Rightarrow> False | Some i \<Rightarrow> ni_public i)"

definition check_rate_limit :: "pyfloat \<Rightarrow> pystr \<Rightarrow> (pystr, pyfloat list) dict \<Rightarrow> bool \<times> (pystr, pyfloat list) dict" where
  "check_rate_limit now client_ip stamps =
     (let ts = recent RATE_LIMIT_WINDOW now (dict_get stamps client_ip [])
      in if length ts \<ge> RATE_LIMIT_MAX then (False, dict_set stamps client_ip ts) else (True, dict_set stamps client_ip (ts @ [now])))"

definition announced_addr :: "pystr \<Rightarrow> pystr \<Rightarrow> pystr \<Rightarrow> pystr" where
  "announced_addr client_ip api_addr external_host =
     (let a = (if py_startswith api_addr ''0.0.0.0:'' then client_ip @ '':'' @ split_on (CHR '':'') api_addr ! 1 else api_addr)
      in if external_host \<noteq> [] \<and> a \<noteq> [] then external_host @ '':'' @ last (split_on (CHR '':'') a) else a)"

definition announced_entry :: "pyfloat \<Rightarrow> pystr \<Rightarrow> gw_model list \<Rightarrow> announcement \<Rightarrow> node_entry option \<Rightarrow> pystr \<Rightarrow> node_entry" where
  "announced_entry now client_ip models body existing status =
     \<lparr>ne_node_name = an_node_name body, ne_api_addr = announced_addr client_ip (an_api_addr body) (an_external_host body),
      ne_role = an_role body, ne_models = models, ne_system = an_system body, ne_status = status, ne_last_seen = now,
      ne_first_seen = (case existing of None \<Rightarrow> now | Some e \<Rightarrow> ne_first_seen e), ne_ip = client_ip,
      ne_telemetry = an_telemetry body, ne_online = None\<rparr>"

definition announce_node :: "network_identity option \<Rightarrow> pyfloat \<Rightarrow> bool \<Rightarrow> pystr \<Rightarrow> announcement \<Rightarrow> admin_state \<Rightarrow> admin_reply \<times> admin_state" where
  "announce_node identity now works client_ip body st =
     (let pid = an_peer_id body in
      if pid = [] then (Error_reply ''peer_id required'', st)
      else case an_capabilities body of
        None \<Rightarrow> (Error_reply ''capabilities required'', st)
      | Some models \<Rightarrow>
          let existing = map_of (ad_registry st) pid;
              status = (case existing of None \<Rightarrow> ''pending'' | Some e \<Rightarrow> ne_status e);
              auto = (status = ''pending'' \<and> is_public_network identity);
              (allowed, stamps) = (if auto \<and> existing = None then check_rate_limit now client_ip (ad_stamps st) else (True, ad_stamps st));
              st1 = st\<lparr>ad_stamps := stamps\<rparr>
          in if \<not> allowed then (Error_reply ''rate_limited'', st1)
             else
               let status1 = (if auto then ''approved'' else status); e = announced_entry now client_ip models body existing status1
               in (Ok_status status1, save_to_db works pid e (st1\<lparr>ad_registry := dict_set (ad_registry st1) pid e\<rparr>)))"

definition list_nodes :: "pyfloat \<Rightarrow> admin_state \<Rightarrow> admin_reply \<times> admin_state" where
  "list_nodes now st =
     (let r = map (\<lambda>(pid, e). (pid, e\<lparr>ne_online := Some (now - ne_last_seen e < FLEET_ONLINE_WINDOW_S)\<rparr>)) (ad_registry st)
      in (Nodes_listed r, st\<lparr>ad_registry := r\<rparr>))"

definition approve_node :: "bool \<Rightarrow> pystr \<Rightarrow> admin_state \<Rightarrow> admin_reply \<times> admin_state" where
  "approve_node works pid st = (case map_of (ad_registry st) pid of
     None \<Rightarrow> (Error_reply ''node not found'', st)
   | Some e \<Rightarrow> (Ok_status ''approved'', save_to_db works pid (e\<lparr>ne_status := ''approved''\<rparr>)
       (st\<lparr>ad_registry := dict_set (ad_registry st) pid (e\<lparr>ne_status := ''approved''\<rparr>)\<rparr>)))"

definition remove_node :: "bool \<Rightarrow> pystr \<Rightarrow> admin_state \<Rightarrow> admin_reply \<times> admin_state" where
  "remove_node works pid st = (case map_of (ad_registry st) pid of
     None \<Rightarrow> (Error_reply ''node not found'', st)
   | Some e \<Rightarrow> (Ok_status ''removed'', remove_from_db works pid (st\<lparr>ad_registry := dict_pop (ad_registry st) pid\<rparr>)))"

text \<open>One pass of the sweep: first the list of old entries, then each of them goes, in memory and in the table.\<close>

definition stale_nodes :: "pyfloat \<Rightarrow> admin_state \<Rightarrow> pystr list" where
  "stale_nodes now st = map fst (filter (\<lambda>(pid, e). now - ne_last_seen e > 3600) (ad_registry st))"

definition evict_node :: "bool \<Rightarrow> pystr \<Rightarrow> admin_state \<Rightarrow> admin_state" where
  "evict_node works pid st = remove_from_db works pid (st\<lparr>ad_registry := dict_pop (ad_registry st) pid\<rparr>)"

definition sweep_nodes :: "pyfloat \<Rightarrow> bool \<Rightarrow> admin_state \<Rightarrow> admin_state" where
  "sweep_nodes now works st = fold (evict_node works) (stale_nodes now st) st"

text \<open>A start of the process.\<close>

definition restart_node :: "pyfloat \<Rightarrow> (pystr, node_entry) dict \<Rightarrow> admin_state" where
  "restart_node now t = \<lparr>ad_registry = load_as_dict now t, ad_table = t, ad_stamps = []\<rparr>"

datatype admin_op = Do_announce pystr announcement | Do_approve pystr | Do_remove pystr | Do_list | Do_sweep

record admin_call =
  al_now :: pyfloat
  al_works :: bool
  al_op :: admin_op

definition admin_step :: "network_identity option \<Rightarrow> admin_call \<Rightarrow> admin_state \<Rightarrow> admin_state" where
  "admin_step identity c st = (case al_op c of
     Do_announce client_ip body \<Rightarrow> snd (announce_node identity (al_now c) (al_works c) client_ip body st)
   | Do_approve pid \<Rightarrow> snd (approve_node (al_works c) pid st)
   | Do_remove pid \<Rightarrow> snd (remove_node (al_works c) pid st)
   | Do_list \<Rightarrow> snd (list_nodes (al_now c) st)
   | Do_sweep \<Rightarrow> sweep_nodes (al_now c) (al_works c) st)"

text \<open>What the gateway sees of the list.\<close>

definition fleet_of :: "(pystr, node_entry) dict \<Rightarrow> (pystr, gw_node) dict" where
  "fleet_of r = map (\<lambda>(pid, e). (pid, \<lparr>gn_status = ne_status e, gn_last_seen = Some (ne_last_seen e),
     gn_api_addr = ne_api_addr e, gn_models = ne_models e\<rparr>)) r"

section \<open>New nodes are limited\<close>

text \<open>The address whose announcement brings a node that was not on the list, and is approved at once.\<close>

definition newly_approved :: "network_identity option \<Rightarrow> admin_call \<Rightarrow> admin_state \<Rightarrow> pystr option" where
  "newly_approved identity c st = (case al_op c of
     Do_announce client_ip body \<Rightarrow> if map_of (ad_registry st) (an_peer_id body) = None
       \<and> map_option ne_status (map_of (ad_registry (admin_step identity c st)) (an_peer_id body)) = Some ''approved'' then Some client_ip else None
   | _ \<Rightarrow> None)"

lemma db_keeps [simp]:
  "ad_registry (save_to_db works pid e st) = ad_registry st" "ad_stamps (save_to_db works pid e st) = ad_stamps st"
  "ad_registry (remove_from_db works pid st) = ad_registry st" "ad_stamps (remove_from_db works pid st) = ad_stamps st"
  by (simp_all add: save_to_db_def remove_from_db_def)

lemma sweep_keeps [simp]: "ad_stamps (sweep_nodes now works st) = ad_stamps st"
proof -
  have "ad_stamps (fold (evict_node works) ps s) = ad_stamps s" for ps s by (induction ps arbitrary: s) (simp_all add: evict_node_def)
  then show ?thesis by (simp add: sweep_nodes_def)
qed

lemma stamps_step:
  "newly_approved identity c st = None \<and> (ad_stamps (admin_step identity c st) = ad_stamps st
      \<or> (\<exists>a. ad_stamps (admin_step identity c st) = dict_set (ad_stamps st) a (recent 60 (al_now c) (dict_get (ad_stamps st) a []))))
    \<or> (\<exists>a. newly_approved identity c st = Some a \<and> length (recent 60 (al_now c) (dict_get (ad_stamps st) a [])) < 10
      \<and> ad_stamps (admin_step identity c st) = dict_set (ad_stamps st) a (recent 60 (al_now c) (dict_get (ad_stamps st) a []) @ [al_now c]))"
proof (cases "al_op c")
  case (Do_announce ip body)
  then show ?thesis
    by (auto simp: newly_approved_def admin_step_def announce_node_def announced_entry_def check_rate_limit_def RATE_LIMIT_MAX_def RATE_LIMIT_WINDOW_def Let_def
        split: option.splits if_splits)
qed (auto simp: newly_approved_def admin_step_def approve_node_def remove_node_def list_nodes_def Let_def split: option.splits)

interpretation newcomers: sliding_window 60 10 "newly_approved identity" al_now "admin_step identity"
  "\<lambda>st a. dict_get (ad_stamps st) a []" "\<lambda>_. True" for identity
proof (unfold_locales, goal_cases kept below keeps)
  case (below s e a)
  then show ?case using stamps_step [of identity e s] by auto
next
  case (keeps s e now a)
  have past: "recent 60 now (recent 60 (al_now e) ts) = recent 60 now ts" for ts using keeps by (intro recent_recent)
  have put: "dict_get (dict_set d b ts) a [] = (if a = b then ts else dict_get d a [])" for d b and ts :: "pyfloat list" by (simp add: dict_get_def)
  show ?case using stamps_step [of identity e s] by (auto simp: put past)
qed simp

text \<open>
  Announcements approve nodes of their own only on a public network, and there no address brings more than ten new
  nodes within any minute, whatever is announced, approved, removed, listed and swept meanwhile.
\<close>

theorem newcomers_limited:
  assumes "sorted (map al_now calls)"
  shows "in_window 60 t (counted_times (newly_approved identity) al_now (admin_step identity) address calls (restart_node now table)) \<le> 10"
  by (rule newcomers.window_bounded [OF _ assms]) (simp_all add: restart_node_def dict_get_def)

section \<open>Lookups\<close>

lemma lookup_map: "map_of (map (\<lambda>(k, v). (k, f v)) d) k = map_option f (map_of d k)"
  by (simp add: map_of_map)

lemma lookup_list: "map_of (ad_registry (snd (list_nodes now st))) pid =
    map_option (\<lambda>e. e\<lparr>ne_online := Some (now - ne_last_seen e < FLEET_ONLINE_WINDOW_S)\<rparr>) (map_of (ad_registry st) pid)"
  by (simp add: list_nodes_def Let_def lookup_map)

lemma lookup_approve: "map_of (ad_registry (snd (approve_node works p st))) pid =
    (if pid = p then map_option (\<lambda>e. e\<lparr>ne_status := ''approved''\<rparr>) (map_of (ad_registry st) p) else map_of (ad_registry st) pid)"
  by (simp add: approve_node_def split: option.split)

lemma lookup_remove: "map_of (ad_registry (snd (remove_node works p st))) pid = (if pid = p then None else map_of (ad_registry st) pid)"
  by (simp add: remove_node_def split: option.split)

lemma lookup_evict: "map_of (ad_registry (fold (evict_node works) ps st)) pid = (if pid \<in> set ps then None else map_of (ad_registry st) pid)"
  by (induction ps arbitrary: st) (auto simp: evict_node_def)

lemma lookup_announce:
  "map_of (ad_registry (snd (announce_node identity now works ip body st))) pid = map_of (ad_registry st) pid
    \<or> pid = an_peer_id body \<and> (\<exists>models. map_of (ad_registry (snd (announce_node identity now works ip body st))) pid =
        Some (announced_entry now ip models body (map_of (ad_registry st) pid)
          (let s = (case map_of (ad_registry st) pid of None \<Rightarrow> ''pending'' | Some e \<Rightarrow> ne_status e)
           in if s = ''pending'' \<and> is_public_network identity then ''approved'' else s)))"
  by (auto simp: announce_node_def Let_def split: option.splits prod.splits if_splits)

lemmas registry_lookups = lookup_list lookup_approve lookup_remove lookup_evict sweep_nodes_def

lemma keys_load: "dict_ok (fold (\<lambda>(pid, e) d. dict_set d pid e) t d)" if "dict_ok d" for t d
  using that by (induction t arbitrary: d) auto

lemma lookup_load: "dict_ok t \<Longrightarrow> map_of (load_as_dict now t) pid = map_option (\<lambda>r. r\<lparr>ne_online := Some (now - ne_last_seen r < 120)\<rparr>) (map_of t pid)"
proof -
  have "map_of (fold (\<lambda>(pid, e) d. dict_set d pid e) t d) pid = (case map_of t pid of None \<Rightarrow> map_of d pid | Some e \<Rightarrow> Some e)"
    if "dict_ok t" for t and d :: "(pystr, node_entry) dict"
    using that
  proof (induction t arbitrary: d)
    case (Cons a t)
    then have "map_of t (fst a) = None" by (auto simp: dict_ok_def map_of_eq_None_iff)
    then show ?case using Cons by (cases a) (auto simp: dict_ok_def split: option.splits)
  qed simp
  moreover assume "dict_ok t"
  moreover from this have "dict_ok (list_all_rows now t)" by (simp add: list_all_rows_def dict_ok_def comp_def case_prod_beta)
  ultimately show ?thesis by (simp add: load_as_dict_def list_all_rows_def lookup_map split: option.split)
qed

lemma ok_registry: "dict_ok (ad_registry st) \<Longrightarrow> dict_ok (ad_registry (admin_step identity c st))"
proof -
  have sweep: "dict_ok (ad_registry s) \<Longrightarrow> dict_ok (ad_registry (fold (evict_node w) ps s))" for w ps s
    by (induction ps arbitrary: s) (auto simp: evict_node_def)
  assume "dict_ok (ad_registry st)"
  moreover from this have "dict_ok (map (\<lambda>(k, v). (k, f v)) (ad_registry st))" for f :: "node_entry \<Rightarrow> node_entry"
    by (simp add: dict_ok_def comp_def case_prod_beta)
  ultimately show ?thesis
    by (auto simp: admin_step_def announce_node_def approve_node_def remove_node_def list_nodes_def sweep_nodes_def Let_def sweep
        split: admin_op.split option.split prod.split)
qed

section \<open>Approval\<close>

text \<open>The operator's last word on a node, after \<open>b\<close> before.\<close>

fun operator_approves :: "pystr \<Rightarrow> admin_call list \<Rightarrow> bool \<Rightarrow> bool" where
  "operator_approves pid [] b = b"
| "operator_approves pid (c # cs) b = operator_approves pid cs
     (case al_op c of Do_approve p \<Rightarrow> p = pid \<or> b | Do_remove p \<Rightarrow> p \<noteq> pid \<and> b | _ \<Rightarrow> b)"

definition approved_in :: "(pystr, node_entry) dict \<Rightarrow> pystr \<Rightarrow> bool" where
  "approved_in r pid \<longleftrightarrow> map_option ne_status (map_of r pid) = Some ''approved''"

lemma approved_step:
  "approved_in (ad_registry (snd (list_nodes now st))) pid = approved_in (ad_registry st) pid"
  "approved_in (ad_registry (snd (approve_node works p st))) pid \<Longrightarrow> p = pid \<or> approved_in (ad_registry st) pid"
  "approved_in (ad_registry (snd (remove_node works p st))) pid = (p \<noteq> pid \<and> approved_in (ad_registry st) pid)"
  "approved_in (ad_registry (sweep_nodes now works st)) pid \<Longrightarrow> approved_in (ad_registry st) pid"
  "\<not> is_public_network identity \<Longrightarrow> approved_in (ad_registry (snd (announce_node identity now works ip body st))) pid \<Longrightarrow> approved_in (ad_registry st) pid"
  using lookup_announce [of identity now works ip body st pid]
  by (auto simp: approved_in_def registry_lookups announced_entry_def Let_def option.map_comp comp_def split: if_splits option.splits)

lemma approval_step:
  assumes "\<not> is_public_network identity" "approved_in (ad_registry st) pid \<longrightarrow> b" "approved_in (ad_registry (admin_step identity c st)) pid"
  shows "case al_op c of Do_approve p \<Rightarrow> p = pid \<or> b | Do_remove p \<Rightarrow> p \<noteq> pid \<and> b | _ \<Rightarrow> b"
  using assms by (cases "al_op c") (auto simp: admin_step_def approved_step(1,3) dest: approved_step(2,4) approved_step(5) [OF assms(1)])

lemma approval_run:
  assumes "\<not> is_public_network identity" "approved_in (ad_registry st) pid \<longrightarrow> b"
  shows "approved_in (ad_registry (fold (admin_step identity) calls st)) pid \<longrightarrow> operator_approves pid calls b"
  using assms(2)
proof (induction calls arbitrary: st b)
  case (Cons c calls)
  have "approved_in (ad_registry (admin_step identity c st)) pid
      \<longrightarrow> (case al_op c of Do_approve p \<Rightarrow> p = pid \<or> b | Do_remove p \<Rightarrow> p \<noteq> pid \<and> b | _ \<Rightarrow> b)"
    using approval_step [OF assms(1) Cons.prems] by blast
  then show ?case using Cons.IH by simp
qed simp

lemma run_ok: "dict_ok (ad_registry st) \<Longrightarrow> dict_ok (ad_registry (fold (admin_step identity) calls st))"
  by (induction calls arbitrary: st) (simp_all add: ok_registry)

lemma fleet_part:
  assumes "dict_ok r" "gv_fleet v = fleet_of r" "c \<in> set (served_models v)"
  shows "c \<in> set (served_models (v\<lparr>gv_fleet := []\<rparr>))
    \<or> (\<exists>pid e m. map_of r pid = Some e \<and> ne_status e = ''approved'' \<and> gv_now v - ne_last_seen e \<le> 120
        \<and> m \<in> set (ne_models e) \<and> c = fleet_candidate_of (ne_api_addr e) m)"
proof -
  have get: "(pid, e) \<in> set r \<Longrightarrow> map_of r pid = Some e" for pid e using assms(1) by (simp add: dict_ok_def)
  consider (elsewhere) "c \<in> set (served_models (v\<lparr>gv_fleet := []\<rparr>))"
    | (fleet) pid n where "(pid, n) \<in> set (gv_fleet v)" "gw_fleet_up (gv_now v) n" "c \<in> set (map (fleet_candidate_of (gn_api_addr n)) (gn_models n))"
    using assms(3) unfolding served_models_def by (auto split: if_splits)
  then show ?thesis
  proof cases
    case (fleet pid n)
    then obtain e where "(pid, e) \<in> set r" "n = \<lparr>gn_status = ne_status e, gn_last_seen = Some (ne_last_seen e), gn_api_addr = ne_api_addr e, gn_models = ne_models e\<rparr>"
      using assms(2) by (auto simp: fleet_of_def)
    moreover obtain m where "m \<in> set (gn_models n)" "c = fleet_candidate_of (gn_api_addr n) m" using fleet(3) by auto
    ultimately have "map_of r pid = Some e \<and> ne_status e = ''approved'' \<and> gv_now v - ne_last_seen e \<le> 120 \<and> m \<in> set (ne_models e)
        \<and> c = fleet_candidate_of (ne_api_addr e) m"
      using fleet(2) get by (simp add: gw_fleet_up_def not_less)
    then show ?thesis by blast
  qed blast
qed

text \<open>
  C37: on a private network a prompt goes to an announced node only with the operator's approval. After any run
  of announcements, decisions, listings and sweeps, from whatever the table held at the start: a candidate of
  the public gateway is a model of this node, of a connected peer, or one that a listed node announced, seen in
  the last two minutes, on which the operator's last word was approval, or that was approved at the start and
  not removed since.
\<close>

theorem fleet_needs_approval:
  assumes "\<not> is_public_network identity" "dict_ok table"
    and "gv_fleet v = fleet_of (ad_registry (fold (admin_step identity) calls (restart_node now table)))" "c \<in> set (served_models v)"
  shows "c \<in> set (served_models (v\<lparr>gv_fleet := []\<rparr>))
    \<or> (\<exists>pid e m. map_of (ad_registry (fold (admin_step identity) calls (restart_node now table))) pid = Some e
        \<and> operator_approves pid calls (approved_in table pid) \<and> gv_now v - ne_last_seen e \<le> 120
        \<and> m \<in> set (ne_models e) \<and> c = fleet_candidate_of (ne_api_addr e) m)"
proof -
  have "dict_ok (ad_registry (restart_node now table))" by (simp add: restart_node_def load_as_dict_def keys_load)
  note part = fleet_part [OF run_ok [OF this] assms(3,4)]
  have "approved_in (ad_registry (restart_node now table)) pid \<longrightarrow> approved_in table pid" for pid
    using lookup_load [OF assms(2)] by (simp add: restart_node_def approved_in_def option.map_comp comp_def)
  note run = approval_run [OF assms(1) this]
  from part show ?thesis
  proof (elim disjE exE conjE, goal_cases here fleet)
    case (fleet pid e m)
    then have "approved_in (ad_registry (fold (admin_step identity) calls (restart_node now table))) pid" by (simp add: approved_in_def)
    then show ?thesis using run fleet by blast
  qed blast
qed

section \<open>The table holds the list\<close>

text \<open>An entry up to what the table does not keep.\<close>

definition core_entry :: "node_entry \<Rightarrow> node_entry" where
  "core_entry e = e\<lparr>ne_telemetry := None, ne_online := None\<rparr>"

definition in_step :: "admin_state \<Rightarrow> bool" where
  "in_step st \<longleftrightarrow> dict_ok (ad_registry st) \<and> dict_ok (ad_table st)
     \<and> (\<forall>pid. map_option core_entry (map_of (ad_table st) pid) = map_option core_entry (map_of (ad_registry st) pid))
     \<and> (\<forall>pid r. map_of (ad_table st) pid = Some r \<longrightarrow> ne_telemetry r = None)"

lemma in_stepD: "in_step st \<Longrightarrow> map_option core_entry (map_of (ad_table st) pid) = map_option core_entry (map_of (ad_registry st) pid)"
  by (simp add: in_step_def)

lemma core_online [simp]: "core_entry (e\<lparr>ne_online := x\<rparr>) = core_entry e"
  by (simp add: core_entry_def)

lemma upsert_row:
  assumes "\<And>r. map_of t pid = Some r \<Longrightarrow> ne_telemetry r = None \<and> ne_first_seen r = ne_first_seen e"
  obtains r where "map_of (table_upsert pid e t) = (map_of t)(pid \<mapsto> r)" "core_entry r = core_entry e" "ne_telemetry r = None"
    "dict_ok t \<Longrightarrow> dict_ok (table_upsert pid e t)"
  using assms by (cases "map_of t pid"; cases e) (auto simp: table_upsert_def core_entry_def)

lemma in_step_save:
  assumes inv: "in_step st" and same: "\<And>old. map_of (ad_registry st) pid = Some old \<Longrightarrow> ne_first_seen e = ne_first_seen old"
  shows "in_step (save_to_db True pid e (st\<lparr>ad_registry := dict_set (ad_registry st) pid e\<rparr>))"
proof -
  have "ne_telemetry r = None \<and> ne_first_seen r = ne_first_seen e" if "map_of (ad_table st) pid = Some r" for r
  proof -
    have "map_option core_entry (map_of (ad_registry st) pid) = Some (core_entry r)" using in_stepD [OF inv, of pid] that by simp
    then obtain old where o: "map_of (ad_registry st) pid = Some old" "core_entry old = core_entry r" by auto
    from o(2) have "ne_first_seen (core_entry old) = ne_first_seen (core_entry r)" by simp
    then show ?thesis using inv that same [OF o(1)] by (simp add: in_step_def core_entry_def)
  qed
  from upsert_row [of "ad_table st", OF this] obtain r where "map_of (table_upsert pid e (ad_table st)) = (map_of (ad_table st))(pid \<mapsto> r)"
    "core_entry r = core_entry e" "ne_telemetry r = None" "dict_ok (ad_table st) \<Longrightarrow> dict_ok (table_upsert pid e (ad_table st))" by blast
  then show ?thesis using inv by (simp add: in_step_def save_to_db_def)
qed

lemma in_step_drop: "in_step st \<Longrightarrow> in_step (remove_from_db True pid (st\<lparr>ad_registry := dict_pop (ad_registry st) pid\<rparr>))"
proof -
  have "map_of (snd (table_remove pid t)) = (map_of t)(pid := None)" "dict_ok t \<Longrightarrow> dict_ok (snd (table_remove pid t))" for t
    by (auto simp: table_remove_def fun_eq_iff)
  then show "in_step st \<Longrightarrow> ?thesis" by (simp add: in_step_def remove_from_db_def)
qed

lemma in_step_stamps: "in_step (st\<lparr>ad_stamps := x\<rparr>) = in_step st"
  by (simp add: in_step_def)

lemma in_step_announce: "in_step st \<Longrightarrow> in_step (snd (announce_node identity now True ip body st))"
proof -
  assume inv: "in_step st"
  let ?e = "\<lambda>models. announced_entry now ip models body (map_of (ad_registry st) (an_peer_id body))"
  have kept: "in_step (save_to_db True (an_peer_id body) (?e models status) (s\<lparr>ad_registry := dict_set (ad_registry s) (an_peer_id body) (?e models status)\<rparr>))"
    if "in_step s" "ad_registry s = ad_registry st" for models status s
    using in_step_save [OF that(1), of "an_peer_id body" "?e models status"] that(2) by (simp add: announced_entry_def)
  have stamped: "in_step (st\<lparr>ad_stamps := x\<rparr>)" for x using inv by (simp add: in_step_stamps)
  show ?thesis
    using kept [OF inv] kept [OF stamped] inv stamped
    by (cases "map_of (ad_registry st) (an_peer_id body)") (simp_all add: announce_node_def Let_def split: option.split prod.split)
qed

lemma in_step_step: "in_step st \<Longrightarrow> al_works c \<Longrightarrow> in_step (admin_step identity c st)"
proof (cases "al_op c")
  case Do_list
  assume "in_step st"
  moreover from this have "dict_ok (ad_registry (admin_step identity c st))" by (simp add: in_step_def ok_registry)
  then have "dict_ok (ad_registry (snd (list_nodes (al_now c) st)))" using Do_list by (simp add: admin_step_def)
  moreover have "ad_table (snd (list_nodes (al_now c) st)) = ad_table st" by (simp add: list_nodes_def Let_def)
  ultimately have "in_step (snd (list_nodes (al_now c) st))"
    by (simp add: in_step_def lookup_list option.map_comp comp_def)
  then show ?thesis using Do_list by (simp add: admin_step_def)
next
  case (Do_approve pid)
  assume "in_step st" "al_works c"
  then show ?thesis using Do_approve in_step_save [of st pid]
    by (auto simp: admin_step_def approve_node_def split: option.split)
next
  case Do_sweep
  have "in_step s \<Longrightarrow> in_step (fold (evict_node True) ps s)" for ps s
    by (induction ps arbitrary: s) (auto simp: evict_node_def intro: in_step_drop)
  moreover assume "in_step st" "al_works c"
  ultimately show ?thesis using Do_sweep by (simp add: admin_step_def sweep_nodes_def)
qed (auto simp: admin_step_def remove_node_def in_step_announce in_step_drop split: option.split)

lemma in_step_restart:
  "dict_ok t \<Longrightarrow> \<forall>(pid, r) \<in> set t. ne_telemetry r = None \<Longrightarrow> in_step (restart_node now t)"
  using keys_load [of "[]" "list_all_rows now t"]
  by (auto simp: in_step_def restart_node_def lookup_load option.map_comp comp_def load_as_dict_def [symmetric] dest: map_of_SomeD)


section \<open>Examples\<close>

definition demo_announcement :: announcement where
  "demo_announcement = \<lparr>an_peer_id = ''n'', an_capabilities = Some [Gw_name ''m-3b''], an_api_addr = ''0.0.0.0:8420'', an_external_host = [],
     an_node_name = ''mac'', an_role = ''seeder'', an_system = [], an_telemetry = Some ''t''\<rparr>"

definition demo_calls :: "admin_call list" where
  "demo_calls = [\<lparr>al_now = 0, al_works = True, al_op = Do_announce ''8.8.8.8'' demo_announcement\<rparr>,
     \<lparr>al_now = 10, al_works = True, al_op = Do_approve ''n''\<rparr>]"

definition demo_listed :: "pystr \<Rightarrow> node_entry" where
  "demo_listed status = \<lparr>ne_node_name = ''mac'', ne_api_addr = ''8.8.8.8:8420'', ne_role = ''seeder'', ne_models = [Gw_name ''m-3b''], ne_system = [],
     ne_status = status, ne_last_seen = 0, ne_first_seen = 0, ne_ip = ''8.8.8.8'', ne_telemetry = Some ''t'', ne_online = None\<rparr>"

definition demo_network :: network_identity where
  "demo_network = \<lparr>ni_network_id = ''net'', ni_network_name = ''net'', ni_bootstrap_addrs = [], ni_created_at = 0, ni_public = True,
     ni_trust_level = [], ni_min_model_tier = [], ni_join_key = []\<rparr>"

lemma demo_start: "restart_node t [] = \<lparr>ad_registry = [], ad_table = [], ad_stamps = []\<rparr>"
  by (simp add: restart_node_def load_as_dict_def list_all_rows_def)

lemma demo_entry: "announced_entry 0 ''8.8.8.8'' [Gw_name ''m-3b''] demo_announcement None status = demo_listed status"
  by (simp add: announced_entry_def announced_addr_def demo_announcement_def demo_listed_def)

lemma demo_run:
  "fold (admin_step None) demo_calls (restart_node 0 []) = \<lparr>ad_registry = [(''n'', demo_listed ''approved'')],
     ad_table = [(''n'', (demo_listed ''approved'')\<lparr>ne_telemetry := None, ne_online := Some False\<rparr>)], ad_stamps = []\<rparr>"
proof -
  have "an_peer_id demo_announcement = ''n''" "an_capabilities demo_announcement = Some [Gw_name ''m-3b'']" by (simp_all add: demo_announcement_def)
  then have "snd (announce_node None 0 True ''8.8.8.8'' demo_announcement (restart_node 0 [])) = \<lparr>ad_registry = [(''n'', demo_listed ''pending'')],
      ad_table = [(''n'', (demo_listed ''pending'')\<lparr>ne_telemetry := None, ne_online := Some False\<rparr>)], ad_stamps = []\<rparr>"
    by (simp add: announce_node_def demo_start demo_entry is_public_network_def save_to_db_def table_upsert_def dict_set_def Let_def) (simp add: demo_listed_def)
  then show ?thesis
    by (simp add: demo_calls_def admin_step_def approve_node_def save_to_db_def table_upsert_def dict_set_def) (simp add: demo_listed_def)
qed

theorem newcomers_limited_witness:
  "in_window 60 5 (counted_times (newly_approved (Some demo_network)) al_now (admin_step (Some demo_network)) ''8.8.8.8'' [hd demo_calls] (restart_node 0 [])) \<le> 10
   \<and> counted_times (newly_approved (Some demo_network)) al_now (admin_step (Some demo_network)) ''8.8.8.8'' [hd demo_calls] (restart_node 0 []) = [0]"
proof -
  have "is_public_network (Some demo_network)" by (simp add: is_public_network_def demo_network_def)
  moreover have "an_peer_id demo_announcement = ''n''" "an_capabilities demo_announcement = Some [Gw_name ''m-3b'']" by (simp_all add: demo_announcement_def)
  moreover have "check_rate_limit 0 ''8.8.8.8'' [] = (True, [(''8.8.8.8'', [0])])"
    by (simp add: check_rate_limit_def recent_def dict_get_def dict_set_def RATE_LIMIT_MAX_def)
  ultimately have "map_option ne_status (map_of (ad_registry (snd (announce_node (Some demo_network) 0 True ''8.8.8.8'' demo_announcement (restart_node 0 [])))) ''n'')
      = Some ''approved''"
    by (simp add: announce_node_def demo_start demo_entry Let_def) (simp add: demo_listed_def)
  then have "newly_approved (Some demo_network) (hd demo_calls) (restart_node 0 []) = Some ''8.8.8.8''"
    by (simp add: newly_approved_def demo_calls_def admin_step_def demo_announcement_def demo_start)
  moreover have "al_now (hd demo_calls) = 0" by (simp add: demo_calls_def)
  ultimately show ?thesis
    using newcomers_limited [of "[hd demo_calls]" 5 "Some demo_network" "''8.8.8.8''" 0 "[]"] by simp
qed

definition demo_fleet_view :: gw_view where
  "demo_fleet_view = \<lparr>gv_now = 100, gv_local = [], gv_registry = \<lparr>rg_peers = [], rg_index = []\<rparr>,
     gv_fleet = fleet_of [(''n'', demo_listed ''approved'')]\<rparr>"

theorem fleet_needs_approval_witness:
  "\<exists>pid e. map_of (ad_registry (fold (admin_step None) demo_calls (restart_node 0 []))) pid = Some e
    \<and> operator_approves pid demo_calls (approved_in [] pid) \<and> 100 - ne_last_seen e \<le> 120"
proof -
  have view: "gv_fleet demo_fleet_view = fleet_of (ad_registry (fold (admin_step None) demo_calls (restart_node 0 [])))"
    by (simp add: demo_run demo_fleet_view_def)
  have c: "fleet_candidate_of ''8.8.8.8:8420'' (Gw_name ''m-3b'') \<in> set (served_models demo_fleet_view)"
    by (simp add: served_models_def demo_fleet_view_def fleet_of_def gw_fleet_up_def demo_listed_def)
  have none: "served_models (demo_fleet_view\<lparr>gv_fleet := []\<rparr>) = []"
    by (simp add: served_models_def demo_fleet_view_def connected_peers_def all_peers_def)
  have "\<not> is_public_network None" "dict_ok ([] :: (pystr, node_entry) dict)" by (simp_all add: is_public_network_def)
  from fleet_needs_approval [OF this view c] show ?thesis unfolding none by (auto simp: demo_fleet_view_def)
qed


section \<open>What the comments do not say\<close>

text \<open>Anybody who announces under the identifier of an approved node gets its place, with an address of his own.\<close>

lemma announcement_takes_place:
  assumes "map_of (ad_registry st) (an_peer_id body) = Some e" "ne_status e = ''approved''" "an_peer_id body \<noteq> []" "an_capabilities body = Some models"
  shows "map_of (ad_registry (snd (announce_node identity now works ip body st))) (an_peer_id body)
    = Some (announced_entry now ip models body (Some e) ''approved'')"
  using assms by (simp add: announce_node_def Let_def)

text \<open>The sweep decides once and then waits for the database: a node that announces meanwhile is dropped.\<close>

lemma sweep_drops_fresh:
  "pid \<in> set (stale_nodes now st) \<Longrightarrow> map_of (ad_registry (evict_node works pid (snd (announce_node identity now works ip body st)))) pid = None"
  by (simp add: evict_node_def)

text \<open>On a private network announcements are not limited at all.\<close>

lemma private_unlimited:
  "\<not> is_public_network identity \<Longrightarrow> an_peer_id body \<noteq> [] \<Longrightarrow> an_capabilities body = Some models \<Longrightarrow>
    map_of (ad_registry (snd (announce_node identity now works ip body st))) (an_peer_id body) \<noteq> None
    \<and> ad_stamps (snd (announce_node identity now works ip body st)) = ad_stamps st"
  by (simp add: announce_node_def Let_def)

text \<open>A node the operator removed is approved again by its next announcement.\<close>

lemma removal_is_no_ban:
  "is_public_network identity \<Longrightarrow> an_peer_id body = pid \<Longrightarrow> pid \<noteq> [] \<Longrightarrow> an_capabilities body = Some models \<Longrightarrow>
    fst (check_rate_limit now ip (ad_stamps st)) \<Longrightarrow> approved_in (ad_registry (snd (announce_node identity now works ip body (snd (remove_node works pid st))))) pid"
  by (auto simp: announce_node_def Let_def approved_in_def announced_entry_def remove_node_def split: option.splits prod.splits)

text \<open>A node that announces the address of a peer is asked as that peer.\<close>

lemma dressed_as_peer: "place_of (fleet_candidate_of (''quic:'' @ peer) (Gw_name n)) = At_peer peer n"
  by (simp add: place_of_def)

end
