(* ===== verification/Adapters.thy ===== *)
theory Adapters
  imports Handshake "HOL-Library.List_Lexorder" "HOL-Library.Char_ord"
begin

text \<open>
  The numerical core of federated training (\<open>training/aggregate.py\<close>) and the adapters on the wire
  (\<open>training/codec.py\<close>). A numpy array is its dtype, its shape and its elements in C order. An element is a
  real number, an infinity or NaN; arithmetic in float64 is exact on the reals, and storing in a dtype rounds.
  What numpy and hashlib do beyond that is the parameter \<open>numerics\<close>. A negative zero is a zero.
\<close>

section \<open>Elements\<close>

datatype fl = Fin real | Pinf | Ninf | Nan

instantiation fl :: comm_monoid_add
begin

definition zero_fl :: fl where "zero_fl = Fin 0"

fun plus_fl :: "fl \<Rightarrow> fl \<Rightarrow> fl" where
  "Fin x + Fin y = Fin (x + y)"
| "Fin x + b = b"
| "a + Fin y = a"
| "Pinf + Pinf = Pinf"
| "Ninf + Ninf = Ninf"
| "_ + _ = Nan"

lemma plus_fl_swap: "(u :: fl) + w = w + u" by (cases u; cases w) simp_all
lemma plus_fl_regroup: "(u :: fl) + w + v = u + (w + v)" by (cases u; cases w; cases v) simp_all
lemma plus_fl_none: "Fin 0 + (u :: fl) = u" by (cases u) simp_all

instance by intro_classes (simp_all only: plus_fl_regroup plus_fl_swap [of _ "Fin _"] plus_fl_none zero_fl_def, rule plus_fl_swap)

end

text \<open>Multiplication and division by a finite number, squares, the square root, and comparison with a finite number.\<close>

fun fscale :: "real \<Rightarrow> fl \<Rightarrow> fl" where
  "fscale c (Fin x) = Fin (c * x)"
| "fscale c Nan = Nan"
| "fscale c Pinf = (if c > 0 then Pinf else if c < 0 then Ninf else Nan)"
| "fscale c Ninf = (if c > 0 then Ninf else if c < 0 then Pinf else Nan)"

fun fsquare :: "fl \<Rightarrow> fl" where
  "fsquare (Fin x) = Fin (x * x)" | "fsquare Nan = Nan" | "fsquare _ = Pinf"

fun froot :: "fl \<Rightarrow> fl" where
  "froot (Fin x) = (if x < 0 then Nan else Fin (sqrt x))" | "froot Pinf = Pinf" | "froot _ = Nan"

fun fgreater :: "fl \<Rightarrow> real \<Rightarrow> bool" where
  "fgreater (Fin x) c = (x > c)" | "fgreater Pinf c = True" | "fgreater _ c = False"

fun fatmost :: "fl \<Rightarrow> real \<Rightarrow> bool" where
  "fatmost (Fin x) c = (x \<le> c)" | "fatmost Ninf c = True" | "fatmost _ c = False"

text \<open>\<open>t * (c / norm)\<close> for a finite, an infinite and an undefined norm.\<close>

fun fratio :: "real \<Rightarrow> fl \<Rightarrow> fl \<Rightarrow> fl" where
  "fratio c (Fin n) x = fscale (c / n) x" | "fratio c Nan x = Nan" | "fratio c _ x = fscale 0 x"

section \<open>Tensors and adapters\<close>

record tensor =
  tn_dtype :: pystr
  tn_shape :: "nat list"
  tn_data :: "fl list"

type_synonym adapter = "(pystr, tensor) dict"

definition tensor_ok :: "tensor \<Rightarrow> bool" where
  "tensor_ok t \<longleftrightarrow> length (tn_data t) = prod_list (tn_shape t)"

text \<open>
  \<open>nu_round\<close> is \<open>astype\<close> of one element; \<open>nu_sub\<close> the difference of two arrays (\<open>None\<close>: their shapes do not
  broadcast); \<open>nu_bytes\<close> and \<open>nu_items\<close> the little-endian buffer and its reading; \<open>nu_host_bytes\<close> the
  buffer as this host keeps it; \<open>nu_sha256_hex\<close> the hexadecimal digest.
\<close>

record numerics =
  nu_round :: "pystr \<Rightarrow> fl \<Rightarrow> fl"
  nu_sub :: "tensor \<Rightarrow> tensor \<Rightarrow> tensor option"
  nu_bytes :: "pystr \<Rightarrow> fl list \<Rightarrow> pystr"
  nu_items :: "pystr \<Rightarrow> pystr \<Rightarrow> fl list option"
  nu_host_bytes :: "pystr \<Rightarrow> fl list \<Rightarrow> pystr"
  nu_sha256_hex :: "pystr \<Rightarrow> pystr"

text \<open>The elements a dtype holds are those rounding leaves alone; they survive being written and read.\<close>

definition stored :: "numerics \<Rightarrow> tensor \<Rightarrow> bool" where
  "stored N t \<longleftrightarrow> tensor_ok t \<and> (\<forall>x \<in> set (tn_data t). nu_round N (tn_dtype t) x = x)"

definition numerics_ok :: "numerics \<Rightarrow> bool" where
  "numerics_ok N \<longleftrightarrow> (\<forall>dt x. nu_round N dt (nu_round N dt x) = nu_round N dt x)
     \<and> (\<forall>dt xs. xs \<noteq> [] \<longrightarrow> (\<forall>x \<in> set xs. nu_round N dt x = x) \<longrightarrow> nu_items N dt (nu_bytes N dt xs) = Some xs)
     \<and> (\<forall>dt s xs. nu_items N dt s = Some xs \<longrightarrow> (\<forall>x \<in> set xs. nu_round N dt x = x))"

section \<open>The codec\<close>

definition SUPPORTED :: "pystr list" where
  "SUPPORTED = [''float16'', ''float32'', ''float64'', ''int8'', ''uint8'']"

definition encode_tensor :: "numerics \<Rightarrow> tensor \<Rightarrow> pv option" where
  "encode_tensor N t = (if tn_dtype t \<notin> set SUPPORTED then None
     else Some (PDict [(''dtype'', PStr (tn_dtype t)), (''shape'', PList (map (\<lambda>n. PInt (int n)) (tn_shape t))),
       (''data'', PStr (nu_bytes N (tn_dtype t) (tn_data t)))]))"

text \<open>A shape with a negative entry is refused by \<open>reshape\<close>, whatever its product.\<close>

definition decode_tensor :: "numerics \<Rightarrow> pv \<Rightarrow> tensor option" where
  "decode_tensor N v = do {
     obj \<leftarrow> as_dict v;
     dtype \<leftarrow> need as_str obj ''dtype'';
     if dtype \<notin> set SUPPORTED then None else do {
       dims \<leftarrow> need as_list obj ''shape'';
       shape \<leftarrow> those (map as_int dims);
       data \<leftarrow> need as_str obj ''data'';
       items \<leftarrow> nu_items N dtype data;
       if int (length items) \<noteq> prod_list shape \<or> (\<exists>n \<in> set shape. n < 0) then None
       else Some \<lparr>tn_dtype = dtype, tn_shape = map nat shape, tn_data = items\<rparr> } }"

definition map_values :: "('a \<Rightarrow> 'b option) \<Rightarrow> (pystr, 'a) dict \<Rightarrow> (pystr, 'b) dict option" where
  "map_values f d = those (map (\<lambda>(k, x). map_option (Pair k) (f x)) d)"

definition encode_adapter :: "numerics \<Rightarrow> adapter \<Rightarrow> pv option" where
  "encode_adapter N a = map_option PDict (map_values (encode_tensor N) a)"

definition decode_adapter :: "numerics \<Rightarrow> pv \<Rightarrow> adapter option" where
  "decode_adapter N v = Option.bind (as_dict v) (map_values (decode_tensor N))"

text \<open>\<open>nu_itemsize\<close> bytes an element.\<close>

definition adapter_nbytes :: "(pystr \<Rightarrow> nat) \<Rightarrow> adapter \<Rightarrow> nat" where
  "adapter_nbytes itemsize a = sum_list (map (\<lambda>(k, t). itemsize (tn_dtype t) * length (tn_data t)) a)"

section \<open>Updates\<close>

record participant_update =
  pu_peer_id :: pystr
  pu_delta :: adapter
  pu_samples :: int
  pu_metrics :: "(pystr, pyfloat) dict"

datatype aggregation_error = Negative_samples int | Keys_mismatch | Shape_mismatch pystr | No_signal | No_usable | Keys_differ
  | Too_few nat int

definition new_update :: "pystr \<Rightarrow> adapter \<Rightarrow> int \<Rightarrow> (pystr, pyfloat) dict \<Rightarrow> aggregation_error + participant_update" where
  "new_update pid delta samples metrics = (if samples < 0 then Inl (Negative_samples samples)
     else Inr \<lparr>pu_peer_id = pid, pu_delta = delta, pu_samples = samples, pu_metrics = metrics\<rparr>)"

definition validate_update :: "adapter \<Rightarrow> participant_update \<Rightarrow> aggregation_error option" where
  "validate_update base u =
     (if set (map fst base) \<noteq> set (map fst (pu_delta u)) then Some Keys_mismatch
      else map_option (\<lambda>(name, t). Shape_mismatch name)
        (find (\<lambda>(name, t). tn_shape t \<noteq> tn_shape (the (map_of base name))) (pu_delta u)))"

section \<open>Averaging\<close>

text \<open>One tensor: the weighted sum in float64, divided by the total, stepped from the base and stored in its dtype.\<close>

definition weighted_sum :: "participant_update list \<Rightarrow> pystr \<Rightarrow> nat \<Rightarrow> fl list" where
  "weighted_sum us name k = fold (\<lambda>u acc. map2 (\<lambda>a x. a + fscale (real_of_int (pu_samples u)) x) acc
     (tn_data (the (map_of (pu_delta u) name)))) us (replicate k 0)"

definition step_tensor :: "numerics \<Rightarrow> real \<Rightarrow> participant_update list \<Rightarrow> pystr \<Rightarrow> tensor \<Rightarrow> tensor" where
  "step_tensor N lr us name t =
     (let total = real_of_int (sum_list (map pu_samples us));
          averaged = map (fscale (1 / total)) (weighted_sum us name (length (tn_data t)))
      in t\<lparr>tn_data := map2 (\<lambda>b a. nu_round N (tn_dtype t) (b + fscale lr a)) (tn_data t) averaged\<rparr>)"

definition federated_average :: "numerics \<Rightarrow> adapter \<Rightarrow> participant_update list \<Rightarrow> real \<Rightarrow> aggregation_error + adapter" where
  "federated_average N base updates lr =
     (let usable = filter (\<lambda>u. pu_samples u > 0) updates in
      if usable = [] then Inl No_signal
      else case List.find (\<lambda>u. validate_update base u \<noteq> None) usable of
        Some u \<Rightarrow> Inl (the (validate_update base u))
      | None \<Rightarrow> Inr (map (\<lambda>(name, t). (name, step_tensor N lr usable name t)) base))"

definition adapter_delta :: "numerics \<Rightarrow> adapter \<Rightarrow> adapter \<Rightarrow> (aggregation_error + adapter) option" where
  "adapter_delta N base trained =
     (if set (map fst base) \<noteq> set (map fst trained) then Some (Inl Keys_differ)
      else map_option Inr (those (map (\<lambda>(name, t). map_option (Pair name) (nu_sub N (the (map_of trained name)) t)) base)))"

section \<open>Norms\<close>

definition l2_norm :: "adapter \<Rightarrow> fl" where
  "l2_norm a = froot (sum_list (map (\<lambda>(name, t). sum_list (map fsquare (tn_data t))) a))"

definition clip_delta :: "numerics \<Rightarrow> adapter \<Rightarrow> real \<Rightarrow> adapter" where
  "clip_delta N delta max_norm =
     (let norm = l2_norm delta in
      if fatmost norm max_norm \<or> norm = Fin 0 then delta
      else map (\<lambda>(name, t). (name, t\<lparr>tn_data := map (\<lambda>x. nu_round N (tn_dtype t) (fratio max_norm norm x)) (tn_data t)\<rparr>)) delta)"

text \<open>The names in Python's order of strings.\<close>

definition adapter_fingerprint :: "numerics \<Rightarrow> adapter \<Rightarrow> pystr" where
  "adapter_fingerprint N a = take 16 (nu_sha256_hex N (concat (map (\<lambda>name. let t = the (map_of a name) in
     name @ tn_dtype t @ nu_host_bytes N (tn_dtype t) (tn_data t)) (sort (map fst a)))))"

section \<open>Round trips\<close>

text \<open>A codec for values of a dictionary: what is written for a good value is read back.\<close>

locale codec =
  fixes enc :: "'a \<Rightarrow> pv option" and dec :: "pv \<Rightarrow> 'a option" and good :: "'a \<Rightarrow> bool"
  assumes written: "good x \<Longrightarrow> \<exists>v. enc x = Some v \<and> dec v = Some x"
begin

lemma dict_roundtrip: "\<forall>x \<in> snd ` set d. good x \<Longrightarrow> \<exists>e. map_values enc d = Some e \<and> map_values dec e = Some d"
proof (induction d)
  case Nil
  then show ?case by (simp add: map_values_def)
next
  case (Cons kx d)
  obtain k x where kx: "kx = (k, x)" by fastforce
  obtain v where v: "enc x = Some v" "dec v = Some x" using Cons.prems kx written by auto
  obtain e where "map_values enc d = Some e" "map_values dec e = Some d" using Cons by auto
  then show ?case by (intro exI [of _ "(k, v) # e"]) (simp add: map_values_def kx v)
qed

end

lemma those_ints: "those (map (\<lambda>n. Some (int n)) ns) = Some (map int ns)"
  by (induction ns) auto

lemma prod_list_int: "prod_list (map int ns) = int (prod_list ns)"
  by (induction ns) auto

definition sendable :: "numerics \<Rightarrow> tensor \<Rightarrow> bool" where
  "sendable N t \<longleftrightarrow> stored N t \<and> tn_dtype t \<in> set SUPPORTED \<and> tn_data t \<noteq> []"

lemma tensor_roundtrip:
  assumes "numerics_ok N \<and> sendable N t"
  shows "\<exists>v. encode_tensor N t = Some v \<and> decode_tensor N v = Some t"
proof -
  have "nu_items N (tn_dtype t) (nu_bytes N (tn_dtype t) (tn_data t)) = Some (tn_data t)"
    using assms by (auto simp: numerics_ok_def sendable_def stored_def)
  then show ?thesis
    using assms by (auto simp: encode_tensor_def decode_tensor_def need_def those_ints prod_list_int sendable_def stored_def tensor_ok_def comp_def)
qed

interpretation tensors: codec "encode_tensor N" "decode_tensor N" "\<lambda>t. numerics_ok N \<and> sendable N t" for N
  by unfold_locales (rule tensor_roundtrip)

interpretation metrics: codec "\<lambda>x. Some (PNum x)" as_num "\<lambda>_. True"
  by unfold_locales simp

lemma adapter_roundtrip:
  assumes "numerics_ok N" "\<forall>t \<in> snd ` set a. sendable N t"
  shows "\<exists>v. encode_adapter N a = Some v \<and> decode_adapter N v = Some a"
  using tensors.dict_roundtrip [of a N] assms by (auto simp: encode_adapter_def decode_adapter_def)

text \<open>What is read is stored in its dtype.\<close>

lemma map_values_mem:
  "map_values f d = Some e \<Longrightarrow> (k, y) \<in> set e \<Longrightarrow> \<exists>x. (k, x) \<in> set d \<and> f x = Some y"
  by (induction d arbitrary: e) (fastforce simp: map_values_def split: option.splits)+

lemma decoded_stored: "numerics_ok N \<Longrightarrow> decode_tensor N v = Some t \<Longrightarrow> stored N t"
proof -
  assume N: "numerics_ok N" and d: "decode_tensor N v = Some t"
  obtain shape where "int (length (tn_data t)) = prod_list shape" "\<forall>n \<in> set shape. \<not> n < 0" "tn_shape t = map nat shape"
    "\<exists>s. nu_items N (tn_dtype t) s = Some (tn_data t)"
    using d by (auto simp: decode_tensor_def Option.bind_eq_Some_conv split: if_splits) blast
  moreover have "prod_list shape = int (prod_list (map nat shape))" if "\<forall>n \<in> set shape. \<not> n < 0" for shape
    using that by (induction shape) (auto simp: not_less)
  ultimately show "stored N t" using N by (auto simp: stored_def tensor_ok_def numerics_ok_def)
qed

lemma decoded_adapter_stored: "numerics_ok N \<Longrightarrow> decode_adapter N v = Some a \<Longrightarrow> \<forall>t \<in> snd ` set a. stored N t"
  by (auto simp: decode_adapter_def Option.bind_eq_Some_conv dest!: map_values_mem intro: decoded_stored)

section \<open>The weighted mean\<close>

lemma map2_commute:
  fixes g :: "'b \<Rightarrow> fl \<Rightarrow> fl"
  shows "map2 (\<lambda>a x. a + g v x) (map2 (\<lambda>a x. a + g u x) acc xs) ys = map2 (\<lambda>a x. a + g u x) (map2 (\<lambda>a x. a + g v x) acc ys) xs"
  by (rule nth_equalityI) (auto simp: ac_simps)

lemma weighted_sum_mset: "mset us = mset us' \<Longrightarrow> weighted_sum us name k = weighted_sum us' name k"
  unfolding weighted_sum_def
  by (rule arg_cong [where f = "\<lambda>f. f (replicate k 0)"], rule fold_multiset_equiv)
    (auto simp: fun_eq_iff intro: map2_commute)

lemma weighted_fold:
  assumes "\<And>u. u \<in> set us \<Longrightarrow> length (f u) = length acc"
  shows "length (fold (\<lambda>u acc. map2 (\<lambda>a x. a + g u x) acc (f u)) us acc) = length acc"
    "i < length acc \<Longrightarrow> fold (\<lambda>u acc. map2 (\<lambda>a x. a + g u x) acc (f u)) us acc ! i = acc ! i + (\<Sum>u\<leftarrow>us. g u (f u ! i))"
  using assms by (induction us arbitrary: acc) (auto simp: add.assoc)

lemma weighted_sum_nth:
  assumes "\<And>u. u \<in> set us \<Longrightarrow> length (tn_data (the (map_of (pu_delta u) name))) = k"
  shows "length (weighted_sum us name k) = k"
    "i < k \<Longrightarrow> weighted_sum us name k ! i = (\<Sum>u\<leftarrow>us. fscale (real_of_int (pu_samples u)) (tn_data (the (map_of (pu_delta u) name)) ! i))"
  using weighted_fold [where us = us and f = "\<lambda>u. tn_data (the (map_of (pu_delta u) name))" and acc = "replicate k (0 :: fl)"
      and g = "\<lambda>u. fscale (real_of_int (pu_samples u))"] assms
  by (auto simp: weighted_sum_def)

lemma find_None: "List.find P xs = None \<longleftrightarrow> (\<forall>x \<in> set xs. \<not> P x)"
  by (induction xs) auto

definition usable :: "participant_update list \<Rightarrow> participant_update list" where
  "usable us = filter (\<lambda>u. pu_samples u > 0) us"

lemma federated_average_Inr:
  "federated_average N base us lr = Inr a \<longleftrightarrow> usable us \<noteq> [] \<and> (\<forall>u \<in> set (usable us). validate_update base u = None)
     \<and> a = map (\<lambda>(name, t). (name, step_tensor N lr (usable us) name t)) base"
proof (cases "List.find (\<lambda>u. validate_update base u \<noteq> None) (usable us)")
  case None
  then have "\<forall>u \<in> set (usable us). validate_update base u = None" by (auto simp: find_None)
  with None show ?thesis by (auto simp: federated_average_def Let_def usable_def [symmetric])
next
  case (Some u)
  have "List.find (\<lambda>u. validate_update base u \<noteq> None) (usable us) \<noteq> None" unfolding Some by simp
  then have "\<not> (\<forall>u \<in> set (usable us). validate_update base u = None)" unfolding find_None by simp
  moreover have "federated_average N base us lr = Inl (if usable us = [] then No_signal else the (validate_update base u))"
    unfolding federated_average_def Let_def usable_def [symmetric] Some by simp
  ultimately show ?thesis by simp
qed

lemma map_of_map_named: "map_of (map (\<lambda>(k, x). (k, f k x)) d) k = map_option (f k) (map_of d k)"
  by (induction d) auto

definition well_shaped :: "adapter \<Rightarrow> bool" where
  "well_shaped a \<longleftrightarrow> (\<forall>t \<in> snd ` set a. tensor_ok t)"

lemma valid_tensor:
  assumes "validate_update base u = None" "well_shaped base" "well_shaped (pu_delta u)" "map_of base name = Some t"
  shows "\<exists>t'. map_of (pu_delta u) name = Some t' \<and> length (tn_data t') = length (tn_data t)"
proof -
  have keys: "set (map fst base) = set (map fst (pu_delta u))" and shapes: "\<forall>(name, t') \<in> set (pu_delta u). tn_shape t' = tn_shape (the (map_of base name))"
    using assms(1) by (auto simp: validate_update_def find_None split: if_splits)
  have "name \<in> fst ` set base" using assms(4) by (metis domI dom_map_of_conv_image_fst)
  then obtain t' where t': "map_of (pu_delta u) name = Some t'" using keys by (metis dom_map_of_conv_image_fst domD set_map)
  then have "(name, t') \<in> set (pu_delta u)" by (rule map_of_SomeD)
  moreover have "(name, t) \<in> set base" using assms(4) by (rule map_of_SomeD)
  ultimately have "tn_shape t' = tn_shape t" "tensor_ok t'" "tensor_ok t"
    using shapes assms(2,3,4) by (force simp: well_shaped_def)+
  then show ?thesis using t' by (simp add: tensor_ok_def)
qed

definition weight :: "participant_update list \<Rightarrow> real" where
  "weight us = real_of_int (\<Sum>u\<leftarrow>us. pu_samples u)"

definition entry :: "participant_update \<Rightarrow> pystr \<Rightarrow> nat \<Rightarrow> fl" where
  "entry u name i = tn_data (the (map_of (pu_delta u) name)) ! i"

lemma step_tensor_nth:
  assumes "\<And>u. u \<in> set us \<Longrightarrow> length (tn_data (the (map_of (pu_delta u) name))) = length (tn_data t)"
  shows "tn_dtype (step_tensor N lr us name t) = tn_dtype t" "tn_shape (step_tensor N lr us name t) = tn_shape t"
    "length (tn_data (step_tensor N lr us name t)) = length (tn_data t)"
    "i < length (tn_data t) \<Longrightarrow> tn_data (step_tensor N lr us name t) ! i = nu_round N (tn_dtype t) (tn_data t ! i
       + fscale lr (fscale (1 / weight us) (\<Sum>u\<leftarrow>us. fscale (real_of_int (pu_samples u)) (entry u name i))))"
  using weighted_sum_nth [OF assms] by (simp_all add: step_tensor_def Let_def weight_def entry_def)

text \<open>
  The new adapter is the sample-weighted mean step. It has the names, shapes and dtypes of the base;
  each element is the base's plus the server rate times the sum of samples times delta over the samples of the
  contributors, rounded to the dtype; updates without samples have no influence, and the order of the others
  has none either, infinities and NaN included.
\<close>

theorem fedavg_weighted_mean:
  assumes "federated_average N base us lr = Inr a" "well_shaped base" "\<forall>u \<in> set us. well_shaped (pu_delta u)" "dict_ok base"
  shows "map fst a = map fst base
    \<and> (\<forall>name t. map_of base name = Some t \<longrightarrow> (\<exists>t'. map_of a name = Some t' \<and> tn_dtype t' = tn_dtype t \<and> tn_shape t' = tn_shape t
        \<and> length (tn_data t') = length (tn_data t)
        \<and> (\<forall>i < length (tn_data t). tn_data t' ! i = nu_round N (tn_dtype t) (tn_data t ! i
            + fscale lr (fscale (1 / weight (usable us)) (\<Sum>u\<leftarrow>usable us. fscale (real_of_int (pu_samples u)) (entry u name i)))))))
    \<and> (\<forall>us'. mset (usable us') = mset (usable us) \<longrightarrow> federated_average N base us' lr = Inr a)"
proof (intro conjI allI impI)
  have a: "usable us \<noteq> []" "\<forall>u \<in> set (usable us). validate_update base u = None"
    "a = map (\<lambda>(name, t). (name, step_tensor N lr (usable us) name t)) base"
    using assms(1) by (simp_all add: federated_average_Inr)
  show "map fst a = map fst base" by (simp add: a(3) comp_def case_prod_beta)
  show "\<exists>t'. map_of a name = Some t' \<and> tn_dtype t' = tn_dtype t \<and> tn_shape t' = tn_shape t \<and> length (tn_data t') = length (tn_data t)
        \<and> (\<forall>i < length (tn_data t). tn_data t' ! i = nu_round N (tn_dtype t) (tn_data t ! i
            + fscale lr (fscale (1 / weight (usable us)) (\<Sum>u\<leftarrow>usable us. fscale (real_of_int (pu_samples u)) (entry u name i)))))"
    if t: "map_of base name = Some t" for name t
  proof -
    have "map_of a name = Some (step_tensor N lr (usable us) name t)" using t by (simp add: a(3) map_of_map_named)
    moreover have len: "length (tn_data (the (map_of (pu_delta u) name))) = length (tn_data t)" if "u \<in> set (usable us)" for u
      using valid_tensor [of base u name t] a(2) assms(2,3) t that by (auto simp: usable_def)
    ultimately show ?thesis using step_tensor_nth [where us = "usable us" and name = name and t = t and N = N and lr = lr, OF len] by (intro exI [of _ "step_tensor N lr (usable us) name t"]) simp
  qed
  show "federated_average N base us' lr = Inr a" if m: "mset (usable us') = mset (usable us)" for us'
  proof -
    have "set (usable us') = set (usable us)" using m by (metis set_mset_mset)
    moreover have "sum_list (map pu_samples (usable us')) = sum_list (map pu_samples (usable us))"
      using m by (metis mset_map sum_mset_sum_list)
    then have "step_tensor N lr (usable us') name t = step_tensor N lr (usable us) name t" for name t
      using weighted_sum_mset [OF m] by (simp add: step_tensor_def)
    moreover have "usable us' \<noteq> []" using m a(1) by auto
    ultimately show ?thesis using a by (simp add: federated_average_Inr)
  qed
qed

section \<open>Bounded influence\<close>

fun val :: "fl \<Rightarrow> real" where "val (Fin x) = x" | "val _ = 0"

definition finite_adapter :: "adapter \<Rightarrow> bool" where
  "finite_adapter a \<longleftrightarrow> (\<forall>t \<in> snd ` set a. \<forall>x \<in> set (tn_data t). x = Fin (val x))"

definition sqnorm :: "adapter \<Rightarrow> real" where
  "sqnorm a = (\<Sum>(name, t)\<leftarrow>a. \<Sum>x\<leftarrow>tn_data t. val x * val x)"

text \<open>A value scaled down, never up, stays finite and is stored with a relative error of at most \<open>eps\<close>.\<close>

definition rounding_ok :: "numerics \<Rightarrow> real \<Rightarrow> bool" where
  "rounding_ok N eps \<longleftrightarrow> eps \<ge> 0 \<and> (\<forall>dt z c. nu_round N dt (Fin z) = Fin z \<longrightarrow> 0 \<le> c \<longrightarrow> c \<le> 1 \<longrightarrow>
     (\<exists>y. nu_round N dt (Fin (c * z)) = Fin y \<and> \<bar>y\<bar> \<le> (1 + eps) * \<bar>c * z\<bar>))"

lemma sum_Fin: "(\<Sum>x\<leftarrow>xs. Fin (f x)) = Fin (\<Sum>x\<leftarrow>xs. f x)"
  by (induction xs) (simp_all add: zero_fl_def)

lemma sum_squares:
  "\<forall>x \<in> set xs. x = Fin (val x) \<Longrightarrow> sum_list (map fsquare xs) = Fin (\<Sum>x\<leftarrow>xs. val x * val x)"
proof (induction xs)
  case (Cons x xs)
  then have "x = Fin (val x)" by simp
  then have "fsquare x = Fin (val x * val x)" by (metis fsquare.simps(1))
  then show ?case using Cons by simp
qed (simp add: zero_fl_def)

lemma sqnorm_Nil [simp]: "sqnorm [] = 0"
  and sqnorm_Cons [simp]: "sqnorm ((name, t) # a) = (\<Sum>x\<leftarrow>tn_data t. val x * val x) + sqnorm a"
  by (simp_all add: sqnorm_def)

lemma squares_nonneg: "(\<Sum>x\<leftarrow>xs. val x * val x) \<ge> 0"
  by (induction xs) auto

lemma sqnorm_nonneg: "sqnorm a \<ge> 0"
  by (induction a) (auto simp: squares_nonneg)

lemma l2_norm_finite:
  assumes "finite_adapter a"
  shows "l2_norm a = Fin (sqrt (sqnorm a))"
proof -
  have "(\<Sum>(name, t)\<leftarrow>a. sum_list (map fsquare (tn_data t))) = Fin (sqnorm a)"
    using assms by (induction a) (auto simp: finite_adapter_def sum_squares zero_fl_def)
  then show ?thesis using sqnorm_nonneg [of a] by (simp add: l2_norm_def)
qed

lemma clip_bound:
  assumes fin: "finite_adapter d" and st: "\<forall>t \<in> snd ` set d. stored N t" and N: "rounding_ok N eps" and m: "max_norm > 0"
  defines "c \<equiv> clip_delta N d max_norm"
  shows "finite_adapter c" "sqnorm c \<le> ((1 + eps) * max_norm)\<^sup>2" "map fst c = map fst d"
    "map_of c name = Some t' \<Longrightarrow> \<exists>t. map_of d name = Some t \<and> tn_shape t' = tn_shape t \<and> length (tn_data t') = length (tn_data t)"
proof -
  have norm: "l2_norm d = Fin (sqrt (sqnorm d))" by (rule l2_norm_finite [OF fin])
  have "finite_adapter c \<and> sqnorm c \<le> ((1 + eps) * max_norm)\<^sup>2 \<and> map fst c = map fst d
    \<and> (\<forall>name t'. map_of c name = Some t' \<longrightarrow> (\<exists>t. map_of d name = Some t \<and> tn_shape t' = tn_shape t \<and> length (tn_data t') = length (tn_data t)))"
  proof (cases "sqrt (sqnorm d) \<le> max_norm \<or> sqrt (sqnorm d) = 0")
    case True
    then have "c = d" by (simp add: c_def clip_delta_def norm Let_def)
    moreover have le: "sqrt (sqnorm d) \<le> max_norm" using True m by auto
    have "sqnorm d \<le> max_norm\<^sup>2" using power_mono [OF le, of 2] sqnorm_nonneg [of d] by simp
    moreover have "max_norm\<^sup>2 \<le> ((1 + eps) * max_norm)\<^sup>2"
      using N m by (intro power_mono) (simp_all add: rounding_ok_def)
    ultimately show ?thesis using fin by auto
  next
    case False
    define s where "s = max_norm / sqrt (sqnorm d)"
    have s: "0 \<le> s" "s \<le> 1" using False m sqnorm_nonneg [of d] by (auto simp: s_def)
    have c: "c = map (\<lambda>(name, t). (name, t\<lparr>tn_data := map (\<lambda>x. nu_round N (tn_dtype t) (fscale s x)) (tn_data t)\<rparr>)) d"
      using False by (simp add: c_def clip_delta_def norm Let_def s_def)
    have el: "\<exists>y. nu_round N (tn_dtype t) (fscale s x) = Fin y \<and> \<bar>y\<bar> \<le> (1 + eps) * (s * \<bar>val x\<bar>)"
      if "t \<in> snd ` set d" "x \<in> set (tn_data t)" for t x
    proof -
      have "x = Fin (val x)" "nu_round N (tn_dtype t) x = x" using that fin st by (auto simp: finite_adapter_def stored_def)
      then obtain v where "x = Fin v" "nu_round N (tn_dtype t) (Fin v) = Fin v" by metis
      then obtain y where "nu_round N (tn_dtype t) (Fin (s * v)) = Fin y" "\<bar>y\<bar> \<le> (1 + eps) * \<bar>s * v\<bar>"
        using N s unfolding rounding_ok_def by blast
      then show ?thesis using s \<open>x = Fin v\<close> by (simp add: abs_mult)
    qed
    have sq: "val (nu_round N (tn_dtype t) (fscale s x)) * val (nu_round N (tn_dtype t) (fscale s x)) \<le> ((1 + eps) * s)\<^sup>2 * (val x * val x)"
      if tx: "t \<in> snd ` set d" "x \<in> set (tn_data t)" for t x
    proof -
      obtain y where y: "nu_round N (tn_dtype t) (fscale s x) = Fin y" "\<bar>y\<bar> \<le> (1 + eps) * (s * \<bar>val x\<bar>)" using el [OF tx] by blast
      have "\<bar>y\<bar>\<^sup>2 \<le> ((1 + eps) * (s * \<bar>val x\<bar>))\<^sup>2" by (rule power_mono [OF y(2)]) simp
      then show ?thesis using y(1) by (simp add: power_mult_distrib mult.assoc flip: power2_eq_square)
    qed
    have ten: "(\<Sum>x\<leftarrow>tn_data t. val (nu_round N (tn_dtype t) (fscale s x)) * val (nu_round N (tn_dtype t) (fscale s x)))
        \<le> ((1 + eps) * s)\<^sup>2 * (\<Sum>x\<leftarrow>tn_data t. val x * val x)" if "t \<in> snd ` set d" for t
      unfolding sum_list_const_mult [symmetric] by (rule sum_list_mono) (rule sq [OF that])
    have "sqnorm c \<le> ((1 + eps) * s)\<^sup>2 * sqnorm d"
    proof -
      have "sqnorm (map (\<lambda>(name, t). (name, t\<lparr>tn_data := map (\<lambda>x. nu_round N (tn_dtype t) (fscale s x)) (tn_data t)\<rparr>)) d')
          \<le> ((1 + eps) * s)\<^sup>2 * sqnorm d'" if "set d' \<subseteq> set d" for d'
        using that by (induction d') (force simp: distrib_left comp_def intro!: add_mono ten)+
      then show ?thesis by (simp add: c)
    qed
    also have "\<dots> = ((1 + eps) * max_norm)\<^sup>2"
    proof -
      have "s * sqrt (sqnorm d) = max_norm" using False by (simp add: s_def)
      moreover have "sqnorm d = (sqrt (sqnorm d))\<^sup>2" using sqnorm_nonneg [of d] by simp
      ultimately show ?thesis by (metis power_mult_distrib mult.assoc)
    qed
    finally have "sqnorm c \<le> ((1 + eps) * max_norm)\<^sup>2" .
    moreover have "finite_adapter c" using el by (force simp: finite_adapter_def c)
    moreover have "map fst c = map fst d" by (simp add: c comp_def case_prod_beta)
    ultimately show ?thesis by (auto simp: c map_of_map)
  qed
  then show "finite_adapter c" "sqnorm c \<le> ((1 + eps) * max_norm)\<^sup>2" "map fst c = map fst d"
    "map_of c name = Some t' \<Longrightarrow> \<exists>t. map_of d name = Some t \<and> tn_shape t' = tn_shape t \<and> length (tn_data t') = length (tn_data t)"
    by blast+
qed

lemma weighted_jensen:
  fixes w x :: "'a \<Rightarrow> real"
  assumes "\<And>u. u \<in> set us \<Longrightarrow> w u \<ge> 0"
  shows "(\<Sum>u\<leftarrow>us. w u) \<ge> 0 \<and> (\<Sum>u\<leftarrow>us. w u * (x u)\<^sup>2) \<ge> 0
    \<and> (\<Sum>u\<leftarrow>us. w u * x u)\<^sup>2 \<le> (\<Sum>u\<leftarrow>us. w u) * (\<Sum>u\<leftarrow>us. w u * (x u)\<^sup>2)"
  using assms
proof (induction us)
  case (Cons u us)
  define W A S where "W = (\<Sum>u\<leftarrow>us. w u)" and "A = (\<Sum>u\<leftarrow>us. w u * x u)" and "S = (\<Sum>u\<leftarrow>us. w u * (x u)\<^sup>2)"
  have IH: "W \<ge> 0" "S \<ge> 0" "A\<^sup>2 \<le> W * S" and w: "w u \<ge> 0" using Cons by (auto simp: W_def A_def S_def)
  have mid: "2 * A * x u \<le> W * (x u)\<^sup>2 + S"
  proof (cases "W = 0")
    case True
    then show ?thesis using IH by simp
  next
    case False
    then have "W > 0" using IH(1) by simp
    have "0 \<le> (W * x u - A)\<^sup>2" by simp
    then have "2 * A * x u * W \<le> W\<^sup>2 * (x u)\<^sup>2 + A\<^sup>2" by (simp add: power2_diff power_mult_distrib algebra_simps)
    also have "\<dots> \<le> W\<^sup>2 * (x u)\<^sup>2 + W * S" using IH(3) by simp
    finally have "(2 * A * x u) * W \<le> (W * (x u)\<^sup>2 + S) * W" by (simp add: algebra_simps power2_eq_square)
    then show ?thesis using \<open>W > 0\<close> by simp
  qed
  have "(w u * x u + A)\<^sup>2 = (w u)\<^sup>2 * (x u)\<^sup>2 + w u * (2 * A * x u) + A\<^sup>2" by (simp add: power2_sum power_mult_distrib)
  also have "\<dots> \<le> (w u)\<^sup>2 * (x u)\<^sup>2 + w u * (W * (x u)\<^sup>2 + S) + W * S"
    using mult_left_mono [OF mid w] IH(3) by simp
  also have "\<dots> = (w u + W) * (w u * (x u)\<^sup>2 + S)" by (simp add: algebra_simps power2_eq_square)
  finally show ?case using IH w by (simp add: W_def A_def S_def)
qed simp

text \<open>The squares of an adapter's entries at the names of a base, each name once, are among its own.\<close>

lemma entries_sqnorm:
  assumes "distinct names" "\<And>name. name \<in> set names \<Longrightarrow> map_of a name = Some (f name)"
  shows "(\<Sum>name\<leftarrow>names. \<Sum>x\<leftarrow>tn_data (f name). val x * val x) \<le> sqnorm a"
  using assms
proof (induction a arbitrary: names)
  case Nil
  then show ?case by (cases names) auto
next
  case (Cons kt a)
  obtain k t where kt: "kt = (k, t)" by fastforce
  define g where "g name = (\<Sum>x\<leftarrow>tn_data (f name). val x * val x)" for name
  have rest: "(\<Sum>name\<leftarrow>filter (\<lambda>n. n \<noteq> k) names. g name) \<le> sqnorm a"
    unfolding g_def
  proof (rule Cons.IH)
    show "map_of a name = Some (f name)" if "name \<in> set (filter (\<lambda>n. n \<noteq> k) names)" for name
      using Cons.prems(2) [of name] kt that by simp
  qed (use Cons.prems(1) in simp)
  have split: "(\<Sum>name\<leftarrow>names. g name) = (if k \<in> set names then g k else 0) + (\<Sum>name\<leftarrow>filter (\<lambda>n. n \<noteq> k) names. g name)"
    using Cons.prems(1) by (induction names) (auto simp: filter_id_conv)
  have "g k = (\<Sum>x\<leftarrow>tn_data t. val x * val x)" if "k \<in> set names"
    using Cons.prems(2) [OF that] kt by (simp add: g_def)
  then show ?case using rest split squares_nonneg [of "tn_data t"] by (auto simp: kt g_def)
qed

definition mean_step :: "real \<Rightarrow> participant_update list \<Rightarrow> pystr \<Rightarrow> nat \<Rightarrow> real" where
  "mean_step lr us name i = lr * ((\<Sum>u\<leftarrow>us. real_of_int (pu_samples u) * val (entry u name i)) / weight us)"

text \<open>The square norm of the step over the elements of the base.\<close>

definition step_sqnorm :: "adapter \<Rightarrow> real \<Rightarrow> participant_update list \<Rightarrow> real" where
  "step_sqnorm base lr us = (\<Sum>(name, t)\<leftarrow>base. \<Sum>i\<leftarrow>[0..<length (tn_data t)]. (mean_step lr us name i)\<^sup>2)"

lemma sum_list_nth_upt: "(\<Sum>i\<leftarrow>[0..<length xs]. f (xs ! i)) = (\<Sum>x\<leftarrow>xs. f x)"
proof -
  have "map (\<lambda>i. f (xs ! i)) [0..<length xs] = map f xs" by (rule nth_equalityI) auto
  then show ?thesis by simp
qed

lemma weighted_swap:
  "(\<Sum>(x, y)\<leftarrow>ps. c * (\<Sum>u\<leftarrow>us. n u * f u x y)) = c * (\<Sum>u\<leftarrow>us. n u * (\<Sum>(x, y)\<leftarrow>ps. (f u x y :: real)))"
  by (induction ps) (auto simp: sum_list_addf distrib_left)

lemma mean_step_sqnorm:
  assumes pos: "\<forall>u \<in> set us. pu_samples u > 0" and ne: "us \<noteq> []" and B: "\<forall>u \<in> set us. sqnorm (pu_delta u) \<le> B\<^sup>2"
    and dim: "\<forall>u \<in> set us. \<forall>(name, t) \<in> set base. \<exists>t'. map_of (pu_delta u) name = Some t' \<and> length (tn_data t') = length (tn_data t)"
    and d: "dict_ok base"
  shows "step_sqnorm base lr us \<le> (lr * B)\<^sup>2"
proof -
  define n where "n u = real_of_int (pu_samples u)" for u :: participant_update
  define W where "W = (\<Sum>u\<leftarrow>us. n u)"
  have W: "weight us = W" unfolding weight_def W_def n_def by (induction us) simp_all
  have npos: "n u \<ge> 0" if "u \<in> set us" for u using pos that by (simp add: n_def order_less_imp_le)
  have "W > 0"
  proof (cases us)
    case (Cons u us')
    have "(\<Sum>u\<leftarrow>us'. n u) \<ge> 0" using npos Cons by (intro sum_list_nonneg) auto
    then show ?thesis using pos Cons by (simp add: W_def n_def)
  qed (use ne in simp)
  define sq where "sq u name i = (val (entry u name i))\<^sup>2" for u name i
  have point: "(mean_step lr us name i)\<^sup>2 \<le> lr\<^sup>2 / W * (\<Sum>u\<leftarrow>us. n u * sq u name i)" for name i
  proof -
    have "(\<Sum>u\<leftarrow>us. n u * val (entry u name i))\<^sup>2 \<le> W * (\<Sum>u\<leftarrow>us. n u * sq u name i)"
      using weighted_jensen [of us n "\<lambda>u. val (entry u name i)"] npos by (simp add: W_def sq_def)
    then have "(lr\<^sup>2 / W\<^sup>2) * (\<Sum>u\<leftarrow>us. n u * val (entry u name i))\<^sup>2 \<le> (lr\<^sup>2 / W\<^sup>2) * (W * (\<Sum>u\<leftarrow>us. n u * sq u name i))"
      by (intro mult_left_mono) simp_all
    then show ?thesis using \<open>W > 0\<close>
      by (simp add: mean_step_def W power_mult_distrib power_divide power2_eq_square n_def [symmetric] ac_simps)
  qed
  define P where "P = concat (map (\<lambda>(name, t). map (Pair name) [0..<length (tn_data t)]) base)"
  have over: "(\<Sum>(name, t)\<leftarrow>base. \<Sum>i\<leftarrow>[0..<length (tn_data t)]. f name i) = (\<Sum>(name, i)\<leftarrow>P. f name i)" for f :: "pystr \<Rightarrow> nat \<Rightarrow> real"
    unfolding P_def by (induction base) (auto simp: comp_def)
  have one: "(\<Sum>(name, i)\<leftarrow>P. sq u name i) \<le> B\<^sup>2" if u: "u \<in> set us" for u
  proof -
    have "(\<Sum>i\<leftarrow>[0..<length (tn_data t)]. sq u name i) = (\<Sum>x\<leftarrow>tn_data (the (map_of (pu_delta u) name)). val x * val x)"
      if "(name, t) \<in> set base" for name t
    proof -
      have "length (tn_data t) = length (tn_data (the (map_of (pu_delta u) name)))" using dim u that by fastforce
      then show ?thesis
        using sum_list_nth_upt [of "\<lambda>x. val x * val x" "tn_data (the (map_of (pu_delta u) name))"]
        by (simp add: sq_def entry_def power2_eq_square)
    qed
    then have "(\<Sum>(name, i)\<leftarrow>P. sq u name i) = (\<Sum>(name, t)\<leftarrow>base. \<Sum>x\<leftarrow>tn_data (the (map_of (pu_delta u) name)). val x * val x)"
      unfolding over [symmetric] by (intro arg_cong [where f = sum_list] map_cong) auto
    also have "\<dots> = (\<Sum>name\<leftarrow>map fst base. \<Sum>x\<leftarrow>tn_data (the (map_of (pu_delta u) name)). val x * val x)"
      by (induction base) auto
    also have "\<dots> \<le> sqnorm (pu_delta u)"
      using d dim u by (intro entries_sqnorm) (fastforce simp: dict_ok_def)+
    finally show ?thesis using B u by fastforce
  qed
  have "step_sqnorm base lr us \<le> (\<Sum>(name, i)\<leftarrow>P. lr\<^sup>2 / W * (\<Sum>u\<leftarrow>us. n u * sq u name i))"
    unfolding step_sqnorm_def over by (rule sum_list_mono) (use point in \<open>auto split: prod.split\<close>)
  also have "\<dots> = lr\<^sup>2 / W * (\<Sum>u\<leftarrow>us. n u * (\<Sum>(name, i)\<leftarrow>P. sq u name i))"
    by (rule weighted_swap)
  also have "\<dots> \<le> lr\<^sup>2 / W * (\<Sum>u\<leftarrow>us. n u * B\<^sup>2)"
    using \<open>W > 0\<close> one npos by (intro mult_left_mono sum_list_mono) simp_all
  also have "\<dots> = (lr * B)\<^sup>2" using \<open>W > 0\<close> by (simp add: sum_list_mult_const W_def power_mult_distrib)
  finally show ?thesis .
qed

end
