(* ===== verification/Training.thy ===== *)
theory Training
  imports Adapters Peer_Sessions
begin

text \<open>
  A federated training round: the coordinator's state machine and the payloads (\<open>training/round.py\<close>), the
  session that carries them, and the participant (\<open>training/session.py\<close>). What a participant trains and
  what the transport does are parameters. Values of a payload of an unexpected kind count as malformed.
\<close>

section \<open>Payloads\<close>

record round_config =
  rc_job_id :: pystr
  rc_round_index :: int
  rc_base_model :: pystr
  rc_local_epochs :: int
  rc_learning_rate :: pyfloat
  rc_batch_size :: int
  rc_min_participants :: int
  rc_deadline_s :: pyfloat
  rc_max_delta_norm :: pyfloat
  rc_server_lr :: pyfloat

definition config_to_dict :: "round_config \<Rightarrow> pdict" where
  "config_to_dict c =
     [(''job_id'', PStr (rc_job_id c)), (''round_index'', PInt (rc_round_index c)), (''base_model'', PStr (rc_base_model c)),
      (''local_epochs'', PInt (rc_local_epochs c)), (''learning_rate'', PNum (rc_learning_rate c)),
      (''batch_size'', PInt (rc_batch_size c)), (''min_participants'', PInt (rc_min_participants c)),
      (''deadline_s'', PNum (rc_deadline_s c)), (''max_delta_norm'', PNum (rc_max_delta_norm c)),
      (''server_lr'', PNum (rc_server_lr c))]"

definition config_from_dict :: "pdict \<Rightarrow> round_config option" where
  "config_from_dict d = do {
     job_id \<leftarrow> need as_str d ''job_id'';
     round_index \<leftarrow> need as_int d ''round_index'';
     base_model \<leftarrow> need as_str d ''base_model'';
     local_epochs \<leftarrow> dget as_int d ''local_epochs'' 1;
     learning_rate \<leftarrow> dget as_num d ''learning_rate'' (2 / 10000);
     batch_size \<leftarrow> dget as_int d ''batch_size'' 4;
     min_participants \<leftarrow> dget as_int d ''min_participants'' 1;
     deadline_s \<leftarrow> dget as_num d ''deadline_s'' 300;
     max_delta_norm \<leftarrow> dget as_num d ''max_delta_norm'' 0;
     server_lr \<leftarrow> dget as_num d ''server_lr'' 1;
     Some \<lparr>rc_job_id = job_id, rc_round_index = round_index, rc_base_model = base_model, rc_local_epochs = local_epochs,
       rc_learning_rate = learning_rate, rc_batch_size = batch_size, rc_min_participants = min_participants,
       rc_deadline_s = deadline_s, rc_max_delta_norm = max_delta_norm, rc_server_lr = server_lr\<rparr> }"

definition build_train_round_payload :: "numerics \<Rightarrow> round_config \<Rightarrow> adapter \<Rightarrow> pdict option" where
  "build_train_round_payload N c base = do {
     b \<leftarrow> encode_adapter N base;
     Some [(''config'', PDict (config_to_dict c)), (''base_adapter'', b)] }"

definition parse_train_round_payload :: "numerics \<Rightarrow> pdict \<Rightarrow> (round_config \<times> adapter) option" where
  "parse_train_round_payload N p = do {
     d \<leftarrow> need as_dict p ''config'';
     c \<leftarrow> config_from_dict d;
     base \<leftarrow> need (decode_adapter N) p ''base_adapter'';
     Some (c, base) }"

definition build_train_update_payload :: "numerics \<Rightarrow> participant_update \<Rightarrow> pdict option" where
  "build_train_update_payload N u = do {
     delta \<leftarrow> encode_adapter N (pu_delta u);
     metrics \<leftarrow> map_values (\<lambda>x. Some (PNum x)) (pu_metrics u);
     Some [(''peer_id'', PStr (pu_peer_id u)), (''num_samples'', PInt (pu_samples u)), (''delta'', delta),
       (''metrics'', PDict metrics)] }"

text \<open>\<open>payload.get(key) or default\<close>, read as a kind.\<close>

definition get_or :: "(pv \<Rightarrow> 'a option) \<Rightarrow> 'a \<Rightarrow> pdict \<Rightarrow> pystr \<Rightarrow> 'a option" where
  "get_or f dflt d k = (case map_of d k of None \<Rightarrow> Some dflt | Some v \<Rightarrow> if truthy v then f v else Some dflt)"

definition parse_train_update_payload :: "numerics \<Rightarrow> pdict \<Rightarrow> participant_update option" where
  "parse_train_update_payload N p = do {
     peer_id \<leftarrow> need as_str p ''peer_id'';
     num_samples \<leftarrow> need as_int p ''num_samples'';
     delta \<leftarrow> need (decode_adapter N) p ''delta'';
     metrics \<leftarrow> get_or (\<lambda>v. Option.bind (as_dict v) (map_values as_num)) [] p ''metrics'';
     (case new_update peer_id delta num_samples metrics of Inl _ \<Rightarrow> None | Inr u \<Rightarrow> Some u) }"

record round_result =
  rr_job_id :: pystr
  rr_round_index :: int
  rr_adapter :: adapter
  rr_contributors :: "pystr list"
  rr_dropped :: "pystr list"
  rr_total_samples :: int

definition build_train_result_payload :: "numerics \<Rightarrow> round_result \<Rightarrow> pdict option" where
  "build_train_result_payload N r = do {
     a \<leftarrow> encode_adapter N (rr_adapter r);
     Some [(''job_id'', PStr (rr_job_id r)), (''round_index'', PInt (rr_round_index r)), (''adapter'', a),
       (''fingerprint'', PStr (adapter_fingerprint N (rr_adapter r))), (''contributors'', pv_strs (rr_contributors r)),
       (''dropped'', pv_strs (rr_dropped r)), (''total_samples'', PInt (rr_total_samples r))] }"

definition parse_train_result_payload :: "numerics \<Rightarrow> pdict \<Rightarrow> round_result option" where
  "parse_train_result_payload N p = do {
     job_id \<leftarrow> need as_str p ''job_id'';
     round_index \<leftarrow> need as_int p ''round_index'';
     a \<leftarrow> need (decode_adapter N) p ''adapter'';
     contributors \<leftarrow> get_or as_strs [] p ''contributors'';
     dropped \<leftarrow> get_or as_strs [] p ''dropped'';
     total_samples \<leftarrow> need as_int p ''total_samples'';
     Some \<lparr>rr_job_id = job_id, rr_round_index = round_index, rr_adapter = a, rr_contributors = contributors,
       rr_dropped = dropped, rr_total_samples = total_samples\<rparr> }"

section \<open>The round\<close>

record training_round =
  tr_config :: round_config
  tr_base :: adapter
  tr_updates :: "(pystr, participant_update) dict"
  tr_started_at :: pyfloat

definition round_submit :: "participant_update \<Rightarrow> training_round \<Rightarrow> training_round" where
  "round_submit u r = r\<lparr>tr_updates := dict_set (tr_updates r) (pu_peer_id u) u\<rparr>"

definition has_quorum :: "training_round \<Rightarrow> bool" where
  "has_quorum r \<longleftrightarrow> int (length (filter (\<lambda>u. pu_samples u > 0) (map snd (tr_updates r)))) \<ge> rc_min_participants (tr_config r)"

definition round_expired :: "pyfloat \<Rightarrow> training_round \<Rightarrow> bool" where
  "round_expired now r \<longleftrightarrow> now - tr_started_at r \<ge> rc_deadline_s (tr_config r)"

definition round_ready :: "pyfloat \<Rightarrow> training_round \<Rightarrow> bool" where
  "round_ready now r \<longleftrightarrow> has_quorum r \<or> round_expired now r \<and> list_ex (\<lambda>u. pu_samples u > 0) (map snd (tr_updates r))"

definition prepared :: "numerics \<Rightarrow> round_config \<Rightarrow> participant_update \<Rightarrow> participant_update" where
  "prepared N c u = (let max_norm = real_of_rat (rc_max_delta_norm c) in
     if max_norm > 0 \<and> fgreater (l2_norm (pu_delta u)) max_norm then u\<lparr>pu_delta := clip_delta N (pu_delta u) max_norm\<rparr> else u)"

definition aggregate :: "numerics \<Rightarrow> training_round \<Rightarrow> aggregation_error + round_result" where
  "aggregate N r =
     (let us = map snd (tr_updates r);
          dropped = map pu_peer_id (filter (\<lambda>u. pu_samples u \<le> 0) us);
          ready = map (prepared N (tr_config r)) (filter (\<lambda>u. \<not> pu_samples u \<le> 0) us)
      in if ready = [] then Inl No_usable
         else case federated_average N (tr_base r) ready (real_of_rat (rc_server_lr (tr_config r))) of
           Inl e \<Rightarrow> Inl e
         | Inr a \<Rightarrow> Inr \<lparr>rr_job_id = rc_job_id (tr_config r), rr_round_index = rc_round_index (tr_config r), rr_adapter = a,
             rr_contributors = map pu_peer_id ready, rr_dropped = dropped, rr_total_samples = sum_list (map pu_samples ready)\<rparr>)"

section \<open>The coordinator\<close>

datatype wire_reply = Timed_out | Announce_raises pystr | Replied message

datatype failure = No_update_in_time | Announce_failed pystr | Peer_failed "pv option" | Unexpected_reply message_type
  | Malformed_update | Claims_other pystr | Unfit aggregation_error | No_samples | Not_delivered pystr

text \<open>What the transport adds to a message for a peer: its identifier and time.\<close>

type_synonym stamp = "pystr \<Rightarrow> pystr \<times> pyfloat"

definition train_round :: "pystr \<Rightarrow> stamp \<Rightarrow> pdict \<Rightarrow> pystr \<Rightarrow> message" where
  "train_round own st payload p = new_message TRAIN_ROUND own (fst (st p)) (snd (st p)) payload"

definition train_result :: "pystr \<Rightarrow> stamp \<Rightarrow> pdict \<Rightarrow> pystr \<Rightarrow> message" where
  "train_result own st payload p = new_message TRAIN_RESULT own (fst (st p)) (snd (st p)) payload"

definition train_update :: "pystr \<Rightarrow> pystr \<Rightarrow> pyfloat \<Rightarrow> pdict \<Rightarrow> message" where
  "train_update from request_id ts payload = new_message TRAIN_UPDATE from request_id ts payload"

definition collect_update :: "numerics \<Rightarrow> adapter \<Rightarrow> wire_reply \<Rightarrow> pystr \<Rightarrow> failure + participant_update" where
  "collect_update N base reply p = (case reply of
     Timed_out \<Rightarrow> Inl No_update_in_time
   | Announce_raises e \<Rightarrow> Inl (Announce_failed e)
   | Replied m \<Rightarrow>
       if en_type m = ERROR then Inl (Peer_failed (map_of (en_payload m) ''error_message''))
       else if en_type m \<noteq> TRAIN_UPDATE then Inl (Unexpected_reply (en_type m))
       else case parse_train_update_payload N (en_payload m) of
         None \<Rightarrow> Inl Malformed_update
       | Some u \<Rightarrow> if pu_peer_id u \<noteq> p then Inl (Claims_other (pu_peer_id u))
           else case validate_update base u of Some e \<Rightarrow> Inl (Unfit e) | None \<Rightarrow> Inr u)"

definition set_default :: "(pystr, failure) dict \<Rightarrow> pystr \<Rightarrow> failure \<Rightarrow> (pystr, failure) dict" where
  "set_default d k v = (if map_of d k = None then dict_set d k v else d)"

text \<open>\<open>deliver\<close> is the text of the exception sending raised, if it did.\<close>

definition publish_result :: "(pystr \<Rightarrow> message \<Rightarrow> pystr option) \<Rightarrow> (pystr \<Rightarrow> message) \<Rightarrow> pystr list \<Rightarrow> (pystr, failure) dict
    \<Rightarrow> pystr list \<times> (pystr, failure) dict" where
  "publish_result deliver msg ps failures = fold (\<lambda>p (notified, failures). case deliver p (msg p) of
     Some e \<Rightarrow> (notified, set_default failures p (Not_delivered e)) | None \<Rightarrow> (notified @ [p], failures)) ps ([], failures)"

record round_outcome =
  ro_result :: round_result
  ro_fingerprint :: pystr
  ro_failures :: "(pystr, failure) dict"
  ro_notified :: "pystr list"

datatype round_failure = Not_encodable | Aggregation aggregation_error

definition take_update :: "pystr \<times> (failure + participant_update) \<Rightarrow> training_round \<times> (pystr, failure) dict \<times> nat
    \<Rightarrow> training_round \<times> (pystr, failure) dict \<times> nat" where
  "take_update x s = (case (x, s) of ((p, c), r, failures, used) \<Rightarrow> (case c of
     Inl e \<Rightarrow> (r, dict_set failures p e, used)
   | Inr u \<Rightarrow> (round_submit u r, failures, if pu_samples u > 0 then used + 1 else used)))"

definition run_round :: "pystr \<Rightarrow> numerics \<Rightarrow> pyfloat \<Rightarrow> stamp \<Rightarrow> stamp \<Rightarrow> (pystr \<Rightarrow> message \<Rightarrow> wire_reply) \<Rightarrow> (pystr \<Rightarrow> message \<Rightarrow> pystr option)
    \<Rightarrow> round_config \<Rightarrow> adapter \<Rightarrow> pystr list \<Rightarrow> round_failure + round_outcome" where
  "run_round own N now sa sb net deliver c base ps = (case build_train_round_payload N c base of
     None \<Rightarrow> Inl Not_encodable
   | Some announce \<Rightarrow>
       let collected = map (\<lambda>p. (p, collect_update N base (net p (train_round own sa announce p)) p)) ps;
           (r, failures, used) = fold take_update collected
             (\<lparr>tr_config = c, tr_base = base, tr_updates = [], tr_started_at = now\<rparr>, [], 0)
       in if \<not> has_quorum r then Inl (Aggregation (Too_few used (rc_min_participants c)))
          else case aggregate N r of
            Inl e \<Rightarrow> Inl (Aggregation e)
          | Inr result \<Rightarrow>
              let failures1 = fold (\<lambda>p d. set_default d p No_samples) (rr_dropped result) failures in
              (case build_train_result_payload N result of
                 None \<Rightarrow> Inl Not_encodable
               | Some payload \<Rightarrow>
                   let (notified, failures2) = publish_result deliver (train_result own sb payload) ps failures1
                   in Inr \<lparr>ro_result = result, ro_fingerprint = adapter_fingerprint N (rr_adapter result),
                        ro_failures = failures2, ro_notified = notified\<rparr>))"

section \<open>The participant\<close>

record local_update =
  lu_delta :: adapter
  lu_samples :: int
  lu_metrics :: "(pystr, pyfloat) dict"

record trainee =
  te_peer_id :: pystr
  te_results :: "(pystr, round_result) dict"
  te_active :: "pystr set"

text \<open>A trainer gives an update or raises, with a text.\<close>

type_synonym trainer = "round_config \<Rightarrow> adapter \<Rightarrow> pystr + local_update"

text \<open>Up to the training: an error to reply, or what to train on. \<open>why\<close> is the text of a decoding error.\<close>

definition begin_round :: "numerics \<Rightarrow> trainer option \<Rightarrow> pystr \<Rightarrow> message \<Rightarrow> trainee
    \<Rightarrow> (error_code \<times> pystr + round_config \<times> adapter \<times> trainer) \<times> trainee" where
  "begin_round N tr why m s = (case parse_train_round_payload N (en_payload m) of
     None \<Rightarrow> (Inl (INVALID_MESSAGE, ''malformed TRAIN_ROUND: '' @ why), s)
   | Some (c, base) \<Rightarrow> (case tr of
       None \<Rightarrow> (Inl (MODEL_UNAVAILABLE, ''node has no local trainer''), s)
     | Some f \<Rightarrow> (Inr (c, base, f), s\<lparr>te_active := insert (rc_job_id c) (te_active s)\<rparr>)))"

text \<open>After it; no message where building the update raises, which no handler catches.\<close>

definition end_round :: "numerics \<Rightarrow> message \<Rightarrow> pyfloat \<Rightarrow> round_config \<Rightarrow> pystr + local_update \<Rightarrow> trainee \<Rightarrow> message option \<times> trainee" where
  "end_round N m ts c result s =
     (let s1 = s\<lparr>te_active := te_active s - {rc_job_id c}\<rparr>; own = te_peer_id s in case result of
        Inl e \<Rightarrow> (Some (error_message own (en_id m) ts BACKEND_ERROR e), s1)
      | Inr l \<Rightarrow> (case new_update own (lu_delta l) (lu_samples l) (lu_metrics l) of
          Inl _ \<Rightarrow> (None, s1)
        | Inr u \<Rightarrow> (map_option (train_update own (en_id m) ts) (build_train_update_payload N u), s1)))"

definition handle_round :: "numerics \<Rightarrow> trainer option \<Rightarrow> pystr \<Rightarrow> pyfloat \<Rightarrow> message \<Rightarrow> trainee \<Rightarrow> message option \<times> trainee" where
  "handle_round N tr why ts m s = (case begin_round N tr why m s of
     (Inl (code, text), s1) \<Rightarrow> (Some (error_message (te_peer_id s) (en_id m) ts code text), s1)
   | (Inr (c, base, f), s1) \<Rightarrow> end_round N m ts c (f c base) s1)"

text \<open>An announced fingerprint that is not text differs from the actual one.\<close>

definition handle_result :: "numerics \<Rightarrow> message \<Rightarrow> trainee \<Rightarrow> trainee" where
  "handle_result N m s = (case parse_train_result_payload N (en_payload m) of
     None \<Rightarrow> s
   | Some r \<Rightarrow>
       if (case map_of (en_payload m) ''fingerprint'' of None \<Rightarrow> False
           | Some v \<Rightarrow> truthy v \<and> v \<noteq> PStr (adapter_fingerprint N (rr_adapter r))) then s
       else s\<lparr>te_results := dict_set (te_results s) (rr_job_id r) r\<rparr>)"

definition handle_training :: "numerics \<Rightarrow> trainer option \<Rightarrow> pystr \<Rightarrow> pyfloat \<Rightarrow> message \<Rightarrow> trainee \<Rightarrow> bool \<times> message option \<times> trainee" where
  "handle_training N tr why ts m s =
     (if en_type m = TRAIN_ROUND then (True, handle_round N tr why ts m s)
      else if en_type m = TRAIN_RESULT then (True, None, handle_result N m s)
      else (False, None, s))"

definition training_status :: "trainee \<Rightarrow> pystr list \<times> (pystr \<times> int) list" where
  "training_status s = (sorted_list_of_set (te_active s),
     map (\<lambda>(job, r). (job, rr_round_index r)) (sort_key fst (te_results s)))"

section \<open>Round trips\<close>

lemma config_roundtrip: "config_from_dict (config_to_dict c) = Some c"
  unfolding config_from_dict_def config_to_dict_def by (simp add: need_Cons dget_Cons)

lemma round_payload_roundtrip:
  assumes "build_train_round_payload N c base = Some p" "numerics_ok N" "\<forall>t \<in> snd ` set base. sendable N t"
  shows "parse_train_round_payload N p = Some (c, base)"
proof -
  obtain v where "encode_adapter N base = Some v" "decode_adapter N v = Some base"
    using adapter_roundtrip [OF assms(2,3)] by blast
  then show ?thesis using assms(1)
    by (auto simp: build_train_round_payload_def parse_train_round_payload_def need_Cons config_roundtrip)
qed

lemma get_or_Cons: "get_or f x ((k, v) # d) k' = (if k' = k then if truthy v then f v else Some x else get_or f x d k')"
  by (simp add: get_or_def)

lemma update_payload_roundtrip:
  assumes "numerics_ok N" "\<forall>t \<in> snd ` set (pu_delta u). sendable N t" "pu_samples u \<ge> 0"
  shows "\<exists>p. build_train_update_payload N u = Some p \<and> parse_train_update_payload N p = Some u"
proof -
  obtain v where v: "encode_adapter N (pu_delta u) = Some v" "decode_adapter N v = Some (pu_delta u)"
    using adapter_roundtrip [OF assms(1,2)] by blast
  obtain e where e: "map_values (\<lambda>x. Some (PNum x)) (pu_metrics u) = Some e" "map_values as_num e = Some (pu_metrics u)"
    using metrics.dict_roundtrip [of "pu_metrics u"] by auto
  have "e = [] \<Longrightarrow> pu_metrics u = []" using e(2) by (simp add: map_values_def)
  then show ?thesis using v e assms(3)
    by (auto simp: build_train_update_payload_def parse_train_update_payload_def need_Cons get_or_Cons truthy_def new_update_def)
qed

lemma result_payload_roundtrip:
  assumes "build_train_result_payload N r = Some p" "numerics_ok N" "\<forall>t \<in> snd ` set (rr_adapter r). sendable N t"
  shows "parse_train_result_payload N p = Some r" "map_of p ''fingerprint'' = Some (PStr (adapter_fingerprint N (rr_adapter r)))"
proof -
  obtain v where v: "encode_adapter N (rr_adapter r) = Some v" "decode_adapter N v = Some (rr_adapter r)"
    using adapter_roundtrip [OF assms(2,3)] by blast
  have t: "truthy (pv_strs xs) = (xs \<noteq> [])" for xs by (simp add: truthy_def pv_strs_def)
  show "parse_train_result_payload N p = Some r" "map_of p ''fingerprint'' = Some (PStr (adapter_fingerprint N (rr_adapter r)))"
    using v assms(1) by (auto simp: build_train_result_payload_def parse_train_result_payload_def need_Cons get_or_Cons t)
qed

section \<open>What a round collects\<close>

lemma collected_own: "collect_update N base reply p = Inr u \<Longrightarrow> pu_peer_id u = p \<and> validate_update base u = None"
  by (auto simp: collect_update_def split: wire_reply.splits if_splits option.splits)

lemma collected_stored:
  assumes "numerics_ok N" "collect_update N base reply p = Inr u"
  shows "\<forall>t \<in> snd ` set (pu_delta u). stored N t" "pu_samples u \<ge> 0"
proof -
  have "\<exists>q. parse_train_update_payload N q = Some u"
    using assms(2) by (cases reply) (auto simp: collect_update_def split: if_splits option.splits)
  then obtain q where m: "parse_train_update_payload N q = Some u" by blast
  then have "\<exists>v. decode_adapter N v = Some (pu_delta u)" "pu_samples u \<ge> 0"
    by (auto simp: parse_train_update_payload_def need_def new_update_def Option.bind_eq_Some_conv split: if_splits)
  then show "\<forall>t \<in> snd ` set (pu_delta u). stored N t" "pu_samples u \<ge> 0"
    using decoded_adapter_stored [OF assms(1)] by blast+
qed

definition accepted :: "(pystr \<Rightarrow> failure + participant_update) \<Rightarrow> pystr list \<Rightarrow> (pystr, participant_update) dict" where
  "accepted f ps = concat (map (\<lambda>p. case f p of Inl _ \<Rightarrow> [] | Inr u \<Rightarrow> [(p, u)]) ps)"

definition refused :: "(pystr \<Rightarrow> failure + participant_update) \<Rightarrow> pystr list \<Rightarrow> (pystr, failure) dict" where
  "refused f ps = concat (map (\<lambda>p. case f p of Inl e \<Rightarrow> [(p, e)] | Inr _ \<Rightarrow> []) ps)"

lemma dict_set_fresh: "k \<notin> fst ` set d \<Longrightarrow> dict_set d k v = d @ [(k, v)]"
  unfolding dict_set_def by (induction d) auto

lemma map_of_accepted: "map_of (accepted f ps) p = (if p \<in> set ps then case f p of Inl _ \<Rightarrow> None | Inr u \<Rightarrow> Some u else None)"
  and map_of_refused: "map_of (refused f ps) p = (if p \<in> set ps then case f p of Inl e \<Rightarrow> Some e | Inr _ \<Rightarrow> None else None)"
  by (induction ps) (auto simp: accepted_def refused_def split: sum.splits)

lemma take_update_pair:
  "take_update (p, Inl e) (r, failures, used) = (r, dict_set failures p e, used)"
  "take_update (p, Inr u) (r, failures, used) = (round_submit u r, failures, if pu_samples u > 0 then used + 1 else used)"
  by (simp_all add: take_update_def)

lemma take_updates:
  assumes "distinct ps" "\<And>p u. p \<in> set ps \<Longrightarrow> f p = Inr u \<Longrightarrow> pu_peer_id u = p"
  shows "fold take_update (map (\<lambda>p. (p, f p)) ps) (\<lparr>tr_config = c, tr_base = base, tr_updates = [], tr_started_at = now\<rparr>, [], 0)
    = (\<lparr>tr_config = c, tr_base = base, tr_updates = accepted f ps, tr_started_at = now\<rparr>, refused f ps,
       length (filter (\<lambda>u. pu_samples u > 0) (map snd (accepted f ps))))"
  using assms
proof (induction ps rule: rev_induct)
  case Nil
  then show ?case by (simp add: accepted_def refused_def)
next
  case (snoc p ps)
  have "p \<notin> fst ` set (accepted f ps)" "p \<notin> fst ` set (refused f ps)"
    using snoc.prems(1) by (simp_all add: map_of_accepted map_of_refused flip: map_of_eq_None_iff)
  moreover have "accepted f (ps @ [p]) = accepted f ps @ (case f p of Inl _ \<Rightarrow> [] | Inr u \<Rightarrow> [(p, u)])"
    "refused f (ps @ [p]) = refused f ps @ (case f p of Inl e \<Rightarrow> [(p, e)] | Inr _ \<Rightarrow> [])"
    by (simp_all add: accepted_def refused_def)
  moreover have "fold take_update (map (\<lambda>p. (p, f p)) ps) (\<lparr>tr_config = c, tr_base = base, tr_updates = [], tr_started_at = now\<rparr>, [], 0)
    = (\<lparr>tr_config = c, tr_base = base, tr_updates = accepted f ps, tr_started_at = now\<rparr>, refused f ps,
       length (filter (\<lambda>u. pu_samples u > 0) (map snd (accepted f ps))))" using snoc by simp
  moreover have "pu_peer_id u = p" if "f p = Inr u" for u using snoc.prems(2) [of p u] that by simp
  ultimately show ?case
    by (cases "f p") (simp_all add: take_update_pair round_submit_def dict_set_fresh)
qed

lemma publish_spec:
  "publish_result deliver msg ps fs = (ns, fs') \<Longrightarrow> ns = filter (\<lambda>p. deliver p (msg p) = None) ps
     \<and> map_of fs' = (\<lambda>q. case map_of fs q of Some e \<Rightarrow> Some e
          | None \<Rightarrow> if q \<in> set ps then map_option Not_delivered (deliver q (msg q)) else None)"
  unfolding publish_result_def
proof (induction ps arbitrary: ns fs' rule: rev_induct)
  case Nil
  then show ?case by (auto simp: fun_eq_iff split: option.split)
next
  case (snoc p ps)
  obtain ns1 fs1 where s: "fold (\<lambda>p (notified, failures). case deliver p (msg p) of
     Some e \<Rightarrow> (notified, set_default failures p (Not_delivered e)) | None \<Rightarrow> (notified @ [p], failures)) ps ([], fs) = (ns1, fs1)" by fastforce
  have ns1: "ns1 = filter (\<lambda>p. deliver p (msg p) = None) ps" and fs1: "map_of fs1 = (\<lambda>q. case map_of fs q of Some e \<Rightarrow> Some e
          | None \<Rightarrow> if q \<in> set ps then map_option Not_delivered (deliver q (msg q)) else None)" using snoc.IH [OF s] by blast+
  show ?case
  proof (cases "deliver p (msg p)")
    case None
    then have "ns = ns1 @ [p]" "map_of fs' = map_of fs1" using snoc.prems s by simp_all
    then show ?thesis using None ns1 by (auto simp: fs1 fun_eq_iff split: option.split)
  next
    case (Some e)
    then have "ns = ns1" "map_of fs' = (map_of fs1)(p := case map_of fs1 p of None \<Rightarrow> Some (Not_delivered e) | Some v \<Rightarrow> Some v)"
      using snoc.prems s by (auto simp: set_default_def fun_eq_iff split: option.splits if_splits)
    then show ?thesis using Some ns1 by (auto simp: fs1 fun_eq_iff split: option.split)
  qed
qed

lemma new_data_fits:
  "validate_update base (u\<lparr>pu_delta := map (\<lambda>(name, t). (name, t\<lparr>tn_data := g t\<rparr>)) (pu_delta u)\<rparr>) = validate_update base u"
proof -
  have "map_option (\<lambda>(name, t). Shape_mismatch name) (find (\<lambda>(name, t). tn_shape t \<noteq> tn_shape (the (map_of base name)))
        (map (\<lambda>(name, t). (name, t\<lparr>tn_data := g t\<rparr>)) d))
      = map_option (\<lambda>(name, t). Shape_mismatch name) (find (\<lambda>(name, t). tn_shape t \<noteq> tn_shape (the (map_of base name))) d)" for d
    by (induction d) auto
  moreover have "map fst (map (\<lambda>(name, t). (name, t\<lparr>tn_data := g t\<rparr>)) d) = map fst d" for d :: adapter
    by (induction d) auto
  moreover have "pu_delta (u\<lparr>pu_delta := d\<rparr>) = d" for d by simp
  ultimately show ?thesis unfolding validate_update_def by (simp only:)
qed

lemma clip_keeps_fit: "validate_update base (u\<lparr>pu_delta := clip_delta N (pu_delta u) m\<rparr>) = validate_update base u"
  using new_data_fits [where base = base and u = u] by (simp add: clip_delta_def Let_def)

lemma prepared_keeps [simp]:
  "pu_peer_id (prepared N c u) = pu_peer_id u" "pu_samples (prepared N c u) = pu_samples u"
  "validate_update base (prepared N c u) = validate_update base u"
  by (simp_all add: prepared_def Let_def clip_keeps_fit)

lemma map_values_total: "map_values f d \<noteq> None \<longleftrightarrow> (\<forall>x \<in> snd ` set d. f x \<noteq> None)"
  by (induction d) (auto simp: map_values_def split: option.splits)

lemma encodes_iff: "encode_adapter N a \<noteq> None \<longleftrightarrow> (\<forall>t \<in> snd ` set a. tn_dtype t \<in> set SUPPORTED)"
  using map_values_total [of "encode_tensor N" a] by (auto simp: encode_adapter_def encode_tensor_def split: if_splits)

lemma averaged_encodes:
  assumes "federated_average N base us lr = Inr a" "encode_adapter N base \<noteq> None"
  shows "encode_adapter N a \<noteq> None"
  using assms unfolding encodes_iff federated_average_Inr by (force simp: step_tensor_def Let_def)

definition gives :: "(pystr \<Rightarrow> failure + participant_update) \<Rightarrow> pystr \<Rightarrow> bool" where
  "gives got p = (case got p of Inl _ \<Rightarrow> False | Inr u \<Rightarrow> pu_samples u > 0)"

lemma usable_accepted: "filter (\<lambda>u. pu_samples u > 0) (map snd (accepted f ps)) = map (projr \<circ> f) (filter (gives f) ps)"
  by (induction ps) (auto simp: accepted_def gives_def split: sum.splits)

lemma empty_accepted:
  "(\<And>p u. p \<in> set ps \<Longrightarrow> f p = Inr u \<Longrightarrow> pu_peer_id u = p) \<Longrightarrow>
   map pu_peer_id (filter (\<lambda>u. pu_samples u \<le> 0) (map snd (accepted f ps))) = filter (\<lambda>p. \<not> isl (f p) \<and> \<not> gives f p) ps"
proof (induction ps)
  case (Cons p ps)
  have IH: "map pu_peer_id (filter (\<lambda>u. pu_samples u \<le> 0) (map snd (accepted f ps))) = filter (\<lambda>p. \<not> isl (f p) \<and> \<not> gives f p) ps"
    using Cons by simp
  have head: "accepted f (p # ps) = (case f p of Inl _ \<Rightarrow> [] | Inr u \<Rightarrow> [(p, u)]) @ accepted f ps" by (simp add: accepted_def)
  show ?case
  proof (cases "f p")
    case (Inl e)
    then show ?thesis using IH by (simp add: head gives_def)
  next
    case (Inr u)
    then have "pu_peer_id u = p" using Cons.prems [of p u] by simp
    then show ?thesis using Inr IH by (simp add: head gives_def not_less)
  qed
qed (simp add: accepted_def)

lemma set_defaults: "map_of (fold (\<lambda>p d. set_default d p x) ps d) q = (case map_of d q of Some e \<Rightarrow> Some e | None \<Rightarrow> if q \<in> set ps then Some x else None)"
  by (induction ps arbitrary: d) (auto simp: set_default_def split: option.splits)

lemma round_spec:
  assumes "distinct ps"
  shows "case build_train_round_payload N c base of
     None \<Rightarrow> run_round own N now sa sb net deliver c base ps = Inl Not_encodable
   | Some announce \<Rightarrow>
       let got = (\<lambda>p. collect_update N base (net p (train_round own sa announce p)) p); givers = filter (gives got) ps in
       case run_round own N now sa sb net deliver c base ps of
         Inl e \<Rightarrow> int (length givers) < rc_min_participants c \<and> e = Aggregation (Too_few (length givers) (rc_min_participants c))
             \<or> rc_min_participants c \<le> 0 \<and> givers = [] \<and> e = Aggregation No_usable
       | Inr oc \<Rightarrow> \<exists>payload. build_train_result_payload N (ro_result oc) = Some payload
           \<and> givers \<noteq> [] \<and> int (length givers) \<ge> rc_min_participants c
           \<and> rr_job_id (ro_result oc) = rc_job_id c \<and> rr_round_index (ro_result oc) = rc_round_index c
           \<and> rr_contributors (ro_result oc) = givers
           \<and> rr_total_samples (ro_result oc) = (\<Sum>p\<leftarrow>givers. pu_samples (projr (got p)))
           \<and> federated_average N base (map (\<lambda>p. prepared N c (projr (got p))) givers) (real_of_rat (rc_server_lr c)) = Inr (rr_adapter (ro_result oc))
           \<and> ro_fingerprint oc = adapter_fingerprint N (rr_adapter (ro_result oc))
           \<and> ro_notified oc = filter (\<lambda>p. deliver p (train_result own sb payload p) = None) ps
           \<and> map_of (ro_failures oc) = (\<lambda>p. if p \<notin> set ps then None else case got p of
               Inl e \<Rightarrow> Some e
             | Inr u \<Rightarrow> if pu_samples u > 0 then map_option Not_delivered (deliver p (train_result own sb payload p)) else Some No_samples)"
proof (cases "build_train_round_payload N c base")
  case None
  then show ?thesis by (simp add: run_round_def)
next
  case (Some announce)
  define got where "got = (\<lambda>p. collect_update N base (net p (train_round own sa announce p)) p)"
  define givers where "givers = filter (gives got) ps"
  define r where "r = \<lparr>tr_config = c, tr_base = base, tr_updates = accepted got ps, tr_started_at = now\<rparr>"
  define us where "us = map (\<lambda>p. prepared N c (projr (got p))) givers"
  have gp: "collect_update N base (net p (train_round own sa announce p)) p = got p" for p by (simp add: got_def)
  have folded: "fold take_update (map (\<lambda>p. (p, got p)) ps) (\<lparr>tr_config = c, tr_base = base, tr_updates = [], tr_started_at = now\<rparr>, [], 0)
      = (r, refused got ps, length givers)" if "\<And>p u. got p = Inr u \<Longrightarrow> pu_peer_id u = p"
    using take_updates [of ps got c base now] assms that unfolding r_def givers_def usable_accepted by simp
  have own_id: "pu_peer_id u = p" if "got p = Inr u" for p u using that collected_own by (simp add: got_def)
  have use: "filter (\<lambda>u. pu_samples u > 0) (map snd (accepted got ps)) = map (projr \<circ> got) givers"
    by (simp only: usable_accepted givers_def)
  have n: "length (filter (\<lambda>u. pu_samples u > 0) (map snd (accepted got ps))) = length givers" by (simp only: use length_map)
  have quorum: "has_quorum r \<longleftrightarrow> int (length givers) \<ge> rc_min_participants c" by (simp only: has_quorum_def r_def training_round.simps n)
  have enc: "encode_adapter N base \<noteq> None" using Some by (auto simp: build_train_round_payload_def Option.bind_eq_Some_conv)
  have giver: "\<exists>u. got p = Inr u \<and> pu_peer_id u = p \<and> pu_samples u > 0 \<and> validate_update base u = None" if "p \<in> set givers" for p
  proof (cases "got p")
    case (Inr u)
    then show ?thesis using that own_id collected_own [of N base _ p u] by (simp add: givers_def gives_def got_def)
  qed (use that in \<open>simp add: givers_def gives_def\<close>)
  have us: "usable us = us" "\<forall>u \<in> set us. validate_update base u = None" "map pu_peer_id us = givers"
      "map pu_samples us = map (\<lambda>p. pu_samples (projr (got p))) givers"
    using giver by (force simp: usable_def us_def filter_id_conv intro: map_idI)+
  have ready: "map (prepared N c) (filter (\<lambda>u. \<not> pu_samples u \<le> 0) (map snd (accepted got ps))) = us"
    using use by (simp add: not_le us_def comp_def)
  have avg: "\<exists>a. federated_average N base us (real_of_rat (rc_server_lr c)) = Inr a" if "us \<noteq> []"
    using us(1,2) that by (simp add: federated_average_Inr)
  show ?thesis
  proof (cases "int (length givers) \<ge> rc_min_participants c \<and> givers \<noteq> []")
    case False
    have "aggregate N r = Inl No_usable" if "givers = []"
      using that ready by (simp add: aggregate_def Let_def r_def us_def del: filter_map)
    then show ?thesis using False Some quorum
      by (auto simp: run_round_def Let_def gp folded [OF own_id] simp flip: givers_def)
  next
    case True
    obtain a where a: "federated_average N base us (real_of_rat (rc_server_lr c)) = Inr a" using avg True by (auto simp: us_def)
    define res where "res = \<lparr>rr_job_id = rc_job_id c, rr_round_index = rc_round_index c, rr_adapter = a, rr_contributors = givers,
      rr_dropped = filter (\<lambda>p. \<not> isl (got p) \<and> \<not> gives got p) ps, rr_total_samples = (\<Sum>p\<leftarrow>givers. pu_samples (projr (got p)))\<rparr>"
    have res: "aggregate N r = Inr res"
    proof -
      have "us \<noteq> []" using True by (simp add: us_def)
      moreover have "sum_list (map pu_samples us) = (\<Sum>p\<leftarrow>givers. pu_samples (projr (got p)))" by (simp only: us(4))
      ultimately show ?thesis
        unfolding aggregate_def Let_def r_def training_round.simps ready res_def by (simp add: a us(3) empty_accepted own_id del: map_map filter_map)
    qed
    obtain payload where payload: "build_train_result_payload N res = Some payload"
      using averaged_encodes [OF a enc] by (auto simp: build_train_result_payload_def res_def)
    define fs where "fs = fold (\<lambda>p d. set_default d p No_samples) (rr_dropped res) (refused got ps)"
    obtain ns fs' where pub: "publish_result deliver (train_result own sb payload) ps fs = (ns, fs')" by fastforce
    have res_a: "rr_adapter res = a" by (simp add: res_def)
    have run: "run_round own N now sa sb net deliver c base ps
        = Inr \<lparr>ro_result = res, ro_fingerprint = adapter_fingerprint N a, ro_failures = fs', ro_notified = ns\<rparr>"
      using Some True quorum res payload pub
      by (simp add: run_round_def Let_def gp folded [OF own_id] fs_def [symmetric] res_a)
    have "map_of fs' = (\<lambda>p. if p \<notin> set ps then None else case got p of Inl e \<Rightarrow> Some e
        | Inr u \<Rightarrow> if pu_samples u > 0 then map_option Not_delivered (deliver p (train_result own sb payload p)) else Some No_samples)"
      using publish_spec [OF pub]
      by (auto simp: fs_def set_defaults map_of_refused res_def gives_def fun_eq_iff split: sum.splits)
    then show ?thesis using publish_spec [OF pub] run payload True a Some
      by (simp add: gp givers_def [symmetric] Let_def us_def [symmetric] res_def)
  qed
qed


section \<open>Bounded influence\<close>

lemma finite_entry:
  assumes "finite_adapter (pu_delta u)" "map_of (pu_delta u) name = Some t" "i < length (tn_data t)"
  shows "entry u name i = Fin (val (entry u name i))"
proof -
  have "t \<in> snd ` set (pu_delta u)" using map_of_SomeD [OF assms(2)] by force
  then have "\<forall>x \<in> set (tn_data t). x = Fin (val x)" using assms(1) unfolding finite_adapter_def by blast
  then show ?thesis using nth_mem [OF assms(3)] by (simp add: entry_def assms(2))
qed

lemma finite_step:
  assumes "\<And>u. u \<in> set us \<Longrightarrow> entry u name i = Fin (val (entry u name i))"
  shows "fscale lr (fscale (1 / weight us) (\<Sum>u\<leftarrow>us. fscale (real_of_int (pu_samples u)) (entry u name i))) = Fin (mean_step lr us name i)"
proof -
  have m: "map (\<lambda>u. fscale (real_of_int (pu_samples u)) (entry u name i)) us = map (\<lambda>u. Fin (real_of_int (pu_samples u) * val (entry u name i))) us"
    using assms by (intro map_cong refl) (metis fscale.simps(1))
  show ?thesis unfolding m by (simp add: sum_Fin mean_step_def)
qed

lemma step_tensor_eq:
  assumes "\<And>u. u \<in> set us \<Longrightarrow> \<exists>t'. map_of (pu_delta u) name = Some t' \<and> length (tn_data t') = length (tn_data t)"
    "\<And>u. u \<in> set us \<Longrightarrow> finite_adapter (pu_delta u)"
  shows "step_tensor N lr us name t = t\<lparr>tn_data := map (\<lambda>i. nu_round N (tn_dtype t) (tn_data t ! i + Fin (mean_step lr us name i))) [0..<length (tn_data t)]\<rparr>"
proof -
  have len: "length (tn_data (the (map_of (pu_delta u) name))) = length (tn_data t)" if "u \<in> set us" for u using assms(1) [OF that] by auto
  note st = step_tensor_nth [where us = us and name = name and t = t and N = N and lr = lr, OF len]
  have "tn_data (step_tensor N lr us name t) = map (\<lambda>i. nu_round N (tn_dtype t) (tn_data t ! i + Fin (mean_step lr us name i))) [0..<length (tn_data t)]"
  proof (rule nth_equalityI)
    fix i assume "i < length (tn_data (step_tensor N lr us name t))"
    then have i: "i < length (tn_data t)" using st(3) by simp
    have "entry u name i = Fin (val (entry u name i))" if u: "u \<in> set us" for u
      using assms(1) [OF u] finite_entry [OF assms(2) [OF u]] i by fastforce
    then show "tn_data (step_tensor N lr us name t) ! i = map (\<lambda>i. nu_round N (tn_dtype t) (tn_data t ! i + Fin (mean_step lr us name i))) [0..<length (tn_data t)] ! i"
      using i by (simp add: st(4) finite_step)
  qed (use st(3) in simp)
  then show ?thesis by (simp add: step_tensor_def Let_def)
qed

lemma prepared_bound:
  assumes "finite_adapter (pu_delta u)" "\<forall>t \<in> snd ` set (pu_delta u). stored N t" "rounding_ok N eps" "rc_max_delta_norm c > 0"
  shows "finite_adapter (pu_delta (prepared N c u))"
    "sqnorm (pu_delta (prepared N c u)) \<le> ((1 + eps) * real_of_rat (rc_max_delta_norm c))\<^sup>2"
    "map_of (pu_delta (prepared N c u)) name = Some t' \<Longrightarrow> \<exists>t. map_of (pu_delta u) name = Some t \<and> length (tn_data t') = length (tn_data t)"
proof -
  let ?m = "real_of_rat (rc_max_delta_norm c)"
  have m: "?m > 0" using assms(4) by simp
  note cb = clip_bound [OF assms(1,2,3) m]
  have "finite_adapter (pu_delta (prepared N c u)) \<and> sqnorm (pu_delta (prepared N c u)) \<le> ((1 + eps) * ?m)\<^sup>2
    \<and> (map_of (pu_delta (prepared N c u)) name = Some t' \<longrightarrow> (\<exists>t. map_of (pu_delta u) name = Some t \<and> length (tn_data t') = length (tn_data t)))"
  proof (cases "fgreater (l2_norm (pu_delta u)) ?m")
    case True
    then have "pu_delta (prepared N c u) = clip_delta N (pu_delta u) ?m" using m by (simp add: prepared_def)
    then show ?thesis using cb by fastforce
  next
    case False
    then have u: "prepared N c u = u" by (simp add: prepared_def Let_def)
    have le: "sqrt (sqnorm (pu_delta u)) \<le> ?m" using False by (simp add: l2_norm_finite [OF assms(1)])
    have "sqnorm (pu_delta u) \<le> ?m\<^sup>2" using power_mono [OF le, of 2] sqnorm_nonneg [of "pu_delta u"] by simp
    also have "\<dots> \<le> ((1 + eps) * ?m)\<^sup>2" using assms(3) m by (intro power_mono) (simp_all add: rounding_ok_def)
    finally show ?thesis using assms(1) u by simp
  qed
  then show "finite_adapter (pu_delta (prepared N c u))" "sqnorm (pu_delta (prepared N c u)) \<le> ((1 + eps) * ?m)\<^sup>2"
    "map_of (pu_delta (prepared N c u)) name = Some t' \<Longrightarrow> \<exists>t. map_of (pu_delta u) name = Some t \<and> length (tn_data t') = length (tn_data t)"
    by blast+
qed

lemma stored_shaped: "\<forall>t \<in> snd ` set a. stored N t \<Longrightarrow> well_shaped a"
  by (auto simp: well_shaped_def stored_def)

text \<open>
  With clipping no peer, and no coalition of peers, moves the adapter further than the clip norm. If the
  accepted deltas are finite, each element of the new adapter is the base's plus a step, rounded to its dtype,
  and the step has, over all tensors, an L2 norm of at most the server rate times the clip norm, up to the
  relative error of storing a clipped value.
\<close>

theorem clipped_round_bounded:
  assumes "run_round own N now sa sb net deliver c base ps = Inr oc" "distinct ps" "dict_ok base" "well_shaped base"
    "numerics_ok N" "rounding_ok N eps" "rc_max_delta_norm c > 0"
    "\<forall>p \<in> set ps. \<forall>m u. collect_update N base (net p m) p = Inr u \<longrightarrow> finite_adapter (pu_delta u)"
  shows "\<exists>step. rr_adapter (ro_result oc) = map (\<lambda>(name, t). (name, t\<lparr>tn_data :=
        map (\<lambda>i. nu_round N (tn_dtype t) (tn_data t ! i + Fin (step name i))) [0..<length (tn_data t)]\<rparr>)) base
    \<and> (\<Sum>(name, t)\<leftarrow>base. \<Sum>i\<leftarrow>[0..<length (tn_data t)]. (step name i)\<^sup>2)
        \<le> (real_of_rat (rc_server_lr c) * ((1 + eps) * real_of_rat (rc_max_delta_norm c)))\<^sup>2"
proof -
  obtain announce where ann: "build_train_round_payload N c base = Some announce"
    using assms(1) by (auto simp: run_round_def split: option.splits)
  define got where "got = (\<lambda>p. collect_update N base (net p (train_round own sa announce p)) p)"
  define givers where "givers = filter (gives got) ps"
  define us where "us = map (\<lambda>p. prepared N c (projr (got p))) givers"
  let ?lr = "real_of_rat (rc_server_lr c)"
  have avg: "federated_average N base us ?lr = Inr (rr_adapter (ro_result oc))"
    using round_spec [OF assms(2), where N = N and c = c and base = base and own = own and now = now and sa = sa and sb = sb and net = net and deliver = deliver] assms(1) ann
    by (auto simp: got_def [symmetric] Let_def givers_def us_def)
  then have us: "usable us \<noteq> []" "\<forall>u \<in> set (usable us). validate_update base u = None"
    "rr_adapter (ro_result oc) = map (\<lambda>(name, t). (name, step_tensor N ?lr (usable us) name t)) base"
    by (simp_all add: federated_average_Inr)
  have giver: "finite_adapter (pu_delta (projr (got p))) \<and> (\<forall>t \<in> snd ` set (pu_delta (projr (got p))). stored N t) \<and> validate_update base (projr (got p)) = None"
    if p: "p \<in> set givers" for p
  proof -
    obtain u where u: "got p = Inr u" using p by (cases "got p") (auto simp: givers_def gives_def)
    then have c: "collect_update N base (net p (train_round own sa announce p)) p = Inr u" by (simp add: got_def)
    have "finite_adapter (pu_delta u)" using assms(8) c p by (simp add: givers_def) blast
    then show ?thesis using collected_stored [OF assms(5) c] collected_own [OF c] u by simp
  qed
  have member: "finite_adapter (pu_delta u) \<and> sqnorm (pu_delta u) \<le> ((1 + eps) * real_of_rat (rc_max_delta_norm c))\<^sup>2
      \<and> (\<forall>(name, t) \<in> set base. \<exists>t'. map_of (pu_delta u) name = Some t' \<and> length (tn_data t') = length (tn_data t))"
    if u: "u \<in> set (usable us)" for u
  proof -
    obtain p where p: "p \<in> set givers" "u = prepared N c (projr (got p))" using u by (auto simp: usable_def us_def)
    note g = giver [OF p(1)]
    note pb = prepared_bound [where u = "projr (got p)" and N = N and c = c, OF _ _ assms(6,7)]
    have "\<exists>t'. map_of (pu_delta u) name = Some t' \<and> length (tn_data t') = length (tn_data t)" if "(name, t) \<in> set base" for name t
    proof -
      have t: "map_of base name = Some t" using that assms(3) by (simp add: dict_ok_def)
      have ws: "well_shaped (pu_delta (projr (got p)))" "validate_update base (projr (got p)) = None"
        using g stored_shaped [of _ N] by blast+
      obtain t0 where t0: "map_of (pu_delta (projr (got p))) name = Some t0" "length (tn_data t0) = length (tn_data t)"
        using valid_tensor [OF ws(2) assms(4) ws(1) t] by blast
      have "set (map fst base) = set (map fst (pu_delta u))"
        using us(2) \<open>u \<in> set (usable us)\<close> by (auto simp: validate_update_def split: if_splits)
      then have "name \<in> fst ` set (pu_delta u)" using \<open>(name, t) \<in> set base\<close> by (metis image_eqI fst_conv set_map)
      then obtain t' where t': "map_of (pu_delta u) name = Some t'" by (metis dom_map_of_conv_image_fst domD)
      then show ?thesis using pb(3) [of name t'] g t0 p(2) by auto
    qed
    then show ?thesis using pb(1,2) g p(2) by auto
  qed
  have "rr_adapter (ro_result oc) = map (\<lambda>(name, t). (name, t\<lparr>tn_data :=
        map (\<lambda>i. nu_round N (tn_dtype t) (tn_data t ! i + Fin (mean_step ?lr (usable us) name i))) [0..<length (tn_data t)]\<rparr>)) base"
    unfolding us(3)
  proof (rule map_cong [OF refl])
    fix x assume "x \<in> set base"
    obtain name t where x: "x = (name, t)" by fastforce
    have "\<exists>t'. map_of (pu_delta u) name = Some t' \<and> length (tn_data t') = length (tn_data t)" if "u \<in> set (usable us)" for u
      using member [OF that] \<open>x \<in> set base\<close> x by blast
    then have "step_tensor N ?lr (usable us) name t = t\<lparr>tn_data :=
        map (\<lambda>i. nu_round N (tn_dtype t) (tn_data t ! i + Fin (mean_step ?lr (usable us) name i))) [0..<length (tn_data t)]\<rparr>"
      using member by (intro step_tensor_eq) auto
    then show "(case x of (name, t) \<Rightarrow> (name, step_tensor N ?lr (usable us) name t)) = (case x of (name, t) \<Rightarrow> (name, t\<lparr>tn_data :=
        map (\<lambda>i. nu_round N (tn_dtype t) (tn_data t ! i + Fin (mean_step ?lr (usable us) name i))) [0..<length (tn_data t)]\<rparr>))"
      by (simp add: x)
  qed
  moreover have "step_sqnorm base ?lr (usable us) \<le> (?lr * ((1 + eps) * real_of_rat (rc_max_delta_norm c)))\<^sup>2"
    using us(1) member by (intro mean_step_sqnorm assms(3)) (auto simp: usable_def)
  ultimately show ?thesis unfolding step_sqnorm_def by blast
qed

section \<open>The exchange\<close>

lemma result_sendable:
  assumes "federated_average N base us lr = Inr a" "numerics_ok N" "\<forall>t \<in> snd ` set base. sendable N t" "dict_ok base"
    "\<forall>u \<in> set us. well_shaped (pu_delta u)"
  shows "\<forall>t \<in> snd ` set a. sendable N t"
proof
  fix t' assume "t' \<in> snd ` set a"
  have us: "\<forall>u \<in> set (usable us). validate_update base u = None"
    "a = map (\<lambda>(name, t). (name, step_tensor N lr (usable us) name t)) base" using assms(1) by (simp_all add: federated_average_Inr)
  obtain name t where t: "(name, t) \<in> set base" "t' = step_tensor N lr (usable us) name t" using \<open>t' \<in> snd ` set a\<close> us(2) by auto
  have "sendable N t" using assms(3) t(1) by force
  have bt: "map_of base name = Some t" using t(1) assms(4) by (simp add: dict_ok_def)
  have "well_shaped base" using assms(3) by (auto simp: well_shaped_def sendable_def stored_def)
  then have len: "length (tn_data (the (map_of (pu_delta u) name))) = length (tn_data t)" if "u \<in> set (usable us)" for u
    using valid_tensor [OF _ _ _ bt, of u] us(1) assms(5) that by (auto simp: usable_def)
  note st = step_tensor_nth [where us = "usable us" and name = name and t = t and N = N and lr = lr, OF len]
  have "nu_round N (tn_dtype t) x = x" if x: "x \<in> set (tn_data t')" for x
  proof -
    obtain i where "i < length (tn_data t)" "x = tn_data t' ! i" using x st(3) t(2) by (auto simp: in_set_conv_nth)
    then show ?thesis using st(4) t(2) assms(2) by (simp add: numerics_ok_def)
  qed
  moreover have same: "tn_dtype t' = tn_dtype t" "tn_shape t' = tn_shape t" "length (tn_data t') = length (tn_data t)"
    using st(1,2,3) t(2) by simp_all
  moreover have "tn_data t' \<noteq> []" using same(3) \<open>sendable N t\<close> by (metis length_0_conv sendable_def)
  ultimately show "sendable N t'" using \<open>sendable N t\<close> by (simp add: sendable_def stored_def tensor_ok_def)
qed

lemma honest_update_accepted:
  assumes "numerics_ok N" "\<forall>t \<in> snd ` set base. sendable N t" "build_train_round_payload N c base = Some announce"
    "f c base = Inr l" "lu_samples l \<ge> 0" "\<forall>t \<in> snd ` set (lu_delta l). sendable N t"
    "validate_update base \<lparr>pu_peer_id = te_peer_id s, pu_delta = lu_delta l, pu_samples = lu_samples l, pu_metrics = lu_metrics l\<rparr> = None"
  shows "\<exists>reply. handle_training N (Some f) why ts (train_round own sa announce p) s = (True, Some reply, s\<lparr>te_active := te_active s - {rc_job_id c}\<rparr>)
    \<and> en_id reply = fst (sa p)
    \<and> collect_update N base (Replied reply) (te_peer_id s)
        = Inr \<lparr>pu_peer_id = te_peer_id s, pu_delta = lu_delta l, pu_samples = lu_samples l, pu_metrics = lu_metrics l\<rparr>"
proof -
  define u where "u = \<lparr>pu_peer_id = te_peer_id s, pu_delta = lu_delta l, pu_samples = lu_samples l, pu_metrics = lu_metrics l\<rparr>"
  obtain q where q: "build_train_update_payload N u = Some q" "parse_train_update_payload N q = Some u"
    using update_payload_roundtrip [OF assms(1), of u] assms(5,6) by (auto simp: u_def)
  define reply where "reply = train_update (te_peer_id s) (fst (sa p)) ts q"
  have "new_update (te_peer_id s) (lu_delta l) (lu_samples l) (lu_metrics l) = Inr u" using assms(5) by (simp add: new_update_def u_def)
  then have "handle_training N (Some f) why ts (train_round own sa announce p) s = (True, Some reply, s\<lparr>te_active := te_active s - {rc_job_id c}\<rparr>)"
    using round_payload_roundtrip [OF assms(3,1,2)] assms(4) q(1)
    by (simp add: handle_training_def train_round_def new_message_def handle_round_def begin_round_def end_round_def Let_def reply_def)
  moreover have "collect_update N base (Replied reply) (te_peer_id s) = Inr u"
    using q(2) assms(7) by (simp add: collect_update_def reply_def train_update_def new_message_def u_def)
  ultimately show ?thesis by (auto simp: u_def reply_def train_update_def new_message_def)
qed

lemma published_result_adopted:
  assumes "numerics_ok N" "\<forall>t \<in> snd ` set base. sendable N t" "dict_ok base" "distinct ps"
    "run_round own N now sa sb net deliver c base ps = Inr oc"
  shows "\<exists>payload. ro_notified oc = filter (\<lambda>p. deliver p (train_result own sb payload p) = None) ps
    \<and> (\<forall>p s tr why ts. handle_training N tr why ts (train_result own sb payload p) s
        = (True, None, s\<lparr>te_results := dict_set (te_results s) (rc_job_id c) (ro_result oc)\<rparr>))"
proof -
  obtain announce where ann: "build_train_round_payload N c base = Some announce"
    using assms(5) by (auto simp: run_round_def split: option.splits)
  define got where "got = (\<lambda>p. collect_update N base (net p (train_round own sa announce p)) p)"
  obtain payload where r: "build_train_result_payload N (ro_result oc) = Some payload" "rr_job_id (ro_result oc) = rc_job_id c"
    "federated_average N base (map (\<lambda>p. prepared N c (projr (got p))) (filter (gives got) ps)) (real_of_rat (rc_server_lr c)) = Inr (rr_adapter (ro_result oc))"
    "ro_notified oc = filter (\<lambda>p. deliver p (train_result own sb payload p) = None) ps"
    using round_spec [OF assms(4), where N = N and c = c and base = base and own = own and now = now and sa = sa and sb = sb and net = net and deliver = deliver] assms(5) ann
    by (auto simp: got_def [symmetric] Let_def)
  have "well_shaped (pu_delta (prepared N c (projr (got p))))" if g: "gives got p" for p
  proof -
    obtain u where "got p = Inr u" using g by (cases "got p") (auto simp: gives_def)
    then have "well_shaped (pu_delta u)" using collected_stored [OF assms(1)] stored_shaped by (simp add: got_def) blast
    then have "well_shaped (pu_delta (prepared N c u))"
      by (auto simp: prepared_def Let_def clip_delta_def well_shaped_def tensor_ok_def)
    then show ?thesis using \<open>got p = Inr u\<close> by simp
  qed
  then have "\<forall>t \<in> snd ` set (rr_adapter (ro_result oc)). sendable N t"
    by (intro result_sendable [OF r(3) assms(1,2,3)]) auto
  note rt = result_payload_roundtrip [OF r(1) assms(1) this]
  have "handle_training N tr why ts (train_result own sb payload p) s
        = (True, None, s\<lparr>te_results := dict_set (te_results s) (rc_job_id c) (ro_result oc)\<rparr>)" for p s tr why ts
    using rt r(2) by (simp add: handle_training_def train_result_def new_message_def handle_result_def)
  then show ?thesis using r(4) by blast
qed

text \<open>
  C40: coordinator and participant fit together. A participant whose trainer gives a fitting update answers
  the announcement, under the announcement's identifier, with a message the coordinator takes as exactly that
  update, and is left with the job no longer active. And the result a round publishes is adopted, unchanged and
  under its job, by every participant it reaches, whatever that participant's state.
\<close>

theorem training_exchange:
  assumes "numerics_ok N" "\<forall>t \<in> snd ` set base. sendable N t" "dict_ok base"
  shows "(\<forall>announce f l s why ts own sa p. build_train_round_payload N c base = Some announce \<longrightarrow> f c base = Inr l \<longrightarrow> lu_samples l \<ge> 0
      \<longrightarrow> (\<forall>t \<in> snd ` set (lu_delta l). sendable N t)
      \<longrightarrow> validate_update base \<lparr>pu_peer_id = te_peer_id s, pu_delta = lu_delta l, pu_samples = lu_samples l, pu_metrics = lu_metrics l\<rparr> = None
      \<longrightarrow> (\<exists>reply. handle_training N (Some f) why ts (train_round own sa announce p) s = (True, Some reply, s\<lparr>te_active := te_active s - {rc_job_id c}\<rparr>)
          \<and> en_id reply = fst (sa p)
          \<and> collect_update N base (Replied reply) (te_peer_id s)
              = Inr \<lparr>pu_peer_id = te_peer_id s, pu_delta = lu_delta l, pu_samples = lu_samples l, pu_metrics = lu_metrics l\<rparr>))
    \<and> (\<forall>own now sa sb net deliver ps oc. distinct ps \<longrightarrow> run_round own N now sa sb net deliver c base ps = Inr oc
      \<longrightarrow> (\<exists>payload. ro_notified oc = filter (\<lambda>p. deliver p (train_result own sb payload p) = None) ps
          \<and> (\<forall>p s tr why ts. handle_training N tr why ts (train_result own sb payload p) s
              = (True, None, s\<lparr>te_results := dict_set (te_results s) (rc_job_id c) (ro_result oc)\<rparr>))))"
proof (intro conjI allI impI, goal_cases)
  case 1
  then show ?case by (intro honest_update_accepted assms)
next
  case 2
  then show ?case by (rule published_result_adopted [OF assms])
qed

section \<open>Where it falls short\<close>

lemma sum_Nan: "Nan \<in> set xs \<Longrightarrow> sum_list xs = Nan"
proof (induction xs)
  case (Cons x xs)
  have "Nan + y = Nan" "y + Nan = Nan" for y by (cases y; simp)+
  then show ?case using Cons by auto
qed simp

lemma l2_norm_Nan: "t \<in> snd ` set d \<Longrightarrow> Nan \<in> set (tn_data t) \<Longrightarrow> l2_norm d = Nan"
proof -
  assume "t \<in> snd ` set d" "Nan \<in> set (tn_data t)"
  then have "sum_list (map fsquare (tn_data t)) = Nan" by (intro sum_Nan) force
  then have "Nan \<in> set (map (\<lambda>(name, t). sum_list (map fsquare (tn_data t))) d)" using \<open>t \<in> snd ` set d\<close> by force
  then show ?thesis by (simp add: l2_norm_def sum_Nan)
qed

text \<open>
  A delta with a NaN has the norm NaN, which compares as not greater than any limit: it is not clipped, and
  the element it hits becomes NaN in the new adapter whatever the others sent.
\<close>

lemma nan_not_clipped: "t \<in> snd ` set (pu_delta u) \<Longrightarrow> Nan \<in> set (tn_data t) \<Longrightarrow> prepared N c u = u"
  by (simp add: prepared_def l2_norm_Nan)

lemma nan_poisons_average:
  assumes "u \<in> set us" "entry u name i = Nan" "b = tn_data t ! i"
  shows "b + fscale lr (fscale (1 / weight us) (\<Sum>u\<leftarrow>us. fscale (real_of_int (pu_samples u)) (entry u name i))) = Nan"
proof -
  have "(\<Sum>u\<leftarrow>us. fscale (real_of_int (pu_samples u)) (entry u name i)) = Nan" using assms by (intro sum_Nan) force
  then show ?thesis by (cases b) simp_all
qed

text \<open>The fingerprint hashes names, dtypes and buffers, not shapes.\<close>

lemma fingerprint_ignores_shape: "adapter_fingerprint N [(name, t\<lparr>tn_shape := sh\<rparr>)] = adapter_fingerprint N [(name, t)]"
  by (simp add: adapter_fingerprint_def)

text \<open>A result replaces the one held for its job whatever their round indices, and whoever sends it.\<close>

lemma stale_result_replaces:
  assumes "build_train_result_payload N r = Some q" "numerics_ok N" "\<forall>t \<in> snd ` set (rr_adapter r). sendable N t"
    "map_of (te_results s) (rr_job_id r) = Some newer" "rr_round_index newer > rr_round_index r"
  shows "map_of (te_results (handle_result N (train_result anyone st q p) s)) (rr_job_id r) = Some r"
  using result_payload_roundtrip [OF assms(1,2,3)] by (simp add: handle_result_def train_result_def new_message_def)

section \<open>A concrete round\<close>

text \<open>A machine whose every dtype stores small integers, one byte each, truncating what does not fit.\<close>

definition small :: "real \<Rightarrow> real" where
  "small r = (if r \<ge> 0 then real_of_int (min \<lfloor>r\<rfloor> 127) else real_of_int (max \<lceil>r\<rceil> (- 128)))"

fun to_small :: "fl \<Rightarrow> fl" where
  "to_small (Fin r) = Fin (small r)" | "to_small Pinf = Fin 127" | "to_small Ninf = Fin (- 128)" | "to_small Nan = Fin 0"

definition toy_numerics :: numerics where
  "toy_numerics = \<lparr>nu_round = (\<lambda>_. to_small), nu_sub = (\<lambda>_ _. None),
     nu_bytes = (\<lambda>_. map (\<lambda>x. char_of (nat (\<lfloor>val x\<rfloor> + 128)))),
     nu_items = (\<lambda>_ s. Some (map (\<lambda>c. Fin (real_of_int (int (of_char c) - 128))) s)),
     nu_host_bytes = (\<lambda>_. map (\<lambda>x. char_of (nat (\<lfloor>val x\<rfloor> + 128)))), nu_sha256_hex = (\<lambda>s. s)\<rparr>"

lemma small_int: "small (real_of_int k) = real_of_int (if k \<ge> 0 then min k 127 else max k (- 128))"
  by (simp add: small_def)

lemma small_range: "\<exists>k. small r = real_of_int k \<and> - 128 \<le> k \<and> k \<le> 127"
proof (cases "r \<ge> 0")
  case True
  then show ?thesis by (intro exI [of _ "min \<lfloor>r\<rfloor> 127"]) (auto simp: small_def min_def)
next
  case False
  then have "\<lceil>r\<rceil> \<le> 0" by simp
  then show ?thesis using False by (intro exI [of _ "max \<lceil>r\<rceil> (- 128)"]) (auto simp: small_def)
qed

lemma small_fixed: "small (small r) = small r"
proof -
  obtain k where "small r = real_of_int k" "- 128 \<le> k" "k \<le> 127" using small_range by blast
  then show ?thesis by (simp add: small_int)
qed

lemma to_small_fixed: "to_small (to_small x) = to_small x"
  by (cases x) (simp_all add: small_fixed small_int [of 0, simplified] small_int [of 127, simplified] small_int [of "-128", simplified])

lemma byte_back: "to_small x = x \<Longrightarrow> Fin (real_of_int (int (of_char (char_of (nat (\<lfloor>val x\<rfloor> + 128)) :: char)) - 128)) = x"
proof -
  assume "to_small x = x"
  then obtain r where r: "x = Fin r" "small r = r" by (cases x) auto
  obtain k where "small r = real_of_int k" "- 128 \<le> k" "k \<le> 127" using small_range by blast
  then show ?thesis using r by (simp add: of_char_of)
qed

lemma toy_ok: "numerics_ok toy_numerics"
proof -
  have "map (\<lambda>x. Fin (real_of_int (int (of_char (char_of (nat (\<lfloor>val x\<rfloor> + 128)) :: char)) - 128))) xs = xs"
    if "\<forall>x \<in> set xs. to_small x = x" for xs using that byte_back by (induction xs) auto
  moreover have "to_small (Fin (real_of_int (int (of_char c) - 128))) = Fin (real_of_int (int (of_char c) - 128))" for c :: char
  proof -
    have "int (of_char c) \<le> 255" using nat_of_char_less_256 [of c] by linarith
    then show ?thesis by (simp add: small_int min_def del: of_int_diff)
  qed
  ultimately show ?thesis by (simp add: numerics_ok_def toy_numerics_def to_small_fixed comp_def del: of_int_diff)
qed

lemma small_abs: "\<bar>small r\<bar> \<le> \<bar>r\<bar>"
proof (cases "r \<ge> 0")
  case True
  then have "0 \<le> \<lfloor>r\<rfloor>" "real_of_int \<lfloor>r\<rfloor> \<le> r" by simp_all
  then have "0 \<le> real_of_int (min \<lfloor>r\<rfloor> 127)" "real_of_int (min \<lfloor>r\<rfloor> 127) \<le> r" by linarith+
  then show ?thesis using True by (simp add: small_def)
next
  case False
  then have "\<lceil>r\<rceil> \<le> 0" "real_of_int \<lceil>r\<rceil> \<ge> r" by simp_all
  then have "real_of_int (max \<lceil>r\<rceil> (- 128)) \<le> 0" "real_of_int (max \<lceil>r\<rceil> (- 128)) \<ge> r" by linarith+
  then show ?thesis using False by (simp add: small_def)
qed

lemma toy_rounding: "rounding_ok toy_numerics 0"
  using small_abs by (simp add: rounding_ok_def toy_numerics_def)

definition demo_tensor :: "real list \<Rightarrow> tensor" where
  "demo_tensor xs = \<lparr>tn_dtype = ''int8'', tn_shape = [length xs], tn_data = map Fin xs\<rparr>"

definition demo_update :: "pystr \<Rightarrow> real list \<Rightarrow> int \<Rightarrow> participant_update" where
  "demo_update p xs n = \<lparr>pu_peer_id = p, pu_delta = [(''w'', demo_tensor xs)], pu_samples = n, pu_metrics = []\<rparr>"

definition demo_base :: adapter where "demo_base = [(''w'', demo_tensor [1, 2])]"

definition demo_config :: round_config where
  "demo_config = \<lparr>rc_job_id = ''job'', rc_round_index = 0, rc_base_model = ''qwen'', rc_local_epochs = 1, rc_learning_rate = 0,
     rc_batch_size = 4, rc_min_participants = 1, rc_deadline_s = 300, rc_max_delta_norm = 5, rc_server_lr = 1\<rparr>"

theorem fedavg_weighted_mean_witness:
  "\<exists>a t'. federated_average toy_numerics demo_base [demo_update ''p'' [2, 4] 3, demo_update ''q'' [6, 8] 1, demo_update ''r'' [9, 9] 0] 1 = Inr a
    \<and> map_of a ''w'' = Some t' \<and> tn_data t' ! 0 = Fin 4"
proof -
  let ?us = "[demo_update ''p'' [2, 4] 3, demo_update ''q'' [6, 8] 1, demo_update ''r'' [9, 9] 0]"
  have use: "usable ?us = [demo_update ''p'' [2, 4] 3, demo_update ''q'' [6, 8] 1]" by (simp add: usable_def demo_update_def)
  have "\<forall>u \<in> set (usable ?us). validate_update demo_base u = None"
    unfolding use by (simp add: validate_update_def demo_update_def demo_base_def demo_tensor_def)
  then obtain a where a: "federated_average toy_numerics demo_base ?us 1 = Inr a" by (simp add: federated_average_Inr use)
  have "well_shaped demo_base" "\<forall>u \<in> set ?us. well_shaped (pu_delta u)" "dict_ok demo_base"
    by (simp_all add: well_shaped_def demo_base_def demo_update_def demo_tensor_def tensor_ok_def dict_ok_def)
  note th = fedavg_weighted_mean [OF a this]
  have "map_of demo_base ''w'' = Some (demo_tensor [1, 2])" by (simp add: demo_base_def)
  note el = th [THEN conjunct2, THEN conjunct1, rule_format, OF this]
  obtain t' where t': "map_of a ''w'' = Some t'" "\<forall>i < length (tn_data (demo_tensor [1, 2])). tn_data t' ! i
      = nu_round toy_numerics (tn_dtype (demo_tensor [1, 2])) (tn_data (demo_tensor [1, 2]) ! i
        + fscale 1 (fscale (1 / weight (usable ?us)) (\<Sum>u\<leftarrow>usable ?us. fscale (real_of_int (pu_samples u)) (entry u ''w'' i))))"
    using el by blast
  then have "tn_data t' ! 0 = nu_round toy_numerics (tn_dtype (demo_tensor [1, 2])) (tn_data (demo_tensor [1, 2]) ! 0
      + fscale 1 (fscale (1 / weight (usable ?us)) (\<Sum>u\<leftarrow>usable ?us. fscale (real_of_int (pu_samples u)) (entry u ''w'' 0))))"
    by (simp add: demo_tensor_def)
  also have "\<dots> = Fin (small 4)"
    unfolding use by (simp add: weight_def entry_def demo_update_def demo_tensor_def toy_numerics_def zero_fl_def)
  finally have "tn_data t' ! 0 = Fin 4" using small_int [of 4] by simp
  then show ?thesis using a t'(1) by blast
qed

lemma demo_sendable: "set xs \<subseteq> {- 128 .. 127} \<inter> Ints \<Longrightarrow> xs \<noteq> [] \<Longrightarrow> sendable toy_numerics (demo_tensor xs)"
  by (auto simp: sendable_def stored_def tensor_ok_def demo_tensor_def toy_numerics_def SUPPORTED_def small_int dest!: subsetD elim!: Ints_cases)

text \<open>One peer sends a delta of norm fifty.\<close>

definition demo_reply :: "message \<Rightarrow> wire_reply" where
  "demo_reply m = Replied (train_update ''p'' (en_id m) 0 (the (build_train_update_payload toy_numerics (demo_update ''p'' [30, 40] 2))))"

lemma demo_collected: "collect_update toy_numerics demo_base (demo_reply m) ''p'' = Inr (demo_update ''p'' [30, 40] 2)"
proof -
  have "sendable toy_numerics (demo_tensor [30, 40])" by (rule demo_sendable) simp_all
  then obtain q where "build_train_update_payload toy_numerics (demo_update ''p'' [30, 40] 2) = Some q"
    "parse_train_update_payload toy_numerics q = Some (demo_update ''p'' [30, 40] 2)"
    using update_payload_roundtrip [OF toy_ok, of "demo_update ''p'' [30, 40] 2"] by (auto simp: demo_update_def)
  moreover have "validate_update demo_base (demo_update ''p'' [30, 40] 2) = None"
    by (simp add: validate_update_def demo_update_def demo_base_def demo_tensor_def)
  moreover have "pu_peer_id (demo_update ''p'' [30, 40] 2) = ''p''" by (simp add: demo_update_def)
  ultimately show ?thesis by (simp add: collect_update_def demo_reply_def train_update_def new_message_def)
qed

lemma demo_base_sendable: "\<forall>t \<in> snd ` set demo_base. sendable toy_numerics t" "dict_ok demo_base" "well_shaped demo_base"
  using demo_sendable [of "[1, 2]"] by (simp_all add: demo_base_def dict_ok_def well_shaped_def demo_tensor_def tensor_ok_def)

abbreviation demo_run :: "round_failure + round_outcome" where
  "demo_run \<equiv> run_round ''c'' toy_numerics 0 (\<lambda>_. (''a'', 0)) (\<lambda>_. (''b'', 0)) (\<lambda>_. demo_reply) (\<lambda>_ _. None) demo_config demo_base [''p'']"

lemma demo_run_ok: "\<exists>oc. demo_run = Inr oc"
proof -
  obtain announce where ann: "build_train_round_payload toy_numerics demo_config demo_base = Some announce"
    using adapter_roundtrip [OF toy_ok demo_base_sendable(1)] by (auto simp: build_train_round_payload_def)
  have g: "gives (\<lambda>p. collect_update toy_numerics demo_base (demo_reply (train_round ''c'' (\<lambda>_. (''a'', 0)) announce p)) p) ''p''"
    by (simp add: gives_def demo_collected demo_update_def)
  have n: "rc_min_participants demo_config = 1" by (simp add: demo_config_def)
  show ?thesis
  proof (cases demo_run)
    case (Inl e)
    then show ?thesis
      using round_spec [where ps = "[''p'']" and N = toy_numerics and c = demo_config and base = demo_base and own = "''c''" and now = 0
        and sa = "\<lambda>_. (''a'', 0)" and sb = "\<lambda>_. (''b'', 0)" and net = "\<lambda>_. demo_reply" and deliver = "\<lambda>_ _. None"] ann g n
      by (simp add: Let_def)
  qed simp
qed


theorem clipped_round_bounded_witness:
  "\<exists>oc (step :: pystr \<Rightarrow> nat \<Rightarrow> real). demo_run = Inr oc \<and> rr_adapter (ro_result oc) = [(''w'', (demo_tensor [1, 2])\<lparr>tn_data :=
      [to_small (Fin (1 + step ''w'' 0)), to_small (Fin (2 + step ''w'' 1))]\<rparr>)] \<and> (step ''w'' 0)\<^sup>2 + (step ''w'' 1)\<^sup>2 \<le> (5 :: real)\<^sup>2"
proof -
  obtain oc where oc: "demo_run = Inr oc" using demo_run_ok by blast
  have fin: "\<forall>p \<in> set [''p'']. \<forall>m u. collect_update toy_numerics demo_base (demo_reply m) p = Inr u \<longrightarrow> finite_adapter (pu_delta u)"
    by (auto simp: demo_collected demo_update_def finite_adapter_def demo_tensor_def)
  obtain step where st: "rr_adapter (ro_result oc) = map (\<lambda>(name, t). (name, t\<lparr>tn_data :=
        map (\<lambda>i. nu_round toy_numerics (tn_dtype t) (tn_data t ! i + Fin (step name i))) [0..<length (tn_data t)]\<rparr>)) demo_base"
    "(\<Sum>(name, t)\<leftarrow>demo_base. \<Sum>i\<leftarrow>[0..<length (tn_data t)]. (step name i)\<^sup>2)
        \<le> (real_of_rat (rc_server_lr demo_config) * ((1 + 0) * real_of_rat (rc_max_delta_norm demo_config)))\<^sup>2"
    using clipped_round_bounded [OF oc _ demo_base_sendable(2,3) toy_ok toy_rounding _ fin] by (auto simp: demo_config_def)
  have "[0..<2] = [0, 1 :: nat]" by (simp add: upt_rec)
  then have "rr_adapter (ro_result oc) = [(''w'', (demo_tensor [1, 2])\<lparr>tn_data := [to_small (Fin (1 + step ''w'' 0)), to_small (Fin (2 + step ''w'' 1))]\<rparr>)]"
    "(step ''w'' 0)\<^sup>2 + (step ''w'' 1)\<^sup>2 \<le> 5\<^sup>2"
    using st by (simp_all add: demo_base_def demo_tensor_def toy_numerics_def demo_config_def)
  then show ?thesis using oc by blast
qed

theorem training_exchange_witness:
  "\<exists>oc payload. demo_run = Inr oc \<and> te_results (snd (snd (handle_training toy_numerics None [] 0 (train_result ''c'' (\<lambda>_. (''b'', 0)) payload ''p'')
      \<lparr>te_peer_id = ''p'', te_results = [], te_active = {}\<rparr>))) = [(''job'', ro_result oc)]"
proof -
  obtain oc where oc: "demo_run = Inr oc" using demo_run_ok by blast
  have "distinct [''p'']" by simp
  note adopted = training_exchange [OF toy_ok demo_base_sendable(1,2), THEN conjunct2, rule_format, OF this oc]
  obtain payload where "\<forall>p s tr why ts. handle_training toy_numerics tr why ts (train_result ''c'' (\<lambda>_. (''b'', 0)) payload p) s
      = (True, None, s\<lparr>te_results := dict_set (te_results s) (rc_job_id demo_config) (ro_result oc)\<rparr>)"
    using adopted by blast
  then show ?thesis using oc by (intro exI [of _ oc] exI [of _ payload]) (simp add: demo_config_def dict_set_def)
qed

end
