(* ===== verification/Spec2Isabelle.thy ===== *)
theory Spec2Isabelle
  imports Prelude Exec_Models Egress_Policy Exec_Planner Exec_Coordinator Model_Names Job_Queue Job_Scheduler
    Ledger Tracker Peer_Registry Routing Model_Resolver Advert Wire Federation Handshake Peer_Sessions
    Peer_Manager Serving Node_Routing Node_Execution Memory_Estimate Model_Store Model_Restart Store_Types Inference_Gate
    Reasoning Public_Gateway Api_Access Node_Registry Adapters Training
begin

text \<open>
  A verification of mycellm, a peer-to-peer network for LLM inference written in Python. A node holds models,
  serves them to its own callers over HTTP and to other nodes over QUIC, asks other nodes for what it does not
  hold, keeps an account of what it earned and spent, and runs jobs over several nodes at once. The paths below
  are relative to \<open>src/src/mycellm\<close>. Each theory opens with what it holds; this text says how they fit together,
  how the program is read, and what is left out.

  \<^bigskip>
  \<^bold>\<open>How the program is read.\<close>
  A class is a record and its methods are functions from the state before to the result and the state after; a
  \<open>dict\<close> is an association list in insertion order, a string a list of characters, a \<open>float\<close> an exact rational
  (so neither rounding nor NaN), a Python \<open>int\<close> an \<open>int\<close>; integers of the wire format have their width. What a
  call may raise is a constructor of a reply type or \<open>None\<close>. Time is an argument. Concurrency is an explicit order
  of steps: of completions in the coordinator, of single messages at the sessions, of the steps of several
  requests at a lock; a definition is one step where the code does not wait in between, and two where it does and
  another call may come in. Code that is not in the repository is an argument of the definitions that use it: the
  regular expression engine of the privacy scan, CBOR, zlib, Ed25519, SHA-256, base64, the address syntax of
  \<open>ipaddress\<close>, numpy's arithmetic, what an engine generates and what a peer or a file answers. What is assumed of
  such an argument is a hypothesis of the theorem that needs it, and the witness of the theorem is an instance in
  which it holds. No definition needs fuel: loops over data are recursive on it, loops of a process are
  folds over the steps of a run, of any length, and the loops whose end is a claim (giving up a peer, restoring
  models, the queue at a lock) have it as a theorem with its bound.

  \<^bigskip>
  \<^bold>\<open>Jobs\<close> (\<open>execution/\<close>, \<open>privacy.py\<close>, \<open>api/jobs.py\<close>).
  \<open>Exec_Models\<close> has the data of \<open>models.py\<close>. \<open>Egress_Policy\<close> has the scan for sensitive data and the decision
  which target may see a prompt, with its cache, and shows that the decision is its specification.
  \<open>Exec_Planner\<close> makes a plan of a job and its targets: every unit of every plan is permitted by the policy, a
  swarm has two to eight proposers and one synthesizer that waits for them. \<open>Exec_Coordinator\<close> runs a plan against a schedule of
  completions, whole or streamed: the result says truthfully who answered, failed and was left out, and the two
  forms agree. \<open>Job_Queue\<close> is the table of jobs with each transaction on it, \<open>Job_Scheduler\<close> the scheduler and
  the job endpoints over it through the locale \<open>job_store\<close>, interpreted by the table: no accepted job is lost or
  run twice at a time, and a stake is refunded at most once and only for work not done. \<open>Node_Execution\<close> joins
  planner, coordinator and node: where the units of a job on a node go.

  \<^bold>\<open>Credits\<close> (\<open>accounting/\<close>, \<open>storage/\<close>).
  \<open>Ledger\<close> has the local and the network ledger, both interpretations of the locale \<open>credit_ledger\<close>, and the
  account cache; the books balance over any history. \<open>Tracker\<close> has receipts, replay protection, settlement and
  prices over that locale: settlement moves exactly the cost or nothing, and no request settles twice within the
  window.

  \<^bold>\<open>Finding a model and a peer\<close> (\<open>router/\<close>, \<open>api/openai.py\<close>).
  \<open>Model_Names\<close> reads sizes, tiers and tags from names, \<open>Peer_Registry\<close> is the index of peers and models,
  \<open>Routing\<close> scores peers, checks their health and fails over, \<open>Model_Resolver\<close> goes from a request to
  the candidates for it and along them; the theorems say that the index equals the search it stands for, that
  candidates meet the request, and that a prompt marked local stays.

  \<^bold>\<open>The wire and the sessions\<close> (\<open>protocol/\<close>, \<open>transport/\<close>, \<open>identity/\<close>, \<open>federation.py\<close>, \<open>node.py\<close>).
  \<open>Wire\<close> has envelopes, framing and the dispatch of streams: messages cut anywhere are put together again.
  \<open>Advert\<close> has the advertised capabilities and their round trip, \<open>Federation\<close> networks, memberships and invitations
  in memory and in files (locale \<open>shelf\<close>, one interpretation for each kind of file): a restart reads back what
  memory held. \<open>Handshake\<close> has certificates and hello messages, \<open>Peer_Sessions\<close> the handlers of a node's inbound
  messages: only verified peers past the join key become routable. \<open>Peer_Manager\<close> has the outbound side with its
  back-off and the exchange of peers: dead peers are given up, the managed ones are bounded.

  \<^bold>\<open>Serving and asking\<close> (\<open>node.py\<close>, \<open>accounting/reputation.py\<close>).
  \<open>Serving\<close> is a request of a peer with admission control, relaying and bookkeeping: one final answer, always.
  \<open>Node_Routing\<close> is a request of this node at other peers, whole and streamed: the answer is that of the peer that
  is paid, and a stream is of one peer.

  \<^bold>\<open>Models\<close> (\<open>inference/\<close>, \<open>memory_watch.py\<close>).
  \<open>Memory_Estimate\<close> decides before a load whether it fits and clamps it; \<open>Model_Store\<close> loads, unloads, evicts,
  saves and restores; \<open>Model_Restart\<close> has its theorems over whole starts, among them that models which kill
  the process are given up after a bounded number of starts; \<open>Store_Types\<close> types the dictionaries of the manager;
  \<open>Inference_Gate\<close> is the queue, the locks and the counts in front of the engines as a step function over many
  requests, with mutual exclusion and service in order; \<open>Reasoning\<close> separates a model's reasoning from its
  answer, where the splitter of a stream equals the cut of the whole text.

  \<^bold>\<open>The interface to the world\<close> (\<open>api/\<close>).
  \<open>Public_Gateway\<close> is the public chat: who is calling behind proxies, the limits of an address, the candidates
  and the failover between them. \<open>Api_Access\<close> has the key and the limits in front of all routes, \<open>Node_Registry\<close>
  the nodes that announce themselves, the operator's decisions and their table; both interpret the locale
  \<open>sliding_window\<close> and so bound how often something happens within a minute. \<open>fleet_of\<close> hands the list of nodes
  to the gateway, and with it \<open>fleet_needs_approval\<close> spans both.

  \<^bold>\<open>Training\<close> (\<open>training/\<close>).
  \<open>Adapters\<close> has averaging, clipping and the tensors on the wire (locale \<open>codec\<close>), over exact numbers with the
  special values of floats added; \<open>Training\<close> a round at the coordinator and at a participant: what is averaged, why a
  round fails, and that both sides end with the same adapter.

  \<^bigskip>
  \<^bold>\<open>What the lemmas are for.\<close>
  The prelude has the laws of dictionaries and strings and collects the defining equations of the library
  functions in \<open>py_simps\<close>; \<open>queue_ops\<close> collects the queue's transactions as updates of rows. A component has,
  in this order, its operations, one lemma for each of them about an invariant or about what it keeps, the run
  over any number of operations, and the properties; at the end stand concrete instances and the lemmas that show
  where the code departs from its comments. The properties carry their number in the text before them.

  \<^bigskip>
  \<^bold>\<open>Bounds of the models.\<close>
  The gateway charges a call at the time it came in, while a stream is charged at its end. The limits of
  \<open>Public_Gateway\<close> and \<open>Api_Access\<close> are shown for calls that are complete before the next begins; that they do
  not hold of calls at once is the lemma \<open>checks_not_counted\<close>. The restart theorems suppose that writes to disk
  or database succeed, the others allow them to fail. JSON bodies have the types the handlers read them with.

  \<^bigskip>
  \<^bold>\<open>Not modelled.\<close>
  The engines (\<open>inference/llamacpp.py\<close>, \<open>mlx*.py\<close>) and remote services (\<open>openai_compat.py\<close>, \<open>relay.py\<close>) drive
  code outside the repository, and so do the DHT and NAT traversal (\<open>dht/\<close>, \<open>nat/\<close>) and \<open>transport/tls.py\<close>.
  The endpoints of \<open>api/node.py\<close>, \<open>api/models.py\<close>, \<open>api/ollama_compat.py\<close> and most of \<open>api/openai.py\<close> turn
  documents into calls of the components above and back; of \<open>openai.py\<close> the choice of a place for a request is
  modelled. Catalogue, recommendations and the checks of downloads (\<open>inference/model_catalog.py\<close>,
  \<open>recommender.py\<close>, \<open>hf_verify.py\<close>) are data and network access, \<open>secrets.py\<close> and \<open>identity/keys.py\<close> are
  calls of a cryptographic library and files, \<open>resilience.py\<close> watches the operating system. Start and stop of a
  node and its background loops in \<open>node.py\<close>, the command line, the settings, the menu bar, activity records and
  metrics are wiring and display; the growth statistics of \<open>storage/repositories.py\<close> are only shown. The
  example programs under \<open>examples/\<close>, the scripts and the tests are not part of the node.
\<close>

end
